(* ===== verification/Prelude.thy ===== *)
theory Prelude
  imports Main "HOL-Library.Word" "HOL-Library.AList" "HOL-Library.Multiset" "HOL-Library.Sublist"
begin

text \<open>
  Shared vocabulary of the development.

  The theory fixes how Rust values are represented (machine words, byte strings, hash maps
  as association lists, fallible results) and collects the generic lemmas on lists,
  association lists and results that the component theories use.

  \<^item> \<^bold>\<open>Integers.\<close> An \<open>uN\<close> or \<open>iN\<close> of the source is an \<open>N word\<close>, read with
    \<open>uint\<close> or \<open>sint\<close>. A \<open>usize\<close> that only counts or indexes in-memory data is a \<open>nat\<close>.
    Arithmetic on words wraps, which is what the release profile of the workspace does
    (the profile does not turn overflow checks on).
  \<^item> \<^bold>\<open>Strings.\<close> A Rust \<open>String\<close> is the list of its UTF-8 bytes, so that \<open>len()\<close> is
    \<open>length\<close>. Splitting at ASCII delimiters byte by byte agrees with the source's
    splitting char by char, as no byte of a multi-byte UTF-8 sequence is an ASCII byte.
  \<^item> \<^bold>\<open>Hash maps and hash sets.\<close> A \<open>HashMap\<close> is an association list and a \<open>HashSet\<close> a
    list, both without duplicate keys. The order of the list stands for the iteration
    order, which the source cannot rely on: statements about iterated maps quantify over
    the list and hence over every order.
  \<^item> \<^bold>\<open>Errors.\<close> \<open>bail!\<close>, \<open>?\<close> and \<open>context\<close> give \<open>Inl (Bail msg)\<close>; a panic (an
    out-of-range index, an \<open>unwrap\<close> on \<open>None\<close>) gives \<open>Inl (Panic msg)\<close>.
\<close>

section \<open>Types\<close>

type_synonym u8 = "8 word"
type_synonym u16 = "16 word"
type_synonym u32 = "32 word"
type_synonym u64 = "64 word"
type_synonym u128 = "128 word"

type_synonym ('k, 'v) hash_map = "('k \<times> 'v) list"

datatype failure = Bail string | Panic string

type_synonym 'a res = "failure + 'a"

named_theorems res_simps \<open>evaluation of results\<close>
named_theorems map_simps \<open>lookup in updated hash maps\<close>
named_theorems part_intros \<open>partitions of a list of work items\<close>

section \<open>Results\<close>

definition bind_res :: "'a res \<Rightarrow> ('a \<Rightarrow> 'b res) \<Rightarrow> 'b res" where
  "bind_res m f = (case m of Inl e \<Rightarrow> Inl e | Inr x \<Rightarrow> f x)"

definition map_res :: "('a \<Rightarrow> 'b) \<Rightarrow> 'a res \<Rightarrow> 'b res" where
  "map_res f m = (case m of Inl e \<Rightarrow> Inl e | Inr x \<Rightarrow> Inr (f x))"

definition context_res :: "string \<Rightarrow> 'a option \<Rightarrow> 'a res" where
  "context_res msg v = (case v of None \<Rightarrow> Inl (Bail msg) | Some x \<Rightarrow> Inr x)"

fun fold_res :: "('s \<Rightarrow> 'a \<Rightarrow> 's res) \<Rightarrow> 's \<Rightarrow> 'a list \<Rightarrow> 's res" where
  "fold_res f s [] = Inr s" |
  "fold_res f s (x # xs) = bind_res (f s x) (\<lambda>s'. fold_res f s' xs)"

fun traverse_res :: "('a \<Rightarrow> 'b res) \<Rightarrow> 'a list \<Rightarrow> 'b list res" where
  "traverse_res f [] = Inr []" |
  "traverse_res f (x # xs) =
     bind_res (f x) (\<lambda>y. bind_res (traverse_res f xs) (\<lambda>ys. Inr (y # ys)))"

lemma bind_res_simps [simp, res_simps]:
  "bind_res (Inl e) f = Inl e" "bind_res (Inr x) f = f x"
  by (simp_all add: bind_res_def)

lemma map_res_simps [simp, res_simps]:
  "map_res f (Inl e) = Inl e" "map_res f (Inr x) = Inr (f x)"
  by (simp_all add: map_res_def)

lemma context_res_simps [simp, res_simps]:
  "context_res msg None = Inl (Bail msg)" "context_res msg (Some x) = Inr x"
  by (simp_all add: context_res_def)

lemma bind_res_eq_Inr:
  "bind_res m f = Inr y \<longleftrightarrow> (\<exists>x. m = Inr x \<and> f x = Inr y)"
  by (cases m) simp_all

lemma map_res_eq_Inr: "map_res f m = Inr y \<longleftrightarrow> (\<exists>x. m = Inr x \<and> y = f x)"
  by (cases m) auto

lemma context_res_eq_Inr: "context_res msg v = Inr x \<longleftrightarrow> v = Some x"
  by (cases v) simp_all

lemmas res_eqs = bind_res_eq_Inr map_res_eq_Inr context_res_eq_Inr

lemma fold_res_append:
  "fold_res f s (xs @ ys) = bind_res (fold_res f s xs) (\<lambda>s'. fold_res f s' ys)"
proof (induction xs arbitrary: s)
  case (Cons x xs)
  then show ?case by (cases "f s x") simp_all
qed simp

lemma fold_res_invariant:
  assumes "fold_res f s xs = Inr s'" and "I s"
    and "\<And>s x t. I s \<Longrightarrow> x \<in> set xs \<Longrightarrow> f s x = Inr t \<Longrightarrow> I t"
  shows "I s'"
  using assms
proof (induction xs arbitrary: s)
  case (Cons x xs)
  from Cons.prems(1) obtain t where t: "f s x = Inr t" "fold_res f t xs = Inr s'"
    by (auto simp: bind_res_eq_Inr)
  have "I t" using Cons.prems(2,3) t(1) by auto
  from Cons.IH[OF t(2) this] Cons.prems(3) show ?case by (meson list.set_intros(2))
qed simp

lemma traverse_res_Inr:
  "traverse_res f xs = Inr ys \<longleftrightarrow> list_all2 (\<lambda>x y. f x = Inr y) xs ys"
proof (induction xs arbitrary: ys)
  case (Cons x xs)
  then show ?case by (cases "f x"; cases ys) (auto simp: bind_res_eq_Inr)
qed auto

section \<open>Hash maps as association lists\<close>

lemma map_of_update [simp, map_simps]:
  "map_of (AList.update k v m) k' = (if k' = k then Some v else map_of m k')"
  by (simp add: update_conv')

lemma map_of_delete [simp, map_simps]:
  "map_of (AList.delete k m) k' = (if k' = k then None else map_of m k')"
  by (simp add: delete_conv')

lemma update_eq_filter_perm:
  assumes "distinct (map fst m)"
  shows "mset (AList.update k v m) = add_mset (k, v) (mset (AList.delete k m))"
  using assms
proof (induction m)
  case (Cons p m)
  obtain a b where p: "p = (a, b)" by force
  show ?case
  proof (cases "a = k")
    case True
    with Cons.prems p have "AList.delete k m = m"
      by (force simp: AList.delete_eq filter_id_conv)
    with True p show ?thesis by (simp add: AList.delete_eq)
  next
    case False
    with Cons p show ?thesis by (simp add: AList.delete_eq)
  qed
qed (simp add: AList.delete_eq)

section \<open>Lists\<close>

lemma concat_map_perm:
  assumes "mset xs = mset ys"
  shows "mset (concat (map f xs)) = mset (concat (map f ys))"
proof -
  have "mset (concat (map f zs)) = \<Sum>\<^sub># (image_mset (mset \<circ> f) (mset zs))" for zs
    by (induction zs) simp_all
  with assms show ?thesis by simp
qed

lemma filter_concat_map: "filter P (concat xss) = concat (map (filter P) xss)"
  by (induction xss) simp_all

lemma mset_filter_split:
  "mset (filter P xs) + mset (filter (\<lambda>x. \<not> P x) xs) = mset xs"
  by (induction xs) auto

lemma sum_list_mset:
  fixes f :: "'a \<Rightarrow> nat"
  assumes "mset xs = mset ys"
  shows "sum_list (map f xs) = sum_list (map f ys)"
  by (metis assms mset_map sum_mset_sum_list)

section \<open>Rendering of numbers\<close>

definition digit_char :: "nat \<Rightarrow> char" where
  "digit_char d = char_of (d + 48)"

fun nat_to_string :: "nat \<Rightarrow> string" where
  "nat_to_string n = (if n < 10 then [digit_char n] else nat_to_string (n div 10) @ [digit_char (n mod 10)])"

declare nat_to_string.simps [simp del]

definition int_to_string :: "int \<Rightarrow> string" where
  "int_to_string i = (if i < 0 then ''-'' @ nat_to_string (nat (- i)) else nat_to_string (nat i))"

definition bool_to_string :: "bool \<Rightarrow> string" where
  "bool_to_string b = (if b then ''true'' else ''false'')"

definition join_strings :: "string \<Rightarrow> string list \<Rightarrow> string" where
  "join_strings sep xs = concat (case xs of [] \<Rightarrow> [] | y # ys \<Rightarrow> y # map ((@) sep) ys)"

lemma digit_char_inj:
  assumes "a < 10" "b < 10" "digit_char a = digit_char b"
  shows "a = b"
proof -
  have "of_char (digit_char d) = d + 48" if "d < 10" for d :: nat
  proof -
    have "d + 48 < 256" using that by simp
    then show ?thesis by (simp only: digit_char_def of_char_of mod_less)
  qed
  from this[OF assms(1)] this[OF assms(2)] assms(3) show ?thesis by (metis add_right_cancel)
qed

lemma nat_to_string_ne [simp]: "nat_to_string n \<noteq> []"
  by (subst nat_to_string.simps) simp

lemma nat_to_string_inj: "nat_to_string a = nat_to_string b \<Longrightarrow> a = b"
proof (induction a arbitrary: b rule: nat_to_string.induct)
  case (1 a)
  note eq = "1.prems"
  have len1: "length (nat_to_string n) = 1 \<longleftrightarrow> n < 10" for n
    by (subst nat_to_string.simps) simp
  show ?case
  proof (cases "a < 10")
    case True
    with eq have "b < 10" using len1 by metis
    with True eq show ?thesis
      by (simp add: nat_to_string.simps[of a] nat_to_string.simps[of b] digit_char_inj)
  next
    case False
    then have b: "\<not> b < 10" using eq len1 by metis
    from eq False b have s: "nat_to_string (a div 10) = nat_to_string (b div 10)"
        "digit_char (a mod 10) = digit_char (b mod 10)"
      by (simp_all add: nat_to_string.simps[of a] nat_to_string.simps[of b])
    from "1.IH"[OF False s(1)] have "a div 10 = b div 10" .
    moreover have "a mod 10 = b mod 10" by (rule digit_char_inj[OF _ _ s(2)]) simp_all
    ultimately show ?thesis by (metis div_mult_mod_eq)
  qed
qed

section \<open>Strings\<close>

definition starts_with :: "string \<Rightarrow> string \<Rightarrow> bool" where
  "starts_with s p \<longleftrightarrow> take (length p) s = p"

definition ends_with :: "string \<Rightarrow> string \<Rightarrow> bool" where
  "ends_with s p \<longleftrightarrow> take (length p) (rev s) = rev p"

lemma starts_with_prefix: "starts_with s p \<longleftrightarrow> prefix p s"
  unfolding starts_with_def by (metis append_eq_conv_conj append_take_drop_id prefix_def)

lemma ends_with_suffix: "ends_with s p \<longleftrightarrow> suffix p s"
  unfolding ends_with_def suffix_to_prefix
  by (metis append_eq_conv_conj append_take_drop_id prefix_def length_rev)

text \<open>
  \<open>str::trim\<close> removes the characters with the Unicode property \<open>White_Space\<close>; below are their
  UTF-8 encodings.
\<close>

definition white_space :: "string list" where
  "white_space = map (map char_of)
     ([[9], [10], [11], [12], [13], [32], [0xC2, 0x85], [0xC2, 0xA0], [0xE1, 0x9A, 0x80],
       [0xE2, 0x80, 0x80], [0xE2, 0x80, 0x81], [0xE2, 0x80, 0x82], [0xE2, 0x80, 0x83],
       [0xE2, 0x80, 0x84], [0xE2, 0x80, 0x85], [0xE2, 0x80, 0x86], [0xE2, 0x80, 0x87],
       [0xE2, 0x80, 0x88], [0xE2, 0x80, 0x89], [0xE2, 0x80, 0x8A], [0xE2, 0x80, 0xA8],
       [0xE2, 0x80, 0xA9], [0xE2, 0x80, 0xAF], [0xE2, 0x81, 0x9F], [0xE3, 0x80, 0x80]] :: nat list list)"

function strip_front :: "string list \<Rightarrow> string \<Rightarrow> string" where
  "strip_front ws s =
     (case find (\<lambda>w. w \<noteq> [] \<and> starts_with s w) ws of
        None \<Rightarrow> s
      | Some w \<Rightarrow> strip_front ws (drop (length w) s))"
  by pat_completeness auto
termination
proof (relation "measure (\<lambda>(ws, s). length s)", goal_cases)
  case (2 ws s w)
  then have "w \<noteq> [] \<and> starts_with s w" by (metis (mono_tags, lifting) find_Some_iff)
  moreover from this have "s \<noteq> []" by (auto simp: starts_with_def)
  ultimately show ?case by simp
qed simp

declare strip_front.simps [simp del]

definition trim :: "string \<Rightarrow> string" where
  "trim s = rev (strip_front (map rev white_space) (rev (strip_front white_space s)))"

lemma strip_front_id:
  assumes "\<forall>w\<in>set ws. w \<noteq> [] \<longrightarrow> \<not> starts_with s w"
  shows "strip_front ws s = s"
proof -
  have "find (\<lambda>w. w \<noteq> [] \<and> starts_with s w) ws = None"
    using assms by (auto simp: find_None_iff)
  then show ?thesis by (subst strip_front.simps) simp
qed

text \<open>A string that starts and ends with a visible ASCII character has nothing to trim.\<close>

definition solid :: "char \<Rightarrow> bool" where
  "solid c \<longleftrightarrow> 32 < (of_char c :: nat) \<and> (of_char c :: nat) < 128"

lemma white_space_not_solid: "list_all (\<lambda>w. w \<noteq> [] \<and> \<not> solid (hd w) \<and> \<not> solid (last w)) white_space"
  by (simp add: white_space_def solid_def)

lemma starts_with_hd: "starts_with s w \<Longrightarrow> w \<noteq> [] \<Longrightarrow> hd w = hd s"
  by (cases w; cases s) (auto simp: starts_with_def)

lemma trim_solid:
  assumes "s \<noteq> []" "solid (hd s)" "solid (last s)"
  shows "trim s = s"
proof -
  have 1: "strip_front white_space s = s"
  proof (rule strip_front_id, intro ballI impI notI)
    fix w assume "w \<in> set white_space" "w \<noteq> []" "starts_with s w"
    then have "hd w = hd s" by (intro starts_with_hd)
    with \<open>w \<in> set white_space\<close> white_space_not_solid assms(2) show False by (auto simp: list_all_iff)
  qed
  have 2: "strip_front (map rev white_space) (rev s) = rev s"
  proof (rule strip_front_id, intro ballI impI notI)
    fix w assume "w \<in> set (map rev white_space)" "w \<noteq> []" "starts_with (rev s) w"
    then have "hd w = last s" using starts_with_hd[of "rev s" w] by (simp add: hd_rev)
    moreover obtain v where "v \<in> set white_space" "w = rev v" using \<open>w \<in> set (map rev white_space)\<close> by auto
    ultimately show False using white_space_not_solid assms(3) by (auto simp: list_all_iff hd_rev)
  qed
  show ?thesis by (simp add: trim_def 1 2)
qed

lemma alist_all_update: "list_all P m \<Longrightarrow> P (k, v) \<Longrightarrow> list_all P (AList.update k v m)"
  by (induction m) auto

lemma alist_all_delete: "list_all P m \<Longrightarrow> list_all P (AList.delete k m)"
  by (induction m) (auto simp: AList.delete_eq)

end
