(* ===== verification/Col_Value.thy ===== *)
theory Col_Value
  imports Prelude
begin

text \<open>
  Column values (\<open>dt-common/src/meta/col_value.rs\<close>): the \<open>ColValue\<close> enum, its
  conversions to and from integers, its textual form, its hash, and the conversion from
  BSON.

  Code outside the repository that the file calls is gathered in the record \<open>ext\<close>: the
  \<open>DefaultHasher\<close> of the standard library (its algorithm is unspecified), the rendering
  of floats, of \<open>serde_json\<close> values and of \<open>bson\<close> values, the equality of JSON values
  and documents, and the in-memory sizes of the two \<open>bson\<close> types.
\<close>

section \<open>Data\<close>

datatype json =
    JNull
  | JBool bool
  | JNumber string
  | JString string
  | JArray "json list"
  | JObject "(string \<times> json) list"

datatype bson =
    BDouble u64
  | BString string
  | BArray "bson list"
  | BDocument "(string \<times> bson) list"
  | BBoolean bool
  | BNull
  | BRegularExpression string string
  | BJavaScriptCode string
  | BJavaScriptCodeWithScope string "(string \<times> bson) list"
  | BInt32 u32
  | BInt64 u64
  | BTimestamp u32 u32
  | BBinary u8 "u8 list"
  | BObjectId "u8 list"
  | BDateTime u64
  | BSymbol string
  | BDecimal128 "u8 list"
  | BUndefined
  | BMaxKey
  | BMinKey
  | BDbPointer string "u8 list"

type_synonym document = "(string \<times> bson) list"

datatype col_value =
    NoneV
  | BoolV bool
  | Tiny u8
  | UnsignedTiny u8
  | Short u16
  | UnsignedShort u16
  | Long u32
  | UnsignedLong u32
  | LongLong u64
  | UnsignedLongLong u64
  | FloatV u32
  | DoubleV u64
  | DecimalV string
  | TimeV string
  | DateV string
  | DateTimeV string
  | TimestampV string
  | YearV u16
  | StringV string
  | RawString "u8 list"
  | BlobV "u8 list"
  | BitV u64
  | SetV u64
  | EnumV u32
  | Set2 string
  | Enum2 string
  | JsonV "u8 list"
  | Json2 string
  | Json3 json
  | MongoDoc document
  | Unavailable

record ext =
  hash_opt_string :: "string option \<Rightarrow> u64"
  hash_string :: "string \<Rightarrow> u64"
  f32_to_string :: "u32 \<Rightarrow> string"
  f64_to_string :: "u64 \<Rightarrow> string"
  json_to_string :: "json \<Rightarrow> string"
  json_eq :: "json \<Rightarrow> json \<Rightarrow> bool"
  doc_eq :: "document \<Rightarrow> document \<Rightarrow> bool"
  into_relaxed_extjson :: "bson \<Rightarrow> json"
  doc_to_string :: "document \<Rightarrow> string"
  bson_array_to_string :: "bson list \<Rightarrow> string"
  bson_datetime_to_string :: "u64 \<Rightarrow> string"
  bson_decimal_to_string :: "u8 list \<Rightarrow> string"
  bson_dbpointer_debug :: "string \<Rightarrow> u8 list \<Rightarrow> string"
  size_of_document :: nat
  size_of_bson :: nat

definition UNAVAILABLE_VALUE_PLACEHOLDER :: string where
  "UNAVAILABLE_VALUE_PLACEHOLDER = ''__ape_dts_unavailable_value''"

section \<open>Floating point equality and rendering of byte vectors\<close>

text \<open>
  Floats are kept as their IEEE 754 bit patterns. Their \<open>==\<close> holds for equal patterns and
  for the two zeros, and never for a NaN.
\<close>

unbundle bit_operations_syntax

definition f32_is_nan :: "u32 \<Rightarrow> bool" where
  "f32_is_nan w \<longleftrightarrow> (w AND 0x7F800000) = 0x7F800000 \<and> (w AND 0x007FFFFF) \<noteq> 0"

definition f64_is_nan :: "u64 \<Rightarrow> bool" where
  "f64_is_nan w \<longleftrightarrow> (w AND 0x7FF0000000000000) = 0x7FF0000000000000 \<and> (w AND 0x000FFFFFFFFFFFFF) \<noteq> 0"

definition f32_eq :: "u32 \<Rightarrow> u32 \<Rightarrow> bool" where
  "f32_eq a b \<longleftrightarrow> \<not> f32_is_nan a \<and> \<not> f32_is_nan b \<and>
     (a = b \<or> ((a AND 0x7FFFFFFF) = 0 \<and> (b AND 0x7FFFFFFF) = 0))"

definition f64_eq :: "u64 \<Rightarrow> u64 \<Rightarrow> bool" where
  "f64_eq a b \<longleftrightarrow> \<not> f64_is_nan a \<and> \<not> f64_is_nan b \<and>
     (a = b \<or> ((a AND 0x7FFFFFFFFFFFFFFF) = 0 \<and> (b AND 0x7FFFFFFFFFFFFFFF) = 0))"

definition hex_digit :: "nat \<Rightarrow> char" where
  "hex_digit d = ''0123456789abcdef'' ! d"

definition hex_encode :: "u8 list \<Rightarrow> string" where
  "hex_encode bs = concat (map (\<lambda>b. [hex_digit (unat b div 16), hex_digit (unat b mod 16)]) bs)"

definition debug_bytes :: "u8 list \<Rightarrow> string" where
  "debug_bytes bs = ''['' @ join_strings '', '' (map (\<lambda>b. nat_to_string (unat b)) bs) @ '']''"

section \<open>Operations\<close>

fun is_integer :: "col_value \<Rightarrow> bool" where
  "is_integer (Tiny _) = True" |
  "is_integer (UnsignedTiny _) = True" |
  "is_integer (Short _) = True" |
  "is_integer (UnsignedShort _) = True" |
  "is_integer (Long _) = True" |
  "is_integer (UnsignedLong _) = True" |
  "is_integer (LongLong _) = True" |
  "is_integer (UnsignedLongLong _) = True" |
  "is_integer _ = False"

fun is_float :: "col_value \<Rightarrow> bool" where
  "is_float (FloatV _) = True" |
  "is_float (DoubleV _) = True" |
  "is_float _ = False"

fun is_decimal :: "col_value \<Rightarrow> bool" where
  "is_decimal (DecimalV _) = True" |
  "is_decimal _ = False"

fun is_string :: "col_value \<Rightarrow> bool" where
  "is_string (StringV _) = True" |
  "is_string _ = False"

definition is_unavailable :: "col_value \<Rightarrow> bool" where
  "is_unavailable v \<longleftrightarrow> v = Unavailable"

fun convert_into_integer_128 :: "col_value \<Rightarrow> int res" where
  "convert_into_integer_128 (Tiny v) = Inr (sint v)" |
  "convert_into_integer_128 (UnsignedTiny v) = Inr (uint v)" |
  "convert_into_integer_128 (Short v) = Inr (sint v)" |
  "convert_into_integer_128 (UnsignedShort v) = Inr (uint v)" |
  "convert_into_integer_128 (Long v) = Inr (sint v)" |
  "convert_into_integer_128 (UnsignedLong v) = Inr (uint v)" |
  "convert_into_integer_128 (LongLong v) = Inr (sint v)" |
  "convert_into_integer_128 (UnsignedLongLong v) = Inr (uint v)" |
  "convert_into_integer_128 _ = Inl (Bail ''can not convert {:?} into 128-bit integer'')"

definition wrap_i128 :: "int \<Rightarrow> int" where
  "wrap_i128 i = signed_take_bit 127 i"

definition i8_MAX :: int where "i8_MAX = 127"
definition i16_MAX :: int where "i16_MAX = 32767"
definition i32_MAX :: int where "i32_MAX = 2147483647"
definition i64_MAX :: int where "i64_MAX = 9223372036854775807"

fun add_integer_128 :: "col_value \<Rightarrow> int \<Rightarrow> col_value res" where
  "add_integer_128 (Tiny v) t = Inr (Tiny (word_of_int (min (wrap_i128 (sint v + t)) i8_MAX)))" |
  "add_integer_128 (UnsignedTiny v) t =
     Inr (UnsignedTiny (word_of_int (min (wrap_i128 (uint v + t)) i8_MAX)))" |
  "add_integer_128 (Short v) t = Inr (Short (word_of_int (min (wrap_i128 (sint v + t)) i16_MAX)))" |
  "add_integer_128 (UnsignedShort v) t =
     Inr (UnsignedShort (word_of_int (min (wrap_i128 (uint v + t)) i16_MAX)))" |
  "add_integer_128 (Long v) t = Inr (Long (word_of_int (min (wrap_i128 (sint v + t)) i32_MAX)))" |
  "add_integer_128 (UnsignedLong v) t =
     Inr (UnsignedLong (word_of_int (min (wrap_i128 (uint v + t)) i32_MAX)))" |
  "add_integer_128 (LongLong v) t =
     Inr (LongLong (word_of_int (min (wrap_i128 (sint v + t)) i64_MAX)))" |
  "add_integer_128 (UnsignedLongLong v) t =
     Inr (UnsignedLongLong (word_of_int (min (wrap_i128 (uint v + t)) i64_MAX)))" |
  "add_integer_128 _ t = Inl (Bail ''{} can not add 128-bit integer'')"

fun is_nan :: "col_value \<Rightarrow> bool" where
  "is_nan (FloatV v) = f32_is_nan v" |
  "is_nan (DoubleV v) = f64_is_nan v" |
  "is_nan _ = False"

text \<open>The derived \<open>PartialEq\<close>: structural, up to the equalities of the payload types.\<close>

definition col_eq :: "ext \<Rightarrow> col_value \<Rightarrow> col_value \<Rightarrow> bool" where
  "col_eq e a b =
     (case a of
        FloatV x \<Rightarrow> (case b of FloatV y \<Rightarrow> f32_eq x y | _ \<Rightarrow> False)
      | DoubleV x \<Rightarrow> (case b of DoubleV y \<Rightarrow> f64_eq x y | _ \<Rightarrow> False)
      | Json3 x \<Rightarrow> (case b of Json3 y \<Rightarrow> json_eq e x y | _ \<Rightarrow> False)
      | MongoDoc x \<Rightarrow> (case b of MongoDoc y \<Rightarrow> doc_eq e x y | _ \<Rightarrow> False)
      | _ \<Rightarrow> a = b)"

definition is_same_value :: "ext \<Rightarrow> col_value \<Rightarrow> col_value \<Rightarrow> bool" where
  "is_same_value e a b =
     (case a of
        FloatV x \<Rightarrow>
          (case b of FloatV y \<Rightarrow> if f32_is_nan x \<and> f32_is_nan y then True else f32_eq x y
           | _ \<Rightarrow> col_eq e a b)
      | DoubleV x \<Rightarrow>
          (case b of DoubleV y \<Rightarrow> if f64_is_nan x \<and> f64_is_nan y then True else f64_eq x y
           | _ \<Rightarrow> col_eq e a b)
      | _ \<Rightarrow> col_eq e a b)"

definition mongo_doc_to_string :: "ext \<Rightarrow> document \<Rightarrow> string" where
  "mongo_doc_to_string e doc =
     (case into_relaxed_extjson e (BDocument doc) of
        JObject m \<Rightarrow> json_to_string e (JObject m)
      | _ \<Rightarrow> doc_to_string e doc)"

fun to_option_string :: "ext \<Rightarrow> col_value \<Rightarrow> string option" where
  "to_option_string e (Tiny v) = Some (int_to_string (sint v))" |
  "to_option_string e (UnsignedTiny v) = Some (int_to_string (uint v))" |
  "to_option_string e (Short v) = Some (int_to_string (sint v))" |
  "to_option_string e (UnsignedShort v) = Some (int_to_string (uint v))" |
  "to_option_string e (Long v) = Some (int_to_string (sint v))" |
  "to_option_string e (UnsignedLong v) = Some (int_to_string (uint v))" |
  "to_option_string e (LongLong v) = Some (int_to_string (sint v))" |
  "to_option_string e (UnsignedLongLong v) = Some (int_to_string (uint v))" |
  "to_option_string e (FloatV v) = Some (f32_to_string e v)" |
  "to_option_string e (DoubleV v) = Some (f64_to_string e v)" |
  "to_option_string e (DecimalV v) = Some v" |
  "to_option_string e (TimeV v) = Some v" |
  "to_option_string e (DateV v) = Some v" |
  "to_option_string e (DateTimeV v) = Some v" |
  "to_option_string e (TimestampV v) = Some v" |
  "to_option_string e (YearV v) = Some (int_to_string (uint v))" |
  "to_option_string e (StringV v) = Some v" |
  "to_option_string e (RawString v) = Some (hex_encode v)" |
  "to_option_string e (BitV v) = Some (int_to_string (uint v))" |
  "to_option_string e (SetV v) = Some (int_to_string (uint v))" |
  "to_option_string e (Set2 v) = Some v" |
  "to_option_string e (EnumV v) = Some (int_to_string (uint v))" |
  "to_option_string e (Enum2 v) = Some v" |
  "to_option_string e (JsonV v) = Some (debug_bytes v)" |
  "to_option_string e (Json2 v) = Some v" |
  "to_option_string e (Json3 v) = Some (json_to_string e v)" |
  "to_option_string e (BlobV v) = Some (hex_encode v)" |
  "to_option_string e (MongoDoc v) = Some (mongo_doc_to_string e v)" |
  "to_option_string e Unavailable = Some UNAVAILABLE_VALUE_PLACEHOLDER" |
  "to_option_string e (BoolV v) = Some (bool_to_string v)" |
  "to_option_string e NoneV = None"

definition col_value_to_string :: "ext \<Rightarrow> col_value \<Rightarrow> string" where
  "col_value_to_string e v = (case to_option_string e v of Some s \<Rightarrow> s | None \<Rightarrow> ''NULL'')"

definition hash_code :: "ext \<Rightarrow> col_value \<Rightarrow> u64" where
  "hash_code e v = (case v of NoneV \<Rightarrow> 0 | _ \<Rightarrow> hash_opt_string e (to_option_string e v))"

fun type_name :: "col_value \<Rightarrow> string" where
  "type_name NoneV = ''None''" |
  "type_name (BoolV _) = ''Bool''" |
  "type_name (Tiny _) = ''Tiny''" |
  "type_name (UnsignedTiny _) = ''UnsignedTiny''" |
  "type_name (Short _) = ''Short''" |
  "type_name (UnsignedShort _) = ''UnsignedShort''" |
  "type_name (Long _) = ''Long''" |
  "type_name (UnsignedLong _) = ''UnsignedLong''" |
  "type_name (LongLong _) = ''LongLong''" |
  "type_name (UnsignedLongLong _) = ''UnsignedLongLong''" |
  "type_name (FloatV _) = ''Float''" |
  "type_name (DoubleV _) = ''Double''" |
  "type_name (DecimalV _) = ''Decimal''" |
  "type_name (TimeV _) = ''Time''" |
  "type_name (DateV _) = ''Date''" |
  "type_name (DateTimeV _) = ''DateTime''" |
  "type_name (TimestampV _) = ''Timestamp''" |
  "type_name (YearV _) = ''Year''" |
  "type_name (StringV _) = ''String''" |
  "type_name (RawString _) = ''RawString''" |
  "type_name (BlobV _) = ''Blob''" |
  "type_name (BitV _) = ''Bit''" |
  "type_name (SetV _) = ''Set''" |
  "type_name (EnumV _) = ''Enum''" |
  "type_name (Set2 _) = ''Set2''" |
  "type_name (Enum2 _) = ''Enum2''" |
  "type_name (JsonV _) = ''Json''" |
  "type_name (Json2 _) = ''Json2''" |
  "type_name (Json3 _) = ''Json3''" |
  "type_name (MongoDoc _) = ''MongoDoc''" |
  "type_name Unavailable = ''Unavailable''"

fun get_bson_size :: "ext \<Rightarrow> bson \<Rightarrow> nat"
and get_bson_size_doc :: "ext \<Rightarrow> document \<Rightarrow> nat" where
  "get_bson_size e (BString v) = length v" |
  "get_bson_size e (BSymbol v) = length v" |
  "get_bson_size e (BJavaScriptCode v) = length v" |
  "get_bson_size e (BArray arr) = sum_list (map (get_bson_size e) arr)" |
  "get_bson_size e (BDocument doc) = get_bson_size_doc e doc" |
  "get_bson_size e (BBinary _ bytes) = length bytes" |
  "get_bson_size e (BRegularExpression pattern options) = length pattern + length options" |
  "get_bson_size e (BJavaScriptCodeWithScope code scope) = length code + get_bson_size_doc e scope" |
  "get_bson_size e _ = size_of_bson e" |
  "get_bson_size_doc e doc =
     size_of_document e + sum_list (map (\<lambda>(k, v). length k + get_bson_size e v) doc)"

fun get_malloc_size :: "ext \<Rightarrow> col_value \<Rightarrow> nat" where
  "get_malloc_size e (Tiny _) = 1" |
  "get_malloc_size e (UnsignedTiny _) = 1" |
  "get_malloc_size e (BoolV _) = 1" |
  "get_malloc_size e (Short _) = 2" |
  "get_malloc_size e (UnsignedShort _) = 2" |
  "get_malloc_size e (YearV _) = 2" |
  "get_malloc_size e (Long _) = 4" |
  "get_malloc_size e (UnsignedLong _) = 4" |
  "get_malloc_size e (FloatV _) = 4" |
  "get_malloc_size e (EnumV _) = 4" |
  "get_malloc_size e (LongLong _) = 8" |
  "get_malloc_size e (UnsignedLongLong _) = 8" |
  "get_malloc_size e (DoubleV _) = 8" |
  "get_malloc_size e (BitV _) = 8" |
  "get_malloc_size e (SetV _) = 8" |
  "get_malloc_size e (DecimalV v) = length v" |
  "get_malloc_size e (TimeV v) = length v" |
  "get_malloc_size e (DateV v) = length v" |
  "get_malloc_size e (DateTimeV v) = length v" |
  "get_malloc_size e (TimestampV v) = length v" |
  "get_malloc_size e (StringV v) = length v" |
  "get_malloc_size e (Set2 v) = length v" |
  "get_malloc_size e (Enum2 v) = length v" |
  "get_malloc_size e (Json2 v) = length v" |
  "get_malloc_size e (JsonV v) = length v" |
  "get_malloc_size e (BlobV v) = length v" |
  "get_malloc_size e (RawString v) = length v" |
  "get_malloc_size e (Json3 v) = length (json_to_string e v)" |
  "get_malloc_size e (MongoDoc v) = get_bson_size_doc e v" |
  "get_malloc_size e NoneV = 0" |
  "get_malloc_size e Unavailable = 0"

fun from_bson :: "ext \<Rightarrow> bson \<Rightarrow> col_value" where
  "from_bson e (BDouble v) = DoubleV v" |
  "from_bson e (BString v) = StringV v" |
  "from_bson e (BArray v) = Json2 (bson_array_to_string e v)" |
  "from_bson e (BDocument v) = MongoDoc v" |
  "from_bson e (BBoolean v) = BoolV v" |
  "from_bson e BNull = NoneV" |
  "from_bson e (BInt32 v) = Long v" |
  "from_bson e (BInt64 v) = LongLong v" |
  "from_bson e (BTimestamp time increment) =
     TimestampV (nat_to_string (unat time) @ '':'' @ nat_to_string (unat increment))" |
  "from_bson e (BBinary _ bytes) = BlobV bytes" |
  "from_bson e (BDateTime v) = DateTimeV (bson_datetime_to_string e v)" |
  "from_bson e (BDecimal128 v) = DecimalV (bson_decimal_to_string e v)" |
  "from_bson e (BObjectId v) = StringV (hex_encode v)" |
  "from_bson e (BRegularExpression pattern _) = StringV pattern" |
  "from_bson e (BJavaScriptCode v) = StringV v" |
  "from_bson e (BJavaScriptCodeWithScope code _) = StringV code" |
  "from_bson e (BSymbol v) = StringV v" |
  "from_bson e BUndefined = StringV ''Undefined''" |
  "from_bson e BMaxKey = StringV ''MaxKey''" |
  "from_bson e BMinKey = StringV ''MinKey''" |
  "from_bson e (BDbPointer ns oid) = StringV (bson_dbpointer_debug e ns oid)"

end
