(* ===== verification/Row_Data.thy ===== *)
theory Row_Data
  imports Col_Value
begin

text \<open>
  Rows and table metadata: \<open>dt-common/src/meta/row_data.rs\<close>, \<open>row_type.rs\<close>,
  \<open>rdb_tb_meta.rs\<close> (its data), \<open>row_key.rs\<close> and \<open>RdbMetaManager::parse_rdb_cols\<close> of
  \<open>rdb_meta_manager.rs\<close>, with the facts on row hashes and row keys that the merger, the
  partitioner and the checker rest on.
\<close>

section \<open>Data\<close>

datatype row_type = RInsert | RUpdate | RDelete

type_synonym col_values = "(string, col_value) hash_map"

record row_data =
  rd_schema :: string
  rd_tb :: string
  rd_row_type :: row_type
  rd_before :: "col_values option"
  rd_after :: "col_values option"
  rd_data_size :: nat

record foreign_key =
  fk_schema :: string
  fk_tb :: string
  fk_col :: string
  fk_ref_schema :: string
  fk_ref_tb :: string
  fk_ref_col :: string

record rdb_tb_meta =
  tm_schema :: string
  tm_tb :: string
  tm_cols :: "string list"
  tm_nullable_cols :: "string list"
  tm_col_origin_type_map :: "(string, string) hash_map"
  tm_key_map :: "(string, string list) hash_map"
  tm_order_cols :: "string list"
  tm_partition_col :: string
  tm_id_cols :: "string list"
  tm_foreign_keys :: "foreign_key list"
  tm_ref_by_foreign_keys :: "foreign_key list"

section \<open>Row operations\<close>

definition sum_malloc :: "ext \<Rightarrow> col_values option \<Rightarrow> nat" where
  "sum_malloc e m = (case m of None \<Rightarrow> 0 | Some vs \<Rightarrow> sum_list (map (\<lambda>(_, v). get_malloc_size e v) vs))"

definition get_data_malloc_size :: "ext \<Rightarrow> row_data \<Rightarrow> nat" where
  "get_data_malloc_size e r = sum_malloc e (rd_before r) + sum_malloc e (rd_after r)"

definition refresh_data_size :: "ext \<Rightarrow> row_data \<Rightarrow> row_data" where
  "refresh_data_size e r = r\<lparr>rd_data_size := get_data_malloc_size e r\<rparr>"

definition row_data_new ::
  "ext \<Rightarrow> string \<Rightarrow> string \<Rightarrow> row_type \<Rightarrow> col_values option \<Rightarrow> col_values option \<Rightarrow> row_data" where
  "row_data_new e schema tb rt before after =
     (let me = \<lparr>rd_schema = schema, rd_tb = tb, rd_row_type = rt, rd_before = before,
                rd_after = after, rd_data_size = 0\<rparr>
      in me\<lparr>rd_data_size := get_data_malloc_size e me\<rparr>)"

definition row_reverse :: "row_data \<Rightarrow> row_data" where
  "row_reverse r =
     \<lparr>rd_schema = rd_schema r, rd_tb = rd_tb r,
      rd_row_type = (case rd_row_type r of RInsert \<Rightarrow> RDelete | RUpdate \<Rightarrow> RUpdate | RDelete \<Rightarrow> RInsert),
      rd_before = rd_after r, rd_after = rd_before r, rd_data_size = rd_data_size r\<rparr>"

definition split_update_row_data :: "ext \<Rightarrow> row_data \<Rightarrow> row_data \<times> row_data" where
  "split_update_row_data e r =
     (row_data_new e (rd_schema r) (rd_tb r) RDelete (rd_before r) None,
      row_data_new e (rd_schema r) (rd_tb r) RInsert None (rd_after r))"

definition build_insert_row_data :: "ext \<Rightarrow> col_values \<Rightarrow> rdb_tb_meta \<Rightarrow> row_data" where
  "build_insert_row_data e after meta =
     row_data_new e (tm_schema meta) (tm_tb meta) RInsert None (Some after)"

fun raw_string_updates :: "ext \<Rightarrow> col_values \<Rightarrow> col_values" where
  "raw_string_updates e [] = []" |
  "raw_string_updates e ((col, v) # vs) =
     (case v of
        RawString _ \<Rightarrow>
          (case to_option_string e v of
             Some s \<Rightarrow> (col, StringV s)
           | None \<Rightarrow> (col, NoneV)) # raw_string_updates e vs
      | _ \<Rightarrow> raw_string_updates e vs)"

definition convert_raw_string_col_values :: "ext \<Rightarrow> col_values \<Rightarrow> col_values" where
  "convert_raw_string_col_values e vs =
     fold (\<lambda>(col, v) m. AList.update col v m) (raw_string_updates e vs) vs"

definition convert_raw_string :: "ext \<Rightarrow> row_data \<Rightarrow> row_data" where
  "convert_raw_string e r =
     r\<lparr>rd_before := map_option (convert_raw_string_col_values e) (rd_before r),
       rd_after := map_option (convert_raw_string_col_values e) (rd_after r)\<rparr>"

definition image_cols :: "col_values option \<Rightarrow> col_values" where
  "image_cols m = (case m of None \<Rightarrow> [] | Some vs \<Rightarrow> vs)"

definition get_unavailable_cols :: "row_data \<Rightarrow> string list" where
  "get_unavailable_cols r =
     fold (\<lambda>(col, v) cols. if is_unavailable v \<and> col \<notin> set cols then cols @ [col] else cols)
       (image_cols (rd_before r) @ image_cols (rd_after r)) []"

definition require_after :: "row_data \<Rightarrow> col_values res" where
  "require_after r =
     context_res (''row_data after is missing, schema: '' @ rd_schema r @ '', tb: '' @ rd_tb r) (rd_after r)"

definition require_before :: "row_data \<Rightarrow> col_values res" where
  "require_before r =
     context_res (''row_data before is missing, schema: '' @ rd_schema r @ '', tb: '' @ rd_tb r) (rd_before r)"

text \<open>The key image of a row: what \<open>get_hash_code\<close> and \<open>RowKey::from_row_data\<close> read.\<close>

definition key_image :: "row_data \<Rightarrow> col_values res" where
  "key_image r =
     (case rd_row_type r of
        RInsert \<Rightarrow> context_res ''row_data after is missing'' (rd_after r)
      | _ \<Rightarrow> context_res ''row_data before is missing'' (rd_before r))"

fun hash_id_cols :: "ext \<Rightarrow> col_values \<Rightarrow> u128 \<Rightarrow> string list \<Rightarrow> u128 res" where
  "hash_id_cols e vs h [] = Inr h" |
  "hash_id_cols e vs h (col # cols) =
     bind_res (context_res (''missing id col value: '' @ col) (map_of vs col))
       (\<lambda>v. let c = hash_code e v in
            if c = 0 then Inr 0 else hash_id_cols e vs (31 * h + ucast c) cols)"

definition row_get_hash_code :: "ext \<Rightarrow> row_data \<Rightarrow> rdb_tb_meta \<Rightarrow> u128 res" where
  "row_get_hash_code e r meta =
     bind_res (key_image r) (\<lambda>vs. hash_id_cols e vs 1 (tm_id_cols meta))"

section \<open>Row keys\<close>

definition INLINE_MAX_LEN :: nat where "INLINE_MAX_LEN = 256"

datatype row_key_part = KNull | KInline string | KDigest nat u64

type_synonym row_key = "row_key_part list"

definition row_key_part_new :: "ext \<Rightarrow> string option \<Rightarrow> row_key_part" where
  "row_key_part_new e v =
     (case v of
        None \<Rightarrow> KNull
      | Some s \<Rightarrow> if length s \<le> INLINE_MAX_LEN then KInline s else KDigest (length s) (hash_string e s))"

definition row_key_from_row_data :: "ext \<Rightarrow> row_data \<Rightarrow> rdb_tb_meta \<Rightarrow> row_key res" where
  "row_key_from_row_data e r meta =
     bind_res (key_image r) (\<lambda>vs.
       traverse_res (\<lambda>col.
         map_res (\<lambda>v. row_key_part_new e (to_option_string e v))
           (context_res (''missing id col value: '' @ col) (map_of vs col)))
         (tm_id_cols meta))"

section \<open>Choice of the id columns\<close>

definition RDB_PRIMARY_KEY_FLAG :: string where "RDB_PRIMARY_KEY_FLAG = ''primary''"

definition shortest_key :: "string list list \<Rightarrow> string list" where
  "shortest_key keys =
     fold (\<lambda>cols id_cols. if id_cols = [] \<or> length id_cols > length cols then cols else id_cols) keys []"

definition parse_rdb_cols ::
  "(string, string list) hash_map \<Rightarrow> string list \<Rightarrow> string list \<Rightarrow>
   (string list \<times> string \<times> string list) res" where
  "parse_rdb_cols key_map cols nullable_cols =
     (let key_cols =
        (case map_of key_map RDB_PRIMARY_KEY_FLAG of
           Some pk \<Rightarrow> pk
         | None \<Rightarrow>
             if key_map \<noteq> [] then
               (let non_nullable_keys =
                      map snd (filter (\<lambda>(_, kcols). \<not> list_ex (\<lambda>col. col \<in> set nullable_cols) kcols) key_map);
                    id_cols = shortest_key non_nullable_keys
                in if id_cols = [] then shortest_key (map snd key_map) else id_cols)
             else []);
          order_cols = (if key_cols = [] then [] else key_cols);
          id_cols = (if key_cols = [] then cols else key_cols)
      in case id_cols of
           [] \<Rightarrow> Inl (Panic ''index out of bounds'')
         | partition_col # _ \<Rightarrow> Inr (order_cols, partition_col, id_cols))"

section \<open>The chosen key\<close>

definition shortest_of :: "string list set \<Rightarrow> string list \<Rightarrow> bool" where
  "shortest_of ks k \<longleftrightarrow> k \<in> ks \<and> (\<forall>k'\<in>ks. length k \<le> length k')"

lemma shortest_key_fold:
  assumes "\<forall>k\<in>set keys. k \<noteq> []" "acc \<noteq> []"
  shows "shortest_of (insert acc (set keys))
    (fold (\<lambda>cols id_cols. if id_cols = [] \<or> length id_cols > length cols then cols else id_cols) keys acc)"
  using assms
proof (induction keys arbitrary: acc)
  case (Cons k keys)
  have "shortest_of (insert acc (set keys)) x \<Longrightarrow> length acc \<le> length k \<Longrightarrow>
      shortest_of (insert acc (insert k (set keys))) x" for x
    by (auto simp: shortest_of_def)
  moreover have "shortest_of (insert k (set keys)) x \<Longrightarrow> length k < length acc \<Longrightarrow>
      shortest_of (insert acc (insert k (set keys))) x" for x
    by (auto simp: shortest_of_def)
  ultimately show ?case using Cons.IH[of acc] Cons.IH[of k] Cons.prems by auto
qed (simp add: shortest_of_def)

lemma shortest_key_shortest:
  assumes "keys \<noteq> []" "\<forall>k\<in>set keys. k \<noteq> []"
  shows "shortest_of (set keys) (shortest_key keys)"
  using assms shortest_key_fold[of "tl keys" "hd keys"]
  by (cases keys) (simp_all add: shortest_key_def)

lemma shortest_key_Nil [simp]: "shortest_key [] = []"
  by (simp add: shortest_key_def)

text \<open>
  C32: \<open>parse_rdb_cols\<close> identifies the rows of a table by its primary key if it has one, else by a
  shortest unique key whose columns are all non-nullable, else by a shortest unique key, and by all
  columns when there is no key, whatever order the key map is iterated in; the partition column is
  the first identifying column, and the order columns are the identifying ones exactly when they
  form a key.
\<close>

theorem parse_rdb_cols_correct:
  assumes "cols \<noteq> []" "\<forall>k\<in>set key_map. snd k \<noteq> []"
  shows "\<exists>id_cols. parse_rdb_cols key_map cols nullable =
      Inr (if key_map = [] then [] else id_cols, hd id_cols, id_cols) \<and> id_cols \<noteq> [] \<and>
    (case map_of key_map RDB_PRIMARY_KEY_FLAG of
       Some pk \<Rightarrow> id_cols = pk
     | None \<Rightarrow>
         if key_map = [] then id_cols = cols
         else if \<exists>k\<in>snd ` set key_map. set k \<inter> set nullable = {}
         then shortest_of {k \<in> snd ` set key_map. set k \<inter> set nullable = {}} id_cols
         else shortest_of (snd ` set key_map) id_cols)"
proof (cases "map_of key_map RDB_PRIMARY_KEY_FLAG")
  case (Some pk)
  then have "pk \<noteq> []" "key_map \<noteq> []" using assms(2) by (fastforce dest: map_of_SomeD)+
  with Some show ?thesis by (cases pk) (simp_all add: parse_rdb_cols_def Let_def)
next
  case None
  let ?nn = "map snd (filter (\<lambda>(_, kcols). \<not> list_ex (\<lambda>col. col \<in> set nullable) kcols) key_map)"
  have nn: "set ?nn = {k \<in> snd ` set key_map. set k \<inter> set nullable = {}}"
    by (force simp: list_ex_iff)
  have ne: "\<forall>k\<in>set ?nn. k \<noteq> []" "\<forall>k\<in>set (map snd key_map). k \<noteq> []" using assms(2) by auto
  define chosen where "chosen = (if ?nn = [] then shortest_key (map snd key_map) else shortest_key ?nn)"
  show ?thesis
  proof (cases "key_map = []")
    case True
    with assms(1) show ?thesis by (cases cols) (simp_all add: parse_rdb_cols_def)
  next
    case False
    have sh: "shortest_of (if ?nn = [] then snd ` set key_map else set ?nn) chosen"
      using shortest_key_shortest[OF _ ne(1)] shortest_key_shortest[OF _ ne(2)] False
      by (simp add: chosen_def del: set_map)  simp
    then have c: "chosen \<noteq> []" using ne by (auto simp: shortest_of_def split: if_splits)
    have sn: "shortest_key ?nn \<noteq> []" if "?nn \<noteq> []"
      using shortest_key_shortest[OF that ne(1)] ne(1) unfolding shortest_of_def by metis
    have "parse_rdb_cols key_map cols nullable = Inr (chosen, hd chosen, chosen)"
    proof -
      have k: "(if shortest_key ?nn = [] then shortest_key (map snd key_map) else shortest_key ?nn) = chosen"
        using sn unfolding chosen_def by (metis shortest_key_Nil)
      show ?thesis
        unfolding parse_rdb_cols_def Let_def k using None False c by (cases chosen) simp_all
    qed
    moreover have E: "(\<exists>k\<in>snd ` set key_map. set k \<inter> set nullable = {}) \<longleftrightarrow> ?nn \<noteq> []"
    proof -
      have "?nn \<noteq> [] \<longleftrightarrow> set ?nn \<noteq> {}" by (simp only: set_empty)
      then show ?thesis unfolding nn by blast
    qed
    moreover have "if \<exists>k\<in>snd ` set key_map. set k \<inter> set nullable = {}
      then shortest_of {k \<in> snd ` set key_map. set k \<inter> set nullable = {}} chosen
      else shortest_of (snd ` set key_map) chosen"
      using sh unfolding E nn[symmetric] by (cases "?nn = []") (simp_all only: if_True if_False simp_thms)
    ultimately show ?thesis using False c unfolding None option.case
      by (intro exI[of _ chosen]) (simp only: if_False simp_thms)
  qed
qed

theorem parse_rdb_cols_correct_witness:
  "\<exists>id_cols. parse_rdb_cols [(''uk1'', [''a'', ''b'']), (''uk2'', [''c'']), (''uk3'', [''b'', ''d''])]
       [''a'', ''b'', ''c'', ''d''] [''c''] = Inr (id_cols, hd id_cols, id_cols) \<and>
     shortest_of {k \<in> snd ` {(''uk1'', [''a'', ''b'']), (''uk2'', [''c'']), (''uk3'', [''b'', ''d''])}.
       set k \<inter> {''c''} = {}} id_cols"
  using parse_rdb_cols_correct[of "[''a'', ''b'', ''c'', ''d'']"
      "[(''uk1'', [''a'', ''b'']), (''uk2'', [''c'']), (''uk3'', [''b'', ''d''])]" "[''c'']"]
  by (auto simp: RDB_PRIMARY_KEY_FLAG_def)

end
