(* ===== verification/Struct_Meta.thy ===== *)
theory Struct_Meta
  imports Prelude
begin

text \<open>
  The data of structure migration: \<open>dt-common/src/meta/struct_meta/structure\<close> and the
  statements of \<open>dt-common/src/meta/struct_meta/statement\<close>. The rendering of statements to
  SQL is not modelled.
\<close>

datatype structure_type =
  StDatabase | StTable | StConstraint | StSequence | StComment | StIndex | StView | StRoutine |
  StRbac | StUnknown

fun structure_type_to_string :: "structure_type \<Rightarrow> string" where
  "structure_type_to_string StDatabase = ''database''" |
  "structure_type_to_string StTable = ''table''" |
  "structure_type_to_string StConstraint = ''constraint''" |
  "structure_type_to_string StSequence = ''sequence''" |
  "structure_type_to_string StComment = ''comment''" |
  "structure_type_to_string StIndex = ''index''" |
  "structure_type_to_string StView = ''view''" |
  "structure_type_to_string StRoutine = ''routine''" |
  "structure_type_to_string StRbac = ''rbac''" |
  "structure_type_to_string StUnknown = ''unknown''"

datatype column_default = DefaultLiteral string | DefaultExpression string

record column =
  column_name :: string
  ordinal_position :: u32
  column_default_value :: "column_default option"
  is_nullable :: bool
  column_type :: string
  column_key :: string
  column_extra :: string
  column_comment :: string
  generated :: "string option"
  character_set_name :: string
  collation_name :: string

datatype comment_type = CommentTable | CommentColumn

record comment =
  cm_comment_type :: comment_type
  cm_database_name :: string
  cm_schema_name :: string
  cm_table_name :: string
  cm_column_name :: string
  cm_comment :: string

datatype constraint_type =
  ConstraintPrimary | ConstraintUnique | ConstraintCheck | ConstraintForeign | ConstraintUnknown

record constraint =
  cs_database_name :: string
  cs_schema_name :: string
  cs_table_name :: string
  cs_constraint_name :: string
  cs_constraint_type :: constraint_type
  cs_definition :: string

record database_struct =
  db_name :: string
  default_character_set_name :: string
  default_collation_name :: string

datatype index_kind = IndexKindUnique | IndexKindFullText | IndexKindSpatial | IndexKindUnknown

datatype index_type =
  IndexTypeFullText | IndexTypeSpatial | IndexTypeBtree | IndexTypeHash | IndexTypeUnknown

record index_column =
  ic_column_name :: string
  seq_in_index :: u32
  prefix_length :: "u64 option"

record index =
  ix_database_name :: string
  ix_schema_name :: string
  ix_table_name :: string
  ix_index_name :: string
  ix_index_kind :: index_kind
  ix_index_type :: index_type
  ix_comment :: string
  ix_table_space :: string
  ix_definition :: string
  ix_columns :: "index_column list"

record pg_role =
  role_name :: string
  role_password :: string
  rol_super :: bool
  rol_inherit :: bool
  rol_createrole :: bool
  rol_createdb :: bool
  rol_can_login :: bool
  rol_replication :: bool
  rol_conn_limit :: string
  rol_valid_until :: string
  rol_by_passrls :: bool
  rol_configs :: "string list"

record pg_role_member =
  member_role :: string
  member_member :: string
  admin_option :: bool

record sequence =
  sq_sequence_name :: string
  sq_database_name :: string
  sq_schema_name :: string
  sq_data_type :: string
  sq_start_value :: string
  sq_increment :: string
  sq_minimum_value :: string
  sq_maximum_value :: string
  sq_cycle_option :: string

record sequence_owner =
  so_sequence_name :: string
  so_database_name :: string
  so_schema_name :: string
  so_table_name :: string
  so_column_name :: string

record table_struct =
  ts_database_name :: string
  ts_schema_name :: string
  ts_table_name :: string
  ts_engine_name :: string
  ts_table_comment :: string
  ts_character_set :: string
  ts_table_collation :: string
  ts_columns :: "column list"

datatype pg_routine_kind = RoutineFunction | RoutineProcedure
datatype pg_view_kind = ViewPlain | ViewMaterialized

datatype struct_statement =
    StructMysqlCreateDatabase database_struct
  | StructPgCreateSchema string
  | StructMysqlCreateTable table_struct "constraint list" "index list"
  | StructPgCreateTable table_struct "comment list" "comment list" "constraint list" "index list"
      "sequence list" "sequence_owner list"
  | StructPgCreateRoutine string string pg_routine_kind string
  | StructPgCreateView string string pg_view_kind string
  | StructPgCreateRbac "pg_role list" "pg_role_member list" "string list"
  | StructUnknown

record struct_data =
  sd_schema :: string
  sd_statement :: struct_statement

end
