(* ===== verification/Sql_Util.thy ===== *)
theory Sql_Util
  imports Prelude
begin

text \<open>
  Database kinds and SQL identifier quoting: \<open>DbType\<close> of
  \<open>dt-common/src/config/config_enums.rs\<close> and \<open>dt-common/src/utils/sql_util.rs\<close>.

  \<open>is_valid_token\<close> builds a regular expression it never uses (its last statement returns
  \<open>true\<close>), so the model has no regular expression either.
\<close>

section \<open>Database kinds\<close>

datatype db_type =
  Mysql | Pg | Oracle | GaussDBPg | GaussDBMySQL | GaussDBOracle | Kafka | Mongo | Redis |
  ClickHouse | StarRocks | Doris | Foxlake | Tidb

fun db_type_to_string :: "db_type \<Rightarrow> string" where
  "db_type_to_string Mysql = ''mysql''" |
  "db_type_to_string Pg = ''pg''" |
  "db_type_to_string Oracle = ''oracle''" |
  "db_type_to_string GaussDBPg = ''gaussdb_pg''" |
  "db_type_to_string GaussDBMySQL = ''gaussdb_mysql''" |
  "db_type_to_string GaussDBOracle = ''gaussdb_oracle''" |
  "db_type_to_string Kafka = ''kafka''" |
  "db_type_to_string Mongo = ''mongo''" |
  "db_type_to_string Redis = ''redis''" |
  "db_type_to_string ClickHouse = ''clickhouse''" |
  "db_type_to_string StarRocks = ''starrocks''" |
  "db_type_to_string Doris = ''doris''" |
  "db_type_to_string Foxlake = ''foxlake''" |
  "db_type_to_string Tidb = ''tidb''"

section \<open>Quoting\<close>

definition MYSQL_ESCAPE :: char where "MYSQL_ESCAPE = CHR 0x60"
definition PG_ESCAPE :: char where "PG_ESCAPE = CHR 0x22"
definition REDIS_ESCAPE :: char where "REDIS_ESCAPE = CHR 0x22"

lemmas escape_chars = MYSQL_ESCAPE_def PG_ESCAPE_def REDIS_ESCAPE_def

definition is_escaped :: "string \<Rightarrow> char \<times> char \<Rightarrow> bool" where
  "is_escaped token p \<longleftrightarrow> token \<noteq> [] \<and> hd token = fst p \<and> last token = snd p"

definition escape :: "string \<Rightarrow> char \<times> char \<Rightarrow> string" where
  "escape token p = (if \<not> is_escaped token p then [fst p] @ token @ [snd p] else token)"

definition trim_start_matches :: "char \<Rightarrow> string \<Rightarrow> string" where
  "trim_start_matches c s = dropWhile (\<lambda>x. x = c) s"

definition trim_end_matches :: "char \<Rightarrow> string \<Rightarrow> string" where
  "trim_end_matches c s = rev (dropWhile (\<lambda>x. x = c) (rev s))"

definition unescape :: "string \<Rightarrow> char \<times> char \<Rightarrow> string" where
  "unescape token p =
     (if \<not> is_escaped token p then token
      else trim_end_matches (snd p) (trim_start_matches (fst p) token))"

fun get_escape_pairs :: "db_type \<Rightarrow> (char \<times> char) list" where
  "get_escape_pairs Mysql = [(MYSQL_ESCAPE, MYSQL_ESCAPE)]" |
  "get_escape_pairs GaussDBMySQL = [(MYSQL_ESCAPE, MYSQL_ESCAPE)]" |
  "get_escape_pairs ClickHouse = [(MYSQL_ESCAPE, MYSQL_ESCAPE)]" |
  "get_escape_pairs Foxlake = [(MYSQL_ESCAPE, MYSQL_ESCAPE)]" |
  "get_escape_pairs StarRocks = [(MYSQL_ESCAPE, MYSQL_ESCAPE)]" |
  "get_escape_pairs Pg = [(PG_ESCAPE, PG_ESCAPE)]" |
  "get_escape_pairs Oracle = [(PG_ESCAPE, PG_ESCAPE)]" |
  "get_escape_pairs GaussDBPg = [(PG_ESCAPE, PG_ESCAPE)]" |
  "get_escape_pairs GaussDBOracle = [(PG_ESCAPE, PG_ESCAPE)]" |
  "get_escape_pairs Redis = [(REDIS_ESCAPE, REDIS_ESCAPE)]" |
  "get_escape_pairs _ = []"

definition escape_by_db_type :: "string \<Rightarrow> db_type \<Rightarrow> string" where
  "escape_by_db_type token db = fold (\<lambda>p result. escape token p) (get_escape_pairs db) token"

definition unescape_by_db_type :: "string \<Rightarrow> db_type \<Rightarrow> string" where
  "unescape_by_db_type token db = fold (\<lambda>p result. unescape token p) (get_escape_pairs db) token"

definition escape_cols :: "string list \<Rightarrow> db_type \<Rightarrow> string list" where
  "escape_cols cols db = map (\<lambda>col. escape_by_db_type col db) cols"

fun max_token_len :: "db_type \<Rightarrow> nat" where
  "max_token_len Mysql = 64" |
  "max_token_len GaussDBMySQL = 64" |
  "max_token_len Pg = 64" |
  "max_token_len Oracle = 64" |
  "max_token_len GaussDBPg = 64" |
  "max_token_len GaussDBOracle = 64" |
  "max_token_len _ = 2147483647"

fun is_valid_token :: "string \<Rightarrow> db_type \<Rightarrow> (char \<times> char) list \<Rightarrow> bool" where
  "is_valid_token token db [] = True" |
  "is_valid_token token db (p # ps) =
     (if is_escaped token p then
        (let u = unescape token p
         in fst p \<notin> set u \<and> snd p \<notin> set u \<and> u \<noteq> [] \<and> length u \<le> max_token_len db)
      else is_valid_token token db ps)"

section \<open>Quoting and unquoting\<close>

lemma dropWhile_notin: "c \<notin> set xs \<Longrightarrow> dropWhile (\<lambda>x. x = c) xs = xs"
  by (cases xs) auto

lemma is_escaped_quoted [simp]: "is_escaped (l # token @ [r]) (l, r)"
  by (simp add: is_escaped_def)

lemma unescape_quoted:
  assumes "l \<notin> set token" "r \<notin> set token"
  shows "unescape (l # token @ [r]) (l, r) = token"
proof -
  have *: "dropWhile (\<lambda>x. x = l) (token @ [r]) = token @ (if token = [] \<and> l = r then [] else [r])"
    using assms(1) by (cases token) auto
  have "r \<notin> set (rev token)" using assms(2) by simp
  then have "dropWhile (\<lambda>x. x = r) (rev token) = rev token" by (rule dropWhile_notin)
  then show ?thesis
    by (auto simp: unescape_def trim_start_matches_def trim_end_matches_def *)
qed

lemma escape_by_db_type_quotes:
  assumes "get_escape_pairs db = [(q, q)]" "q \<notin> set token"
  shows "escape_by_db_type token db = q # token @ [q]"
  using assms by (cases token) (auto simp: escape_by_db_type_def escape_def is_escaped_def)

lemma unescape_escape:
  assumes "\<forall>(l, r)\<in>set (get_escape_pairs db). l \<notin> set token \<and> r \<notin> set token"
  shows "unescape_by_db_type (escape_by_db_type token db) db = token"
  using assms
  by (cases db)
    (simp_all add: escape_by_db_type_quotes unescape_by_db_type_def unescape_quoted,
     simp_all add: escape_by_db_type_def)

lemma escape_by_db_type_idem:
  "escape_by_db_type (escape_by_db_type token db) db = escape_by_db_type token db"
  by (cases db) (simp_all add: escape_by_db_type_def escape_def is_escaped_def)

end
