(* ===== verification/Ddl_Statement.thy ===== *)
theory Ddl_Statement
  imports Sql_Util
begin

text \<open>
  DDL and DCL statements: \<open>dt-common/src/meta/ddl_meta/ddl_statement.rs\<close>, \<open>ddl_data.rs\<close>,
  \<open>ddl_type.rs\<close>, \<open>dcl_meta/dcl_statement.rs\<close>, \<open>dcl_data.rs\<close>, \<open>dcl_type.rs\<close>. Each constructor
  carries the fields of the source's statement struct in the order of its declaration.

  \<open>to_uppercase\<close> is applied by the source to the keywords of an index definition only; the
  model maps the ASCII letters.
\<close>

section \<open>Data\<close>

datatype ddl_type =
  DdlCreateDatabase | DdlDropDatabase | DdlCreateSchema | DdlDropSchema | DdlCreateTable |
  DdlDropTable | DdlTruncateTable | DdlRenameTable | DdlAlterDatabase | DdlAlterSchema |
  DdlAlterTable | DdlCreateIndex | DdlDropIndex | DdlUnknown

fun ddl_type_to_string :: "ddl_type \<Rightarrow> string" where
  "ddl_type_to_string DdlCreateDatabase = ''create_database''" |
  "ddl_type_to_string DdlDropDatabase = ''drop_database''" |
  "ddl_type_to_string DdlCreateSchema = ''create_schema''" |
  "ddl_type_to_string DdlDropSchema = ''drop_schema''" |
  "ddl_type_to_string DdlCreateTable = ''create_table''" |
  "ddl_type_to_string DdlDropTable = ''drop_table''" |
  "ddl_type_to_string DdlTruncateTable = ''truncate_table''" |
  "ddl_type_to_string DdlRenameTable = ''rename_table''" |
  "ddl_type_to_string DdlAlterDatabase = ''alter_database''" |
  "ddl_type_to_string DdlAlterSchema = ''alter_schema''" |
  "ddl_type_to_string DdlAlterTable = ''alter_table''" |
  "ddl_type_to_string DdlCreateIndex = ''create_index''" |
  "ddl_type_to_string DdlDropIndex = ''drop_index''" |
  "ddl_type_to_string DdlUnknown = ''unknown''"

datatype dcl_type =
  DclCreateUser | DclAlterUser | DclCreateRole | DclDropUser | DclDropRole | DclGrant |
  DclRevoke | DclSetRole | DclUnknown

fun dcl_type_to_string :: "dcl_type \<Rightarrow> string" where
  "dcl_type_to_string DclCreateUser = ''create_user''" |
  "dcl_type_to_string DclAlterUser = ''alter_user''" |
  "dcl_type_to_string DclCreateRole = ''create_role''" |
  "dcl_type_to_string DclDropUser = ''drop_user''" |
  "dcl_type_to_string DclDropRole = ''drop_role''" |
  "dcl_type_to_string DclGrant = ''grant''" |
  "dcl_type_to_string DclRevoke = ''revoke''" |
  "dcl_type_to_string DclSetRole = ''set_role''" |
  "dcl_type_to_string DclUnknown = ''unknown''"

datatype ddl_statement =
    CreateDatabase string bool string
  | DropDatabase string bool string
  | AlterDatabase string string
  | CreateSchema string bool bool string
  | DropSchema string bool string
  | AlterSchema string "string option" string
  | MysqlCreateTable string string bool string
  | MysqlAlterTable string string string
  | MysqlAlterTableRename string string string string string
  | MysqlTruncateTable string string string
  | MysqlCreateIndex string string string "string option" "string option" string
  | MysqlDropIndex string string string string
  | PgCreateTable string string "string option" "string option" bool string
  | PgAlterTable string string bool bool string
  | PgAlterTableRename string string string string bool bool string
  | PgAlterTableSetSchema string string string string bool bool string
  | PgTruncateTable string string bool string
  | PgCreateIndex string string "string option" bool bool bool bool string
  | DropMultiTable "(string \<times> string) list" bool string
  | RenameMultiTable "(string \<times> string) list" "(string \<times> string) list" string
  | PgDropMultiIndex "string list" bool bool string
  | DropTable string string bool string
  | RenameTable string string string string string
  | PgDropIndex string bool bool string
  | DdlStatementUnknown

datatype dcl_statement =
    DclCreateUserSt string
  | DclAlterUserSt string
  | DclCreateRoleSt string
  | DclDropUserSt string
  | DclDropRoleSt string
  | DclGrantSt string
  | DclRevokeSt string
  | DclSetRoleSt string
  | DclStatementUnknown

record ddl_data =
  dd_default_schema :: string
  dd_query :: string
  dd_ddl_type :: ddl_type
  dd_db_type :: db_type
  dd_statement :: ddl_statement

record dcl_data =
  dc_default_schema :: string
  dc_dcl_type :: dcl_type
  dc_db_type :: db_type
  dc_statement :: dcl_statement

section \<open>Rendering\<close>

definition upper_char :: "char \<Rightarrow> char" where
  "upper_char c = (if (of_char c :: nat) \<in> {97..122} then char_of ((of_char c :: nat) - 32) else c)"

definition to_uppercase :: "string \<Rightarrow> string" where
  "to_uppercase s = map upper_char s"

definition escape_identifier :: "string \<Rightarrow> db_type \<Rightarrow> string" where
  "escape_identifier identifier db = escape_by_db_type identifier db"

definition append_tb :: "string \<Rightarrow> string \<Rightarrow> string \<Rightarrow> db_type \<Rightarrow> string" where
  "append_tb sql schema tb db =
     (if schema = [] then sql @ '' '' @ escape_identifier tb db
      else sql @ '' '' @ escape_identifier schema db @ ''.'' @ escape_identifier tb db)"

definition append_opt_str :: "string \<Rightarrow> string option \<Rightarrow> string" where
  "append_opt_str sql opt = (case opt of Some s \<Rightarrow> sql @ '' '' @ s | None \<Rightarrow> sql)"

definition append_identifier :: "string \<Rightarrow> string \<Rightarrow> bool \<Rightarrow> db_type \<Rightarrow> string" where
  "append_identifier sql identifier with_white_space db =
     (if with_white_space then sql @ '' '' @ escape_identifier identifier db
      else sql @ escape_identifier identifier db)"

definition append_unparsed :: "string \<Rightarrow> string \<Rightarrow> string" where
  "append_unparsed sql unparsed = (if unparsed \<noteq> [] then sql @ '' '' @ unparsed else sql)"

definition append_if :: "bool \<Rightarrow> string \<Rightarrow> string \<Rightarrow> string" where
  "append_if b kw sql = (if b then sql @ kw else sql)"

definition drop_multi_table_to_sql :: "(string \<times> string) list \<Rightarrow> bool \<Rightarrow> string \<Rightarrow> db_type \<Rightarrow> string" where
  "drop_multi_table_to_sql schema_tbs if_exists unparsed db =
     append_unparsed
       (fold (\<lambda>(schema, tb) sql. append_tb sql schema tb db) schema_tbs
          (append_if if_exists '' IF EXISTS'' ''DROP TABLE''))
       unparsed"

fun rename_multi_loop ::
  "(string \<times> string) list \<Rightarrow> (string \<times> string) list \<Rightarrow> db_type \<Rightarrow> string \<Rightarrow> string res" where
  "rename_multi_loop [] new_schema_tbs db sql = Inr sql" |
  "rename_multi_loop ((schema, tb) # rest) new_schema_tbs db sql =
     (case new_schema_tbs of
        [] \<Rightarrow> Inl (Panic ''index out of bounds'')
      | (new_schema, new_tb) # new_rest \<Rightarrow>
          rename_multi_loop rest new_rest db
            (append_if (rest \<noteq> []) '',''
               (append_tb (append_tb sql schema tb db @ '' TO'') new_schema new_tb db)))"

definition rename_multi_table_to_sql ::
  "(string \<times> string) list \<Rightarrow> (string \<times> string) list \<Rightarrow> db_type \<Rightarrow> string res" where
  "rename_multi_table_to_sql schema_tbs new_schema_tbs db =
     rename_multi_loop schema_tbs new_schema_tbs db ''RENAME TABLE''"

fun drop_multi_index_loop :: "string list \<Rightarrow> db_type \<Rightarrow> string \<Rightarrow> string" where
  "drop_multi_index_loop [] db sql = sql" |
  "drop_multi_index_loop (name # rest) db sql =
     drop_multi_index_loop rest db (append_if (rest \<noteq> []) '','' (append_identifier sql name True db))"

definition pg_drop_multi_index_to_sql ::
  "string list \<Rightarrow> bool \<Rightarrow> bool \<Rightarrow> string \<Rightarrow> db_type \<Rightarrow> string" where
  "pg_drop_multi_index_to_sql index_names if_exists is_concurrently unparsed db =
     append_unparsed
       (drop_multi_index_loop index_names db
          (append_if if_exists '' IF EXISTS''
             (append_if is_concurrently '' CONCURRENTLY'' ''DROP INDEX'')))
       unparsed"

fun ddl_statement_to_sql :: "ddl_statement \<Rightarrow> db_type \<Rightarrow> string res" where
  "ddl_statement_to_sql (CreateDatabase dbn if_not_exists unparsed) db =
     Inr (append_unparsed
       (append_identifier (append_if if_not_exists '' IF NOT EXISTS'' ''CREATE DATABASE'') dbn True db) unparsed)" |
  "ddl_statement_to_sql (DropDatabase dbn if_exists unparsed) db =
     Inr (append_unparsed
       (append_identifier (append_if if_exists '' IF EXISTS'' ''DROP DATABASE'') dbn True db) unparsed)" |
  "ddl_statement_to_sql (AlterDatabase dbn unparsed) db =
     Inr (append_unparsed (append_identifier ''ALTER DATABASE'' dbn True db) unparsed)" |
  "ddl_statement_to_sql (CreateSchema schema if_not_exists authorization unparsed) db =
     Inr (append_unparsed
       (append_identifier
          (append_if authorization '' AUTHORIZATION''
             (append_if if_not_exists '' IF NOT EXISTS'' ''CREATE SCHEMA''))
          schema True db) unparsed)" |
  "ddl_statement_to_sql (DropSchema schema if_exists unparsed) db =
     Inr (append_unparsed
       (append_identifier (append_if if_exists '' IF EXISTS'' ''DROP SCHEMA'') schema True db) unparsed)" |
  "ddl_statement_to_sql (AlterSchema schema new_schema unparsed) db =
     (let sql = append_identifier ''ALTER SCHEMA'' schema True db
      in case new_schema of
           Some n \<Rightarrow> Inr (append_identifier (sql @ '' RENAME TO'') n True db)
         | None \<Rightarrow> Inr (append_unparsed sql unparsed))" |
  "ddl_statement_to_sql (MysqlCreateTable dbn tb if_not_exists unparsed) db =
     Inr (append_unparsed
       (append_tb (append_if if_not_exists '' IF NOT EXISTS'' ''CREATE TABLE'') dbn tb db) unparsed)" |
  "ddl_statement_to_sql (PgCreateTable schema tb temporary unlogged if_not_exists unparsed) db =
     Inr (append_unparsed
       (append_tb
          (append_if if_not_exists '' IF NOT EXISTS''
             (append_opt_str (append_opt_str ''CREATE'' temporary) unlogged @ '' TABLE''))
          schema tb db) unparsed)" |
  "ddl_statement_to_sql (DropMultiTable schema_tbs if_exists unparsed) db =
     Inr (drop_multi_table_to_sql schema_tbs if_exists unparsed db)" |
  "ddl_statement_to_sql (DropTable schema tb if_exists unparsed) db =
     Inr (drop_multi_table_to_sql [(schema, tb)] if_exists unparsed db)" |
  "ddl_statement_to_sql (MysqlTruncateTable dbn tb unparsed) db =
     Inr (append_unparsed (append_tb ''TRUNCATE TABLE'' dbn tb db) unparsed)" |
  "ddl_statement_to_sql (PgTruncateTable schema tb is_only unparsed) db =
     Inr (append_unparsed
       (append_tb (append_if is_only '' ONLY'' ''TRUNCATE TABLE'') schema tb db) unparsed)" |
  "ddl_statement_to_sql (MysqlAlterTable dbn tb unparsed) db =
     Inr (append_unparsed (append_tb ''ALTER TABLE'' dbn tb db) unparsed)" |
  "ddl_statement_to_sql (MysqlAlterTableRename dbn tb new_db new_tb unparsed) db =
     Inr (append_unparsed
       (append_tb (append_tb ''ALTER TABLE'' dbn tb db @ '' RENAME TO'') new_db new_tb db) unparsed)" |
  "ddl_statement_to_sql (PgAlterTable schema tb if_exists is_only unparsed) db =
     Inr (append_unparsed
       (append_tb (append_if is_only '' ONLY'' (append_if if_exists '' IF EXISTS'' ''ALTER TABLE''))
          schema tb db) unparsed)" |
  "ddl_statement_to_sql (PgAlterTableRename schema tb new_schema new_tb if_exists is_only unparsed) db =
     Inr (append_unparsed
       (append_tb
          (append_tb (append_if is_only '' ONLY'' (append_if if_exists '' IF EXISTS'' ''ALTER TABLE''))
             schema tb db @ '' RENAME TO'')
          new_schema new_tb db) unparsed)" |
  "ddl_statement_to_sql (PgAlterTableSetSchema schema tb new_schema new_tb if_exists is_only unparsed) db =
     Inr (append_unparsed
       (append_identifier
          (append_tb (append_if is_only '' ONLY'' (append_if if_exists '' IF EXISTS'' ''ALTER TABLE''))
             schema tb db @ '' SET SCHEMA'')
          new_schema True db) unparsed)" |
  "ddl_statement_to_sql (RenameMultiTable schema_tbs new_schema_tbs unparsed) db =
     rename_multi_table_to_sql schema_tbs new_schema_tbs db" |
  "ddl_statement_to_sql (RenameTable schema tb new_schema new_tb unparsed) db =
     rename_multi_table_to_sql [(schema, tb)] [(new_schema, new_tb)] db" |
  "ddl_statement_to_sql (MysqlCreateIndex dbn tb index_name index_kind index_type unparsed) db =
     Inr (append_unparsed
       (append_tb
          (append_opt_str
             (append_identifier
                (append_opt_str ''CREATE'' (map_option to_uppercase index_kind) @ '' INDEX'')
                index_name True db)
             (map_option (\<lambda>t. ''USING '' @ to_uppercase t) index_type) @ '' ON'')
          dbn tb db) unparsed)" |
  "ddl_statement_to_sql
     (PgCreateIndex schema tb index_name is_unique is_concurrently if_not_exists is_only unparsed) db =
     (let sql1 = append_if is_unique '' UNIQUE'' ''CREATE'' @ '' INDEX'';
          sql2 = append_if if_not_exists '' IF NOT EXISTS''
                   (append_if is_concurrently '' CONCURRENTLY'' sql1);
          sql3 = (case index_name of Some n \<Rightarrow> append_identifier sql2 n True db | None \<Rightarrow> sql2);
          sql4 = append_if is_only '' ONLY'' (sql3 @ '' ON'')
      in Inr (append_unparsed (append_tb sql4 schema tb db) unparsed))" |
  "ddl_statement_to_sql (MysqlDropIndex dbn tb index_name unparsed) db =
     Inr (append_unparsed
       (append_tb (append_identifier ''DROP INDEX'' index_name True db @ '' ON'') dbn tb db) unparsed)" |
  "ddl_statement_to_sql (PgDropMultiIndex index_names if_exists is_concurrently unparsed) db =
     Inr (pg_drop_multi_index_to_sql index_names if_exists is_concurrently unparsed db)" |
  "ddl_statement_to_sql (PgDropIndex index_name if_exists is_concurrently unparsed) db =
     Inr (pg_drop_multi_index_to_sql [index_name] if_exists is_concurrently unparsed db)" |
  "ddl_statement_to_sql DdlStatementUnknown db = Inr []"

section \<open>Operations on statements\<close>

fun split_rename :: "(string \<times> string) list \<Rightarrow> (string \<times> string) list \<Rightarrow> string \<Rightarrow> ddl_statement list res" where
  "split_rename [] news unparsed = Inr []" |
  "split_rename ((schema, tb) # rest) news unparsed =
     (case news of
        [] \<Rightarrow> Inl (Panic ''index out of bounds'')
      | (new_schema, new_tb) # new_rest \<Rightarrow>
          map_res ((#) (RenameTable schema tb new_schema new_tb unparsed)) (split_rename rest new_rest unparsed))"

definition ddl_statement_split_to_multi :: "ddl_statement \<Rightarrow> ddl_statement list res" where
  "ddl_statement_split_to_multi s =
     (case s of
        DropMultiTable schema_tbs if_exists unparsed \<Rightarrow>
          Inr (map (\<lambda>(schema, tb). DropTable schema tb if_exists unparsed) schema_tbs)
      | RenameMultiTable schema_tbs new_schema_tbs unparsed \<Rightarrow>
          split_rename schema_tbs new_schema_tbs unparsed
      | PgDropMultiIndex index_names if_exists is_concurrently unparsed \<Rightarrow>
          Inr (map (\<lambda>n. PgDropIndex n if_exists is_concurrently unparsed) index_names)
      | _ \<Rightarrow> Inr [s])"

fun statement_schema_tb :: "ddl_statement \<Rightarrow> string \<times> string" where
  "statement_schema_tb (CreateDatabase db _ _) = (db, [])" |
  "statement_schema_tb (DropDatabase db _ _) = (db, [])" |
  "statement_schema_tb (AlterDatabase db _) = (db, [])" |
  "statement_schema_tb (CreateSchema schema _ _ _) = (schema, [])" |
  "statement_schema_tb (DropSchema schema _ _) = (schema, [])" |
  "statement_schema_tb (AlterSchema schema _ _) = (schema, [])" |
  "statement_schema_tb (MysqlCreateTable db tb _ _) = (db, tb)" |
  "statement_schema_tb (MysqlAlterTable db tb _) = (db, tb)" |
  "statement_schema_tb (MysqlTruncateTable db tb _) = (db, tb)" |
  "statement_schema_tb (MysqlCreateIndex db tb _ _ _ _) = (db, tb)" |
  "statement_schema_tb (MysqlDropIndex db tb _ _) = (db, tb)" |
  "statement_schema_tb (PgCreateTable schema tb _ _ _ _) = (schema, tb)" |
  "statement_schema_tb (PgAlterTable schema tb _ _ _) = (schema, tb)" |
  "statement_schema_tb (PgTruncateTable schema tb _ _) = (schema, tb)" |
  "statement_schema_tb (PgCreateIndex schema tb _ _ _ _ _ _) = (schema, tb)" |
  "statement_schema_tb (DropTable schema tb _ _) = (schema, tb)" |
  "statement_schema_tb (RenameTable schema tb _ _ _) = (schema, tb)" |
  "statement_schema_tb (MysqlAlterTableRename db tb _ _ _) = (db, tb)" |
  "statement_schema_tb (PgAlterTableRename schema tb _ _ _ _ _) = (schema, tb)" |
  "statement_schema_tb (PgAlterTableSetSchema schema tb _ _ _ _ _) = (schema, tb)" |
  "statement_schema_tb (PgDropIndex _ _ _ _) = ([], [])" |
  "statement_schema_tb (PgDropMultiIndex _ _ _ _) = ([], [])" |
  "statement_schema_tb (DropMultiTable _ _ _) = ([], [])" |
  "statement_schema_tb (RenameMultiTable _ _ _) = ([], [])" |
  "statement_schema_tb DdlStatementUnknown = ([], [])"

definition statement_rename_to_schema_tb :: "ddl_statement \<Rightarrow> string \<times> string" where
  "statement_rename_to_schema_tb s =
     (case s of
        RenameTable _ _ new_schema new_tb _ \<Rightarrow> (new_schema, new_tb)
      | MysqlAlterTableRename _ _ new_db new_tb _ \<Rightarrow> (new_db, new_tb)
      | PgAlterTableRename _ _ new_schema new_tb _ _ _ \<Rightarrow> (new_schema, new_tb)
      | _ \<Rightarrow> ([], []))"

definition set_nonempty :: "string \<Rightarrow> string \<Rightarrow> string" where
  "set_nonempty old new = (if old \<noteq> [] then new else old)"

definition route_rename_table ::
  "ddl_statement \<Rightarrow> string \<Rightarrow> string \<Rightarrow> string \<Rightarrow> string \<Rightarrow> ddl_statement" where
  "route_rename_table s dst_schema dst_tb dst_new_schema dst_new_tb =
     (case s of
        MysqlAlterTableRename db tb new_db new_tb unparsed \<Rightarrow>
          MysqlAlterTableRename (set_nonempty db dst_schema) dst_tb
            (set_nonempty new_db dst_new_schema) dst_new_tb unparsed
      | PgAlterTableRename schema tb new_schema new_tb if_exists is_only unparsed \<Rightarrow>
          PgAlterTableRename (set_nonempty schema dst_schema) dst_tb
            (set_nonempty new_schema dst_new_schema) dst_new_tb if_exists is_only unparsed
      | RenameTable schema tb new_schema new_tb unparsed \<Rightarrow>
          RenameTable (set_nonempty schema dst_schema) dst_tb
            (set_nonempty new_schema dst_new_schema) dst_new_tb unparsed
      | _ \<Rightarrow> s)"

fun ddl_statement_route :: "ddl_statement \<Rightarrow> string \<Rightarrow> string \<Rightarrow> ddl_statement" where
  "ddl_statement_route (CreateDatabase _ a u) d t = CreateDatabase d a u" |
  "ddl_statement_route (DropDatabase _ a u) d t = DropDatabase d a u" |
  "ddl_statement_route (AlterDatabase _ u) d t = AlterDatabase d u" |
  "ddl_statement_route (CreateSchema _ a b u) d t = CreateSchema d a b u" |
  "ddl_statement_route (DropSchema _ a u) d t = DropSchema d a u" |
  "ddl_statement_route (AlterSchema _ n u) d t = AlterSchema d n u" |
  "ddl_statement_route (MysqlCreateTable s _ a u) d t = MysqlCreateTable (set_nonempty s d) t a u" |
  "ddl_statement_route (MysqlAlterTable s _ u) d t = MysqlAlterTable (set_nonempty s d) t u" |
  "ddl_statement_route (MysqlTruncateTable s _ u) d t = MysqlTruncateTable (set_nonempty s d) t u" |
  "ddl_statement_route (MysqlCreateIndex s _ n k y u) d t = MysqlCreateIndex (set_nonempty s d) t n k y u" |
  "ddl_statement_route (MysqlDropIndex s _ n u) d t = MysqlDropIndex (set_nonempty s d) t n u" |
  "ddl_statement_route (PgCreateTable s _ x y a u) d t = PgCreateTable (set_nonempty s d) t x y a u" |
  "ddl_statement_route (PgAlterTable s _ a b u) d t = PgAlterTable (set_nonempty s d) t a b u" |
  "ddl_statement_route (PgTruncateTable s _ a u) d t = PgTruncateTable (set_nonempty s d) t a u" |
  "ddl_statement_route (PgCreateIndex s _ n a b c e u) d t = PgCreateIndex (set_nonempty s d) t n a b c e u" |
  "ddl_statement_route (DropTable s _ a u) d t = DropTable (set_nonempty s d) t a u" |
  "ddl_statement_route s d t = s"

definition SIZE_OF_OPTION_STRING :: nat where "SIZE_OF_OPTION_STRING = 24"
definition SIZE_OF_VEC :: nat where "SIZE_OF_VEC = 24"

definition opt_len :: "string option \<Rightarrow> nat" where
  "opt_len s = (case s of None \<Rightarrow> 0 | Some x \<Rightarrow> length x)"

definition pairs_len :: "(string \<times> string) list \<Rightarrow> nat" where
  "pairs_len ps = sum_list (map (\<lambda>(s, t). length s + length t) ps)"

fun ddl_statement_get_malloc_size :: "ddl_statement \<Rightarrow> nat" where
  "ddl_statement_get_malloc_size (CreateDatabase db _ u) = length db + length u + 1" |
  "ddl_statement_get_malloc_size (DropDatabase db _ u) = length db + length u + 1" |
  "ddl_statement_get_malloc_size (AlterDatabase db u) = length db + length u" |
  "ddl_statement_get_malloc_size (CreateSchema s _ _ u) = length s + length u + 1" |
  "ddl_statement_get_malloc_size (DropSchema s _ u) = length s + length u + 1" |
  "ddl_statement_get_malloc_size (AlterSchema s n u) = length s + length u + SIZE_OF_OPTION_STRING + opt_len n" |
  "ddl_statement_get_malloc_size (MysqlCreateTable s t _ u) = length s + length t + length u + 1" |
  "ddl_statement_get_malloc_size (MysqlAlterTable s t u) = length s + length t + length u" |
  "ddl_statement_get_malloc_size (MysqlAlterTableRename s t s' t' u) =
     length s + length t + length s' + length t' + length u" |
  "ddl_statement_get_malloc_size (MysqlTruncateTable s t u) = length s + length t + length u" |
  "ddl_statement_get_malloc_size (PgCreateTable s t x y _ u) =
     length s + length t + length u + SIZE_OF_OPTION_STRING * 2 + opt_len x + opt_len y + 1" |
  "ddl_statement_get_malloc_size (PgAlterTable s t _ _ u) = length s + length t + length u + 2" |
  "ddl_statement_get_malloc_size (PgAlterTableRename s t s' t' _ _ u) =
     length s + length t + length s' + length t' + length u + 2" |
  "ddl_statement_get_malloc_size (PgAlterTableSetSchema s t s' t' _ _ u) =
     length s + length t + length s' + length t' + length u + 2" |
  "ddl_statement_get_malloc_size (PgTruncateTable s t _ u) = length s + length t + length u + 1" |
  "ddl_statement_get_malloc_size (PgCreateIndex s t n _ _ _ _ u) =
     length s + length t + length u + SIZE_OF_OPTION_STRING + opt_len n + 4" |
  "ddl_statement_get_malloc_size (PgDropIndex n _ _ u) = length n + length u + 2" |
  "ddl_statement_get_malloc_size (PgDropMultiIndex ns _ _ u) =
     SIZE_OF_VEC + sum_list (map length ns) + length u + 1" |
  "ddl_statement_get_malloc_size (DropMultiTable ps _ u) = SIZE_OF_VEC + pairs_len ps + length u + 1" |
  "ddl_statement_get_malloc_size (RenameMultiTable ps qs u) =
     SIZE_OF_VEC * 2 + pairs_len ps + pairs_len qs + length u + 1" |
  "ddl_statement_get_malloc_size (DropTable s t _ u) = length s + length t + length u + 1" |
  "ddl_statement_get_malloc_size (RenameTable s t s' t' u) =
     length s + length t + length s' + length t' + length u" |
  "ddl_statement_get_malloc_size (MysqlCreateIndex s t n k y u) =
     length s + length t + length n + length u + SIZE_OF_OPTION_STRING * 2 + opt_len k + opt_len y" |
  "ddl_statement_get_malloc_size (MysqlDropIndex s t n u) = length s + length t + length n + length u" |
  "ddl_statement_get_malloc_size DdlStatementUnknown = 0"

section \<open>Operations on DDL and DCL data\<close>

definition ddl_to_sql :: "ddl_data \<Rightarrow> string res" where
  "ddl_to_sql d = ddl_statement_to_sql (dd_statement d) (dd_db_type d)"

definition or_default :: "string \<Rightarrow> string \<times> string \<Rightarrow> string \<times> string" where
  "or_default default_schema st = (if fst st = [] then (default_schema, snd st) else st)"

definition ddl_get_schema_tb :: "ddl_data \<Rightarrow> string \<times> string" where
  "ddl_get_schema_tb d = or_default (dd_default_schema d) (statement_schema_tb (dd_statement d))"

definition ddl_get_rename_to_schema_tb :: "ddl_data \<Rightarrow> string \<times> string" where
  "ddl_get_rename_to_schema_tb d =
     or_default (dd_default_schema d) (statement_rename_to_schema_tb (dd_statement d))"

definition ddl_split_to_multi :: "ddl_data \<Rightarrow> ddl_data list res" where
  "ddl_split_to_multi d =
     map_res (map (\<lambda>s. d\<lparr>dd_statement := s\<rparr>)) (ddl_statement_split_to_multi (dd_statement d))"

definition ddl_get_data_size :: "ddl_data \<Rightarrow> nat res" where
  "ddl_get_data_size d = map_res length (ddl_to_sql d)"

definition ddl_get_malloc_size :: "ddl_data \<Rightarrow> nat" where
  "ddl_get_malloc_size d =
     length (dd_default_schema d) + length (dd_query d) + 1 + 1
       + ddl_statement_get_malloc_size (dd_statement d)"

fun dcl_origin :: "dcl_statement \<Rightarrow> string" where
  "dcl_origin (DclCreateUserSt s) = s" |
  "dcl_origin (DclAlterUserSt s) = s" |
  "dcl_origin (DclCreateRoleSt s) = s" |
  "dcl_origin (DclDropUserSt s) = s" |
  "dcl_origin (DclDropRoleSt s) = s" |
  "dcl_origin (DclGrantSt s) = s" |
  "dcl_origin (DclRevokeSt s) = s" |
  "dcl_origin (DclSetRoleSt s) = s" |
  "dcl_origin DclStatementUnknown = []"

definition dcl_to_sql :: "dcl_data \<Rightarrow> string" where
  "dcl_to_sql d = dcl_origin (dc_statement d)"

definition dcl_get_malloc_size :: "dcl_data \<Rightarrow> nat" where
  "dcl_get_malloc_size d = length (dc_default_schema d) + 1 + 1 + length (dcl_origin (dc_statement d))"

section \<open>Routing and splitting\<close>

lemma split_rename_total:
  "length ps \<le> length qs \<Longrightarrow>
   split_rename ps qs u = Inr (map (\<lambda>((s, t), (s', t')). RenameTable s t s' t' u) (zip ps qs))"
  by (induction ps qs u rule: split_rename.induct) (auto split: list.splits)

lemma route_keeps_rest:
  "statement_rename_to_schema_tb (ddl_statement_route s d t) = statement_rename_to_schema_tb s"
  by (cases s) (simp_all add: statement_rename_to_schema_tb_def)

end
