(* ===== verification/Redis_Object.thy ===== *)
theory Redis_Object
  imports Prelude
begin

text \<open>
  Redis values and commands: \<open>dt-common/src/meta/redis/redis_object.rs\<close> and the data of
  \<open>redis_entry.rs\<close>. The lossy UTF-8 decoding of the standard library is an argument
  (\<open>from_utf8_lossy\<close>) of the operations that call it.
\<close>

type_synonym redis_string = "u8 list"

record redis_cmd =
  cmd_args :: "u8 list list"
  cmd_name :: string
  cmd_group :: string
  cmd_keys :: "string list"
  cmd_key_indexes :: "nat list"

datatype redis_object =
    StringObject redis_string redis_string
  | ListObject redis_string "redis_string list"
  | HashObject redis_string "(redis_string, redis_string \<times> redis_string option) hash_map"
  | SetObject redis_string "redis_string list"
  | ZsetObject redis_string "(redis_string \<times> redis_string) list"
  | ModuleObject
  | StreamObject redis_string "redis_cmd list"
  | UnknownObject

record redis_entry =
  re_id :: u64
  re_is_base :: bool
  re_db_id :: int
  re_timestamp_ms :: u64
  re_expire_ms :: int
  re_key :: redis_string
  re_value :: redis_object
  re_value_type_byte :: u8
  re_raw_bytes :: "u8 list"
  re_cmd :: redis_cmd
  re_data_size :: nat
  re_slot :: int
  re_freq :: int

fun redis_object_get_type :: "redis_object \<Rightarrow> string" where
  "redis_object_get_type (StringObject _ _) = ''string''" |
  "redis_object_get_type (ListObject _ _) = ''list''" |
  "redis_object_get_type (HashObject _ _) = ''hash''" |
  "redis_object_get_type (SetObject _ _) = ''set''" |
  "redis_object_get_type (ZsetObject _ _) = ''zset''" |
  "redis_object_get_type ModuleObject = ''module''" |
  "redis_object_get_type (StreamObject _ _) = ''stream''" |
  "redis_object_get_type UnknownObject = ''unknown''"

definition redis_object_new :: "string \<Rightarrow> redis_object" where
  "redis_object_new key_type =
     (if key_type = ''string'' then StringObject [] []
      else if key_type = ''list'' then ListObject [] []
      else if key_type = ''hash'' then HashObject [] []
      else if key_type = ''set'' then SetObject [] []
      else if key_type = ''zset'' then ZsetObject [] []
      else if key_type = ''module'' then ModuleObject
      else if key_type = ''stream'' then StreamObject [] []
      else UnknownObject)"

definition redis_cmd_new :: redis_cmd where
  "redis_cmd_new = \<lparr>cmd_args = [], cmd_name = [], cmd_group = [], cmd_keys = [], cmd_key_indexes = []\<rparr>"

definition from_args :: "u8 list list \<Rightarrow> redis_cmd" where
  "from_args args = redis_cmd_new\<lparr>cmd_args := args\<rparr>"

definition add_arg :: "redis_cmd \<Rightarrow> u8 list \<Rightarrow> redis_cmd" where
  "add_arg c arg = c\<lparr>cmd_args := cmd_args c @ [arg]\<rparr>"

definition get_str_arg :: "(u8 list \<Rightarrow> string) \<Rightarrow> redis_cmd \<Rightarrow> nat \<Rightarrow> string" where
  "get_str_arg from_utf8_lossy c i =
     (if length (cmd_args c) \<le> i then [] else from_utf8_lossy (cmd_args c ! i))"

definition cmd_get_name :: "(u8 list \<Rightarrow> string) \<Rightarrow> redis_cmd \<Rightarrow> string" where
  "cmd_get_name from_utf8_lossy c =
     (if cmd_name c = [] then get_str_arg from_utf8_lossy c 0 else cmd_name c)"

definition args_to_string :: "(u8 list \<Rightarrow> string) \<Rightarrow> redis_cmd \<Rightarrow> string list" where
  "args_to_string from_utf8_lossy c = map from_utf8_lossy (cmd_args c)"

definition cmd_get_malloc_size :: "redis_cmd \<Rightarrow> nat" where
  "cmd_get_malloc_size c = sum_list (map length (cmd_args c))"

fun redis_object_get_malloc_size :: "redis_object \<Rightarrow> nat" where
  "redis_object_get_malloc_size (StringObject k v) = length k + length v" |
  "redis_object_get_malloc_size (ListObject k es) = sum_list (map length es) + length k" |
  "redis_object_get_malloc_size (HashObject k m) =
     sum_list (map (\<lambda>(f, v, expire). length f + length v + 8 + (if expire \<noteq> None then 8 else 0)) m) + length k" |
  "redis_object_get_malloc_size (SetObject k es) = sum_list (map length es) + length k" |
  "redis_object_get_malloc_size (ZsetObject k es) =
     sum_list (map (\<lambda>(member, score). length member + length score) es) + length k" |
  "redis_object_get_malloc_size (StreamObject k cmds) =
     sum_list (map (\<lambda>c. sum_list (map length (cmd_args c))) cmds) + length k" |
  "redis_object_get_malloc_size ModuleObject = 0" |
  "redis_object_get_malloc_size UnknownObject = 0"

definition redis_entry_new :: redis_entry where
  "redis_entry_new =
     \<lparr>re_id = 0, re_is_base = False, re_db_id = 0, re_timestamp_ms = 0, re_expire_ms = 0,
      re_key = [], re_value = UnknownObject, re_value_type_byte = 0, re_raw_bytes = [],
      re_cmd = redis_cmd_new, re_data_size = 0, re_slot = 0, re_freq = -1\<rparr>"

definition is_raw :: "redis_entry \<Rightarrow> bool" where
  "is_raw entry \<longleftrightarrow> re_is_base entry \<and> re_raw_bytes entry \<noteq> []"

definition redis_entry_get_data_malloc_size :: "redis_entry \<Rightarrow> nat" where
  "redis_entry_get_data_malloc_size entry =
     (if re_data_size entry > 0 then re_data_size entry
      else if is_raw entry then length (re_raw_bytes entry)
      else length (re_key entry) + redis_object_get_malloc_size (re_value entry)
             + cmd_get_malloc_size (re_cmd entry))"

end
