(* ===== verification/Dt_Data.thy ===== *)
theory Dt_Data
  imports Row_Data Struct_Meta Ddl_Statement Redis_Object
begin

text \<open>
  The items that flow through a task and the positions they carry:
  \<open>dt-common/src/meta/dt_data.rs\<close>, \<open>position.rs\<close>, \<open>order_key.rs\<close>, \<open>syncer.rs\<close>, the positions
  built by \<open>rdb_tb_meta.rs\<close>, and the data of \<open>foxlake/s3_file_meta.rs\<close>. The JSON parser of
  positions and the date parser are arguments.
\<close>

section \<open>Positions\<close>

datatype order_key =
    OrderSingle "string \<times> string option"
  | OrderComposite "(string \<times> string option) list"

datatype position =
    PosNone
  | PosKafka string u32 u64
  | PosRdbSnapshot string string string "order_key option"
  | PosRdbSnapshotFinished string string string
  | PosMysqlCdc string string u32 string string
  | PosPgCdc string string
  | PosMongoCdc string u32 string
  | PosRedis string u64 u64 u64 string
  | PosFoxlakeS3 string string string

record syncer =
  received_position :: position
  committed_position :: position

fun find_index_from :: "char \<Rightarrow> nat \<Rightarrow> string \<Rightarrow> nat option" where
  "find_index_from c i [] = None" |
  "find_index_from c i (x # xs) = (if x = c then Some i else find_index_from c (Suc i) xs)"

definition str_find :: "char \<Rightarrow> string \<Rightarrow> nat option" where
  "str_find c s = find_index_from c 0 s"

definition str_rfind :: "char \<Rightarrow> string \<Rightarrow> nat option" where
  "str_rfind c s = map_option (\<lambda>i. length s - 1 - i) (find_index_from c 0 (rev s))"

definition from_log :: "(string \<Rightarrow> position option) \<Rightarrow> string \<Rightarrow> position res" where
  "from_log position_from_str log =
     (if trim log = [] then Inr PosNone
      else case (str_find (CHR ''{'') log, str_rfind (CHR ''}'') log) of
             (Some left, Some right) \<Rightarrow>
               if left > right + 1 then Inl (Panic ''slice index starts after its end'')
               else (case position_from_str (take (right + 1 - left) (drop left log)) of
                       Some p \<Rightarrow> Inr p
                     | None \<Rightarrow> Inr PosNone)
           | _ \<Rightarrow> Inr PosNone)"

definition position_timestamp :: "position \<Rightarrow> string option" where
  "position_timestamp p =
     (case p of
        PosMysqlCdc _ _ _ _ timestamp \<Rightarrow> Some timestamp
      | PosPgCdc _ timestamp \<Rightarrow> Some timestamp
      | PosMongoCdc _ _ timestamp \<Rightarrow> Some timestamp
      | PosRedis _ _ _ _ timestamp \<Rightarrow> Some timestamp
      | _ \<Rightarrow> None)"

definition to_timestamp :: "(string \<Rightarrow> string \<Rightarrow> u64 option) \<Rightarrow> position \<Rightarrow> u64" where
  "to_timestamp parse_millis p =
     (case position_timestamp p of
        None \<Rightarrow> 0
      | Some timestamp \<Rightarrow>
          if timestamp = [] then 0
          else case parse_millis timestamp ''%Y-%m-%d %H:%M:%S%.3f'' of
                 Some ts \<Rightarrow> ts
               | None \<Rightarrow>
                   (case parse_millis timestamp ''%Y-%m-%d %H:%M:%S'' of
                      Some ts \<Rightarrow> ts
                    | None \<Rightarrow> 0))"

section \<open>Positions of table rows\<close>

definition get_default_order_col_values :: "rdb_tb_meta \<Rightarrow> col_values" where
  "get_default_order_col_values m = fold (\<lambda>col acc. AList.update col NoneV acc) (tm_order_cols m) []"

definition has_col :: "rdb_tb_meta \<Rightarrow> string \<Rightarrow> bool" where
  "has_col m col \<longleftrightarrow> col \<in> set (tm_cols m)"

definition is_col_nullable :: "rdb_tb_meta \<Rightarrow> string \<Rightarrow> bool" where
  "is_col_nullable m col \<longleftrightarrow> col \<in> set (tm_nullable_cols m)"

fun order_col_values :: "ext \<Rightarrow> col_values \<Rightarrow> string list \<Rightarrow> (string \<times> string option) list option" where
  "order_col_values e vs [] = Some []" |
  "order_col_values e vs (col # cols) =
     (case map_of vs col of
        Some v \<Rightarrow> map_option ((#) (col, to_option_string e v)) (order_col_values e vs cols)
      | None \<Rightarrow> None)"

definition build_position :: "ext \<Rightarrow> rdb_tb_meta \<Rightarrow> db_type \<Rightarrow> col_values \<Rightarrow> position" where
  "build_position e m db vs =
     (case order_col_values e vs (tm_order_cols m) of
        None \<Rightarrow> PosNone
      | Some ocvs \<Rightarrow>
          PosRdbSnapshot (db_type_to_string db) (tm_schema m) (tm_tb m)
            (case ocvs of
               [] \<Rightarrow> None
             | [x] \<Rightarrow> Some (OrderSingle x)
             | _ \<Rightarrow> Some (OrderComposite ocvs)))"

definition build_position_for_partition ::
  "ext \<Rightarrow> rdb_tb_meta \<Rightarrow> db_type \<Rightarrow> string \<Rightarrow> col_value \<Rightarrow> position" where
  "build_position_for_partition e m db partition_col v =
     (if \<not> has_col m partition_col then PosNone
      else PosRdbSnapshot (db_type_to_string db) (tm_schema m) (tm_tb m)
             (Some (OrderSingle (partition_col, to_option_string e v))))"

section \<open>Items\<close>

record s3_file_meta =
  s3_schema :: string
  s3_tb :: string
  s3_insert_only :: bool
  s3_meta_file_name :: string
  s3_data_file_name :: string
  s3_data_size :: nat
  s3_row_count :: nat
  s3_last_position :: position
  s3_sequencer_id :: int
  s3_push_epoch :: int
  s3_push_sequence :: u64

datatype dt_data =
    DStruct struct_data
  | DDdl ddl_data
  | DDcl dcl_data
  | DDml row_data
  | DBegin
  | DCommit string
  | DHeartbeat
  | DRedis redis_entry
  | DFoxlake s3_file_meta

record dt_item =
  it_dt_data :: dt_data
  it_position :: position
  it_data_origin_node :: string

datatype row_sql_type = SqlDML | SqlDDL | SqlDCL

definition is_begin :: "dt_data \<Rightarrow> bool" where
  "is_begin d = (case d of DBegin \<Rightarrow> True | _ \<Rightarrow> False)"

definition is_commit :: "dt_data \<Rightarrow> bool" where
  "is_commit d = (case d of DCommit _ \<Rightarrow> True | _ \<Rightarrow> False)"

definition is_ddl :: "dt_data \<Rightarrow> bool" where
  "is_ddl d = (case d of DDdl _ \<Rightarrow> True | _ \<Rightarrow> False)"

definition is_dcl :: "dt_data \<Rightarrow> bool" where
  "is_dcl d = (case d of DDcl _ \<Rightarrow> True | _ \<Rightarrow> False)"

definition get_row_sql_type :: "dt_item \<Rightarrow> row_sql_type" where
  "get_row_sql_type item =
     (case it_dt_data item of DDdl _ \<Rightarrow> SqlDDL | DDcl _ \<Rightarrow> SqlDCL | _ \<Rightarrow> SqlDML)"

fun dt_data_get_data_size :: "dt_data \<Rightarrow> nat" where
  "dt_data_get_data_size (DDml row_data) = rd_data_size row_data" |
  "dt_data_get_data_size (DDcl dcl_data) = dcl_get_malloc_size dcl_data" |
  "dt_data_get_data_size (DDdl ddl_data) = ddl_get_malloc_size ddl_data" |
  "dt_data_get_data_size (DRedis entry) = redis_entry_get_data_malloc_size entry" |
  "dt_data_get_data_size (DFoxlake file_meta) = s3_data_size file_meta" |
  "dt_data_get_data_size _ = 0"

definition item_size :: "dt_item \<Rightarrow> nat" where
  "item_size item = dt_data_get_data_size (it_dt_data item)"

definition get_data_count :: "dt_data \<Rightarrow> nat" where
  "get_data_count d = (case d of DFoxlake file_meta \<Rightarrow> s3_row_count file_meta | _ \<Rightarrow> 1)"

end
