(* ===== verification/Target.thy ===== *)
theory Target
  imports Row_Data
begin

text \<open>
  What a target table does with the rows it is sent: the abstract specification against
  which the mergers, the partitioners and the parallelizers are verified, and the
  interleavings in which concurrent sinker tasks may run.

  A table is a map from the identity of a row, the textual values of its id columns, to
  its column values. An insert is an upsert (the sinkers write \<open>REPLACE\<close> or
  \<open>ON CONFLICT DO UPDATE\<close>), a delete removes the row of its before image, and an update
  rewrites the columns its after image carries, leaving \<open>Unavailable\<close> ones untouched.

  Rows are told apart by their id columns alone: a table here has no further unique keys. Theory
  \<open>Unique_Keys\<close> adds them, for the partitioner, whose condition is about them.
\<close>

section \<open>Tables\<close>

type_synonym id_key = "string option option list"
type_synonym row_image = "string \<rightharpoonup> col_value"
type_synonym table = "id_key \<rightharpoonup> row_image"
type_synonym database = "string \<times> string \<Rightarrow> table"

definition id_key :: "ext \<Rightarrow> string list \<Rightarrow> row_image \<Rightarrow> id_key" where
  "id_key e cols m = map (\<lambda>c. map_option (to_option_string e) (m c)) cols"

definition opt_image :: "col_values option \<Rightarrow> row_image" where
  "opt_image m = map_of (image_cols m)"

definition available :: "row_image \<Rightarrow> row_image" where
  "available m = (\<lambda>c. case m c of Some v \<Rightarrow> if is_unavailable v then None else Some v | None \<Rightarrow> None)"

definition apply_row :: "ext \<Rightarrow> string list \<Rightarrow> table \<Rightarrow> row_data \<Rightarrow> table" where
  "apply_row e cols t r =
     (case rd_row_type r of
        RInsert \<Rightarrow> t(id_key e cols (opt_image (rd_after r)) \<mapsto> opt_image (rd_after r))
      | RDelete \<Rightarrow> t(id_key e cols (opt_image (rd_before r)) := None)
      | RUpdate \<Rightarrow>
          (let kb = id_key e cols (opt_image (rd_before r)) in
           case t kb of
             None \<Rightarrow> t
           | Some old \<Rightarrow>
               (let new = old ++ available (opt_image (rd_after r))
                in (t(kb := None))(id_key e cols new \<mapsto> new))))"

definition apply_rows :: "ext \<Rightarrow> string list \<Rightarrow> table \<Rightarrow> row_data list \<Rightarrow> table" where
  "apply_rows e cols = foldl (apply_row e cols)"

definition row_table :: "row_data \<Rightarrow> string \<times> string" where
  "row_table r = (rd_schema r, rd_tb r)"

definition apply_db :: "ext \<Rightarrow> (string \<times> string \<Rightarrow> string list) \<Rightarrow> database \<Rightarrow> row_data \<Rightarrow> database" where
  "apply_db e idc db r = db(row_table r := apply_row e (idc (row_table r)) (db (row_table r)) r)"

definition row_image_of :: "row_data \<Rightarrow> row_image" where
  "row_image_of r = opt_image (if rd_row_type r = RInsert then rd_after r else rd_before r)"

definition rkey :: "ext \<Rightarrow> string list \<Rightarrow> row_data \<Rightarrow> id_key" where
  "rkey e cols r = id_key e cols (row_image_of r)"

lemma row_table_new [simp]: "row_table (row_data_new e s t rt b a) = (s, t)"
  by (simp add: row_table_def row_data_new_def Let_def)

lemma apply_rows_simps [simp]:
  "apply_rows e cols t [] = t"
  "apply_rows e cols t (r # rs) = apply_rows e cols (apply_row e cols t r) rs"
  "apply_rows e cols t (rs @ qs) = apply_rows e cols (apply_rows e cols t rs) qs"
  by (simp_all add: apply_rows_def)

lemma apply_db_filter:
  "foldl (apply_db e idc) db rs tb =
     apply_rows e (idc tb) (db tb) (filter (\<lambda>r. row_table r = tb) rs)"
  by (induction rs arbitrary: db) (auto simp: apply_db_def)

section \<open>Rows a stream may carry\<close>

text \<open>
  Values whose equality in the program is equality: floats (two zeros, NaN), JSON values
  and documents are left out, as their \<open>PartialEq\<close> is not.
\<close>

definition plain :: "col_value \<Rightarrow> bool" where
  "plain v = (case v of FloatV _ \<Rightarrow> False | DoubleV _ \<Rightarrow> False | Json3 _ \<Rightarrow> False | MongoDoc _ \<Rightarrow> False | _ \<Rightarrow> True)"

definition has_plain_key :: "string list \<Rightarrow> col_values option \<Rightarrow> bool" where
  "has_plain_key cols m =
     (case m of None \<Rightarrow> False
      | Some vs \<Rightarrow> list_all (\<lambda>c. case map_of vs c of Some v \<Rightarrow> plain v | None \<Rightarrow> False) cols)"

definition wf_row :: "string list \<Rightarrow> row_data \<Rightarrow> bool" where
  "wf_row cols r =
     (case rd_row_type r of
        RInsert \<Rightarrow> has_plain_key cols (rd_after r)
      | RDelete \<Rightarrow> has_plain_key cols (rd_before r)
      | RUpdate \<Rightarrow> has_plain_key cols (rd_before r) \<and> rd_after r \<noteq> None)"

text \<open>
  A stream is consistent with a table when every update finds the row it changes and its
  after image covers the columns of that row.
\<close>

definition row_consistent :: "ext \<Rightarrow> string list \<Rightarrow> table \<Rightarrow> row_data \<Rightarrow> bool" where
  "row_consistent e cols t r \<longleftrightarrow>
     (rd_row_type r = RUpdate \<longrightarrow>
        (case t (id_key e cols (opt_image (rd_before r))) of
           None \<Rightarrow> False
         | Some old \<Rightarrow> dom old \<subseteq> dom (opt_image (rd_after r))))"

fun consistent :: "ext \<Rightarrow> string list \<Rightarrow> table \<Rightarrow> row_data list \<Rightarrow> bool" where
  "consistent e cols t [] = True" |
  "consistent e cols t (r # rs) =
     (row_consistent e cols t r \<and> consistent e cols (apply_row e cols t r) rs)"

lemma consistent_append [simp]:
  "consistent e cols t (rs @ qs) =
     (consistent e cols t rs \<and> consistent e cols (apply_rows e cols t rs) qs)"
  by (induction rs arbitrary: t) auto

lemma col_eq_plain: "plain a \<Longrightarrow> col_eq e a b \<longleftrightarrow> a = b"
  unfolding plain_def col_eq_def by (cases a) (simp_all split: col_value.splits)

section \<open>Effect on one key\<close>

text \<open>
  A row that does not change its key touches one entry of the table; the content of an
  entry is then determined by the sub-stream of the rows with its key.
\<close>

definition keeps_key :: "ext \<Rightarrow> string list \<Rightarrow> row_data \<Rightarrow> bool" where
  "keeps_key e cols r \<longleftrightarrow>
     (rd_row_type r = RUpdate \<longrightarrow>
        (\<forall>old. id_key e cols old = rkey e cols r \<longrightarrow>
           id_key e cols (old ++ available (opt_image (rd_after r))) = rkey e cols r))"

definition table_ok :: "ext \<Rightarrow> string list \<Rightarrow> table \<Rightarrow> bool" where
  "table_ok e cols t \<longleftrightarrow> (\<forall>k m. t k = Some m \<longrightarrow> id_key e cols m = k)"

definition entry_step :: "row_data \<Rightarrow> row_image option \<Rightarrow> row_image option" where
  "entry_step r v =
     (case rd_row_type r of
        RInsert \<Rightarrow> Some (opt_image (rd_after r))
      | RDelete \<Rightarrow> None
      | RUpdate \<Rightarrow> map_option (\<lambda>old. old ++ available (opt_image (rd_after r))) v)"

lemma rkey_row_type:
  "rd_row_type r = RInsert \<Longrightarrow> rkey e cols r = id_key e cols (opt_image (rd_after r))"
  "rd_row_type r \<noteq> RInsert \<Longrightarrow> rkey e cols r = id_key e cols (opt_image (rd_before r))"
  by (simp_all add: rkey_def row_image_of_def)

lemma apply_row_table_ok:
  "table_ok e cols t \<Longrightarrow> table_ok e cols (apply_row e cols t r)"
  by (auto simp: table_ok_def apply_row_def Let_def split: row_type.splits option.splits)

lemma apply_row_keeps:
  assumes "table_ok e cols t" "keeps_key e cols r"
  shows "apply_row e cols t r = t(rkey e cols r := entry_step r (t (rkey e cols r)))"
proof (cases "rd_row_type r")
  case RUpdate
  have "id_key e cols old = rkey e cols r" if "t (rkey e cols r) = Some old" for old
    using assms(1) that by (auto simp: table_ok_def)
  with assms(2) RUpdate show ?thesis
    by (auto simp: apply_row_def entry_step_def keeps_key_def rkey_row_type Let_def
        split: option.splits)
qed (auto simp: apply_row_def entry_step_def rkey_row_type)

lemma apply_rows_entry:
  assumes "table_ok e cols t" "\<forall>r\<in>set rs. keeps_key e cols r"
  shows "apply_rows e cols t rs k =
    foldl (\<lambda>v r. entry_step r v) (t k) (filter (\<lambda>r. rkey e cols r = k) rs)"
  using assms
proof (induction rs arbitrary: t)
  case (Cons r rs)
  have ok: "table_ok e cols (apply_row e cols t r)"
    using Cons.prems(1) by (rule apply_row_table_ok)
  have step: "apply_row e cols t r k = (if rkey e cols r = k then entry_step r (t k) else t k)"
    using Cons.prems by (simp add: apply_row_keeps)
  show ?case using Cons.IH[OF ok] Cons.prems(2) by (simp add: step)
qed simp

section \<open>Runs of deletes and of inserts\<close>

lemma apply_row_by_key:
  "rd_row_type r = RDelete \<Longrightarrow> apply_row e cols t r = t(rkey e cols r := None)"
  "rd_row_type r = RInsert \<Longrightarrow> apply_row e cols t r = t(rkey e cols r \<mapsto> opt_image (rd_after r))"
  by (simp_all add: apply_row_def rkey_row_type)

lemma apply_row_cong:
  assumes "rd_row_type u = rd_row_type r" "rd_before u = rd_before r" "rd_after u = rd_after r"
  shows "apply_row e cols t u = apply_row e cols t r"
  unfolding apply_row_def assms ..

lemma apply_deletes:
  "\<forall>r\<in>set D. rd_row_type r = RDelete \<Longrightarrow>
   apply_rows e cols t D k = (if \<exists>r\<in>set D. rkey e cols r = k then None else t k)"
proof (induction D arbitrary: t)
  case (Cons r D)
  then have "apply_row e cols t r k = (if rkey e cols r = k then None else t k)"
    by (simp add: apply_row_by_key)
  with Cons show ?case by simp
qed simp

lemma apply_inserts_other:
  "\<forall>r\<in>set I. rd_row_type r = RInsert \<and> rkey e cols r \<noteq> k \<Longrightarrow> apply_rows e cols t I k = t k"
  by (induction I arbitrary: t) (auto simp: apply_row_by_key)

lemma apply_inserts:
  assumes "\<forall>r\<in>set I. rd_row_type r = RInsert" "inj_on (rkey e cols) (set I)" "r \<in> set I"
  shows "apply_rows e cols t I (rkey e cols r) = Some (opt_image (rd_after r))"
  using assms
proof (induction I arbitrary: t)
  case (Cons x I)
  show ?case
  proof (cases "r \<in> set I")
    case True
    then show ?thesis using Cons by simp
  next
    case False
    then have "r = x" "\<forall>r'\<in>set I. rd_row_type r' = RInsert \<and> rkey e cols r' \<noteq> rkey e cols r"
      using Cons.prems by (auto simp: inj_on_def)
    then show ?thesis using Cons.prems(1)
      by (simp add: apply_inserts_other apply_row_by_key)
  qed
qed simp

lemma apply_inserts_perm:
  assumes "\<forall>r\<in>set I. rd_row_type r = RInsert" "inj_on (rkey e cols) (set I)" "set J = set I"
  shows "apply_rows e cols t J = apply_rows e cols t I"
proof
  fix k
  show "apply_rows e cols t J k = apply_rows e cols t I k"
  proof (cases "\<exists>r\<in>set I. rkey e cols r = k")
    case True
    then obtain r where "r \<in> set I" "rkey e cols r = k" by blast
    with apply_inserts[of I e cols r t] apply_inserts[of J e cols r t] assms show ?thesis by simp
  next
    case False
    then show ?thesis using assms by (simp add: apply_inserts_other)
  qed
qed

section \<open>Interleavings\<close>

text \<open>
  The sinker tasks of one phase run concurrently; each performs its rows in order, so the
  target sees an interleaving of the lists.
\<close>

inductive interleave :: "'a list list \<Rightarrow> 'a list \<Rightarrow> bool" where
  done_all: "\<forall>xs\<in>set xss. xs = [] \<Longrightarrow> interleave xss []" |
  step_one: "i < length xss \<Longrightarrow> xss ! i = x # xs \<Longrightarrow> interleave (xss[i := xs]) ys \<Longrightarrow>
    interleave xss (x # ys)"

lemma mset_concat_update:
  assumes "i < length xss" "xss ! i = x # xs"
  shows "mset (concat xss) = add_mset x (mset (concat (xss[i := xs])))"
  using assms
proof (induction xss arbitrary: i)
  case (Cons ys xss)
  then show ?case by (cases i) auto
qed simp

lemma interleave_mset: "interleave xss ys \<Longrightarrow> mset ys = mset (concat xss)"
proof (induction rule: interleave.induct)
  case (done_all xss)
  then have "concat xss = []" by simp
  then show ?case by simp
next
  case (step_one i xss x xs ys)
  then show ?case by (simp add: mset_concat_update)
qed

lemma interleave_set: "interleave xss ys \<Longrightarrow> set ys = \<Union> (set ` set xss)"
  by (metis interleave_mset set_concat set_mset_mset)

lemma interleave_filter_one:
  assumes "interleave xss ys"
    and "j < length xss"
    and "\<And>i. i < length xss \<Longrightarrow> i \<noteq> j \<Longrightarrow> filter P (xss ! i) = []"
  shows "filter P ys = filter P (xss ! j)"
  using assms
proof (induction rule: interleave.induct)
  case (done_all xss)
  then show ?case by (metis filter.simps(1) nth_mem)
next
  case (step_one i xss x xs ys)
  have "filter P ys = filter P (xss[i := xs] ! j)"
  proof (rule step_one.IH)
    fix i' assume *: "i' < length (xss[i := xs])" "i' \<noteq> j"
    with step_one.prems(2) have "filter P (xss ! i') = []" by simp
    with step_one.hyps(1,2) * show "filter P (xss[i := xs] ! i') = []"
      by (cases "i' = i") (auto split: if_splits)
  qed (use step_one.prems in simp)
  moreover have "\<not> P x" if "i \<noteq> j"
    using step_one.prems(2)[OF step_one.hyps(1) that] step_one.hyps(2) by (auto split: if_splits)
  ultimately show ?case using step_one.hyps(1,2) by (cases "i = j") simp_all
qed

lemma interleave_filter_none:
  assumes "interleave xss ys" and "\<And>xs. xs \<in> set xss \<Longrightarrow> filter P xs = []"
  shows "filter P ys = []"
  using interleave_set[OF assms(1)] assms(2) by (fastforce simp: filter_empty_conv)

end
