(* ===== verification/Samples.thy ===== *)
theory Samples
  imports Dt_Data
begin

text \<open>
  Concrete values on which the theorems are instantiated: an environment with a hash that
  maps strings of equal length to the same number (so that collisions occur), a table with
  the key column \<open>id\<close>, and rows of it.
\<close>

definition sample_ext :: ext where
  "sample_ext =
     \<lparr>hash_opt_string = (\<lambda>s. case s of None \<Rightarrow> 1 | Some x \<Rightarrow> of_nat (length x) + 1),
      hash_string = (\<lambda>s. of_nat (length s)),
      f32_to_string = (\<lambda>_. ''f32''), f64_to_string = (\<lambda>_. ''f64''),
      json_to_string = (\<lambda>_. ''json''), json_eq = (=), doc_eq = (=),
      into_relaxed_extjson = (\<lambda>_. JNull), doc_to_string = (\<lambda>_. ''doc''),
      bson_array_to_string = (\<lambda>_. ''[]''), bson_datetime_to_string = (\<lambda>_. ''datetime''),
      bson_decimal_to_string = (\<lambda>_. ''0''), bson_dbpointer_debug = (\<lambda>_ _. ''DbPointer''),
      size_of_document = 88, size_of_bson = 112\<rparr>"

definition sample_meta :: "string \<Rightarrow> string \<Rightarrow> rdb_tb_meta" where
  "sample_meta schema tb =
     \<lparr>tm_schema = schema, tm_tb = tb, tm_cols = [''id'', ''v''], tm_nullable_cols = [],
      tm_col_origin_type_map = [], tm_key_map = [(''primary'', [''id''])],
      tm_order_cols = [''id''], tm_partition_col = ''id'', tm_id_cols = [''id''],
      tm_foreign_keys = [], tm_ref_by_foreign_keys = []\<rparr>"

definition sample_tb_meta :: "string \<Rightarrow> string \<Rightarrow> rdb_tb_meta res" where
  "sample_tb_meta schema tb = Inr (sample_meta schema tb)"

definition sample_cols :: "string \<Rightarrow> string \<Rightarrow> col_values" where
  "sample_cols i v = [(''id'', StringV i), (''v'', StringV v)]"

definition sample_insert :: "string \<Rightarrow> string \<Rightarrow> string \<Rightarrow> string \<Rightarrow> row_data" where
  "sample_insert schema tb i v =
     row_data_new sample_ext schema tb RInsert None (Some (sample_cols i v))"

definition sample_delete :: "string \<Rightarrow> string \<Rightarrow> string \<Rightarrow> string \<Rightarrow> row_data" where
  "sample_delete schema tb i v =
     row_data_new sample_ext schema tb RDelete (Some (sample_cols i v)) None"

definition sample_update ::
  "string \<Rightarrow> string \<Rightarrow> string \<Rightarrow> string \<Rightarrow> string \<Rightarrow> string \<Rightarrow> row_data" where
  "sample_update schema tb i v i' v' =
     row_data_new sample_ext schema tb RUpdate (Some (sample_cols i v)) (Some (sample_cols i' v'))"

definition sample_item :: "dt_data \<Rightarrow> dt_item" where
  "sample_item d = \<lparr>it_dt_data = d, it_position = PosNone, it_data_origin_node = []\<rparr>"

definition sample_ddl :: ddl_data where
  "sample_ddl =
     \<lparr>dd_default_schema = ''d'', dd_query = ''truncate table t'', dd_ddl_type = DdlTruncateTable,
      dd_db_type = Mysql, dd_statement = MysqlTruncateTable [] ''t'' []\<rparr>"

lemmas sample_defs = sample_ext_def sample_meta_def sample_tb_meta_def sample_cols_def
  sample_insert_def sample_delete_def sample_update_def

lemma sample_meta_simps [simp]:
  "tm_id_cols (sample_meta s t) = [''id'']" "tm_key_map (sample_meta s t) = [(''primary'', [''id''])]"
  "tm_partition_col (sample_meta s t) = ''id''" "sample_tb_meta s t = Inr (sample_meta s t)"
  by (simp_all add: sample_meta_def sample_tb_meta_def)

lemma sample_row_simps [simp]:
  "rd_schema (sample_insert s t i v) = s" "rd_tb (sample_insert s t i v) = t"
  "rd_row_type (sample_insert s t i v) = RInsert" "rd_after (sample_insert s t i v) = Some (sample_cols i v)"
  "rd_before (sample_insert s t i v) = None"
  "rd_schema (sample_delete s t i v) = s" "rd_tb (sample_delete s t i v) = t"
  "rd_row_type (sample_delete s t i v) = RDelete" "rd_before (sample_delete s t i v) = Some (sample_cols i v)"
  "rd_after (sample_delete s t i v) = None"
  "rd_schema (sample_update s t i v i' v') = s" "rd_tb (sample_update s t i v i' v') = t"
  "rd_row_type (sample_update s t i v i' v') = RUpdate"
  "rd_before (sample_update s t i v i' v') = Some (sample_cols i v)"
  "rd_after (sample_update s t i v i' v') = Some (sample_cols i' v')"
  by (simp_all add: sample_insert_def sample_delete_def sample_update_def row_data_new_def Let_def)

lemma sample_hash_simps [simp]:
  "hash_opt_string sample_ext (Some x) = of_nat (length x) + 1" "hash_opt_string sample_ext None = 1"
  by (simp_all add: sample_ext_def)

end
