(* ===== verification/Parallelizer.thy ===== *)
theory Parallelizer
  imports Dt_Data Target Samples
begin

text \<open>
  The parallelizers that do not merge: \<open>dt-parallelizer/src/lib.rs\<close> (\<open>DataSize\<close>),
  \<open>base_parallelizer.rs\<close>, \<open>serial_parallelizer.rs\<close>, \<open>snapshot_parallelizer.rs\<close> and
  \<open>table_parallelizer.rs\<close>.

  The queue a parallelizer drains is the list of the items its pops return before the
  first pop that finds it empty. A \<open>sink\<close> operation is modelled by the tasks it spawns: the
  index of the sinker and the calls, each with its rows and its \<open>batch\<close> flag, that the task
  performs in order. The tasks of one \<open>JoinSet\<close> run concurrently.

  Two contracts are stated as locales: \<open>drainer\<close>, what the pipeline relies on when it
  drains, and \<open>keyed_split\<close>, what makes concurrent sinking of the parts of a batch agree
  with sinking it in order.
\<close>

section \<open>Sizes and tasks\<close>

record data_size =
  ds_count :: nat
  ds_bytes :: nat

definition data_size_default :: data_size where
  "data_size_default = \<lparr>ds_count = 0, ds_bytes = 0\<rparr>"

definition data_size_add :: "data_size \<Rightarrow> data_size \<Rightarrow> data_size" where
  "data_size_add a b = \<lparr>ds_count = ds_count a + ds_count b, ds_bytes = ds_bytes a + ds_bytes b\<rparr>"

definition add_count :: "nat \<Rightarrow> data_size \<Rightarrow> data_size" where
  "add_count n a = a\<lparr>ds_count := ds_count a + n\<rparr>"

definition add_bytes :: "nat \<Rightarrow> data_size \<Rightarrow> data_size" where
  "add_bytes n a = a\<lparr>ds_bytes := ds_bytes a + n\<rparr>"

definition size_of_list :: "('a \<Rightarrow> nat) \<Rightarrow> 'a list \<Rightarrow> data_size" where
  "size_of_list f xs = \<lparr>ds_count = length xs, ds_bytes = sum_list (map f xs)\<rparr>"

type_synonym 'a task = "nat \<times> ('a list \<times> bool) list"

definition task_items :: "'a task \<Rightarrow> 'a list" where
  "task_items t = concat (map fst (snd t))"

section \<open>BaseParallelizer\<close>

record base_parallelizer =
  popped_data :: "dt_item list"
  record_sizes :: "(nat \<times> nat) list"

definition counter_add :: "dt_item \<Rightarrow> nat \<times> nat \<Rightarrow> nat \<times> nat" where
  "counter_add item c = (fst c + item_size item, snd c + get_data_count (it_dt_data item))"

definition update_monitor :: "nat \<times> nat \<Rightarrow> base_parallelizer \<Rightarrow> base_parallelizer" where
  "update_monitor c b = (if fst c > 0 then b\<lparr>record_sizes := record_sizes b @ [c]\<rparr> else b)"

definition same_batch :: "dt_item \<Rightarrow> dt_item \<Rightarrow> bool" where
  "same_batch a b \<longleftrightarrow>
     get_row_sql_type a = get_row_sql_type b \<and> it_data_origin_node a = it_data_origin_node b"

fun drain_loop ::
  "dt_item list \<Rightarrow> nat \<times> nat \<Rightarrow> dt_item list \<Rightarrow> dt_item list \<times> (nat \<times> nat) \<times> dt_item list \<times> dt_item list" where
  "drain_loop data c [] = (data, c, [], [])" |
  "drain_loop data c (item # queue) =
     (if data = [] \<or> same_batch (hd data) item
      then drain_loop (data @ [item]) (counter_add item c) queue
      else (data, counter_add item c, [item], queue))"

definition base_drain ::
  "base_parallelizer \<Rightarrow> dt_item list \<Rightarrow> dt_item list \<times> base_parallelizer \<times> dt_item list" where
  "base_drain b queue =
     (case drain_loop (popped_data b) (0, 0) queue of
        (data, c, back, queue') \<Rightarrow> (data, update_monitor c (b\<lparr>popped_data := back\<rparr>), queue'))"

fun drain_by_count_loop ::
  "nat \<Rightarrow> dt_item list \<Rightarrow> nat \<times> nat \<Rightarrow> dt_item list \<Rightarrow> dt_item list \<times> (nat \<times> nat) \<times> dt_item list" where
  "drain_by_count_loop max_count data c [] = (data, c, [])" |
  "drain_by_count_loop max_count data c (item # queue) =
     (let data' = data @ [item]; c' = counter_add item c
      in if length data' \<ge> max_count then (data', c', queue)
         else drain_by_count_loop max_count data' c' queue)"

definition drain_by_count ::
  "nat \<Rightarrow> base_parallelizer \<Rightarrow> dt_item list \<Rightarrow> dt_item list \<times> base_parallelizer \<times> dt_item list" where
  "drain_by_count max_count b queue =
     (case drain_by_count_loop max_count [] (0, 0) queue of
        (data, c, queue') \<Rightarrow> (data, update_monitor c b, queue'))"

fun sink_from :: "nat \<Rightarrow> nat \<Rightarrow> bool \<Rightarrow> nat \<Rightarrow> 'a list list \<Rightarrow> 'a task list res" where
  "sink_from sinkers parallel_size batch i [] = Inr []" |
  "sink_from sinkers parallel_size batch i (data # rest) =
     (if parallel_size = 0 then Inl (Panic ''attempt to calculate the remainder with a divisor of zero'')
      else if i mod parallel_size < sinkers
      then map_res ((#) (i mod parallel_size, [(data, batch)])) (sink_from sinkers parallel_size batch (Suc i) rest)
      else Inl (Panic ''index out of bounds''))"

definition base_sink_dml :: "nat \<Rightarrow> nat \<Rightarrow> bool \<Rightarrow> row_data list list \<Rightarrow> row_data task list res" where
  "base_sink_dml sinkers parallel_size batch sub_data_items =
     sink_from sinkers parallel_size batch 0 sub_data_items"

definition base_sink_ddl :: "nat \<Rightarrow> nat \<Rightarrow> bool \<Rightarrow> ddl_data list list \<Rightarrow> ddl_data task list res" where
  "base_sink_ddl sinkers parallel_size batch sub_data_items =
     sink_from sinkers parallel_size batch 0 sub_data_items"

definition base_sink_dcl :: "nat \<Rightarrow> nat \<Rightarrow> bool \<Rightarrow> dcl_data list list \<Rightarrow> dcl_data task list res" where
  "base_sink_dcl sinkers parallel_size batch sub_data_items =
     sink_from sinkers parallel_size batch 0 sub_data_items"

definition base_sink_raw :: "nat \<Rightarrow> nat \<Rightarrow> bool \<Rightarrow> dt_item list list \<Rightarrow> dt_item task list res" where
  "base_sink_raw sinkers parallel_size batch sub_data_items =
     sink_from sinkers parallel_size batch 0 sub_data_items"

section \<open>SnapshotParallelizer\<close>

fun snapshot_loop :: "nat \<Rightarrow> 'a list list \<Rightarrow> nat \<Rightarrow> 'a list \<Rightarrow> 'a list list res" where
  "snapshot_loop avg_size subs i [] = Inr subs" |
  "snapshot_loop avg_size subs i (item # items) =
     (if i < length subs then
        (let subs' = subs[i := subs ! i @ [item]]
         in snapshot_loop avg_size subs' (if length (subs' ! i) \<ge> avg_size then i + 1 else i) items)
      else Inl (Panic ''index out of bounds''))"

definition snapshot_partition :: "'a list \<Rightarrow> nat \<Rightarrow> 'a list list res" where
  "snapshot_partition data parallele_size =
     (if parallele_size \<le> 1 then Inr [data]
      else snapshot_loop (length data div parallele_size + 1) (replicate parallele_size []) 0 data)"

definition snapshot_sink_dml ::
  "nat \<Rightarrow> nat \<Rightarrow> row_data list \<Rightarrow> (row_data task list \<times> data_size) res" where
  "snapshot_sink_dml sinkers parallel_size data =
     bind_res (snapshot_partition data parallel_size) (\<lambda>sub_datas.
       map_res (\<lambda>tasks. (tasks, size_of_list rd_data_size data))
         (base_sink_dml sinkers parallel_size True sub_datas))"

definition snapshot_sink_raw ::
  "nat \<Rightarrow> nat \<Rightarrow> dt_item list \<Rightarrow> (dt_item task list \<times> data_size) res" where
  "snapshot_sink_raw sinkers parallel_size data =
     bind_res (snapshot_partition data parallel_size) (\<lambda>sub_datas.
       map_res (\<lambda>tasks. (tasks, size_of_list item_size data))
         (base_sink_raw sinkers parallel_size True sub_datas))"

section \<open>TableParallelizer\<close>

definition full_tb :: "row_data \<Rightarrow> string" where
  "full_tb r = rd_schema r @ ''.'' @ rd_tb r"

definition push_group :: "'k \<Rightarrow> 'a \<Rightarrow> ('k, 'a list) hash_map \<Rightarrow> ('k, 'a list) hash_map" where
  "push_group k x m =
     (case map_of m k of
        Some sub_data \<Rightarrow> AList.update k (sub_data @ [x]) m
      | None \<Rightarrow> AList.update k [x] m)"

definition partition_dml :: "row_data list \<Rightarrow> row_data list list" where
  "partition_dml data = map snd (fold (\<lambda>r m. push_group (full_tb r) r m) data [])"

definition push_item :: "dt_item \<Rightarrow> (string, dt_item list) hash_map \<Rightarrow> (string, dt_item list) hash_map" where
  "push_item item m = (case it_dt_data item of DDml r \<Rightarrow> push_group (full_tb r) item m | _ \<Rightarrow> m)"

definition partition_raw :: "dt_item list \<Rightarrow> dt_item list list" where
  "partition_raw data = map snd (fold push_item data [])"

definition table_sink_dml ::
  "nat \<Rightarrow> nat \<Rightarrow> row_data list \<Rightarrow> (row_data task list \<times> data_size) res" where
  "table_sink_dml sinkers parallel_size data =
     map_res (\<lambda>tasks. (tasks, size_of_list rd_data_size data))
       (base_sink_dml sinkers parallel_size False (partition_dml data))"

definition table_sink_raw ::
  "nat \<Rightarrow> nat \<Rightarrow> dt_item list \<Rightarrow> (dt_item task list \<times> data_size) res" where
  "table_sink_raw sinkers parallel_size data =
     map_res (\<lambda>tasks. (tasks, size_of_list item_size data))
       (base_sink_raw sinkers parallel_size False (partition_raw data))"

definition table_sink_ddl ::
  "nat \<Rightarrow> ddl_data list \<Rightarrow> (ddl_data task list \<times> data_size) res" where
  "table_sink_ddl sinkers data =
     bind_res (traverse_res ddl_get_data_size data) (\<lambda>sizes.
       map_res (\<lambda>tasks. (tasks, \<lparr>ds_count = length data, ds_bytes = sum_list sizes\<rparr>))
         (base_sink_ddl sinkers 1 False [data]))"

section \<open>The contract of draining\<close>

fun drain_n ::
  "('s \<Rightarrow> dt_item list \<Rightarrow> dt_item list \<times> 's \<times> dt_item list) \<Rightarrow> nat \<Rightarrow> 's \<Rightarrow> dt_item list \<Rightarrow>
   dt_item list list \<times> 's \<times> dt_item list" where
  "drain_n drain 0 s q = ([], s, q)" |
  "drain_n drain (Suc n) s q =
     (case drain s q of (data, s', q') \<Rightarrow>
        (case drain_n drain n s' q' of (batches, s'', q'') \<Rightarrow> (data # batches, s'', q'')))"

locale drainer =
  fixes drain :: "'s \<Rightarrow> dt_item list \<Rightarrow> dt_item list \<times> 's \<times> dt_item list"
    and pending :: "'s \<Rightarrow> dt_item list"
  assumes drain_keeps: "drain s q = (data, s', q') \<Longrightarrow> data @ pending s' @ q' = pending s @ q"
    and drain_progress: "drain s q = (data, s', q') \<Longrightarrow> pending s @ q \<noteq> [] \<Longrightarrow> data \<noteq> []"
begin

lemma drain_n_keeps:
  "drain_n drain n s q = (batches, s', q') \<Longrightarrow> concat batches @ pending s' @ q' = pending s @ q"
proof (induction n arbitrary: s q batches s' q')
  case (Suc n)
  obtain data s1 q1 where d: "drain s q = (data, s1, q1)" by (metis prod_cases3)
  obtain bs s2 q2 where r: "drain_n drain n s1 q1 = (bs, s2, q2)" by (metis prod_cases3)
  from Suc.prems d r have [simp]: "batches = data # bs" "s' = s2" "q' = q2" by simp_all
  from Suc.IH[OF r] drain_keeps[OF d] show ?case by simp
qed simp

lemma drain_n_empties:
  assumes "length (pending s @ q) \<le> n" "drain_n drain n s q = (batches, s', q')"
  shows "concat batches = pending s @ q"
  using assms
proof (induction n arbitrary: s q batches s' q')
  case (Suc n)
  obtain data s1 q1 where d: "drain s q = (data, s1, q1)" by (metis prod_cases3)
  obtain bs s2 q2 where r: "drain_n drain n s1 q1 = (bs, s2, q2)" by (metis prod_cases3)
  from Suc.prems(2) d r have b: "batches = data # bs" by simp
  have keep: "data @ pending s1 @ q1 = pending s @ q" using drain_keeps[OF d] .
  have "length (pending s1 @ q1) \<le> n"
  proof (cases "pending s @ q = []")
    case True
    then have "pending s1 @ q1 = []" using keep by simp
    then show ?thesis by simp
  next
    case False
    from drain_progress[OF d False] have "0 < length data" by simp
    moreover have "length data + length (pending s1 @ q1) = length (pending s @ q)"
      using arg_cong[OF keep, of length] by simp
    ultimately show ?thesis using Suc.prems(1) by linarith
  qed
  from Suc.IH[OF this r] keep b show ?case by simp
qed simp

end

section \<open>The contract of splitting a batch\<close>

text \<open>
  A split is keyed when all the items of one key land in one part, in their order. Then no
  interleaving of the parts reorders items of the same key.
\<close>

locale keyed_split =
  fixes split :: "'a list \<Rightarrow> 'a list list res"
    and key :: "'a \<Rightarrow> 'k"
    and ok :: "'a list \<Rightarrow> bool"
  assumes split_total: "ok xs \<Longrightarrow> \<exists>xss. split xs = Inr xss"
    and split_mset: "ok xs \<Longrightarrow> split xs = Inr xss \<Longrightarrow> mset (concat xss) = mset xs"
    and split_key: "ok xs \<Longrightarrow> split xs = Inr xss \<Longrightarrow> x \<in> set xs \<Longrightarrow>
      \<exists>j<length xss. filter (\<lambda>y. key y = key x) (xss ! j) = filter (\<lambda>y. key y = key x) xs"
begin

lemma other_parts_empty:
  assumes "ok xs" "split xs = Inr xss" "j < length xss"
    and "filter P (xss ! j) = filter P xs" "i < length xss" "i \<noteq> j"
  shows "filter P (xss ! i) = []"
proof -
  have "mset (filter P (concat xss)) = mset (filter P xs)"
    using split_mset[OF assms(1,2)] by simp
  then have "length (filter P (concat xss)) = length (filter P xs)" by (metis size_mset)
  then have *: "sum_list (map (\<lambda>zs. length (filter P zs)) xss) = length (filter P (xss ! j))"
    using assms(4) by (simp add: filter_concat_map length_concat comp_def)
  have "(\<Sum>k<length xss. length (filter P (xss ! k))) = length (filter P (xss ! j))"
    using * by (simp add: sum_list_sum_nth atLeast0LessThan)
  then have "(\<Sum>k\<in>{..<length xss} - {j}. length (filter P (xss ! k))) = 0"
    using assms(3) by (simp add: sum.remove[of "{..<length xss}" j])
  then have "length (filter P (xss ! i)) = 0" using assms(5,6) by simp
  then show ?thesis by simp
qed

lemma interleave_split_key:
  assumes "ok xs" "split xs = Inr xss" "interleave xss ys"
  shows "filter (\<lambda>y. key y = k) ys = filter (\<lambda>y. key y = k) xs"
proof (cases "\<exists>x\<in>set xs. key x = k")
  case True
  then obtain x where x: "x \<in> set xs" "key x = k" by blast
  from split_key[OF assms(1,2) x(1)] x(2) obtain j where
    j: "j < length xss" "filter (\<lambda>y. key y = k) (xss ! j) = filter (\<lambda>y. key y = k) xs" by auto
  from interleave_filter_one[OF assms(3) j(1), where P = "\<lambda>y. key y = k"]
    other_parts_empty[OF assms(1,2) j] j(2)
  show ?thesis by simp
next
  case False
  have "set ys = set xs"
    using interleave_mset[OF assms(3)] split_mset[OF assms(1,2)] by (metis mset_eq_setD)
  with False show ?thesis by (auto simp: filter_empty_conv)
qed

end

section \<open>Draining keeps the stream\<close>

lemma drain_loop_keeps:
  "drain_loop data c q = (data', c', back, q') \<Longrightarrow>
   data' @ back @ q' = data @ q \<and> length back \<le> 1 \<and> (data @ q \<noteq> [] \<longrightarrow> data' \<noteq> [])"
  by (induction data c q rule: drain_loop.induct) (auto split: if_splits)

lemma drain_loop_same_batch:
  "drain_loop data c q = (data', c', back, q') \<Longrightarrow>
   \<forall>x\<in>set data. same_batch (hd data) x \<Longrightarrow>
   (\<forall>x\<in>set data'. same_batch (hd data') x) \<and> (\<forall>x\<in>set back. \<not> same_batch (hd data') x)"
proof (induction data c q rule: drain_loop.induct)
  case (2 data c item queue)
  show ?case
  proof (cases "data = [] \<or> same_batch (hd data) item")
    case True
    with 2 show ?thesis by (cases data) (auto simp: same_batch_def)
  qed (use 2 in auto)
qed simp

lemma base_drain_popped:
  "base_drain b q = (data, b', q') \<Longrightarrow> \<exists>c. drain_loop (popped_data b) (0, 0) q = (data, c, popped_data b', q')"
  by (auto simp: base_drain_def update_monitor_def split: prod.splits if_splits)

interpretation base: drainer base_drain popped_data
proof
  fix s s' :: base_parallelizer and q data q'
  assume "base_drain s q = (data, s', q')"
  from base_drain_popped[OF this] obtain c where
    "drain_loop (popped_data s) (0, 0) q = (data, c, popped_data s', q')" ..
  from drain_loop_keeps[OF this]
  show "data @ popped_data s' @ q' = popped_data s @ q"
    and "popped_data s @ q \<noteq> [] \<Longrightarrow> data \<noteq> []" by auto
qed

section \<open>Tasks\<close>

lemma sink_from_Inr:
  "sink_from n p batch i subs = Inr tasks \<Longrightarrow>
   map task_items tasks = subs \<and> list_all (\<lambda>t. fst t < n \<and> fst t < p) tasks"
  by (induction n p batch i subs arbitrary: tasks rule: sink_from.induct)
    (auto simp: map_res_eq_Inr task_items_def split: if_splits)

lemma sink_from_total:
  "0 < p \<Longrightarrow> p \<le> n \<Longrightarrow> \<exists>tasks. sink_from n p batch i subs = Inr tasks"
proof (induction subs arbitrary: i)
  case (Cons s subs)
  from Cons.IH[OF Cons.prems, of "Suc i"] obtain ts where ts: "sink_from n p batch (Suc i) subs = Inr ts" ..
  have "i mod p < n" using Cons.prems mod_less_divisor[of p i] by linarith
  with ts Cons.prems show ?case by simp
qed simp

section \<open>The snapshot split\<close>

lemma concat_append_last:
  assumes "i < length subs" "\<forall>j. i < j \<and> j < length subs \<longrightarrow> subs ! j = []"
  shows "concat (subs[i := subs ! i @ xs]) = concat subs @ xs"
proof -
  have "concat (drop (Suc i) subs) = []"
    using assms(2) by (auto simp: concat_eq_Nil_conv in_set_conv_nth)
  moreover have "subs = take i subs @ subs ! i # drop (Suc i) subs"
    using assms(1) by (simp add: id_take_nth_drop)
  ultimately show ?thesis using assms(1)
    by (metis (no_types, lifting) append.assoc append_Nil2 concat.simps(2) concat_append
        upd_conv_take_nth_drop)
qed

definition snapshot_inv :: "nat \<Rightarrow> nat \<Rightarrow> 'a list list \<Rightarrow> nat \<Rightarrow> 'a list \<Rightarrow> bool" where
  "snapshot_inv avg p subs i dn \<longleftrightarrow>
     length subs = p \<and> i \<le> p \<and> concat subs = dn \<and>
     (\<forall>j<i. length (subs ! j) = avg) \<and>
     (i < p \<longrightarrow> length (subs ! i) < avg) \<and>
     (\<forall>j. i < j \<and> j < p \<longrightarrow> subs ! j = [])"

lemma snapshot_inv_full:
  assumes "snapshot_inv avg p subs p dn"
  shows "length dn = p * avg"
proof -
  have "length (concat subs) = (\<Sum>j<length subs. length (subs ! j))"
    by (simp add: length_concat sum_list_sum_nth atLeast0LessThan)
  also have "\<dots> = p * avg" using assms by (simp add: snapshot_inv_def)
  finally show ?thesis using assms by (simp add: snapshot_inv_def)
qed

lemma snapshot_inv_step:
  assumes "snapshot_inv avg p subs i dn" "i < p" "subs' = subs[i := subs ! i @ [x]]"
  shows "snapshot_inv avg p subs' (if length (subs' ! i) \<ge> avg then i + 1 else i) (dn @ [x])"
proof -
  have c: "concat subs' = dn @ [x]"
    using assms concat_append_last[of i subs "[x]"] by (simp add: snapshot_inv_def)
  have l: "length (subs' ! i) \<le> avg" "0 < avg" using assms by (auto simp: snapshot_inv_def)
  with assms c show ?thesis
    by (auto simp: snapshot_inv_def nth_list_update less_Suc_eq)
qed

lemma snapshot_loop_ok:
  assumes "snapshot_inv avg p subs i dn" "length dn + length items < p * avg"
  shows "\<exists>res j. snapshot_loop avg subs i items = Inr res \<and> snapshot_inv avg p res j (dn @ items)"
  using assms
proof (induction items arbitrary: subs i dn)
  case (Cons x items)
  have "i \<noteq> p" using snapshot_inv_full Cons.prems by fastforce
  then have i: "i < p" using Cons.prems(1) by (auto simp: snapshot_inv_def)
  then have len: "i < length subs" using Cons.prems(1) by (auto simp: snapshot_inv_def)
  from Cons.IH[OF snapshot_inv_step[OF Cons.prems(1) i refl, of x]] Cons.prems(2) len
  show ?case by (simp add: Let_def)
qed auto

lemma snapshot_partition_ok:
  "\<exists>subs. snapshot_partition data p = Inr subs \<and> concat subs = data \<and>
     length subs = max p 1 \<and> (\<forall>s\<in>set subs. p > 1 \<longrightarrow> length s \<le> length data div p + 1)"
proof (cases "p \<le> 1")
  case True
  then show ?thesis by (auto simp: snapshot_partition_def)
next
  case False
  define avg where "avg = length data div p + 1"
  have "snapshot_inv avg p (replicate p []) 0 ([] :: 'a list)"
    using False by (auto simp: snapshot_inv_def avg_def)
  moreover have "length ([] :: 'a list) + length data < p * avg"
    using False by (simp add: avg_def) (metis div_mult_mod_eq mod_less_divisor add.commute
        mult.commute nat_add_left_cancel_less zero_less_iff_neq_zero le_0_eq zero_le)
  ultimately obtain res j where r: "snapshot_loop avg (replicate p []) 0 data = Inr res"
    "snapshot_inv avg p res j data" using snapshot_loop_ok by fastforce
  have "length s \<le> avg" if "s \<in> set res" for s
  proof -
    from that obtain k where "k < length res" "s = res ! k" by (auto simp: in_set_conv_nth)
    with r(2) show ?thesis
      by (cases k j rule: linorder_cases) (auto simp: snapshot_inv_def less_imp_le)
  qed
  with r False show ?thesis by (auto simp: snapshot_partition_def avg_def snapshot_inv_def)
qed

section \<open>Grouping by table\<close>

lemma push_group_lookup:
  "map_of (push_group k x m) k' =
     (if k' = k then Some ((case map_of m k of Some xs \<Rightarrow> xs | None \<Rightarrow> []) @ [x]) else map_of m k')"
  by (auto simp: push_group_def split: option.splits)

lemma push_group_distinct:
  "distinct (map fst m) \<Longrightarrow> distinct (map fst (push_group k x m))"
  by (auto simp: push_group_def distinct_update split: option.splits)

lemma fold_push_group_distinct:
  "distinct (map fst m) \<Longrightarrow> distinct (map fst (fold (\<lambda>x m. push_group (f x) x m) xs m))"
  by (induction xs arbitrary: m) (auto simp: push_group_distinct)

lemma fold_push_group_lookup:
  "map_of (fold (\<lambda>x m. push_group (f x) x m) xs m) k =
     (if map_of m k = None \<and> filter (\<lambda>x. f x = k) xs = [] then None
      else Some ((case map_of m k of Some ys \<Rightarrow> ys | None \<Rightarrow> []) @ filter (\<lambda>x. f x = k) xs))"
  by (induction xs arbitrary: m) (auto simp: push_group_lookup split: option.splits)

lemma mset_concat_push_group:
  assumes "distinct (map fst m)"
  shows "mset (concat (map snd (push_group k x m))) = add_mset x (mset (concat (map snd m)))"
  using assms
proof (induction m)
  case (Cons p m)
  obtain a b where p: "p = (a, b)" by force
  show ?case
  proof (cases "a = k")
    case True
    with p show ?thesis by (simp add: push_group_def)
  next
    case False
    then have "push_group k x (p # m) = p # push_group k x m"
      using p by (auto simp: push_group_def split: option.splits)
    with Cons p show ?thesis by simp
  qed
qed (simp add: push_group_def)

lemma mset_concat_groups:
  "distinct (map fst m) \<Longrightarrow>
   mset (concat (map snd (fold (\<lambda>x m. push_group (f x) x m) xs m))) = mset (concat (map snd m)) + mset xs"
  by (induction xs arbitrary: m) (auto simp: mset_concat_push_group push_group_distinct)

interpretation table_split: keyed_split "\<lambda>data. Inr (partition_dml data)" full_tb "\<lambda>_. True"
proof
  fix xs :: "row_data list" and xss
  let ?m = "fold (\<lambda>r m. push_group (full_tb r) r m) xs []"
  assume "(Inr (partition_dml xs) :: row_data list list res) = Inr xss"
  then have xss: "xss = map snd ?m" by (simp add: partition_dml_def)
  show "mset (concat xss) = mset xs"
    using mset_concat_groups[of "[]" full_tb xs] by (simp add: xss)
  fix x assume x: "x \<in> set xs"
  let ?P = "\<lambda>y. full_tb y = full_tb x"
  from x have ne: "filter ?P xs \<noteq> []" by (auto simp: filter_empty_conv)
  then have "map_of ?m (full_tb x) = Some (filter ?P xs)"
    by (simp add: fold_push_group_lookup)
  then have "(full_tb x, filter ?P xs) \<in> set ?m" by (rule map_of_SomeD)
  then obtain j where "j < length ?m" "?m ! j = (full_tb x, filter ?P xs)"
    by (auto simp: in_set_conv_nth)
  then show "\<exists>j<length xss. filter ?P (xss ! j) = filter ?P xs"
    by (intro exI[of _ j]) (simp add: xss)
qed simp_all

section \<open>Properties\<close>

text \<open>
  C19: \<open>BaseParallelizer::drain\<close> loses, repeats and reorders nothing: what it returns, what it
  carries over and what stays in the queue is the stream it started from. When at most one
  item was carried over before, it returns a batch of one SQL kind and one origin node, carries
  over at most one item, which does not fit the batch, and returns a non-empty batch whenever
  there is anything to return.
\<close>

theorem base_drain_correct:
  assumes "length (popped_data b) \<le> 1" "base_drain b queue = (data, b', queue')"
  shows "data @ popped_data b' @ queue' = popped_data b @ queue \<and> length (popped_data b') \<le> 1 \<and>
    list_all (same_batch (hd data)) data \<and> list_ex (same_batch (hd data)) (popped_data b') = False \<and>
    (data = [] \<longleftrightarrow> popped_data b @ queue = [])"
proof -
  from base_drain_popped[OF assms(2)] obtain c where
    d: "drain_loop (popped_data b) (0, 0) queue = (data, c, popped_data b', queue')" ..
  have "\<forall>x\<in>set (popped_data b). same_batch (hd (popped_data b)) x"
    using assms(1) by (cases "popped_data b") (auto simp: same_batch_def)
  from drain_loop_same_batch[OF d this] drain_loop_keeps[OF d] show ?thesis
    by (auto simp: list_all_iff list_ex_iff)
qed

definition sample_queue :: "dt_item list" where
  "sample_queue =
     [sample_item DBegin, sample_item (DCommit ''1''), sample_item (DDdl sample_ddl), sample_item DBegin]"

lemma sample_queue_drain:
  "base_drain \<lparr>popped_data = [], record_sizes = []\<rparr> sample_queue =
     (take 2 sample_queue, \<lparr>popped_data = [sample_queue ! 2], record_sizes = [(20, 3)]\<rparr>, drop 3 sample_queue)"
  by (simp add: base_drain_def sample_queue_def same_batch_def get_row_sql_type_def sample_item_def
      counter_add_def update_monitor_def item_size_def get_data_count_def sample_ddl_def
      ddl_get_malloc_size_def)

theorem base_drain_correct_witness:
  "take 2 sample_queue @ [sample_queue ! 2] @ drop 3 sample_queue = sample_queue \<and>
   list_all (same_batch (hd (take 2 sample_queue))) (take 2 sample_queue) \<and>
   list_ex (same_batch (hd (take 2 sample_queue))) [sample_queue ! 2] = False"
  using base_drain_correct[OF _ sample_queue_drain] by simp

text \<open>
  Draining again and again delivers the whole stream in its order: as many drains as
  there are items carried over or queued return batches whose concatenation is the stream.
\<close>

theorem base_drain_all:
  assumes "drain_n base_drain (length (popped_data b @ queue)) b queue = (batches, b', queue')"
  shows "concat batches = popped_data b @ queue"
  by (rule base.drain_n_empties[OF order_refl assms])

theorem base_drain_all_witness:
  "\<exists>batches b' queue'. drain_n base_drain (length (popped_data \<lparr>popped_data = [], record_sizes = []\<rparr> @ sample_queue))
      \<lparr>popped_data = [], record_sizes = []\<rparr> sample_queue = (batches, b', queue') \<and> concat batches = sample_queue"
proof -
  obtain batches b' queue' where
    d: "drain_n base_drain (length (popped_data \<lparr>popped_data = [], record_sizes = []\<rparr> @ sample_queue))
      \<lparr>popped_data = [], record_sizes = []\<rparr> sample_queue = (batches, b', queue')" by (metis prod_cases3)
  with base_drain_all[OF d] show ?thesis by auto
qed

text \<open>
  C18: \<open>SnapshotParallelizer::sink_dml\<close> never indexes out of range, spawns one task per
  partition, sinks exactly the rows of the batch, and when the batch is a snapshot (inserts
  with pairwise different keys in each table) every interleaving of its tasks leaves the
  database as the rows in order do.
\<close>

theorem snapshot_sink_dml_correct:
  assumes "0 < p" "p \<le> sinkers"
    and "\<forall>T. inj_on (rkey e (idc T)) {r \<in> set data. row_table r = T}"
    and "list_all (\<lambda>r. rd_row_type r = RInsert) data"
  shows "\<exists>tasks. snapshot_sink_dml sinkers p data = Inr (tasks, size_of_list rd_data_size data) \<and>
    length tasks = p \<and> concat (map task_items tasks) = data \<and>
    (\<forall>rows. interleave (map task_items tasks) rows \<longrightarrow>
       foldl (apply_db e idc) db rows = foldl (apply_db e idc) db data)"
proof -
  obtain subs where s: "snapshot_partition data p = Inr subs" "concat subs = data" "length subs = p"
    using snapshot_partition_ok[of data p] assms(1) by auto
  obtain tasks where t: "sink_from sinkers p True 0 subs = Inr tasks"
    using sink_from_total[OF assms(1,2)] by blast
  have items: "map task_items tasks = subs" using sink_from_Inr[OF t] by simp
  have "foldl (apply_db e idc) db rows T = foldl (apply_db e idc) db data T"
    if "interleave subs rows" for rows T
  proof -
    let ?P = "\<lambda>r. row_table r = T"
    have "set rows = set data" using interleave_mset[OF that] s(2) by (metis mset_eq_setD)
    then have "set (filter ?P rows) = set (filter ?P data)" by simp
    moreover have "inj_on (rkey e (idc T)) (set (filter ?P data))" using spec[OF assms(3), of T] by simp
    moreover have "\<forall>r\<in>set (filter ?P data). rd_row_type r = RInsert"
      using assms(4) by (simp add: list_all_iff)
    ultimately have "apply_rows e (idc T) (db T) (filter ?P rows) = apply_rows e (idc T) (db T) (filter ?P data)"
      by (intro apply_inserts_perm)
    then show ?thesis by (simp add: apply_db_filter)
  qed
  moreover have "length tasks = p" using arg_cong[OF items, of length] s(3) by simp
  ultimately show ?thesis
    using s t items by (auto simp: snapshot_sink_dml_def base_sink_dml_def)
qed

definition sample_snapshot :: "row_data list" where
  "sample_snapshot = map (\<lambda>i. sample_insert ''d'' ''t'' i ''v'') [''1'', ''2'', ''3'', ''10'', ''11'']"

theorem snapshot_sink_dml_correct_witness:
  "\<exists>tasks. snapshot_sink_dml 3 2 sample_snapshot = Inr (tasks, size_of_list rd_data_size sample_snapshot) \<and>
    length tasks = 2 \<and> concat (map task_items tasks) = sample_snapshot \<and>
    (\<forall>rows. interleave (map task_items tasks) rows \<longrightarrow>
       foldl (apply_db sample_ext (\<lambda>_. [''id''])) (\<lambda>_. Map.empty) rows =
       foldl (apply_db sample_ext (\<lambda>_. [''id''])) (\<lambda>_. Map.empty) sample_snapshot)"
  by (rule snapshot_sink_dml_correct)
    (auto simp: sample_snapshot_def rkey_def row_image_of_def id_key_def opt_image_def image_cols_def
      sample_cols_def inj_on_def)

text \<open>
  C17: \<open>TableParallelizer::sink_dml\<close> spawns its tasks without a panic, and whatever the
  interleaving of the tasks and the order in which the hash map yields its groups, the
  database ends as the rows in order leave it. Rows may change their keys: the rows of one table
  stay in one task.
\<close>

theorem table_sink_dml_correct:
  assumes "0 < p" "p \<le> sinkers"
  shows "\<exists>tasks. table_sink_dml sinkers p data = Inr (tasks, size_of_list rd_data_size data) \<and>
    (\<forall>rows. interleave (map task_items tasks) rows \<longrightarrow>
       foldl (apply_db e idc) db rows = foldl (apply_db e idc) db data)"
proof -
  obtain tasks where t: "sink_from sinkers p False 0 (partition_dml data) = Inr tasks"
    using sink_from_total[OF assms] by blast
  have items: "map task_items tasks = partition_dml data" using sink_from_Inr[OF t] by simp
  have "foldl (apply_db e idc) db rows T = foldl (apply_db e idc) db data T"
    if "interleave (partition_dml data) rows" for rows T
  proof -
    let ?k = "fst T @ ''.'' @ snd T"
    have f: "filter (\<lambda>r. row_table r = T) xs = filter (\<lambda>r. row_table r = T) (filter (\<lambda>r. full_tb r = ?k) xs)" for xs
      by (induction xs) (auto simp: row_table_def full_tb_def)
    have "filter (\<lambda>r. full_tb r = ?k) rows = filter (\<lambda>r. full_tb r = ?k) data"
      using table_split.interleave_split_key[of data "partition_dml data" rows ?k] that by simp
    then have "filter (\<lambda>r. row_table r = T) rows = filter (\<lambda>r. row_table r = T) data"
      using f[of rows] f[of data] by simp
    then show ?thesis by (simp add: apply_db_filter)
  qed
  with t items show ?thesis by (auto simp: table_sink_dml_def base_sink_dml_def)
qed

theorem table_sink_dml_correct_witness:
  "\<exists>tasks. table_sink_dml 2 2 (sample_snapshot @ [sample_update ''d'' ''t'' ''1'' ''v'' ''9'' ''w'']) =
      Inr (tasks, size_of_list rd_data_size (sample_snapshot @ [sample_update ''d'' ''t'' ''1'' ''v'' ''9'' ''w''])) \<and>
    (\<forall>rows. interleave (map task_items tasks) rows \<longrightarrow>
       foldl (apply_db sample_ext (\<lambda>_. [''id''])) (\<lambda>_. Map.empty) rows =
       foldl (apply_db sample_ext (\<lambda>_. [''id''])) (\<lambda>_. Map.empty)
         (sample_snapshot @ [sample_update ''d'' ''t'' ''1'' ''v'' ''9'' ''w'']))"
  by (rule table_sink_dml_correct) simp_all

end
