(* ===== verification/Merge_Parallelizer.thy ===== *)
theory Merge_Parallelizer
  imports Parallelizer
begin

text \<open>
  \<open>dt-parallelizer/src/merge_parallelizer.rs\<close>: a batch of rows is merged per table by a
  \<open>Merger\<close> and sinked in three phases, deletes, inserts and unmerged rows, each with its own
  \<open>JoinSet\<close>, so that a phase starts only when every task of the phase before has returned.

  The locale \<open>merger\<close> is the contract of the trait \<open>Merger\<close> of \<open>lib.rs\<close>: whatever order the
  merged deletes and the merged inserts of a batch are applied in, and however the unmerged
  rows of different tables are interleaved, the effect is that of the batch in its order.
  From it follows, once for every merger, that \<open>sink_dml\<close> with all its concurrency has the
  effect of the batch.
\<close>

section \<open>Data\<close>

record tb_merged_data =
  tmd_tb :: string
  tmd_delete_rows :: "row_data list"
  tmd_insert_rows :: "row_data list"
  tmd_unmerged_rows :: "row_data list"

datatype merge_type = MergeInsert | MergeDelete | MergeUnmerged

record merge_config =
  mc_parallel_size :: nat
  mc_batch_size :: nat
  mc_sinkers :: nat

section \<open>Tasks of one phase\<close>

fun merge_type_rows :: "merge_type \<Rightarrow> tb_merged_data \<Rightarrow> row_data list" where
  "merge_type_rows MergeDelete t = tmd_delete_rows t" |
  "merge_type_rows MergeInsert t = tmd_insert_rows t" |
  "merge_type_rows MergeUnmerged t = tmd_unmerged_rows t"

text \<open>
  The chunks of the merged rows of a table. \<open>avg\<close> is \<open>data.len() / parallel_size\<close>, so the batch
  size is at least 1 and the loop ends.
\<close>

fun chunk_tasks :: "merge_config \<Rightarrow> nat \<Rightarrow> nat \<Rightarrow> row_data list \<Rightarrow> row_data task list res" where
  "chunk_tasks cfg avg task_idx data =
     (if data = [] then Inr []
      else
        (let batch_size = max avg (max (mc_batch_size cfg) 1);
             sub_data = take (min batch_size (length data)) data;
             sinker = task_idx mod mc_parallel_size cfg
         in if sinker < mc_sinkers cfg
            then map_res ((#) (sinker, [(sub_data, True)]))
                   (chunk_tasks cfg avg (Suc task_idx) (drop batch_size data))
            else Inl (Panic ''index out of bounds'')))"

declare chunk_tasks.simps [simp del]

function unmerged_loop :: "row_data list \<Rightarrow> nat \<Rightarrow> nat \<Rightarrow> (row_data list \<times> bool) list" where
  "unmerged_loop data start i =
     (if i > length data then []
      else if i = length data \<or> rd_row_type (data ! i) \<noteq> rd_row_type (data ! start)
      then (take (i - start) (drop start data), rd_row_type (data ! start) = RInsert)
             # unmerged_loop data i (Suc i)
      else unmerged_loop data start (Suc i))"
  by pat_completeness auto
termination by (relation "measure (\<lambda>(data, start, i). Suc (length data) - i)") auto

declare unmerged_loop.simps [simp del]

definition sink_unmerged_rows :: "row_data list \<Rightarrow> (row_data list \<times> bool) list" where
  "sink_unmerged_rows data = unmerged_loop data 0 1"

definition phase_tasks :: "merge_config \<Rightarrow> merge_type \<Rightarrow> nat \<Rightarrow> row_data list \<Rightarrow> row_data task list res" where
  "phase_tasks cfg merge_type task_idx data =
     (if mc_parallel_size cfg = 0 then Inl (Panic ''attempt to divide by zero'')
      else case merge_type of
             MergeUnmerged \<Rightarrow>
               (if task_idx mod mc_parallel_size cfg < mc_sinkers cfg
                then Inr [(task_idx mod mc_parallel_size cfg, sink_unmerged_rows data)]
                else Inl (Panic ''index out of bounds''))
           | _ \<Rightarrow> chunk_tasks cfg (length data div mc_parallel_size cfg) task_idx data)"

fun sink_dml_internal ::
  "merge_config \<Rightarrow> merge_type \<Rightarrow> nat \<Rightarrow> data_size \<Rightarrow> tb_merged_data list \<Rightarrow>
   (row_data task list \<times> data_size) res" where
  "sink_dml_internal cfg merge_type task_idx sz [] = Inr ([], sz)" |
  "sink_dml_internal cfg merge_type task_idx sz (t # ts) =
     (let data = merge_type_rows merge_type t
      in if data = [] then sink_dml_internal cfg merge_type task_idx sz ts
         else
           bind_res (phase_tasks cfg merge_type task_idx data) (\<lambda>tasks.
             map_res (\<lambda>(rest, sz'). (tasks @ rest, sz'))
               (sink_dml_internal cfg merge_type (task_idx + length tasks)
                  (add_bytes (sum_list (map rd_data_size data)) (add_count (length data) sz)) ts)))"

text \<open>\<open>sink_dml\<close>: the tasks of the three phases and the size it reports.\<close>

definition merge_sink_dml ::
  "(row_data list \<Rightarrow> tb_merged_data list res) \<Rightarrow> merge_config \<Rightarrow> row_data list \<Rightarrow>
   (row_data task list list \<times> data_size) res" where
  "merge_sink_dml merge cfg data =
     bind_res (merge data) (\<lambda>items.
       bind_res (sink_dml_internal cfg MergeDelete 0 data_size_default items) (\<lambda>(d_tasks, d_size).
         bind_res (sink_dml_internal cfg MergeInsert 0 data_size_default items) (\<lambda>(i_tasks, i_size).
           bind_res (sink_dml_internal cfg MergeUnmerged 0 data_size_default items) (\<lambda>(u_tasks, u_size).
             Inr ([d_tasks, i_tasks, u_tasks],
                  data_size_add (data_size_add (data_size_add data_size_default d_size) i_size) u_size)))))"

text \<open>A run of the phases: each phase an interleaving of its tasks, one phase after the other.\<close>

inductive runs :: "'a task list list \<Rightarrow> 'a list \<Rightarrow> bool" where
  runs_done: "runs [] []" |
  runs_phase: "interleave (map task_items tasks) xs \<Longrightarrow> runs phases ys \<Longrightarrow> runs (tasks # phases) (xs @ ys)"

inductive_simps runs_Nil: "runs [] xs"
inductive_simps runs_Cons: "runs (tasks # phases) xs"

section \<open>The tasks carry the rows\<close>

lemma chunk_tasks_items:
  "chunk_tasks cfg avg i data = Inr tasks \<Longrightarrow> concat (map task_items tasks) = data"
proof (induction cfg avg i data arbitrary: tasks rule: chunk_tasks.induct)
  case (1 cfg avg i data)
  show ?case
  proof (cases "data = []")
    case True
    with "1.prems" show ?thesis by (simp add: chunk_tasks.simps)
  next
    case False
    with "1.prems" obtain rest where
      r: "chunk_tasks cfg avg (Suc i) (drop (max avg (max (mc_batch_size cfg) 1)) data) = Inr rest"
        "i mod mc_parallel_size cfg < mc_sinkers cfg"
        "tasks = (i mod mc_parallel_size cfg,
           [(take (min (max avg (max (mc_batch_size cfg) 1)) (length data)) data, True)]) # rest"
      by (subst (asm) chunk_tasks.simps) (auto simp: Let_def map_res_eq_Inr split: if_splits)
    have "take (min b (length data)) data = take b data" for b by (simp add: min_def)
    with "1.IH"[OF False refl refl refl r(2) r(1)] r(3) show ?thesis
      by (simp add: task_items_def)
  qed
qed

lemma unmerged_loop_items:
  assumes "start < i" "i \<le> length data"
  shows "concat (map fst (unmerged_loop data start i)) = drop start data"
  using assms
proof (induction data start i rule: unmerged_loop.induct)
  case (1 data start i)
  show ?case
  proof (cases "i = length data \<or> rd_row_type (data ! i) \<noteq> rd_row_type (data ! start)")
    case split: True
    then have "concat (map fst (unmerged_loop data i (Suc i))) = drop i data"
    proof (cases "i = length data")
      case True
      then show ?thesis by (simp add: unmerged_loop.simps[of data "length data"])
    qed (use 1 split in simp)
    with 1 split show ?thesis
      by (subst unmerged_loop.simps) (auto, metis append_take_drop_id drop_drop le_add_diff_inverse2 less_imp_le_nat)
  next
    case False
    with 1 have "concat (map fst (unmerged_loop data start (Suc i))) = drop start data" by simp
    with 1 False show ?thesis by (subst unmerged_loop.simps) auto
  qed
qed

lemma sink_unmerged_rows_items: "concat (map fst (sink_unmerged_rows data)) = data"
proof (cases "data = []")
  case True
  then show ?thesis by (simp add: sink_unmerged_rows_def unmerged_loop.simps)
next
  case False
  then show ?thesis using unmerged_loop_items[of 0 1 data]
    by (cases data) (auto simp: sink_unmerged_rows_def)
qed

lemma phase_tasks_items:
  "phase_tasks cfg mt i data = Inr tasks \<Longrightarrow> concat (map task_items tasks) = data"
  by (auto simp: phase_tasks_def chunk_tasks_items task_items_def sink_unmerged_rows_items
      split: if_splits merge_type.splits)

lemma sink_dml_internal_items:
  "sink_dml_internal cfg mt i sz items = Inr (tasks, sz') \<Longrightarrow>
   concat (map task_items tasks) = concat (map (merge_type_rows mt) items)"
  by (induction cfg mt i sz items arbitrary: tasks sz' rule: sink_dml_internal.induct)
    (auto simp: Let_def bind_res_eq_Inr map_res_eq_Inr phase_tasks_items split: if_splits)

lemma unmerged_phase_tasks:
  "sink_dml_internal cfg MergeUnmerged i sz items = Inr (tasks, sz') \<Longrightarrow>
   map task_items tasks = map tmd_unmerged_rows (filter (\<lambda>t. tmd_unmerged_rows t \<noteq> []) items)"
proof (induction items arbitrary: i sz tasks)
  case (Cons t items)
  show ?case
  proof (cases "tmd_unmerged_rows t = []")
    case False
    with Cons.prems obtain ts rest sz1 where
      "phase_tasks cfg MergeUnmerged i (tmd_unmerged_rows t) = Inr ts" "tasks = ts @ rest"
      and rest: "sink_dml_internal cfg MergeUnmerged (i + length ts) sz1 items = Inr (rest, sz')"
      by (auto simp: Let_def bind_res_eq_Inr map_res_eq_Inr)
    with Cons.IH[OF rest] False show ?thesis
      by (auto simp: phase_tasks_def task_items_def sink_unmerged_rows_items split: if_splits)
  qed (use Cons in simp)
qed simp

lemma interleave_tagged:
  assumes "interleave (map f ts) ys" "distinct (map g ts)"
    and "\<And>t r. t \<in> set ts \<Longrightarrow> r \<in> set (f t) \<Longrightarrow> tag r = g t"
    and "t \<in> set ts"
  shows "filter (\<lambda>r. tag r = g t) ys = f t"
proof -
  obtain j where j: "j < length ts" "t = ts ! j" using assms(4) by (auto simp: in_set_conv_nth)
  have all: "filter (\<lambda>r. tag r = g t) (f t) = f t"
    using assms(3,4) by (auto simp: filter_id_conv)
  have "filter (\<lambda>r. tag r = g t) (map f ts ! i) = []" if "i < length ts" "i \<noteq> j" for i
  proof -
    have "g (ts ! i) \<noteq> g t"
      using that j assms(2) by (metis length_map nth_eq_iff_index_eq nth_map)
    with that assms(3)[of "ts ! i"] show ?thesis by (auto simp: filter_empty_conv)
  qed
  with interleave_filter_one[OF assms(1), of j "\<lambda>r. tag r = g t"] j all show ?thesis by auto
qed

section \<open>Sizes and totality\<close>

lemma sink_dml_internal_size:
  "sink_dml_internal cfg mt i sz items = Inr (tasks, sz') \<Longrightarrow>
   ds_count sz' = ds_count sz + length (concat (map (merge_type_rows mt) items)) \<and>
   ds_bytes sz' = ds_bytes sz + sum_list (map rd_data_size (concat (map (merge_type_rows mt) items)))"
proof (induction items arbitrary: i sz tasks)
  case (Cons t items)
  show ?case
  proof (cases "merge_type_rows mt t = []")
    case False
    with Cons.prems obtain ts :: "row_data task list" and rest where
      "sink_dml_internal cfg mt (i + length ts)
         (add_bytes (sum_list (map rd_data_size (merge_type_rows mt t)))
            (add_count (length (merge_type_rows mt t)) sz)) items = Inr (rest, sz')"
      by (auto simp: Let_def bind_res_eq_Inr map_res_eq_Inr)
    from Cons.IH[OF this] show ?thesis by (simp add: add_bytes_def add_count_def)
  qed (use Cons in simp)
qed simp

lemma chunk_tasks_total:
  assumes "0 < mc_parallel_size cfg" "mc_parallel_size cfg \<le> mc_sinkers cfg"
  shows "\<exists>tasks. chunk_tasks cfg avg i data = Inr tasks"
  using assms
proof (induction cfg avg i data rule: chunk_tasks.induct)
  case (1 cfg avg i data)
  have "i mod mc_parallel_size cfg < mc_sinkers cfg"
    using "1.prems" mod_less_divisor[of "mc_parallel_size cfg" i] by linarith
  with 1 show ?case by (subst chunk_tasks.simps) (auto simp: Let_def map_res_eq_Inr)
qed

lemma phase_tasks_total:
  assumes "0 < mc_parallel_size cfg" "mc_parallel_size cfg \<le> mc_sinkers cfg"
  shows "\<exists>tasks. phase_tasks cfg mt i data = Inr tasks"
proof -
  have "i mod mc_parallel_size cfg < mc_sinkers cfg"
    using assms mod_less_divisor[of "mc_parallel_size cfg" i] by linarith
  with assms chunk_tasks_total show ?thesis by (cases mt) (auto simp: phase_tasks_def)
qed

lemma sink_dml_internal_total:
  assumes "0 < mc_parallel_size cfg" "mc_parallel_size cfg \<le> mc_sinkers cfg"
  shows "\<exists>tasks sz'. sink_dml_internal cfg mt i sz items = Inr (tasks, sz')"
  using assms
proof (induction items arbitrary: i sz)
  case (Cons t items)
  from phase_tasks_total[OF Cons.prems] obtain ts where
    ts: "phase_tasks cfg mt i (merge_type_rows mt t) = Inr ts" by blast
  with Cons.IH[OF Cons.prems] show ?case
    by (auto simp: Let_def map_res_eq_Inr bind_res_eq_Inr) metis
qed simp

section \<open>The contract of a merger\<close>

locale merger =
  fixes merge :: "row_data list \<Rightarrow> tb_merged_data list res"
    and step :: "'s \<Rightarrow> row_data \<Rightarrow> 's"
    and ok :: "'s \<Rightarrow> row_data list \<Rightarrow> bool"
    and tag :: "row_data \<Rightarrow> string"
  assumes merge_total: "ok s data \<Longrightarrow> \<exists>items. merge data = Inr items"
    and merge_distinct: "ok s data \<Longrightarrow> merge data = Inr items \<Longrightarrow> distinct (map tmd_tb items)"
    and merge_tag: "ok s data \<Longrightarrow> merge data = Inr items \<Longrightarrow> t \<in> set items \<Longrightarrow>
      r \<in> set (tmd_unmerged_rows t) \<Longrightarrow> tag r = tmd_tb t"
    and merge_sim: "ok s data \<Longrightarrow> merge data = Inr items \<Longrightarrow>
      mset D = mset (concat (map tmd_delete_rows items)) \<Longrightarrow>
      mset I = mset (concat (map tmd_insert_rows items)) \<Longrightarrow>
      mset U = mset (concat (map tmd_unmerged_rows items)) \<Longrightarrow>
      (\<And>t. t \<in> set items \<Longrightarrow> filter (\<lambda>r. tag r = tmd_tb t) U = tmd_unmerged_rows t) \<Longrightarrow>
      foldl step s (D @ I @ U) = foldl step s data"
begin

lemma unmerged_in_order:
  assumes "ok s data" "merge data = Inr items"
    and "sink_dml_internal cfg MergeUnmerged 0 sz items = Inr (tasks, sz')"
    and "interleave (map task_items tasks) U" "t \<in> set items"
  shows "filter (\<lambda>r. tag r = tmd_tb t) U = tmd_unmerged_rows t"
proof -
  let ?ts = "filter (\<lambda>t. tmd_unmerged_rows t \<noteq> []) items"
  have il: "interleave (map tmd_unmerged_rows ?ts) U"
    using assms(4) unmerged_phase_tasks[OF assms(3)] by simp
  have d: "distinct (map tmd_tb items)" using merge_distinct[OF assms(1,2)] .
  show ?thesis
  proof (cases "tmd_unmerged_rows t = []")
    case False
    show ?thesis
    proof (rule interleave_tagged[OF il])
      show "distinct (map tmd_tb ?ts)" using d by (simp add: distinct_map_filter)
    qed (use False assms(5) merge_tag[OF assms(1,2)] in auto)
  next
    case True
    have "tmd_tb t' \<noteq> tmd_tb t" if "t' \<in> set ?ts" for t'
      using that True d assms(5) by (auto simp: distinct_map inj_on_def)
    with merge_tag[OF assms(1,2)] have "filter (\<lambda>r. tag r = tmd_tb t) xs = []"
      if "xs \<in> set (map tmd_unmerged_rows ?ts)" for xs
      using that by (fastforce simp: filter_empty_conv)
    from interleave_filter_none[OF il this] True show ?thesis by simp
  qed
qed

theorem sink_dml_simulates:
  assumes "ok s data" "0 < mc_parallel_size cfg" "mc_parallel_size cfg \<le> mc_sinkers cfg"
  shows "\<exists>phases size. merge_sink_dml merge cfg data = Inr (phases, size) \<and>
    (\<forall>rows. runs phases rows \<longrightarrow> foldl step s rows = foldl step s data)"
proof -
  from merge_total[OF assms(1)] obtain items where m: "merge data = Inr items" ..
  obtain dt ds where d: "sink_dml_internal cfg MergeDelete 0 data_size_default items = Inr (dt, ds)"
    using sink_dml_internal_total[OF assms(2,3)] by metis
  obtain it iz where i: "sink_dml_internal cfg MergeInsert 0 data_size_default items = Inr (it, iz)"
    using sink_dml_internal_total[OF assms(2,3)] by metis
  obtain ut uz where u: "sink_dml_internal cfg MergeUnmerged 0 data_size_default items = Inr (ut, uz)"
    using sink_dml_internal_total[OF assms(2,3)] by metis
  have rows: "foldl step s rows = foldl step s data" if "runs [dt, it, ut] rows" for rows
  proof -
    from that obtain D I U where r: "rows = D @ I @ U"
      "interleave (map task_items dt) D" "interleave (map task_items it) I"
      "interleave (map task_items ut) U"
      by (auto simp: runs_Cons runs_Nil)
    have mD: "mset D = mset (concat (map tmd_delete_rows items))"
      using interleave_mset[OF r(2)] sink_dml_internal_items[OF d] by (simp cong: map_cong)
    have mI: "mset I = mset (concat (map tmd_insert_rows items))"
      using interleave_mset[OF r(3)] sink_dml_internal_items[OF i] by (simp cong: map_cong)
    have mU: "mset U = mset (concat (map tmd_unmerged_rows items))"
      using interleave_mset[OF r(4)] sink_dml_internal_items[OF u] by (simp cong: map_cong)
    show ?thesis
      unfolding r(1) by (rule merge_sim[OF assms(1) m mD mI mU unmerged_in_order[OF assms(1) m u r(4)]])
  qed
  have "merge_sink_dml merge cfg data = Inr ([dt, it, ut],
      data_size_add (data_size_add (data_size_add data_size_default ds) iz) uz)"
    by (simp add: merge_sink_dml_def m d i u)
  with rows show ?thesis by blast
qed

end

section \<open>Merging table by table\<close>

text \<open>
  A merger that works table by table: every item holds the merged rows of one table, and applied
  in any order of its deletes and inserts they have on that table the effect of its rows of the
  batch. Such a merger fulfils the contract \<open>merger\<close> on databases.
\<close>

definition on_table ::
  "(string \<times> string \<Rightarrow> 't \<Rightarrow> row_data \<Rightarrow> 't) \<Rightarrow> (string \<times> string \<Rightarrow> 't) \<Rightarrow> row_data \<Rightarrow> string \<times> string \<Rightarrow> 't" where
  "on_table tstep db r = db(row_table r := tstep (row_table r) (db (row_table r)) r)"

lemma on_table_filter:
  "foldl (on_table tstep) db rs T = foldl (tstep T) (db T) (filter (\<lambda>r. row_table r = T) rs)"
  by (induction rs arbitrary: db) (auto simp: on_table_def)

definition tmd_rows :: "tb_merged_data \<Rightarrow> row_data set" where
  "tmd_rows t = set (tmd_delete_rows t) \<union> set (tmd_insert_rows t) \<union> set (tmd_unmerged_rows t)"

lemma full_tb_table: "row_table x = row_table r \<Longrightarrow> full_tb x = full_tb r"
  by (simp add: row_table_def full_tb_def)

lemma concat_single:
  assumes "distinct ts" "t \<in> set ts" "\<And>t'. t' \<in> set ts \<Longrightarrow> t' \<noteq> t \<Longrightarrow> g t' = []"
  shows "concat (map g ts) = g t"
  using assms
proof (induction ts)
  case (Cons a ts)
  show ?case
  proof (cases "a = t")
    case True
    with Cons.prems have "\<forall>t'\<in>set ts. g t' = []" by auto
    with True show ?thesis by simp
  qed (use Cons in auto)
qed simp

lemma filter_items:
  assumes "distinct ts" "t \<in> set ts" "\<And>x. x \<in> set (f t) \<Longrightarrow> P x"
    and "\<And>t' x. t' \<in> set ts \<Longrightarrow> t' \<noteq> t \<Longrightarrow> x \<in> set (f t') \<Longrightarrow> \<not> P x"
    and "mset R = mset (concat (map f ts))"
  shows "mset (filter P R) = mset (f t)"
proof -
  have "concat (map (\<lambda>t'. filter P (f t')) ts) = filter P (f t)"
    by (rule concat_single[OF assms(1,2)]) (use assms(4) in \<open>auto simp: filter_empty_conv\<close>)
  moreover have "filter P (f t) = f t" using assms(3) by (simp add: filter_id_conv)
  moreover have "mset (filter P R) = mset (filter P (concat (map f ts)))" using assms(5) by simp
  ultimately show ?thesis by (simp add: filter_concat_map comp_def)
qed

locale table_merger =
  fixes merge :: "row_data list \<Rightarrow> tb_merged_data list res"
    and tstep :: "string \<times> string \<Rightarrow> 't \<Rightarrow> row_data \<Rightarrow> 't"
    and ok :: "(string \<times> string \<Rightarrow> 't) \<Rightarrow> row_data list \<Rightarrow> bool"
  assumes tables_total: "ok db data \<Longrightarrow> \<exists>items. merge data = Inr items"
    and tables_distinct: "ok db data \<Longrightarrow> merge data = Inr items \<Longrightarrow> distinct (map tmd_tb items)"
    and tables_named: "ok db data \<Longrightarrow> r \<in> set data \<Longrightarrow> r' \<in> set data \<Longrightarrow> full_tb r = full_tb r' \<Longrightarrow>
      row_table r = row_table r'"
    and tables_covered: "ok db data \<Longrightarrow> merge data = Inr items \<Longrightarrow> r \<in> set data \<Longrightarrow>
      full_tb r \<in> tmd_tb ` set items"
    and table_item: "ok db data \<Longrightarrow> merge data = Inr items \<Longrightarrow> t \<in> set items \<Longrightarrow>
      \<exists>r\<in>set data. tmd_tb t = full_tb r \<and> (\<forall>x\<in>tmd_rows t. row_table x = row_table r) \<and>
        (\<forall>D I. mset D = mset (tmd_delete_rows t) \<longrightarrow> mset I = mset (tmd_insert_rows t) \<longrightarrow>
          foldl (tstep (row_table r)) (db (row_table r)) (D @ I @ tmd_unmerged_rows t) =
          foldl (tstep (row_table r)) (db (row_table r)) (filter (\<lambda>x. row_table x = row_table r) data))"
begin

lemma item_tag:
  assumes "ok db data" "merge data = Inr items" "t \<in> set items" "x \<in> tmd_rows t"
  shows "full_tb x = tmd_tb t"
  using table_item[OF assms(1-3)] assms(4) full_tb_table by metis

lemma item_of_table:
  assumes "ok db data" "merge data = Inr items" "r \<in> set data"
  obtains t where "t \<in> set items" "\<And>x. x \<in> tmd_rows t \<Longrightarrow> row_table x = row_table r"
    and "\<And>t' x. t' \<in> set items \<Longrightarrow> t' \<noteq> t \<Longrightarrow> x \<in> tmd_rows t' \<Longrightarrow> row_table x \<noteq> row_table r"
    and "\<And>D I. mset D = mset (tmd_delete_rows t) \<Longrightarrow> mset I = mset (tmd_insert_rows t) \<Longrightarrow>
          foldl (tstep (row_table r)) (db (row_table r)) (D @ I @ tmd_unmerged_rows t) =
          foldl (tstep (row_table r)) (db (row_table r)) (filter (\<lambda>x. row_table x = row_table r) data)"
proof -
  from tables_covered[OF assms] obtain t where t: "t \<in> set items" "tmd_tb t = full_tb r" by auto
  from table_item[OF assms(1,2) t(1)] obtain r0 where r0: "r0 \<in> set data" "tmd_tb t = full_tb r0"
    "\<forall>x\<in>tmd_rows t. row_table x = row_table r0"
    "\<forall>D I. mset D = mset (tmd_delete_rows t) \<longrightarrow> mset I = mset (tmd_insert_rows t) \<longrightarrow>
          foldl (tstep (row_table r0)) (db (row_table r0)) (D @ I @ tmd_unmerged_rows t) =
          foldl (tstep (row_table r0)) (db (row_table r0)) (filter (\<lambda>x. row_table x = row_table r0) data)"
    by blast
  have T: "row_table r0 = row_table r" using tables_named[OF assms(1) r0(1) assms(3)] r0(2) t(2) by simp
  have out: "row_table x \<noteq> row_table r" if "t' \<in> set items" "t' \<noteq> t" "x \<in> tmd_rows t'" for t' x
  proof
    assume "row_table x = row_table r"
    then have "tmd_tb t' = tmd_tb t" using item_tag[OF assms(1,2) that(1,3)] t(2) full_tb_table by metis
    then show False using that(1,2) t(1) tables_distinct[OF assms(1,2)] by (metis distinct_map inj_onD)
  qed
  show thesis
    by (rule that[OF t(1) _ out]) (use r0(3,4) in \<open>simp_all add: T\<close>)
qed

lemma tables_sim:
  assumes "ok db data" "merge data = Inr items"
    and D: "mset D = mset (concat (map tmd_delete_rows items))"
    and I: "mset I = mset (concat (map tmd_insert_rows items))"
    and U: "mset U = mset (concat (map tmd_unmerged_rows items))"
    and ord: "\<And>t. t \<in> set items \<Longrightarrow> filter (\<lambda>r. full_tb r = tmd_tb t) U = tmd_unmerged_rows t"
  shows "foldl (on_table tstep) db (D @ I @ U) = foldl (on_table tstep) db data"
proof
  fix T
  let ?P = "\<lambda>r. row_table r = T"
  have dist: "distinct items" using tables_distinct[OF assms(1,2)] by (simp add: distinct_map)
  have rows: "\<exists>t\<in>set items. x \<in> tmd_rows t" if "x \<in> set D \<union> set I \<union> set U" for x
    using that mset_eq_setD[OF D] mset_eq_setD[OF I] mset_eq_setD[OF U] by (auto simp: tmd_rows_def)
  show "foldl (on_table tstep) db (D @ I @ U) T = foldl (on_table tstep) db data T"
  proof (cases "\<exists>r\<in>set data. row_table r = T")
    case True
    then obtain r where r: "r \<in> set data" "row_table r = T" by blast
    obtain t where t: "t \<in> set items" "\<And>x. x \<in> tmd_rows t \<Longrightarrow> row_table x = T"
      and out: "\<And>t' x. t' \<in> set items \<Longrightarrow> t' \<noteq> t \<Longrightarrow> x \<in> tmd_rows t' \<Longrightarrow> row_table x \<noteq> T"
      and sim: "\<And>D I. mset D = mset (tmd_delete_rows t) \<Longrightarrow> mset I = mset (tmd_insert_rows t) \<Longrightarrow>
          foldl (tstep T) (db T) (D @ I @ tmd_unmerged_rows t) = foldl (tstep T) (db T) (filter ?P data)"
      by (rule item_of_table[OF assms(1,2) r(1)]) (simp add: r(2))
    have fD: "mset (filter ?P D) = mset (tmd_delete_rows t)"
      by (rule filter_items[OF dist t(1) _ _ D]) (use t(2) out in \<open>auto simp: tmd_rows_def\<close>)
    have fI: "mset (filter ?P I) = mset (tmd_insert_rows t)"
      by (rule filter_items[OF dist t(1) _ _ I]) (use t(2) out in \<open>auto simp: tmd_rows_def\<close>)
    have "filter ?P U = filter (\<lambda>r. full_tb r = tmd_tb t) U"
    proof (rule filter_cong[OF refl])
      fix x assume "x \<in> set U"
      with rows obtain t' where t': "t' \<in> set items" "x \<in> tmd_rows t'" by blast
      show "row_table x = T \<longleftrightarrow> full_tb x = tmd_tb t"
      proof (cases "t' = t")
        case False
        then have "tmd_tb t' \<noteq> tmd_tb t"
          using t' t(1) tables_distinct[OF assms(1,2)] by (metis distinct_map inj_onD)
        with out[OF t'(1) False t'(2)] item_tag[OF assms(1,2) t'] show ?thesis by simp
      qed (use t(2) item_tag[OF assms(1,2) t'] t' in auto)
    qed
    then have "filter ?P U = tmd_unmerged_rows t" using ord[OF t(1)] by simp
    with sim[OF fD fI] show ?thesis by (simp add: on_table_filter)
  next
    case False
    have "row_table x \<noteq> T" if x: "x \<in> set D \<union> set I \<union> set U" for x
    proof -
      from rows[OF x] obtain t where "t \<in> set items" "x \<in> tmd_rows t" by blast
      with table_item[OF assms(1,2)] False show ?thesis by metis
    qed
    then have "filter ?P D = []" "filter ?P I = []" "filter ?P U = []" "filter ?P data = []"
      using False by (auto simp: filter_empty_conv)
    then show ?thesis by (simp add: on_table_filter)
  qed
qed

end

sublocale table_merger \<subseteq> merger merge "on_table tstep" ok full_tb
proof
  show "full_tb r = tmd_tb t"
    if "ok s data" "merge data = Inr items" "t \<in> set items" "r \<in> set (tmd_unmerged_rows t)" for s data items t r
    using item_tag[OF that(1-3)] that(4) by (simp add: tmd_rows_def)
qed (fact tables_total, fact tables_distinct, rule tables_sim)

end
