(* ===== verification/Rdb_Merger.thy ===== *)
theory Rdb_Merger
  imports Merge_Parallelizer Samples
begin

text \<open>
  \<open>dt-parallelizer/src/rdb_merger.rs\<close>. The rows of a batch are merged per table into at most
  one delete and one insert per key hash; the first row that cannot be merged safely, and
  every row of its table after it, is kept unmerged.

  The table metadata comes from the argument \<open>get_tb_meta\<close> (the metadata managers query the
  database), the hash from \<open>ext\<close>: the theorems hold for every hash function, so a collision
  of hashes is one of the cases covered.
\<close>

section \<open>Model\<close>

record rdb_tb_merged_data =
  md_delete_rows :: "(u128, row_data) hash_map"
  md_insert_rows :: "(u128, row_data) hash_map"
  md_unmerged_rows :: "row_data list"

definition merged_new :: rdb_tb_merged_data where
  "merged_new = \<lparr>md_delete_rows = [], md_insert_rows = [], md_unmerged_rows = []\<rparr>"

definition get_delete_rows :: "rdb_tb_merged_data \<Rightarrow> row_data list" where
  "get_delete_rows m = map snd (md_delete_rows m)"

definition get_insert_rows :: "rdb_tb_merged_data \<Rightarrow> row_data list" where
  "get_insert_rows m = map snd (md_insert_rows m)"

definition get_unmerged_rows :: "rdb_tb_merged_data \<Rightarrow> row_data list" where
  "get_unmerged_rows m = md_unmerged_rows m"

definition has_unavailable_value :: "row_data \<Rightarrow> bool res" where
  "has_unavailable_value r = map_res (list_ex (\<lambda>(_, v). is_unavailable v)) (require_after r)"

definition opt_col_eq :: "ext \<Rightarrow> col_value option \<Rightarrow> col_value option \<Rightarrow> bool" where
  "opt_col_eq e a b =
     (case (a, b) of (Some x, Some y) \<Rightarrow> col_eq e x y | (None, None) \<Rightarrow> True | _ \<Rightarrow> False)"

definition cols_differ :: "ext \<Rightarrow> string list \<Rightarrow> col_values \<Rightarrow> col_values \<Rightarrow> bool" where
  "cols_differ e cols a b = list_ex (\<lambda>c. \<not> opt_col_eq e (map_of a c) (map_of b c)) cols"

definition check_uk_changed :: "ext \<Rightarrow> rdb_tb_meta \<Rightarrow> row_data \<Rightarrow> bool res" where
  "check_uk_changed e meta r =
     bind_res (require_before r) (\<lambda>before.
       bind_res (require_after r) (\<lambda>after. Inr (cols_differ e (tm_id_cols meta) before after)))"

definition collision_image :: "row_data \<Rightarrow> col_values res" where
  "collision_image r = (case rd_row_type r of RInsert \<Rightarrow> require_after r | _ \<Rightarrow> require_before r)"

definition check_collision ::
  "ext \<Rightarrow> (u128, row_data) hash_map \<Rightarrow> rdb_tb_meta \<Rightarrow> row_data \<Rightarrow> u128 \<Rightarrow> bool res" where
  "check_collision e buffer meta r hash =
     (case map_of buffer hash of
        None \<Rightarrow> Inr False
      | Some exist \<Rightarrow>
          bind_res (collision_image r) (\<lambda>col_values.
            bind_res (collision_image exist) (\<lambda>exist_col_values.
              Inr (cols_differ e (tm_id_cols meta) col_values exist_col_values))))"

definition or_collision :: "bool res \<Rightarrow> bool res \<Rightarrow> bool res" where
  "or_collision a b = bind_res a (\<lambda>x. if x then Inr True else b)"

definition merger_get_hash_code :: "ext \<Rightarrow> row_data \<Rightarrow> rdb_tb_meta \<Rightarrow> u128 res" where
  "merger_get_hash_code e r meta =
     (if tm_key_map meta = [] then Inr 0 else row_get_hash_code e r meta)"

definition push_unmerged :: "row_data \<Rightarrow> rdb_tb_merged_data \<Rightarrow> rdb_tb_merged_data" where
  "push_unmerged r m = m\<lparr>md_unmerged_rows := md_unmerged_rows m @ [r]\<rparr>"

definition merge_delete ::
  "ext \<Rightarrow> rdb_tb_meta \<Rightarrow> rdb_tb_merged_data \<Rightarrow> row_data \<Rightarrow> u128 \<Rightarrow> rdb_tb_merged_data res" where
  "merge_delete e meta m r hash =
     bind_res
       (or_collision (check_collision e (md_insert_rows m) meta r hash)
                     (check_collision e (md_delete_rows m) meta r hash))
       (\<lambda>collision.
          if collision then Inr (push_unmerged r m)
          else Inr (m\<lparr>md_insert_rows := AList.delete hash (md_insert_rows m),
                      md_delete_rows := AList.update hash r (md_delete_rows m)\<rparr>))"

definition merge_update ::
  "ext \<Rightarrow> rdb_tb_meta \<Rightarrow> rdb_tb_merged_data \<Rightarrow> row_data \<Rightarrow> u128 \<Rightarrow> rdb_tb_merged_data res" where
  "merge_update e meta m r hash =
     bind_res (check_uk_changed e meta r) (\<lambda>changed.
       if changed then Inr (push_unmerged r m)
       else bind_res (has_unavailable_value r) (\<lambda>unavailable.
         if unavailable then Inr (push_unmerged r m)
         else
           (let (del, ins) = split_update_row_data e r
            in bind_res (merger_get_hash_code e ins meta) (\<lambda>insert_hash.
                 bind_res
                   (or_collision (check_collision e (md_insert_rows m) meta ins insert_hash)
                                 (check_collision e (md_delete_rows m) meta del hash))
                   (\<lambda>collision.
                      if collision then
                        Inr (push_unmerged
                          (row_data_new e (rd_schema del) (rd_tb del) RUpdate (rd_before del) (rd_after ins)) m)
                      else
                        Inr (m\<lparr>md_delete_rows := AList.update hash del (md_delete_rows m),
                               md_insert_rows := AList.update insert_hash ins (md_insert_rows m)\<rparr>))))))"

definition merge_insert ::
  "ext \<Rightarrow> rdb_tb_meta \<Rightarrow> rdb_tb_merged_data \<Rightarrow> row_data \<Rightarrow> u128 \<Rightarrow> rdb_tb_merged_data res" where
  "merge_insert e meta m r hash =
     bind_res (check_collision e (md_insert_rows m) meta r hash)
       (\<lambda>collision.
          if collision then Inr (push_unmerged r m)
          else Inr (m\<lparr>md_insert_rows := AList.update hash r (md_insert_rows m)\<rparr>))"

definition merge_row_data ::
  "ext \<Rightarrow> (string \<Rightarrow> string \<Rightarrow> rdb_tb_meta res) \<Rightarrow> rdb_tb_merged_data \<Rightarrow> row_data \<Rightarrow>
   rdb_tb_merged_data res" where
  "merge_row_data e get_tb_meta m r =
     (if md_unmerged_rows m \<noteq> [] then Inr (push_unmerged r m)
      else
        bind_res (get_tb_meta (rd_schema r) (rd_tb r)) (\<lambda>meta.
          bind_res (merger_get_hash_code e r meta) (\<lambda>hash.
            if hash = 0 then Inr (push_unmerged r m)
            else case rd_row_type r of
                   RDelete \<Rightarrow> merge_delete e meta m r hash
                 | RUpdate \<Rightarrow> merge_update e meta m r hash
                 | RInsert \<Rightarrow> merge_insert e meta m r hash)))"

definition merge_into_map ::
  "ext \<Rightarrow> (string \<Rightarrow> string \<Rightarrow> rdb_tb_meta res) \<Rightarrow> (string, rdb_tb_merged_data) hash_map \<Rightarrow>
   row_data \<Rightarrow> (string, rdb_tb_merged_data) hash_map res" where
  "merge_into_map e get_tb_meta tb_data_map r =
     (case map_of tb_data_map (full_tb r) of
        Some m \<Rightarrow>
          map_res (\<lambda>m'. AList.update (full_tb r) m' tb_data_map) (merge_row_data e get_tb_meta m r)
      | None \<Rightarrow>
          map_res (\<lambda>m'. AList.update (full_tb r) m' tb_data_map) (merge_row_data e get_tb_meta merged_new r))"

definition to_tb_merged :: "string \<times> rdb_tb_merged_data \<Rightarrow> tb_merged_data" where
  "to_tb_merged p =
     \<lparr>tmd_tb = fst p, tmd_delete_rows = get_delete_rows (snd p),
      tmd_insert_rows = get_insert_rows (snd p), tmd_unmerged_rows = get_unmerged_rows (snd p)\<rparr>"

definition rdb_merge ::
  "ext \<Rightarrow> (string \<Rightarrow> string \<Rightarrow> rdb_tb_meta res) \<Rightarrow> row_data list \<Rightarrow> tb_merged_data list res" where
  "rdb_merge e get_tb_meta data =
     map_res (map to_tb_merged) (fold_res (merge_into_map e get_tb_meta) [] data)"

section \<open>Hashes and keys\<close>

text \<open>The hash of a row is a function of its key.\<close>

fun key_hash :: "ext \<Rightarrow> u128 \<Rightarrow> id_key \<Rightarrow> u128" where
  "key_hash e h [] = h" |
  "key_hash e h (k # ks) =
     (case k of
        Some (Some s) \<Rightarrow>
          (if hash_opt_string e (Some s) = 0 then 0
           else key_hash e (31 * h + ucast (hash_opt_string e (Some s))) ks)
      | _ \<Rightarrow> 0)"

lemma to_option_string_None: "to_option_string e v = None \<longleftrightarrow> v = NoneV"
  by (cases v) simp_all

lemma hash_code_alt:
  "hash_code e v = (case to_option_string e v of None \<Rightarrow> 0 | Some s \<Rightarrow> hash_opt_string e (Some s))"
  by (cases v) (simp_all add: hash_code_def)

lemma hash_id_cols_key:
  assumes "\<forall>c\<in>set cols. map_of vs c \<noteq> None"
  shows "hash_id_cols e vs h cols = Inr (key_hash e h (id_key e cols (map_of vs)))"
  using assms
  by (induction cols arbitrary: h)
    (auto simp: id_key_def hash_code_alt Let_def split: option.splits)

lemma has_plain_keyD:
  assumes "has_plain_key cols m"
  obtains vs where "m = Some vs" "\<forall>c\<in>set cols. \<exists>v. map_of vs c = Some v \<and> plain v"
  using assms by (auto simp: has_plain_key_def list_all_iff split: option.splits)

definition key_row :: "string list \<Rightarrow> row_type \<Rightarrow> row_data \<Rightarrow> bool" where
  "key_row cols rt r \<longleftrightarrow> rd_row_type r = rt \<and>
     has_plain_key cols (if rt = RInsert then rd_after r else rd_before r)"

lemma wf_row_key_row: "wf_row cols r \<Longrightarrow> key_row cols (rd_row_type r) r"
  by (auto simp: wf_row_def key_row_def split: row_type.splits)

lemma key_row_image:
  assumes "key_row cols rt r"
  obtains vs where "key_image r = Inr vs" "collision_image r = Inr vs" "row_image_of r = map_of vs"
    "\<forall>c\<in>set cols. \<exists>v. map_of vs c = Some v \<and> plain v"
  using assms
  by (cases rt)
    (auto simp: key_row_def key_image_def collision_image_def row_image_of_def opt_image_def image_cols_def
      require_after_def require_before_def elim!: has_plain_keyD)

lemma key_row_hash:
  assumes "key_row (tm_id_cols meta) rt r"
  shows "row_get_hash_code e r meta = Inr (key_hash e 1 (rkey e (tm_id_cols meta) r))"
  using assms
  by (elim key_row_image) (auto simp: row_get_hash_code_def rkey_def intro: hash_id_cols_key)

lemma cols_differ_plain:
  assumes "\<forall>c\<in>set cols. \<exists>v. map_of a c = Some v \<and> plain v" "\<not> cols_differ e cols a b"
  shows "id_key e cols (map_of a) = id_key e cols (map_of b)"
proof -
  have "map_of a c = map_of b c" if "c \<in> set cols" for c
    using assms that col_eq_plain
    by (fastforce simp: cols_differ_def list_ex_iff opt_col_eq_def split: option.splits)
  then show ?thesis by (simp add: id_key_def)
qed

lemma check_collision_keys:
  assumes "key_row (tm_id_cols meta) rt r"
    and "\<And>r'. map_of buffer h = Some r' \<Longrightarrow> \<exists>rt'. key_row (tm_id_cols meta) rt' r'"
  shows "\<exists>b. check_collision e buffer meta r h = Inr b \<and>
    (\<not> b \<longrightarrow> (\<forall>r'. map_of buffer h = Some r' \<longrightarrow> rkey e (tm_id_cols meta) r' = rkey e (tm_id_cols meta) r))"
proof (cases "map_of buffer h")
  case None
  then show ?thesis by (auto simp: check_collision_def)
next
  case (Some r')
  from assms(2)[OF Some] obtain rt' where k': "key_row (tm_id_cols meta) rt' r'" ..
  obtain a where a: "collision_image r = Inr a" "row_image_of r = map_of a"
    "\<forall>c\<in>set (tm_id_cols meta). \<exists>v. map_of a c = Some v \<and> plain v"
    using assms(1) by (elim key_row_image)
  obtain b where b: "collision_image r' = Inr b" "row_image_of r' = map_of b"
    using k' by (elim key_row_image)
  from cols_differ_plain[OF a(3)] show ?thesis
    using Some a b by (auto simp: check_collision_def rkey_def)
qed

section \<open>The table a merged batch stands for\<close>

definition slots_ok :: "ext \<Rightarrow> string list \<Rightarrow> row_type \<Rightarrow> (u128, row_data) hash_map \<Rightarrow> bool" where
  "slots_ok e cols rt buffer \<longleftrightarrow> distinct (map fst buffer) \<and>
     (\<forall>h r. map_of buffer h = Some r \<longrightarrow> key_row cols rt r \<and> key_hash e 1 (rkey e cols r) = h)"

definition merged_ok :: "ext \<Rightarrow> string list \<Rightarrow> rdb_tb_merged_data \<Rightarrow> bool" where
  "merged_ok e cols m \<longleftrightarrow>
     slots_ok e cols RDelete (md_delete_rows m) \<and> slots_ok e cols RInsert (md_insert_rows m)"

definition holds_key :: "ext \<Rightarrow> string list \<Rightarrow> (u128, row_data) hash_map \<Rightarrow> id_key \<Rightarrow> bool" where
  "holds_key e cols buffer k \<longleftrightarrow>
     (\<exists>r. map_of buffer (key_hash e 1 k) = Some r \<and> rkey e cols r = k)"

definition merged_view :: "ext \<Rightarrow> string list \<Rightarrow> rdb_tb_merged_data \<Rightarrow> table \<Rightarrow> table" where
  "merged_view e cols m t = (\<lambda>k.
     if holds_key e cols (md_insert_rows m) k
     then map_option (\<lambda>r. opt_image (rd_after r)) (map_of (md_insert_rows m) (key_hash e 1 k))
     else if holds_key e cols (md_delete_rows m) k then None else t k)"

lemma slots_ok_Nil [simp]: "slots_ok e cols rt []"
  by (simp add: slots_ok_def)

lemma slots_ok_update:
  "slots_ok e cols rt b \<Longrightarrow> key_row cols rt r \<Longrightarrow> slots_ok e cols rt (AList.update (key_hash e 1 (rkey e cols r)) r b)"
  by (auto simp: slots_ok_def distinct_update)

lemma slots_ok_delete: "slots_ok e cols rt b \<Longrightarrow> slots_ok e cols rt (AList.delete h b)"
  by (auto simp: slots_ok_def distinct_delete)

lemma merged_new_ok: "merged_ok e cols merged_new" "merged_view e cols merged_new t = t"
  by (auto simp: merged_ok_def merged_new_def merged_view_def holds_key_def)

lemma merged_view_unmerged [simp]:
  "merged_view e cols (m\<lparr>md_unmerged_rows := u\<rparr>) t = merged_view e cols m t"
  "merged_ok e cols (m\<lparr>md_unmerged_rows := u\<rparr>) = merged_ok e cols m"
  by (simp_all add: merged_view_def merged_ok_def cong: if_cong)

text \<open>A slot is free for a key when it is empty or holds that key.\<close>

definition free_for :: "ext \<Rightarrow> string list \<Rightarrow> (u128, row_data) hash_map \<Rightarrow> id_key \<Rightarrow> bool" where
  "free_for e cols buffer k \<longleftrightarrow>
     (\<forall>r. map_of buffer (key_hash e 1 k) = Some r \<longrightarrow> rkey e cols r = k)"

lemma holds_key_update:
  assumes "free_for e cols b (rkey e cols r)"
  shows "holds_key e cols (AList.update (key_hash e 1 (rkey e cols r)) r b) k \<longleftrightarrow>
    k = rkey e cols r \<or> holds_key e cols b k"
  using assms by (auto simp: holds_key_def free_for_def)

lemma holds_key_delete:
  assumes "free_for e cols b k0"
  shows "holds_key e cols (AList.delete (key_hash e 1 k0) b) k \<longleftrightarrow> k \<noteq> k0 \<and> holds_key e cols b k"
  using assms by (auto simp: holds_key_def free_for_def)

lemma holds_other_hash:
  assumes "free_for e cols b k0" "holds_key e cols b k" "k \<noteq> k0"
  shows "key_hash e 1 k \<noteq> key_hash e 1 k0"
  using assms by (auto simp: holds_key_def free_for_def)

lemma merged_view_delete:
  assumes fi: "free_for e cols (md_insert_rows m) (rkey e cols r)"
    and fd: "free_for e cols (md_delete_rows m) (rkey e cols r)"
  shows "merged_view e cols
      (m\<lparr>md_insert_rows := AList.delete (key_hash e 1 (rkey e cols r)) (md_insert_rows m),
         md_delete_rows := AList.update (key_hash e 1 (rkey e cols r)) r (md_delete_rows m)\<rparr>) t
    = (merged_view e cols m t)(rkey e cols r := None)" (is "?l = ?r")
proof
  fix k
  show "?l k = ?r k"
  proof (cases "k = rkey e cols r")
    case True
    then show ?thesis
      by (simp add: merged_view_def holds_key_update[OF fd] holds_key_delete[OF fi])
  next
    case False
    then show ?thesis using holds_other_hash[OF fi _ False]
      by (simp add: merged_view_def holds_key_update[OF fd] holds_key_delete[OF fi])
  qed
qed

lemma merged_view_insert:
  assumes fi: "free_for e cols (md_insert_rows m) (rkey e cols r)"
  shows "merged_view e cols
      (m\<lparr>md_insert_rows := AList.update (key_hash e 1 (rkey e cols r)) r (md_insert_rows m)\<rparr>) t
    = (merged_view e cols m t)(rkey e cols r \<mapsto> opt_image (rd_after r))" (is "?l = ?r")
proof
  fix k
  show "?l k = ?r k"
  proof (cases "k = rkey e cols r")
    case True
    then show ?thesis by (simp add: merged_view_def holds_key_update[OF fi])
  next
    case False
    then show ?thesis using holds_other_hash[OF fi _ False]
      by (simp add: merged_view_def holds_key_update[OF fi])
  qed
qed

lemma merged_view_update:
  assumes fi: "free_for e cols (md_insert_rows m) (rkey e cols ins)"
    and fd: "free_for e cols (md_delete_rows m) (rkey e cols del)"
    and eq: "rkey e cols del = rkey e cols ins"
  shows "merged_view e cols
      (m\<lparr>md_delete_rows := AList.update (key_hash e 1 (rkey e cols del)) del (md_delete_rows m),
         md_insert_rows := AList.update (key_hash e 1 (rkey e cols ins)) ins (md_insert_rows m)\<rparr>) t
    = (merged_view e cols m t)(rkey e cols ins \<mapsto> opt_image (rd_after ins))" (is "?l = ?r")
proof
  fix k
  show "?l k = ?r k"
  proof (cases "k = rkey e cols ins")
    case True
    then show ?thesis by (simp add: merged_view_def holds_key_update[OF fi])
  next
    case False
    then show ?thesis using holds_other_hash[OF fi _ False]
      by (simp add: merged_view_def holds_key_update[OF fi] holds_key_update[OF fd, unfolded eq] eq)
  qed
qed

section \<open>One row\<close>

definition merges :: "ext \<Rightarrow> string list \<Rightarrow> table \<Rightarrow> rdb_tb_merged_data \<Rightarrow> table \<Rightarrow> bool" where
  "merges e cols t m t' \<longleftrightarrow>
     merged_ok e cols m \<and> apply_rows e cols (merged_view e cols m t) (md_unmerged_rows m) = t'"

lemma merges_push:
  "merges e cols t m t' \<Longrightarrow> merges e cols t (push_unmerged r m) (apply_row e cols t' r)"
  by (auto simp: merges_def push_unmerged_def)

lemma check_collision_free:
  assumes "slots_ok e (tm_id_cols meta) rt b" "key_row (tm_id_cols meta) rt' r"
  shows "\<exists>c. check_collision e b meta r (key_hash e 1 (rkey e (tm_id_cols meta) r)) = Inr c \<and>
    (\<not> c \<longrightarrow> free_for e (tm_id_cols meta) b (rkey e (tm_id_cols meta) r))"
proof -
  let ?h = "key_hash e 1 (rkey e (tm_id_cols meta) r)"
  have "\<exists>rt'. key_row (tm_id_cols meta) rt' r'" if "map_of b ?h = Some r'" for r'
    using assms(1) that unfolding slots_ok_def by blast
  then show ?thesis unfolding free_for_def by (rule check_collision_keys[OF assms(2)])
qed

lemma or_collision_free:
  assumes "slots_ok e (tm_id_cols meta) rt b" "slots_ok e (tm_id_cols meta) rt' b'"
    and "key_row (tm_id_cols meta) k r" "key_row (tm_id_cols meta) k' r'"
  shows "\<exists>c. or_collision
      (check_collision e b meta r (key_hash e 1 (rkey e (tm_id_cols meta) r)))
      (check_collision e b' meta r' (key_hash e 1 (rkey e (tm_id_cols meta) r'))) = Inr c \<and>
    (\<not> c \<longrightarrow> free_for e (tm_id_cols meta) b (rkey e (tm_id_cols meta) r) \<and>
            free_for e (tm_id_cols meta) b' (rkey e (tm_id_cols meta) r'))"
  using check_collision_free[OF assms(1,3)] check_collision_free[OF assms(2,4)]
  by (fastforce simp: or_collision_def)

lemma merge_delete_step:
  assumes "merges e (tm_id_cols meta) t m t'" "md_unmerged_rows m = []"
    and "key_row (tm_id_cols meta) RDelete r"
  shows "\<exists>m'. merge_delete e meta m r (key_hash e 1 (rkey e (tm_id_cols meta) r)) = Inr m' \<and>
    merges e (tm_id_cols meta) t m' (apply_row e (tm_id_cols meta) t' r)"
proof -
  let ?cols = "tm_id_cols meta"
  have ok: "slots_ok e ?cols RInsert (md_insert_rows m)" "slots_ok e ?cols RDelete (md_delete_rows m)"
    and view: "merged_view e ?cols m t = t'"
    using assms(1,2) by (auto simp: merges_def merged_ok_def)
  from or_collision_free[OF ok assms(3,3)] obtain c where c: "or_collision
      (check_collision e (md_insert_rows m) meta r (key_hash e 1 (rkey e ?cols r)))
      (check_collision e (md_delete_rows m) meta r (key_hash e 1 (rkey e ?cols r))) = Inr c"
    "\<not> c \<longrightarrow> free_for e ?cols (md_insert_rows m) (rkey e ?cols r) \<and>
       free_for e ?cols (md_delete_rows m) (rkey e ?cols r)" by blast
  have type: "rd_row_type r = RDelete" using assms(3) by (simp add: key_row_def)
  show ?thesis
  proof (cases c)
    case True
    then show ?thesis using c merges_push[OF assms(1)] by (auto simp: merge_delete_def)
  next
    case False
    then show ?thesis using c assms ok view type
      by (auto simp: merge_delete_def merges_def merged_ok_def merged_view_delete slots_ok_update
          slots_ok_delete apply_row_by_key)
  qed
qed

lemma merge_insert_step:
  assumes "merges e (tm_id_cols meta) t m t'" "md_unmerged_rows m = []"
    and "key_row (tm_id_cols meta) RInsert r"
  shows "\<exists>m'. merge_insert e meta m r (key_hash e 1 (rkey e (tm_id_cols meta) r)) = Inr m' \<and>
    merges e (tm_id_cols meta) t m' (apply_row e (tm_id_cols meta) t' r)"
proof -
  let ?cols = "tm_id_cols meta"
  have ok: "slots_ok e ?cols RInsert (md_insert_rows m)" "slots_ok e ?cols RDelete (md_delete_rows m)"
    and view: "merged_view e ?cols m t = t'"
    using assms(1,2) by (auto simp: merges_def merged_ok_def)
  from check_collision_free[OF ok(1) assms(3)] obtain c where
    c: "check_collision e (md_insert_rows m) meta r (key_hash e 1 (rkey e ?cols r)) = Inr c"
    "\<not> c \<longrightarrow> free_for e ?cols (md_insert_rows m) (rkey e ?cols r)" by blast
  have type: "rd_row_type r = RInsert" using assms(3) by (simp add: key_row_def)
  show ?thesis
  proof (cases c)
    case True
    then show ?thesis using c merges_push[OF assms(1)] by (auto simp: merge_insert_def)
  next
    case False
    then show ?thesis using c assms ok view type
      by (auto simp: merge_insert_def merges_def merged_ok_def merged_view_insert slots_ok_update
          apply_row_by_key)
  qed
qed

lemma available_id: "\<not> list_ex (\<lambda>(_, v). is_unavailable v) vs \<Longrightarrow> available (map_of vs) = map_of vs"
  by (rule ext) (auto simp: available_def list_ex_iff split: option.splits dest!: map_of_SomeD)

lemma map_add_cover: "dom old \<subseteq> dom new \<Longrightarrow> old ++ new = new"
  by (rule ext) (force simp: map_add_def split: option.splits)

lemma apply_update_full:
  assumes "rd_row_type r = RUpdate" "row_consistent e cols t r"
    and "rd_after r = Some after" "\<not> list_ex (\<lambda>(_, v). is_unavailable v) after"
    and "id_key e cols (map_of after) = rkey e cols r"
  shows "apply_row e cols t r = t(rkey e cols r \<mapsto> map_of after)"
proof -
  have img: "opt_image (rd_after r) = map_of after" using assms(3) by (simp add: opt_image_def image_cols_def)
  obtain old where old: "t (rkey e cols r) = Some old" "dom old \<subseteq> dom (map_of after)"
    using assms(1,2) img by (auto simp: row_consistent_def rkey_row_type split: option.splits)
  have "old ++ available (map_of after) = map_of after"
    using available_id[OF assms(4)] map_add_cover[OF old(2)] by simp
  with assms(1,5) img old(1) show ?thesis by (simp add: apply_row_def rkey_row_type Let_def)
qed

lemma merge_update_step:
  assumes "merges e (tm_id_cols meta) t m t'" "md_unmerged_rows m = []" "tm_key_map meta \<noteq> []"
    and "wf_row (tm_id_cols meta) r" "rd_row_type r = RUpdate"
    and "row_consistent e (tm_id_cols meta) t' r"
  shows "\<exists>m'. merge_update e meta m r (key_hash e 1 (rkey e (tm_id_cols meta) r)) = Inr m' \<and>
    merges e (tm_id_cols meta) t m' (apply_row e (tm_id_cols meta) t' r)"
proof -
  let ?cols = "tm_id_cols meta"
  from assms(4,5) obtain before after where r: "rd_before r = Some before" "rd_after r = Some after"
    and plain: "\<forall>c\<in>set ?cols. \<exists>v. map_of before c = Some v \<and> plain v"
    by (auto simp: wf_row_def elim!: has_plain_keyD)
  have uk: "check_uk_changed e meta r = Inr (cols_differ e ?cols before after)"
    and un: "has_unavailable_value r = Inr (list_ex (\<lambda>(_, v). is_unavailable v) after)"
    using r by (simp_all add: check_uk_changed_def has_unavailable_value_def require_before_def require_after_def)
  note push = merges_push[OF assms(1), of r]
  show ?thesis
  proof (cases "cols_differ e ?cols before after \<or> list_ex (\<lambda>(_, v). is_unavailable v) after")
    case True
    with uk un push show ?thesis by (auto simp: merge_update_def)
  next
    case False
    obtain del ins where di: "split_update_row_data e r = (del, ins)" by force
    have del: "rd_row_type del = RDelete" "rd_before del = Some before" "rd_schema del = rd_schema r" "rd_tb del = rd_tb r"
      and ins: "rd_row_type ins = RInsert" "rd_after ins = Some after"
      using di r by (auto simp: split_update_row_data_def row_data_new_def Let_def)
    have same: "map_of before c = map_of after c" if "c \<in> set ?cols" for c
      using False that plain col_eq_plain
      by (fastforce simp: cols_differ_def list_ex_iff opt_col_eq_def split: option.splits)
    have kd: "key_row ?cols RDelete del" and ki: "key_row ?cols RInsert ins"
      using del ins plain same by (auto simp: key_row_def has_plain_key_def list_all_iff split: option.splits)
    have key: "rkey e ?cols del = rkey e ?cols r" "rkey e ?cols ins = rkey e ?cols r"
      "id_key e ?cols (map_of after) = rkey e ?cols r"
      using del ins r same assms(5) by (simp_all add: rkey_row_type opt_image_def image_cols_def id_key_def)
    have hash: "merger_get_hash_code e ins meta = Inr (key_hash e 1 (rkey e ?cols r))"
      using key_row_hash[OF ki, of e] assms(3) key(2) by (simp add: merger_get_hash_code_def)
    have ok: "slots_ok e ?cols RInsert (md_insert_rows m)" "slots_ok e ?cols RDelete (md_delete_rows m)"
      and view: "merged_view e ?cols m t = t'"
      using assms(1,2) by (auto simp: merges_def merged_ok_def)
    from or_collision_free[OF ok ki kd] key obtain c where c: "or_collision
        (check_collision e (md_insert_rows m) meta ins (key_hash e 1 (rkey e ?cols r)))
        (check_collision e (md_delete_rows m) meta del (key_hash e 1 (rkey e ?cols r))) = Inr c"
      "\<not> c \<longrightarrow> free_for e ?cols (md_insert_rows m) (rkey e ?cols r) \<and>
         free_for e ?cols (md_delete_rows m) (rkey e ?cols r)" by auto
    have full: "apply_row e ?cols t' r = t'(rkey e ?cols r \<mapsto> map_of after)"
      using apply_update_full[OF assms(5,6) r(2)] False key(3) by simp
    define u where "u = row_data_new e (rd_schema del) (rd_tb del) RUpdate (rd_before del) (rd_after ins)"
    have "apply_row e ?cols t' u = apply_row e ?cols t' r"
      by (rule apply_row_cong) (use del ins r assms(5) in \<open>simp_all add: u_def row_data_new_def Let_def\<close>)
    then have pu: "merges e ?cols t (push_unmerged u m) (apply_row e ?cols t' r)"
      using merges_push[OF assms(1), of u] by simp
    have img: "opt_image (rd_after ins) = map_of after" using ins by (simp add: opt_image_def image_cols_def)
    show ?thesis
    proof (cases c)
      case True
      with uk un False di hash c pu show ?thesis by (auto simp: merge_update_def u_def)
    next
      case nc: False
      let ?m = "m\<lparr>md_delete_rows := AList.update (key_hash e 1 (rkey e ?cols r)) del (md_delete_rows m),
        md_insert_rows := AList.update (key_hash e 1 (rkey e ?cols r)) ins (md_insert_rows m)\<rparr>"
      have "merged_view e ?cols ?m t = t'(rkey e ?cols r \<mapsto> map_of after)"
        using merged_view_update[of e ?cols m ins del t] nc c(2) key view img by simp
      moreover have "merged_ok e ?cols ?m"
        using ok slots_ok_update[OF ok(1) ki] slots_ok_update[OF ok(2) kd] key
        by (simp add: merged_ok_def)
      ultimately have "merges e ?cols t ?m (apply_row e ?cols t' r)"
        using assms(2) full by (simp add: merges_def)
      with uk un False di hash c nc show ?thesis by (auto simp: merge_update_def)
    qed
  qed
qed

lemma merge_row_step:
  assumes "get_tb_meta (rd_schema r) (rd_tb r) = Inr meta" "wf_row (tm_id_cols meta) r"
    and "merges e (tm_id_cols meta) t m t'" "row_consistent e (tm_id_cols meta) t' r"
  shows "\<exists>m'. merge_row_data e get_tb_meta m r = Inr m' \<and>
    merges e (tm_id_cols meta) t m' (apply_row e (tm_id_cols meta) t' r)"
proof -
  let ?cols = "tm_id_cols meta"
  note push = merges_push[OF assms(3), of r]
  have k: "key_row ?cols (rd_row_type r) r" using wf_row_key_row[OF assms(2)] .
  show ?thesis
  proof (cases "md_unmerged_rows m \<noteq> [] \<or> merger_get_hash_code e r meta = Inr 0")
    case True
    with assms(1) push show ?thesis by (auto simp: merge_row_data_def)
  next
    case False
    then have km: "tm_key_map meta \<noteq> []" and um: "md_unmerged_rows m = []"
      by (auto simp: merger_get_hash_code_def)
    have h: "merger_get_hash_code e r meta = Inr (key_hash e 1 (rkey e ?cols r))"
      using km key_row_hash[OF k, of e] by (simp add: merger_get_hash_code_def)
    with False have nz: "key_hash e 1 (rkey e ?cols r) \<noteq> 0" by simp
    show ?thesis
    proof (cases "rd_row_type r")
      case RInsert
      with merge_insert_step[OF assms(3) um, of r] k um assms(1) h nz show ?thesis
        by (simp add: merge_row_data_def)
    next
      case RUpdate
      with merge_update_step[OF assms(3) um km assms(2) _ assms(4)] um assms(1) h nz show ?thesis
        by (simp add: merge_row_data_def)
    next
      case RDelete
      with merge_delete_step[OF assms(3) um, of r] k um assms(1) h nz show ?thesis
        by (simp add: merge_row_data_def)
    qed
  qed
qed

section \<open>The rows of one table\<close>

lemma merge_table:
  assumes "\<forall>r\<in>set rs. get_tb_meta (rd_schema r) (rd_tb r) = Inr meta \<and> wf_row (tm_id_cols meta) r"
    and "merges e (tm_id_cols meta) t m t'" "consistent e (tm_id_cols meta) t' rs"
  shows "\<exists>m'. fold_res (merge_row_data e get_tb_meta) m rs = Inr m' \<and>
    merges e (tm_id_cols meta) t m' (apply_rows e (tm_id_cols meta) t' rs)"
  using assms
proof (induction rs arbitrary: m t')
  case (Cons r rs)
  from merge_row_step[of get_tb_meta r meta e t m t'] Cons.prems obtain m1 where
    m1: "merge_row_data e get_tb_meta m r = Inr m1"
    "merges e (tm_id_cols meta) t m1 (apply_row e (tm_id_cols meta) t' r)" by auto
  from Cons.IH[OF _ m1(2)] Cons.prems m1(1) show ?case by auto
qed simp

text \<open>All rows the merged data holds belong to the table of the rows merged.\<close>

definition rows_in :: "string \<times> string \<Rightarrow> rdb_tb_merged_data \<Rightarrow> bool" where
  "rows_in T m \<longleftrightarrow>
     list_all (\<lambda>(_, x). row_table x = T) (md_delete_rows m) \<and>
     list_all (\<lambda>(_, x). row_table x = T) (md_insert_rows m) \<and>
     list_all (\<lambda>x. row_table x = T) (md_unmerged_rows m)"

lemma rows_in_push: "rows_in T m \<Longrightarrow> row_table r = T \<Longrightarrow> rows_in T (push_unmerged r m)"
  by (simp add: rows_in_def push_unmerged_def)

lemma rows_in_updates:
  assumes "rows_in T m" "row_table d = T" "row_table i = T"
  shows "rows_in T (m\<lparr>md_delete_rows := AList.update h d (md_delete_rows m),
           md_insert_rows := AList.update h' i (md_insert_rows m)\<rparr>)"
    and "rows_in T (m\<lparr>md_insert_rows := AList.delete h (md_insert_rows m),
           md_delete_rows := AList.update h' d (md_delete_rows m)\<rparr>)"
    and "rows_in T (m\<lparr>md_insert_rows := AList.update h i (md_insert_rows m)\<rparr>)"
  using assms by (simp_all add: rows_in_def alist_all_update alist_all_delete)

lemma merge_update_rows:
  assumes "merge_update e meta m r h = Inr m'" "rows_in T m" "row_table r = T"
  shows "rows_in T m'"
proof -
  obtain del ins where di: "split_update_row_data e r = (del, ins)" by force
  have t: "row_table del = T" "row_table ins = T" "(rd_schema del, rd_tb del) = T"
    using di assms(3) by (auto simp: split_update_row_data_def row_table_def row_data_new_def Let_def)
  show ?thesis using assms t
    by (auto simp: merge_update_def di bind_res_eq_Inr rows_in_push rows_in_updates split: if_splits)
qed

lemma merge_row_data_rows:
  assumes "merge_row_data e get_tb_meta m r = Inr m'" "rows_in T m" "row_table r = T"
  shows "rows_in T m'"
proof -
  have d: "rows_in T m'" if "merge_delete e meta m r h = Inr m'" for meta h
    using that assms(2,3)
    by (auto simp: merge_delete_def bind_res_eq_Inr rows_in_push rows_in_updates split: if_splits)
  have i: "rows_in T m'" if "merge_insert e meta m r h = Inr m'" for meta h
    using that assms(2,3)
    by (auto simp: merge_insert_def bind_res_eq_Inr rows_in_push rows_in_updates split: if_splits)
  show ?thesis using assms d i merge_update_rows[OF _ assms(2,3)]
    by (auto simp: merge_row_data_def bind_res_eq_Inr rows_in_push split: if_splits row_type.splits)
qed

lemma merge_table_rows:
  "fold_res (merge_row_data e get_tb_meta) m rs = Inr m' \<Longrightarrow> rows_in T m \<Longrightarrow>
   \<forall>r\<in>set rs. row_table r = T \<Longrightarrow> rows_in T m'"
  by (erule fold_res_invariant) (auto intro: merge_row_data_rows)

section \<open>Merged rows in any order\<close>

lemma slots_holds:
  assumes "slots_ok e cols rt b" "mset R = mset (map snd b)"
  shows "(\<exists>r\<in>set R. rkey e cols r = k) \<longleftrightarrow> holds_key e cols b k"
    and "inj_on (rkey e cols) (set R)" "\<forall>r\<in>set R. rd_row_type r = rt"
proof -
  have set_R: "set R = snd ` set b" using assms(2) by (metis mset_eq_setD set_map)
  have look: "map_of b (key_hash e 1 (rkey e cols r)) = Some r \<and> rd_row_type r = rt" if "r \<in> set R" for r
  proof -
    from that set_R obtain h where h: "(h, r) \<in> set b" by auto
    then have "map_of b h = Some r" using assms(1) by (simp add: slots_ok_def)
    with assms(1) show ?thesis by (auto simp: slots_ok_def key_row_def)
  qed
  show "(\<exists>r\<in>set R. rkey e cols r = k) \<longleftrightarrow> holds_key e cols b k"
  proof
    assume "holds_key e cols b k"
    then obtain r where "map_of b (key_hash e 1 k) = Some r" "rkey e cols r = k"
      by (auto simp: holds_key_def)
    then show "\<exists>r\<in>set R. rkey e cols r = k" using set_R by (force dest: map_of_SomeD)
  qed (use look in \<open>auto simp: holds_key_def\<close>)
  show "inj_on (rkey e cols) (set R)" using look by (metis inj_onI option.inject)
  show "\<forall>r\<in>set R. rd_row_type r = rt" using look by blast
qed

lemma merged_rows_apply:
  assumes "merged_ok e cols m" "mset D = mset (get_delete_rows m)" "mset I = mset (get_insert_rows m)"
  shows "apply_rows e cols t (D @ I) = merged_view e cols m t"
proof
  fix k
  have ok: "slots_ok e cols RDelete (md_delete_rows m)" "slots_ok e cols RInsert (md_insert_rows m)"
    using assms(1) by (simp_all add: merged_ok_def)
  note D = slots_holds[OF ok(1) assms(2)[unfolded get_delete_rows_def]]
  note I = slots_holds[OF ok(2) assms(3)[unfolded get_insert_rows_def]]
  show "apply_rows e cols t (D @ I) k = merged_view e cols m t k"
  proof (cases "holds_key e cols (md_insert_rows m) k")
    case True
    then obtain r where r: "map_of (md_insert_rows m) (key_hash e 1 k) = Some r" "rkey e cols r = k"
      by (auto simp: holds_key_def)
    have "set I = snd ` set (md_insert_rows m)"
      using assms(3) by (metis get_insert_rows_def mset_eq_setD set_map)
    then have "r \<in> set I" using r(1) by (force dest: map_of_SomeD)
    with apply_inserts[OF I(3,2), of r "apply_rows e cols t D"] r True show ?thesis
      by (simp add: merged_view_def)
  next
    case False
    then have "\<forall>r\<in>set I. rd_row_type r = RInsert \<and> rkey e cols r \<noteq> k" using I(1)[of k] I(3) by blast
    with apply_inserts_other[of I e cols k "apply_rows e cols t D"] apply_deletes[OF D(3), of e cols t k]
      False D(1)[of k]
    show ?thesis by (simp add: merged_view_def)
  qed
qed

lemma merge_table_any_order:
  assumes "merges e cols t m t'" "mset D = mset (get_delete_rows m)" "mset I = mset (get_insert_rows m)"
  shows "apply_rows e cols t (D @ I @ get_unmerged_rows m) = t'"
  using merged_rows_apply[of e cols m D I t] assms
  by (simp add: merges_def get_unmerged_rows_def)

section \<open>All tables\<close>

definition merged_base :: "(string, rdb_tb_merged_data) hash_map \<Rightarrow> string \<Rightarrow> rdb_tb_merged_data" where
  "merged_base M T = (case map_of M T of Some m \<Rightarrow> m | None \<Rightarrow> merged_new)"

lemma merge_into_map_alt:
  "merge_into_map e g M r =
     map_res (\<lambda>m'. AList.update (full_tb r) m' M) (merge_row_data e g (merged_base M (full_tb r)) r)"
  by (simp add: merge_into_map_def merged_base_def split: option.splits)

lemma merge_maps:
  assumes "\<And>T. fold_res (merge_row_data e g) (merged_base M T) (filter (\<lambda>r. full_tb r = T) data) = Inr (res T)"
    and "distinct (map fst M)"
  shows "\<exists>M'. fold_res (merge_into_map e g) M data = Inr M' \<and> distinct (map fst M') \<and>
    (\<forall>T. map_of M' T =
       (if map_of M T = None \<and> filter (\<lambda>r. full_tb r = T) data = [] then None else Some (res T)))"
  using assms
proof (induction data arbitrary: M)
  case Nil
  then have "res T = merged_base M T" for T by simp
  with Nil show ?case by (auto simp: merged_base_def)
next
  case (Cons r data)
  let ?T = "full_tb r"
  from Cons.prems(1)[of ?T] obtain m1 where
    m1: "merge_row_data e g (merged_base M ?T) r = Inr m1"
    and rest: "fold_res (merge_row_data e g) m1 (filter (\<lambda>r. full_tb r = ?T) data) = Inr (res ?T)"
    by (auto simp: bind_res_eq_Inr)
  let ?M = "AList.update ?T m1 M"
  have "fold_res (merge_row_data e g) (merged_base ?M T) (filter (\<lambda>r. full_tb r = T) data) = Inr (res T)" for T
    using rest Cons.prems(1)[of T] by (cases "T = ?T") (auto simp: merged_base_def split: if_splits)
  from Cons.IH[OF this distinct_update[OF Cons.prems(2)]] obtain M' where
    M': "fold_res (merge_into_map e g) ?M data = Inr M'" "distinct (map fst M')"
    "\<And>T. map_of M' T =
       (if map_of ?M T = None \<and> filter (\<lambda>r. full_tb r = T) data = [] then None else Some (res T))" by blast
  have "fold_res (merge_into_map e g) M (r # data) = Inr M'"
    using M'(1) by (simp add: merge_into_map_alt m1)
  moreover have "map_of M' T =
      (if map_of M T = None \<and> filter (\<lambda>r. full_tb r = T) (r # data) = [] then None else Some (res T))" for T
    using M'(3)[of T] by (cases "T = ?T") auto
  ultimately show ?case using M'(2) by blast
qed

text \<open>
  The batches the merger is correct for: the metadata of every table is found, every row is
  well formed, no two tables of the batch share a full name, and the stream is consistent
  with the target.
\<close>

definition rdb_ok ::
  "ext \<Rightarrow> (string \<Rightarrow> string \<Rightarrow> rdb_tb_meta res) \<Rightarrow> (string \<times> string \<Rightarrow> string list) \<Rightarrow>
   database \<Rightarrow> row_data list \<Rightarrow> bool" where
  "rdb_ok e get_tb_meta idc db data \<longleftrightarrow>
     (\<forall>r\<in>set data. \<exists>meta. get_tb_meta (rd_schema r) (rd_tb r) = Inr meta \<and>
        tm_id_cols meta = idc (row_table r) \<and> wf_row (idc (row_table r)) r) \<and>
     (\<forall>r\<in>set data. \<forall>r'\<in>set data. full_tb r = full_tb r' \<longrightarrow> row_table r = row_table r') \<and>
     (\<forall>T. consistent e (idc T) (db T) (filter (\<lambda>r. row_table r = T) data))"

lemma rdb_ok_filter:
  assumes "rdb_ok e g idc db data" "r \<in> set data"
  shows "filter (\<lambda>x. full_tb x = full_tb r) data = filter (\<lambda>x. row_table x = row_table r) data"
proof (rule filter_cong[OF refl])
  fix x assume "x \<in> set data"
  with assms show "full_tb x = full_tb r \<longleftrightarrow> row_table x = row_table r"
    unfolding rdb_ok_def by (auto simp: full_tb_def row_table_def)
qed

lemma rdb_ok_table:
  assumes "rdb_ok e g idc db data" "r \<in> set data"
  shows "\<exists>m. fold_res (merge_row_data e g) merged_new (filter (\<lambda>x. full_tb x = full_tb r) data) = Inr m \<and>
    merges e (idc (row_table r)) (db (row_table r)) m
      (apply_rows e (idc (row_table r)) (db (row_table r)) (filter (\<lambda>x. row_table x = row_table r) data)) \<and>
    rows_in (row_table r) m"
proof -
  let ?T = "row_table r" and ?rs = "filter (\<lambda>x. row_table x = row_table r) data"
  from assms obtain meta where meta: "g (rd_schema r) (rd_tb r) = Inr meta" "tm_id_cols meta = idc ?T"
    unfolding rdb_ok_def by blast
  have rows: "\<forall>x\<in>set ?rs. g (rd_schema x) (rd_tb x) = Inr meta \<and> wf_row (tm_id_cols meta) x"
  proof
    fix x assume "x \<in> set ?rs"
    then have x: "x \<in> set data" "row_table x = ?T" by simp_all
    from assms(1) x(1) have "wf_row (idc (row_table x)) x" unfolding rdb_ok_def by blast
    moreover have "rd_schema x = rd_schema r" "rd_tb x = rd_tb r" using x(2) by (simp_all add: row_table_def)
    ultimately show "g (rd_schema x) (rd_tb x) = Inr meta \<and> wf_row (tm_id_cols meta) x"
      using meta x(2) by simp
  qed
  have start: "merges e (tm_id_cols meta) (db ?T) merged_new (db ?T)"
    by (simp add: merges_def merged_new_ok) (simp add: merged_new_def)
  have cons: "consistent e (tm_id_cols meta) (db ?T) ?rs"
    using assms(1) meta(2) unfolding rdb_ok_def by metis
  from merge_table[OF rows start cons] obtain m where
    m: "fold_res (merge_row_data e g) merged_new ?rs = Inr m"
    "merges e (idc ?T) (db ?T) m (apply_rows e (idc ?T) (db ?T) ?rs)" unfolding meta(2) by blast
  have "rows_in ?T m"
    by (rule merge_table_rows[OF m(1)]) (auto simp: rows_in_def merged_new_def)
  then show ?thesis unfolding rdb_ok_filter[OF assms] using m by blast
qed

lemma rdb_merge_tables:
  assumes "rdb_ok e g idc db data"
  shows "\<exists>items. rdb_merge e g data = Inr items \<and> distinct (map tmd_tb items) \<and>
    (\<forall>t\<in>set items. \<exists>r\<in>set data. \<exists>m. tmd_tb t = full_tb r \<and> t = to_tb_merged (full_tb r, m) \<and>
       rows_in (row_table r) m \<and>
       merges e (idc (row_table r)) (db (row_table r)) m
         (apply_rows e (idc (row_table r)) (db (row_table r)) (filter (\<lambda>x. row_table x = row_table r) data))) \<and>
    (\<forall>r\<in>set data. full_tb r \<in> tmd_tb ` set items)"
proof -
  define res where "res T = (SOME m. fold_res (merge_row_data e g) merged_new (filter (\<lambda>x. full_tb x = T) data) = Inr m)" for T
  have ex: "\<exists>m. fold_res (merge_row_data e g) merged_new (filter (\<lambda>x. full_tb x = T) data) = Inr m" for T
  proof (cases "\<exists>r\<in>set data. full_tb r = T")
    case True
    with rdb_ok_table[OF assms] show ?thesis by blast
  next
    case False
    then have "filter (\<lambda>x. full_tb x = T) data = []" by (auto simp: filter_empty_conv)
    then show ?thesis by simp
  qed
  have res: "fold_res (merge_row_data e g) merged_new (filter (\<lambda>x. full_tb x = T) data) = Inr (res T)" for T
    unfolding res_def by (rule someI_ex[OF ex])
  have base: "fold_res (merge_row_data e g) (merged_base [] T) (filter (\<lambda>x. full_tb x = T) data) = Inr (res T)" for T
    using res[of T] by (simp add: merged_base_def)
  have "\<exists>M. fold_res (merge_into_map e g) [] data = Inr M \<and> distinct (map fst M) \<and>
    (\<forall>T. map_of M T = (if filter (\<lambda>r. full_tb r = T) data = [] then None else Some (res T)))"
    using merge_maps[OF base] by simp
  then obtain M where
    M: "fold_res (merge_into_map e g) [] data = Inr M" "distinct (map fst M)"
    "\<And>T. map_of M T = (if filter (\<lambda>r. full_tb r = T) data = [] then None else Some (res T))"
    by blast
  let ?items = "map to_tb_merged M"
  have tags: "map tmd_tb ?items = map fst M" by (simp add: to_tb_merged_def comp_def)
  have item: "\<exists>r\<in>set data. \<exists>m. tmd_tb t = full_tb r \<and> t = to_tb_merged (full_tb r, m) \<and> rows_in (row_table r) m \<and>
       merges e (idc (row_table r)) (db (row_table r)) m
         (apply_rows e (idc (row_table r)) (db (row_table r)) (filter (\<lambda>x. row_table x = row_table r) data))"
    if "t \<in> set ?items" for t
  proof -
    from that obtain T m where Tm: "(T, m) \<in> set M" "t = to_tb_merged (T, m)" by auto
    then have "map_of M T = Some m" using M(2) by simp
    with M(3)[of T] have ne: "filter (\<lambda>r. full_tb r = T) data \<noteq> []" and m: "m = res T"
      by (auto split: if_splits)
    from ne obtain r where r: "r \<in> set data" "full_tb r = T" by (auto simp: filter_empty_conv)
    from rdb_ok_table[OF assms r(1)] obtain m' where
      m': "fold_res (merge_row_data e g) merged_new (filter (\<lambda>x. full_tb x = full_tb r) data) = Inr m'"
      "merges e (idc (row_table r)) (db (row_table r)) m'
         (apply_rows e (idc (row_table r)) (db (row_table r)) (filter (\<lambda>x. row_table x = row_table r) data))"
      "rows_in (row_table r) m'" by blast
    have "m' = m" using m'(1) res[of T] r(2) m by simp
    moreover have "tmd_tb t = full_tb r" using Tm(2) r(2) by (simp add: to_tb_merged_def)
    ultimately show ?thesis using r Tm(2) m'(2,3) by blast
  qed
  have "full_tb r \<in> fst ` set M" if "r \<in> set data" for r
  proof -
    have "map_of M (full_tb r) \<noteq> None" using M(3) that by (auto simp: filter_empty_conv)
    then show ?thesis by (simp add: map_of_eq_None_iff)
  qed
  then have "\<forall>r\<in>set data. full_tb r \<in> tmd_tb ` set ?items"
    using tags by (metis list.set_map)
  moreover have "distinct (map tmd_tb ?items)" using M(2) tags by metis
  moreover have "rdb_merge e g data = Inr ?items" using M(1) by (simp add: rdb_merge_def)
  ultimately show ?thesis using item by blast
qed

section \<open>RdbMerger is a merger\<close>

lemma rows_in_tmd: "rows_in T m \<Longrightarrow> x \<in> tmd_rows (to_tb_merged (s, m)) \<Longrightarrow> row_table x = T"
  by (auto simp: rows_in_def tmd_rows_def to_tb_merged_def get_delete_rows_def get_insert_rows_def
      get_unmerged_rows_def list_all_iff)

lemma apply_db_on_table: "apply_db e idc = on_table (\<lambda>T. apply_row e (idc T))"
  by (simp add: apply_db_def on_table_def fun_eq_iff)

interpretation rdb: table_merger "rdb_merge e g" "\<lambda>T. apply_row e (idc T)" "rdb_ok e g idc" for e g idc
proof
  fix db data
  assume ok: "rdb_ok e g idc db data"
  show "row_table r = row_table r'" if "r \<in> set data" "r' \<in> set data" "full_tb r = full_tb r'" for r r'
    using ok that unfolding rdb_ok_def by blast
  from rdb_merge_tables[OF ok] show "\<exists>items. rdb_merge e g data = Inr items" by blast
  fix items assume m: "rdb_merge e g data = Inr items"
  from rdb_merge_tables[OF ok] m show "distinct (map tmd_tb items)" by auto
  from rdb_merge_tables[OF ok] m show "full_tb r \<in> tmd_tb ` set items" if "r \<in> set data" for r using that by auto
  fix t assume "t \<in> set items"
  with rdb_merge_tables[OF ok] m obtain r m0 where
    r: "r \<in> set data" "tmd_tb t = full_tb r" "t = to_tb_merged (full_tb r, m0)" "rows_in (row_table r) m0"
    "merges e (idc (row_table r)) (db (row_table r)) m0
      (apply_rows e (idc (row_table r)) (db (row_table r)) (filter (\<lambda>x. row_table x = row_table r) data))"
    by auto
  have "apply_rows e (idc (row_table r)) (db (row_table r)) (D @ I @ tmd_unmerged_rows t) =
      apply_rows e (idc (row_table r)) (db (row_table r)) (filter (\<lambda>x. row_table x = row_table r) data)"
    if "mset D = mset (tmd_delete_rows t)" "mset I = mset (tmd_insert_rows t)" for D I
    using merge_table_any_order[OF r(5), of D I] that r(3) by (simp add: to_tb_merged_def)
  moreover have "\<forall>x\<in>tmd_rows t. row_table x = row_table r" using rows_in_tmd[OF r(4)] r(3) by blast
  ultimately show "\<exists>r\<in>set data. tmd_tb t = full_tb r \<and> (\<forall>x\<in>tmd_rows t. row_table x = row_table r) \<and>
        (\<forall>D I. mset D = mset (tmd_delete_rows t) \<longrightarrow> mset I = mset (tmd_insert_rows t) \<longrightarrow>
          foldl (apply_row e (idc (row_table r))) (db (row_table r)) (D @ I @ tmd_unmerged_rows t) =
          foldl (apply_row e (idc (row_table r))) (db (row_table r)) (filter (\<lambda>x. row_table x = row_table r) data))"
    using r(1,2) by (intro bexI[of _ r]) (simp_all add: apply_rows_def)
qed

section \<open>Properties\<close>

text \<open>
  C2: Sinking a batch through the merge parallelizer with \<open>RdbMerger\<close> has the effect of the
  batch in its order. For every hash function, every batch of well-formed rows consistent with
  the target in which no two tables share a full name, and every configuration with at least
  as many sinkers as its parallel size: the merge succeeds, tasks are spawned without a
  panic, and however the tasks of the three phases interleave and whatever order the hash maps
  are drained in, the database ends in the state the original rows applied one by one give.
\<close>

theorem rdb_sink_dml_correct:
  assumes "rdb_ok e get_tb_meta idc db data"
    and "0 < mc_parallel_size cfg" "mc_parallel_size cfg \<le> mc_sinkers cfg"
  shows "\<exists>phases size. merge_sink_dml (rdb_merge e get_tb_meta) cfg data = Inr (phases, size) \<and>
    (\<forall>rows. runs phases rows \<longrightarrow>
       foldl (apply_db e idc) db rows = foldl (apply_db e idc) db data)"
  unfolding apply_db_on_table using assms by (rule rdb.sink_dml_simulates)

definition sample_batch :: "row_data list" where
  "sample_batch =
     [sample_insert ''d'' ''t'' ''1'' ''a'', sample_update ''d'' ''t'' ''1'' ''a'' ''1'' ''b'',
      sample_insert ''d'' ''t'' ''10'' ''c'', sample_delete ''d'' ''t'' ''1'' ''b'',
      sample_update ''d'' ''t'' ''10'' ''c'' ''2'' ''e'']"

lemma sample_batch_ok: "rdb_ok sample_ext sample_tb_meta (\<lambda>_. [''id'']) (\<lambda>_. Map.empty) sample_batch"
proof -
  have "consistent sample_ext [''id''] Map.empty (filter (\<lambda>r. row_table r = T) sample_batch)" for T
    by (cases "T = (''d'', ''t'')")
      (auto simp: sample_batch_def row_table_def row_consistent_def apply_row_def id_key_def
        opt_image_def image_cols_def sample_cols_def Let_def)
  then show ?thesis
    by (simp add: rdb_ok_def sample_batch_def row_table_def full_tb_def wf_row_def has_plain_key_def
        sample_cols_def plain_def)
qed

theorem rdb_sink_dml_correct_witness:
  "\<exists>phases size. merge_sink_dml (rdb_merge sample_ext sample_tb_meta)
      \<lparr>mc_parallel_size = 2, mc_batch_size = 1, mc_sinkers = 2\<rparr> sample_batch = Inr (phases, size) \<and>
    (\<forall>rows. runs phases rows \<longrightarrow>
       foldl (apply_db sample_ext (\<lambda>_. [''id''])) (\<lambda>_. Map.empty) rows =
       foldl (apply_db sample_ext (\<lambda>_. [''id''])) (\<lambda>_. Map.empty) sample_batch)"
  by (rule rdb_sink_dml_correct[OF sample_batch_ok]) simp_all

text \<open>
  The condition on full names is needed. Two tables whose full names coincide, here \<open>`a.b`.`c`\<close> and \<open>`a`.`b.c`\<close>, are merged as one
  table: the key of \<open>tb_data_map\<close> joins schema and table with a dot. When both get a row with
  the same key in one batch, the first insert is overwritten in \<open>insert_rows\<close> and reaches no
  sinker.
\<close>

lemma rdb_merge_same_full_name:
  "rdb_merge sample_ext sample_tb_meta
     [sample_insert ''a.b'' ''c'' ''1'' ''x'', sample_insert ''a'' ''b.c'' ''1'' ''y''] =
   Inr [\<lparr>tmd_tb = ''a.b.c'', tmd_delete_rows = [],
         tmd_insert_rows = [sample_insert ''a'' ''b.c'' ''1'' ''y''], tmd_unmerged_rows = []\<rparr>]"
  by (simp add: rdb_merge_def merge_into_map_def full_tb_def merge_row_data_def merged_new_def
      merger_get_hash_code_def row_get_hash_code_def key_image_def sample_cols_def hash_code_def
      merge_insert_def check_collision_def collision_image_def require_after_def cols_differ_def
      opt_col_eq_def col_eq_def to_tb_merged_def get_delete_rows_def get_insert_rows_def
      get_unmerged_rows_def)

end
