(* ===== verification/Mongo_Merger.thy ===== *)
theory Mongo_Merger
  imports Merge_Parallelizer Samples
begin

text \<open>
  \<open>dt-parallelizer/src/mongo_merger.rs\<close>, \<open>dt-common/src/meta/mongo/mongo_key.rs\<close> and the
  per-row statements of \<open>dt-connector/src/sinker/mongo/mongo_sinker.rs\<close>. The merger is verified
  against those statements: the contract \<open>table_merger\<close> of the merge parallelizer holds for it
  on collections, with the effect of \<open>update_one\<close> on a document a parameter.
\<close>

section \<open>Keys\<close>

definition MONGO_ID :: string where "MONGO_ID = ''_id''"
definition MONGO_DOC :: string where "MONGO_DOC = ''doc''"
definition MONGO_DIFF_DOC :: string where "MONGO_DIFF_DOC = ''diff_doc''"
definition MONGO_DIFF_DOC_NO_UPSERT :: string where "MONGO_DIFF_DOC_NO_UPSERT = ''diff_doc_no_upsert''"
definition MONGO_SET :: string where "MONGO_SET = ''$set''"

lemmas mongo_names = MONGO_ID_def MONGO_DOC_def MONGO_DIFF_DOC_def MONGO_DIFF_DOC_NO_UPSERT_def MONGO_SET_def

datatype mongo_key =
    KObjectId "u8 list"
  | KString string
  | KInt32 u32
  | KInt64 u64
  | KJavaScriptCode string
  | KTimestamp u32 u32
  | KDateTime u64
  | KSymbol string

definition key_of_id :: "bson \<Rightarrow> mongo_key option" where
  "key_of_id i =
     (case i of
        BObjectId v \<Rightarrow> Some (KObjectId v)
      | BString v \<Rightarrow> Some (KString v)
      | BInt32 v \<Rightarrow> Some (KInt32 v)
      | BInt64 v \<Rightarrow> Some (KInt64 v)
      | BJavaScriptCode v \<Rightarrow> Some (KJavaScriptCode v)
      | BTimestamp t n \<Rightarrow> Some (KTimestamp t n)
      | BDateTime v \<Rightarrow> Some (KDateTime v)
      | BSymbol v \<Rightarrow> Some (KSymbol v)
      | _ \<Rightarrow> None)"

definition from_doc :: "document \<Rightarrow> mongo_key option" where
  "from_doc doc = Option.bind (map_of doc MONGO_ID) key_of_id"

fun to_mongo_id :: "mongo_key \<Rightarrow> bson" where
  "to_mongo_id (KObjectId v) = BObjectId v" |
  "to_mongo_id (KString v) = BString v" |
  "to_mongo_id (KInt32 v) = BInt32 v" |
  "to_mongo_id (KInt64 v) = BInt64 v" |
  "to_mongo_id (KJavaScriptCode v) = BJavaScriptCode v" |
  "to_mongo_id (KTimestamp t n) = BTimestamp t n" |
  "to_mongo_id (KDateTime v) = BDateTime v" |
  "to_mongo_id (KSymbol v) = BSymbol v"

section \<open>MongoMerger\<close>

definition col_doc :: "string \<Rightarrow> col_values \<Rightarrow> document option" where
  "col_doc name vs = (case map_of vs name of Some (MongoDoc doc) \<Rightarrow> Some doc | _ \<Rightarrow> None)"

definition mongo_hash_key :: "row_data \<Rightarrow> mongo_key option" where
  "mongo_hash_key r =
     (case rd_row_type r of
        RInsert \<Rightarrow>
          (case require_after r of
             Inr after \<Rightarrow> Option.bind (col_doc MONGO_DOC after) from_doc
           | Inl _ \<Rightarrow> None)
      | RDelete \<Rightarrow>
          (case require_before r of
             Inr before \<Rightarrow> Option.bind (col_doc MONGO_DOC before) from_doc
           | Inl _ \<Rightarrow> None)
      | RUpdate \<Rightarrow>
          (case (require_before r, require_after r) of
             (Inr before, Inr after) \<Rightarrow>
               if map_of after MONGO_DOC = None then None
               else Option.bind (col_doc MONGO_DOC before) from_doc
           | _ \<Rightarrow> None))"

type_synonym mongo_slots = "(mongo_key, row_data) hash_map"

definition mongo_merge_one :: "ext \<Rightarrow> mongo_key \<Rightarrow> row_data \<Rightarrow> mongo_slots \<times> mongo_slots \<Rightarrow> mongo_slots \<times> mongo_slots" where
  "mongo_merge_one e k r m =
     (case m of (insert_map, delete_map) \<Rightarrow>
        case rd_row_type r of
          RInsert \<Rightarrow> (AList.update k r insert_map, delete_map)
        | RDelete \<Rightarrow> (AList.delete k insert_map, AList.update k r delete_map)
        | RUpdate \<Rightarrow>
            (AList.update k (row_data_new e (rd_schema r) (rd_tb r) RInsert None (rd_after r)) insert_map,
             AList.update k (row_data_new e (rd_schema r) (rd_tb r) RDelete (rd_before r) None) delete_map))"

fun mongo_merge_rows ::
  "ext \<Rightarrow> mongo_slots \<times> mongo_slots \<Rightarrow> row_data list \<Rightarrow> (mongo_slots \<times> mongo_slots) \<times> row_data list" where
  "mongo_merge_rows e m [] = (m, [])" |
  "mongo_merge_rows e m (r # data) =
     (case mongo_hash_key r of
        None \<Rightarrow> (m, r # data)
      | Some k \<Rightarrow> mongo_merge_rows e (mongo_merge_one e k r m) data)"

definition mongo_merge_row_data :: "ext \<Rightarrow> row_data list \<Rightarrow> row_data list \<times> row_data list \<times> row_data list" where
  "mongo_merge_row_data e data =
     (case mongo_merge_rows e ([], []) data of
        ((insert_map, delete_map), rest) \<Rightarrow> (map snd insert_map, map snd delete_map, rest))"

definition mongo_tb_merged :: "ext \<Rightarrow> string \<times> row_data list \<Rightarrow> tb_merged_data" where
  "mongo_tb_merged e td =
     (case mongo_merge_row_data e (snd td) of
        (insert_rows, delete_rows, unmerged_rows) \<Rightarrow>
          \<lparr>tmd_tb = fst td, tmd_delete_rows = delete_rows, tmd_insert_rows = insert_rows,
           tmd_unmerged_rows = unmerged_rows\<rparr>)"

definition mongo_merge :: "ext \<Rightarrow> row_data list \<Rightarrow> tb_merged_data list res" where
  "mongo_merge e data =
     Inr (map (mongo_tb_merged e) (fold (\<lambda>r m. push_group (full_tb r) r m) data []))"

section \<open>MongoSinker, row by row\<close>

datatype mongo_op =
    UpdateOne bson document bool
  | ReplaceOne bson document
  | DeleteOne bson

definition doc_id :: "document \<Rightarrow> bson res" where
  "doc_id doc = context_res ''mongo doc missing `_id`'' (map_of doc MONGO_ID)"

definition update_kind :: "col_values \<Rightarrow> bson \<Rightarrow> mongo_op option" where
  "update_kind after i =
     (case col_doc MONGO_DOC after of
        Some doc \<Rightarrow> Some (ReplaceOne i doc)
      | None \<Rightarrow>
          case col_doc MONGO_DIFF_DOC after of
            Some doc \<Rightarrow> Some (UpdateOne i doc True)
          | None \<Rightarrow> map_option (\<lambda>doc. UpdateOne i doc False) (col_doc MONGO_DIFF_DOC_NO_UPSERT after))"

definition mongo_row_op :: "row_data \<Rightarrow> mongo_op option res" where
  "mongo_row_op r =
     (case rd_row_type r of
        RInsert \<Rightarrow>
          bind_res (require_after r) (\<lambda>after.
            case col_doc MONGO_DOC after of
              Some doc \<Rightarrow> map_res (\<lambda>i. Some (UpdateOne i [(MONGO_SET, BDocument doc)] True)) (doc_id doc)
            | None \<Rightarrow> Inr None)
      | RDelete \<Rightarrow>
          bind_res (require_before r) (\<lambda>before.
            case col_doc MONGO_DOC before of
              Some doc \<Rightarrow> map_res (\<lambda>i. Some (DeleteOne i)) (doc_id doc)
            | None \<Rightarrow> Inr None)
      | RUpdate \<Rightarrow>
          bind_res (require_before r) (\<lambda>before.
            bind_res (case col_doc MONGO_DOC before of
                        Some doc \<Rightarrow> map_res Some (doc_id doc)
                      | None \<Rightarrow> Inr None) (\<lambda>query.
              map_res (\<lambda>after. Option.bind query (update_kind after)) (require_after r))))"

text \<open>
  The collection a target holds. \<open>srv doc upsert\<close> is what \<open>update_one\<close> with the update document
  \<open>doc\<close> makes of the document with the queried id, or of its absence. A row on which the sinker
  returns an error, such as a document without an id, changes nothing, and the batch statements are
  taken as their rows one by one.
\<close>

type_synonym collection = "bson \<rightharpoonup> document"
type_synonym update_fn = "document \<Rightarrow> bool \<Rightarrow> document option \<Rightarrow> document option"

fun apply_op :: "update_fn \<Rightarrow> collection \<Rightarrow> mongo_op \<Rightarrow> collection" where
  "apply_op srv c (UpdateOne i doc upsert) = c(i := srv doc upsert (c i))" |
  "apply_op srv c (ReplaceOne i doc) = c(i \<mapsto> doc)" |
  "apply_op srv c (DeleteOne i) = c(i := None)"

definition mongo_step :: "update_fn \<Rightarrow> collection \<Rightarrow> row_data \<Rightarrow> collection" where
  "mongo_step srv c r = (case mongo_row_op r of Inr (Some op) \<Rightarrow> apply_op srv c op | _ \<Rightarrow> c)"

text \<open>An upsert of \<open>{$set: doc}\<close> on an absent id inserts the document.\<close>

definition upsert_inserts :: "update_fn \<Rightarrow> bool" where
  "upsert_inserts srv \<longleftrightarrow> (\<forall>doc. srv [(MONGO_SET, BDocument doc)] True None = Some doc)"

section \<open>Batches a source sends\<close>

text \<open>
  An insert is of an id that is absent, and a replacement keeps the id of its document.
\<close>

definition mongo_row_ok :: "collection \<Rightarrow> row_data \<Rightarrow> bool" where
  "mongo_row_ok c r \<longleftrightarrow>
     (case mongo_hash_key r of
        None \<Rightarrow> True
      | Some k \<Rightarrow>
          (case rd_row_type r of
             RInsert \<Rightarrow> c (to_mongo_id k) = None
           | RDelete \<Rightarrow> True
           | RUpdate \<Rightarrow>
               (case col_doc MONGO_DOC (image_cols (rd_after r)) of
                  Some doc \<Rightarrow> from_doc doc = Some k
                | None \<Rightarrow> False)))"

fun mongo_consistent :: "update_fn \<Rightarrow> collection \<Rightarrow> row_data list \<Rightarrow> bool" where
  "mongo_consistent srv c [] = True" |
  "mongo_consistent srv c (r # rs) = (mongo_row_ok c r \<and> mongo_consistent srv (mongo_step srv c r) rs)"

definition mongo_ok :: "update_fn \<Rightarrow> (string \<times> string \<Rightarrow> collection) \<Rightarrow> row_data list \<Rightarrow> bool" where
  "mongo_ok srv db data \<longleftrightarrow>
     upsert_inserts srv \<and>
     (\<forall>r\<in>set data. \<forall>r'\<in>set data. full_tb r = full_tb r' \<longrightarrow> row_table r = row_table r') \<and>
     (\<forall>T. mongo_consistent srv (db T) (filter (\<lambda>r. row_table r = T) data))"

section \<open>Keys and ids\<close>

lemma key_of_to_mongo_id [simp]: "key_of_id (to_mongo_id k) = Some k"
  by (cases k) (simp_all add: key_of_id_def)

lemma key_of_idD: "key_of_id i = Some k \<Longrightarrow> i = to_mongo_id k"
  by (cases i) (auto simp: key_of_id_def)

lemma key_of_id_Some: "key_of_id i = Some k \<longleftrightarrow> i = to_mongo_id k"
  using key_of_idD by auto

lemma to_mongo_id_inject [simp]: "to_mongo_id k = to_mongo_id k' \<longleftrightarrow> k = k'"
  by (metis key_of_to_mongo_id option.inject)

lemma from_doc_Some: "from_doc doc = Some k \<longleftrightarrow> map_of doc MONGO_ID = Some (to_mongo_id k)"
  by (auto simp: from_doc_def bind_eq_Some_conv key_of_id_Some)

lemma doc_id_key: "from_doc doc = Some k \<Longrightarrow> doc_id doc = Inr (to_mongo_id k)"
  by (simp add: doc_id_def from_doc_Some context_res_def)

section \<open>The statements of keyed rows\<close>

definition upserts :: "row_data \<Rightarrow> bson \<Rightarrow> document \<Rightarrow> bool" where
  "upserts r i doc \<longleftrightarrow> mongo_row_op r = Inr (Some (UpdateOne i [(MONGO_SET, BDocument doc)] True))"

definition removes :: "row_data \<Rightarrow> bson \<Rightarrow> bool" where
  "removes r i \<longleftrightarrow> mongo_row_op r = Inr (Some (DeleteOne i))"

lemma upserts_unique: "upserts r i doc \<Longrightarrow> upserts r i' doc' \<Longrightarrow> i = i' \<and> doc = doc'"
  by (simp add: upserts_def)

lemma upserts_step: "upsert_inserts srv \<Longrightarrow> upserts r i doc \<Longrightarrow> c i = None \<Longrightarrow> mongo_step srv c r = c(i \<mapsto> doc)"
  by (simp add: upserts_def mongo_step_def upsert_inserts_def)

lemma removes_step: "removes r i \<Longrightarrow> mongo_step srv c r = c(i := None)"
  by (simp add: removes_def mongo_step_def)

lemma insert_key:
  assumes "mongo_hash_key r = Some k" "rd_row_type r = RInsert"
  shows "\<exists>doc. upserts r (to_mongo_id k) doc"
  using assms
  by (auto simp: mongo_hash_key_def upserts_def mongo_row_op_def bind_eq_Some_conv doc_id_key
      split: sum.splits)

lemma delete_key:
  assumes "mongo_hash_key r = Some k" "rd_row_type r = RDelete"
  shows "removes r (to_mongo_id k)"
  using assms
  by (auto simp: mongo_hash_key_def removes_def mongo_row_op_def bind_eq_Some_conv doc_id_key
      split: sum.splits)

lemma update_key:
  assumes "mongo_hash_key r = Some k" "rd_row_type r = RUpdate" "mongo_row_ok c r"
  shows "\<exists>doc. mongo_row_op r = Inr (Some (ReplaceOne (to_mongo_id k) doc)) \<and>
    upserts (row_data_new e (rd_schema r) (rd_tb r) RInsert None (rd_after r)) (to_mongo_id k) doc \<and>
    removes (row_data_new e (rd_schema r) (rd_tb r) RDelete (rd_before r) None) (to_mongo_id k)"
proof -
  obtain b a where ba: "rd_before r = Some b" "rd_after r = Some a"
    using assms(1,2)
    by (cases "rd_before r"; cases "rd_after r")
      (auto simp: mongo_hash_key_def require_before_def require_after_def context_res_def)
  obtain bd where bd: "col_doc MONGO_DOC b = Some bd" "from_doc bd = Some k"
    using assms(1,2) ba
    by (auto simp: mongo_hash_key_def require_before_def require_after_def context_res_def bind_eq_Some_conv
        split: if_splits)
  obtain ad where ad: "col_doc MONGO_DOC a = Some ad" "from_doc ad = Some k"
    using assms ba by (auto simp: mongo_row_ok_def image_cols_def split: option.splits)
  show ?thesis
    using assms(2) ba bd ad
    by (simp add: mongo_row_op_def upserts_def removes_def row_data_new_def Let_def require_before_def
        require_after_def context_res_def doc_id_key update_kind_def)
qed

section \<open>The collection a merged batch stands for\<close>

definition slots_upsert :: "mongo_slots \<Rightarrow> bool" where
  "slots_upsert m \<longleftrightarrow> distinct (map fst m) \<and> list_all (\<lambda>(k, r). \<exists>doc. upserts r (to_mongo_id k) doc) m"

definition slots_remove :: "mongo_slots \<Rightarrow> bool" where
  "slots_remove m \<longleftrightarrow> distinct (map fst m) \<and> list_all (\<lambda>(k, r). removes r (to_mongo_id k)) m"

text \<open>\<open>c\<close> is \<open>c0\<close> after the deletes and then the inserts of the two maps.\<close>

definition mongo_merges :: "collection \<Rightarrow> mongo_slots \<times> mongo_slots \<Rightarrow> collection \<Rightarrow> bool" where
  "mongo_merges c0 m c \<longleftrightarrow>
     (case m of (ins, del) \<Rightarrow>
        slots_upsert ins \<and> slots_remove del \<and>
        (\<forall>k r. map_of ins k = Some r \<longrightarrow> upserts r (to_mongo_id k) (the (c (to_mongo_id k))) \<and> c (to_mongo_id k) \<noteq> None) \<and>
        (\<forall>k. map_of ins k = None \<longrightarrow> map_of del k \<noteq> None \<longrightarrow> c (to_mongo_id k) = None) \<and>
        (\<forall>k. map_of ins k = None \<longrightarrow> map_of del k = None \<longrightarrow> c (to_mongo_id k) = c0 (to_mongo_id k)) \<and>
        (\<forall>i. key_of_id i = None \<longrightarrow> c i = c0 i) \<and>
        (\<forall>k. map_of ins k \<noteq> None \<longrightarrow> map_of del k = None \<longrightarrow> c0 (to_mongo_id k) = None))"

lemma slots_update:
  "slots_upsert m \<Longrightarrow> upserts r (to_mongo_id k) doc \<Longrightarrow> slots_upsert (AList.update k r m)"
  "slots_upsert m \<Longrightarrow> slots_upsert (AList.delete k m)"
  "slots_remove m \<Longrightarrow> removes r (to_mongo_id k) \<Longrightarrow> slots_remove (AList.update k r m)"
  unfolding slots_upsert_def slots_remove_def
  by (auto simp: distinct_update distinct_delete intro!: alist_all_update alist_all_delete)

lemma mongo_merges_start: "mongo_merges c ([], []) c"
  by (simp add: mongo_merges_def slots_upsert_def slots_remove_def)

lemma mongo_merge_one_step:
  assumes srv: "upsert_inserts srv" and m: "mongo_merges c0 m c"
    and k: "mongo_hash_key r = Some k" and ok: "mongo_row_ok c r"
  shows "mongo_merges c0 (mongo_merge_one e k r m) (mongo_step srv c r)"
proof -
  obtain ins del where md: "m = (ins, del)" by (cases m)
  note inv = m[unfolded md mongo_merges_def prod.case]
  have other: "i = to_mongo_id k \<longleftrightarrow> key_of_id i = Some k" for i by (simp add: key_of_id_Some)
  show ?thesis
  proof (cases "rd_row_type r")
    case RInsert
    obtain doc where doc: "upserts r (to_mongo_id k) doc" using insert_key[OF k RInsert] ..
    have absent: "c (to_mongo_id k) = None" using ok k RInsert by (simp add: mongo_row_ok_def)
    then have ins: "map_of ins k = None" using inv by (cases "map_of ins k") auto
    have c0: "map_of del k = None \<Longrightarrow> c0 (to_mongo_id k) = None" using inv ins absent by metis
    have step: "mongo_step srv c r = c(to_mongo_id k \<mapsto> doc)" using upserts_step[OF srv doc] absent by blast
    show ?thesis
      unfolding md mongo_merges_def mongo_merge_one_def RInsert step row_type.case prod.case
      using inv doc c0 slots_update(1)[OF _ doc, of ins] by (auto simp: update_conv' other)
  next
    case RDelete
    have rm: "removes r (to_mongo_id k)" by (rule delete_key[OF k RDelete])
    show ?thesis
      unfolding md mongo_merges_def mongo_merge_one_def RDelete removes_step[OF rm] row_type.case prod.case
      using inv slots_update(2)[of ins k] slots_update(3)[OF _ rm, of del]
      by (auto simp: update_conv' delete_conv' other)
  next
    case RUpdate
    from update_key[OF k RUpdate ok, of e] obtain doc where
      op: "mongo_row_op r = Inr (Some (ReplaceOne (to_mongo_id k) doc))"
      and up: "upserts (row_data_new e (rd_schema r) (rd_tb r) RInsert None (rd_after r)) (to_mongo_id k) doc"
      and rm: "removes (row_data_new e (rd_schema r) (rd_tb r) RDelete (rd_before r) None) (to_mongo_id k)" by blast
    have step: "mongo_step srv c r = c(to_mongo_id k \<mapsto> doc)" using op by (simp add: mongo_step_def)
    show ?thesis
      unfolding md mongo_merges_def mongo_merge_one_def RUpdate step row_type.case prod.case
      using inv up slots_update(1)[OF _ up, of ins] slots_update(3)[OF _ rm, of del]
      by (auto simp: update_conv' other)
  qed
qed

lemma mongo_merge_rows_sim:
  assumes "upsert_inserts srv" "mongo_merges c0 m c" "mongo_consistent srv c rows"
    and "mongo_merge_rows e m rows = (m', rest)"
  shows "\<exists>c'. mongo_merges c0 m' c' \<and> foldl (mongo_step srv) c rows = foldl (mongo_step srv) c' rest"
  using assms
proof (induction rows arbitrary: m c)
  case (Cons r rows)
  show ?case
  proof (cases "mongo_hash_key r")
    case None
    with Cons.prems show ?thesis by auto
  next
    case (Some k)
    from Cons.IH[OF Cons.prems(1) mongo_merge_one_step[OF Cons.prems(1,2) Some]] Cons.prems(3,4) Some
    show ?thesis by simp
  qed
qed auto

section \<open>Merged rows in any order\<close>

lemma foldl_removes:
  assumes "\<forall>r\<in>set D. \<exists>i. removes r i"
  shows "foldl (mongo_step srv) c D b = (if \<exists>r\<in>set D. removes r b then None else c b)"
  using assms
proof (induction D arbitrary: c)
  case (Cons r D)
  then obtain i where i: "removes r i" by auto
  then have "removes r b \<longleftrightarrow> i = b" by (auto simp: removes_def)
  with Cons i show ?case by (simp add: removes_step)
qed simp

definition upsert_id :: "row_data \<Rightarrow> bson" where
  "upsert_id r = (case mongo_row_op r of Inr (Some (UpdateOne i _ _)) \<Rightarrow> i | _ \<Rightarrow> BNull)"

lemma upsert_id_eq: "upserts r i doc \<Longrightarrow> upsert_id r = i"
  by (simp add: upserts_def upsert_id_def)

lemma foldl_upserts:
  assumes "upsert_inserts srv" "\<forall>r\<in>set I. \<exists>i doc. upserts r i doc \<and> c i = None" "distinct (map upsert_id I)"
  shows "(\<forall>r\<in>set I. \<forall>i doc. upserts r i doc \<longrightarrow> foldl (mongo_step srv) c I i = Some doc) \<and>
    (\<forall>b. b \<notin> upsert_id ` set I \<longrightarrow> foldl (mongo_step srv) c I b = c b)"
  using assms(2,3)
proof (induction I arbitrary: c)
  case (Cons r I)
  then obtain i doc where r: "upserts r i doc" "c i = None" by auto
  have id: "upsert_id r = i" by (rule upsert_id_eq[OF r(1)])
  let ?c = "c(i \<mapsto> doc)"
  have step: "mongo_step srv c r = ?c" using upserts_step[OF assms(1) r(1)] r(2) by blast
  have fresh: "\<forall>x\<in>set I. \<exists>j d. upserts x j d \<and> ?c j = None"
  proof
    fix x assume x: "x \<in> set I"
    then obtain j d where j: "upserts x j d" "c j = None" using Cons.prems(1) by auto
    moreover have "j \<noteq> i" using Cons.prems(2) x id upsert_id_eq[OF j(1)] by (metis distinct.simps(2) image_eqI list.set_map list.simps(9))
    ultimately show "\<exists>j d. upserts x j d \<and> ?c j = None" by auto
  qed
  have d: "distinct (map upsert_id I)" "i \<notin> upsert_id ` set I" using Cons.prems(2) id by auto
  note IH = Cons.IH[OF fresh d(1)]
  have here: "foldl (mongo_step srv) ?c I i = Some doc" using conjunct2[OF IH, rule_format, OF d(2)] by simp
  show ?case
  proof (intro conjI ballI allI impI)
    fix x j d assume "x \<in> set (r # I)" "upserts x j d"
    then show "foldl (mongo_step srv) c (r # I) j = Some d"
      using here conjunct1[OF IH] upserts_unique[OF r(1), of j d] by (auto simp del: fun_upd_apply simp: step)
  next
    fix b assume b: "b \<notin> upsert_id ` set (r # I)"
    then have "foldl (mongo_step srv) ?c I b = ?c b" using conjunct2[OF IH, rule_format, of b] by simp
    with b id show "foldl (mongo_step srv) c (r # I) b = c b" by (simp add: step)
  qed
qed simp

lemma mongo_merged_rows:
  assumes srv: "upsert_inserts srv" and m: "mongo_merges c0 (ins, del) c"
    and D: "mset D = mset (map snd del)" and I: "mset I = mset (map snd ins)"
  shows "foldl (mongo_step srv) c0 (D @ I) = c"
proof -
  note inv = m[unfolded mongo_merges_def prod.case]
  have setD: "set D = snd ` set del" and setI: "set I = snd ` set ins"
    using mset_eq_setD[OF D] mset_eq_setD[OF I] by simp_all
  have ins: "\<exists>doc. upserts r (to_mongo_id k) doc" if "(k, r) \<in> set ins" for k r
    using inv that by (auto simp: slots_upsert_def list_all_iff)
  have del: "removes r (to_mongo_id k)" if "(k, r) \<in> set del" for k r
    using inv that by (auto simp: slots_remove_def list_all_iff)
  let ?c1 = "foldl (mongo_step srv) c0 D"
  have c1: "?c1 b = (if \<exists>k. map_of del k \<noteq> None \<and> to_mongo_id k = b then None else c0 b)" for b
  proof -
    have "(\<exists>r\<in>set D. removes r b) \<longleftrightarrow> (\<exists>k. map_of del k \<noteq> None \<and> to_mongo_id k = b)"
      using del unfolding setD map_of_eq_None_iff by (force simp: removes_def)
    moreover have "\<forall>r\<in>set D. \<exists>i. removes r i" using del unfolding setD by force
    ultimately show ?thesis by (simp only: foldl_removes)
  qed
  have fresh: "\<forall>r\<in>set I. \<exists>i doc. upserts r i doc \<and> ?c1 i = None"
  proof
    fix r assume "r \<in> set I"
    then obtain k where k: "(k, r) \<in> set ins" using setI by auto
    then have "map_of ins k \<noteq> None" by (metis map_of_eq_None_iff fst_conv image_eqI)
    then have "?c1 (to_mongo_id k) = None" using inv c1[of "to_mongo_id k"] by auto
    with ins[OF k] show "\<exists>i doc. upserts r i doc \<and> ?c1 i = None" by blast
  qed
  have "map upsert_id (map snd ins) = map to_mongo_id (map fst ins)"
    using ins upsert_id_eq by fastforce
  moreover have "distinct (map to_mongo_id (map fst ins))"
    using inv by (simp add: slots_upsert_def distinct_map inj_on_def)
  moreover have "mset (map upsert_id I) = mset (map upsert_id (map snd ins))" using I by (metis mset_map)
  ultimately have dist: "distinct (map upsert_id I)" by (metis mset_eq_imp_distinct_iff)
  note res = foldl_upserts[OF srv fresh dist]
  have ids: "upsert_id ` set I = to_mongo_id ` fst ` set ins"
    unfolding setI using ins upsert_id_eq by (force simp: image_iff)
  have untouched: "foldl (mongo_step srv) c0 (D @ I) b = ?c1 b" if "b \<notin> upsert_id ` set I" for b
    using conjunct2[OF res, rule_format, OF that] by simp
  show ?thesis
  proof
    fix b
    show "foldl (mongo_step srv) c0 (D @ I) b = c b"
    proof (cases "key_of_id b")
      case None
      then have other: "b \<noteq> to_mongo_id k" for k by auto
      then have "b \<notin> upsert_id ` set I" unfolding ids by blast
      moreover have "?c1 b = c0 b" using c1[of b] other by (metis (no_types))
      moreover have "c b = c0 b" using inv None by blast
      ultimately show ?thesis using untouched by simp
    next
      case (Some k)
      then have b: "b = to_mongo_id k" by (rule key_of_idD)
      show ?thesis
      proof (cases "map_of ins k")
        case None
        then have "b \<notin> upsert_id ` set I" unfolding ids b by (force simp: map_of_eq_None_iff)
        moreover have "?c1 b = c b" using c1[of b] inv None b by (cases "map_of del k") auto
        ultimately show ?thesis using untouched by simp
      next
        case (Some r)
        then have "r \<in> set I" using setI map_of_SomeD[OF Some] by force
        moreover obtain doc where doc: "c b = Some doc" "upserts r b doc" using inv Some b by force
        ultimately have "foldl (mongo_step srv) ?c1 I b = Some doc" using conjunct1[OF res] by blast
        with doc show ?thesis by simp
      qed
    qed
  qed
qed

lemma mongo_merge_one_table:
  assumes "\<forall>x\<in>snd ` set (fst m) \<union> snd ` set (snd m). row_table x = T" "row_table r = T"
  shows "\<forall>x\<in>snd ` set (fst (mongo_merge_one e k r m)) \<union> snd ` set (snd (mongo_merge_one e k r m)). row_table x = T"
proof -
  obtain ins del where m: "m = (ins, del)" by (cases m)
  have lists: "list_all (\<lambda>p. row_table (snd p) = T) ins" "list_all (\<lambda>p. row_table (snd p) = T) del"
    using assms(1) by (auto simp: m list_all_iff)
  have T: "T = (rd_schema r, rd_tb r)" using assms(2) by (simp add: row_table_def)
  have "list_all (\<lambda>p. row_table (snd p) = T) (fst (mongo_merge_one e k r m)) \<and>
      list_all (\<lambda>p. row_table (snd p) = T) (snd (mongo_merge_one e k r m))"
    using lists assms(2) T
    by (cases "rd_row_type r") (simp_all add: m mongo_merge_one_def alist_all_update alist_all_delete)
  then show ?thesis by (auto simp: list_all_iff)
qed

lemma mongo_merge_rows_table:
  assumes "mongo_merge_rows e m rows = (m', rest)" "\<forall>r\<in>set rows. row_table r = T"
    and "\<forall>x\<in>snd ` set (fst m) \<union> snd ` set (snd m). row_table x = T"
  shows "\<forall>x\<in>snd ` set (fst m') \<union> snd ` set (snd m') \<union> set rest. row_table x = T"
  using assms
proof (induction rows arbitrary: m)
  case (Cons r rows)
  show ?case
  proof (cases "mongo_hash_key r")
    case (Some k)
    with Cons.IH[of "mongo_merge_one e k r m"] Cons.prems mongo_merge_one_table[OF Cons.prems(3), of r e k]
    show ?thesis by simp
  qed (use Cons.prems in auto)
qed auto

section \<open>MongoMerger is a merger\<close>

interpretation mongo: table_merger "mongo_merge e" "\<lambda>_. mongo_step srv" "mongo_ok srv" for e srv
proof
  fix db data
  assume ok: "mongo_ok srv db data"
  show named: "row_table r = row_table r'" if "r \<in> set data" "r' \<in> set data" "full_tb r = full_tb r'" for r r'
    using ok that unfolding mongo_ok_def by blast
  show "\<exists>items. mongo_merge e data = Inr items" by (simp add: mongo_merge_def)
  fix items assume m: "mongo_merge e data = Inr items"
  let ?M = "fold (\<lambda>r m. push_group (full_tb r) r m) data []"
  have items: "items = map (mongo_tb_merged e) ?M" using m by (simp add: mongo_merge_def)
  have tb: "tmd_tb (mongo_tb_merged e p) = fst p" for p
    by (simp add: mongo_tb_merged_def split: prod.splits)
  have dist: "distinct (map fst ?M)" by (rule fold_push_group_distinct) simp
  then show "distinct (map tmd_tb items)" by (simp add: items tb comp_def)
  show "full_tb r \<in> tmd_tb ` set items" if "r \<in> set data" for r
  proof -
    have "map_of ?M (full_tb r) \<noteq> None" using that by (auto simp: fold_push_group_lookup filter_empty_conv)
    then have "full_tb r \<in> fst ` set ?M" by (simp add: map_of_eq_None_iff)
    then show ?thesis unfolding items by (auto simp: tb image_image)
  qed
  fix t assume "t \<in> set items"
  then obtain n td where t: "(n, td) \<in> set ?M" "t = mongo_tb_merged e (n, td)" by (auto simp: items)
  then have "map_of ?M n = Some td" using dist by simp
  then have td: "td = filter (\<lambda>x. full_tb x = n) data" "td \<noteq> []"
    by (auto simp: fold_push_group_lookup split: if_splits)
  then obtain r where r: "r \<in> set data" "full_tb r = n" by (auto simp: filter_empty_conv)
  let ?T = "row_table r"
  have td': "td = filter (\<lambda>x. row_table x = ?T) data"
    unfolding td(1) r(2)[symmetric] by (rule filter_cong[OF refl]) (use named[OF _ r(1)] full_tb_table in blast)
  obtain ins del rest where mr: "mongo_merge_rows e ([], []) td = ((ins, del), rest)" by (metis prod.exhaust)
  have rows: "tmd_delete_rows t = map snd del" "tmd_insert_rows t = map snd ins" "tmd_unmerged_rows t = rest"
    using mr by (simp_all add: t(2) mongo_tb_merged_def mongo_merge_row_data_def)
  have srv: "upsert_inserts srv" and cons: "mongo_consistent srv (db ?T) td"
    using ok unfolding mongo_ok_def td' by blast+
  from mongo_merge_rows_sim[OF srv mongo_merges_start cons mr] obtain c' where
    c': "mongo_merges (db ?T) (ins, del) c'"
    "foldl (mongo_step srv) (db ?T) td = foldl (mongo_step srv) c' rest" by blast
  have "foldl (mongo_step srv) (db ?T) (D @ I @ rest) = foldl (mongo_step srv) (db ?T) td"
    if "mset D = mset (map snd del)" "mset I = mset (map snd ins)" for D I
    using mongo_merged_rows[OF srv c'(1) that] c'(2) by simp
  moreover have "\<forall>x\<in>tmd_rows t. row_table x = ?T"
    using mongo_merge_rows_table[OF mr, of ?T] td' by (auto simp: tmd_rows_def rows)
  ultimately show "\<exists>r\<in>set data. tmd_tb t = full_tb r \<and> (\<forall>x\<in>tmd_rows t. row_table x = row_table r) \<and>
        (\<forall>D I. mset D = mset (tmd_delete_rows t) \<longrightarrow> mset I = mset (tmd_insert_rows t) \<longrightarrow>
          foldl (mongo_step srv) (db (row_table r)) (D @ I @ tmd_unmerged_rows t) =
          foldl (mongo_step srv) (db (row_table r)) (filter (\<lambda>x. row_table x = row_table r) data))"
    using r(2) t(2) unfolding rows by (intro bexI[OF _ r(1)]) (simp add: tb td'[symmetric])
qed

section \<open>Properties\<close>

text \<open>
  C33: \<open>MongoKey\<close> round trip: the id a key is turned back into is the id it was taken from, and
  an id has a key exactly when it is of one of the eight hashable kinds, so two documents share a
  key only if they share their \<open>_id\<close>.
\<close>

theorem mongo_key_roundtrip:
  "from_doc doc = Some k \<longleftrightarrow> map_of doc MONGO_ID = Some (to_mongo_id k)"
  by (rule from_doc_Some)

text \<open>
  C8: Sinking a batch through the merge parallelizer with \<open>MongoMerger\<close> has the effect of the
  statements \<open>MongoSinker\<close> issues for the rows one by one, whatever the order of the hash maps and
  the interleaving of the tasks, when inserts are of absent ids, replacements keep their id, and an
  upsert with \<open>$set\<close> on an absent id inserts the document.
\<close>

theorem mongo_sink_dml_correct:
  assumes "mongo_ok srv db data"
    and "0 < mc_parallel_size cfg" "mc_parallel_size cfg \<le> mc_sinkers cfg"
  shows "\<exists>phases size. merge_sink_dml (mongo_merge e) cfg data = Inr (phases, size) \<and>
    (\<forall>rows. runs phases rows \<longrightarrow>
       foldl (on_table (\<lambda>_. mongo_step srv)) db rows = foldl (on_table (\<lambda>_. mongo_step srv)) db data)"
  using assms by (rule mongo.sink_dml_simulates)

definition sample_doc :: "u32 \<Rightarrow> string \<Rightarrow> document" where
  "sample_doc i v = [(''_id'', BInt32 i), (''v'', BString v)]"

definition sample_mongo_row :: "row_type \<Rightarrow> document option \<Rightarrow> document option \<Rightarrow> row_data" where
  "sample_mongo_row rt before after =
     row_data_new sample_ext ''d'' ''c'' rt (map_option (\<lambda>x. [(''doc'', MongoDoc x)]) before)
       (map_option (\<lambda>x. [(''doc'', MongoDoc x)]) after)"

definition sample_server :: update_fn where
  "sample_server doc upsert old =
     (case doc of [(_, BDocument new)] \<Rightarrow>
        (case old of None \<Rightarrow> if upsert then Some new else None | Some cur \<Rightarrow> Some (AList.updates (map fst new) (map snd new) cur))
      | _ \<Rightarrow> old)"

definition sample_mongo_batch :: "row_data list" where
  "sample_mongo_batch =
     [sample_mongo_row RInsert None (Some (sample_doc 1 ''a'')),
      sample_mongo_row RUpdate (Some (sample_doc 1 ''a'')) (Some (sample_doc 1 ''b'')),
      sample_mongo_row RInsert None (Some (sample_doc 2 ''c'')),
      sample_mongo_row RDelete (Some (sample_doc 1 ''b'')) None]"

lemma sample_mongo_ok: "mongo_ok sample_server (\<lambda>_. Map.empty) sample_mongo_batch"
proof -
  have "upsert_inserts sample_server" by (simp add: upsert_inserts_def sample_server_def)
  moreover have "mongo_consistent sample_server Map.empty (filter (\<lambda>r. row_table r = T) sample_mongo_batch)" for T
    by (cases "T = (''d'', ''c'')")
      (simp_all add: sample_mongo_batch_def sample_mongo_row_def row_data_new_def Let_def row_table_def
        mongo_row_ok_def mongo_hash_key_def require_after_def require_before_def context_res_def col_doc_def
        from_doc_def key_of_id_def sample_doc_def mongo_names image_cols_def mongo_step_def mongo_row_op_def
        doc_id_def update_kind_def sample_server_def)
  ultimately show ?thesis
    by (simp add: mongo_ok_def sample_mongo_batch_def sample_mongo_row_def row_data_new_def row_table_def Let_def)
qed

theorem mongo_sink_dml_correct_witness:
  "\<exists>phases size. merge_sink_dml (mongo_merge sample_ext)
      \<lparr>mc_parallel_size = 2, mc_batch_size = 1, mc_sinkers = 2\<rparr> sample_mongo_batch = Inr (phases, size) \<and>
    (\<forall>rows. runs phases rows \<longrightarrow>
       foldl (on_table (\<lambda>_. mongo_step sample_server)) (\<lambda>_. Map.empty) rows =
       foldl (on_table (\<lambda>_. mongo_step sample_server)) (\<lambda>_. Map.empty) sample_mongo_batch)"
  by (rule mongo_sink_dml_correct[OF sample_mongo_ok]) simp_all

end
