(* ===== verification/Unique_Keys.thy ===== *)
theory Unique_Keys
  imports Target
begin

text \<open>
  Tables with unique keys beside the identity of their rows, and rows applied in an order in which
  every statement must respect them: the target against which the partitioner is verified.

  A statement whose result breaks a unique key has no result here. PostgreSQL refuses it, and
  \<open>REPLACE\<close> of MySQL removes the other row; neither is what the source did. As for the identity of
  a row, values are compared by their text, and keys with a \<open>NULL\<close> collide with nothing.
\<close>

section \<open>Tables with unique keys\<close>

definition not_null :: "id_key \<Rightarrow> bool" where
  "not_null k = list_all (\<lambda>v. v \<noteq> None \<and> v \<noteq> Some None) k"

definition unique_ok :: "ext \<Rightarrow> string list list \<Rightarrow> table \<Rightarrow> bool" where
  "unique_ok e uks t \<longleftrightarrow>
     (\<forall>uk\<in>set uks. \<forall>k k' m m'.
        t k = Some m \<and> t k' = Some m' \<and> not_null (id_key e uk m) \<and> id_key e uk m = id_key e uk m' \<longrightarrow> k = k')"

definition sink_db ::
  "ext \<Rightarrow> (string \<times> string \<Rightarrow> string list) \<Rightarrow> (string \<times> string \<Rightarrow> string list list) \<Rightarrow> database \<Rightarrow> row_data \<Rightarrow>
   database option" where
  "sink_db e idc uks db r =
     (let db' = apply_db e idc db r
      in if unique_ok e (uks (row_table r)) (db' (row_table r)) then Some db' else None)"

fun sink_rows ::
  "ext \<Rightarrow> (string \<times> string \<Rightarrow> string list) \<Rightarrow> (string \<times> string \<Rightarrow> string list list) \<Rightarrow> database \<Rightarrow> row_data list \<Rightarrow>
   database option" where
  "sink_rows e idc uks db [] = Some db" |
  "sink_rows e idc uks db (r # rs) = Option.bind (sink_db e idc uks db r) (\<lambda>db'. sink_rows e idc uks db' rs)"

lemma sink_rows_Some:
  assumes "\<And>n T. unique_ok e (uks T) (foldl (apply_db e idc) db (take n rs) T)"
  shows "sink_rows e idc uks db rs = Some (foldl (apply_db e idc) db rs)"
  using assms
proof (induction rs arbitrary: db)
  case (Cons r rs)
  have "unique_ok e (uks T) (foldl (apply_db e idc) (apply_db e idc db r) (take n rs) T)" for n T
    using Cons.prems[of T "Suc n"] by simp
  from Cons.IH[OF this] show ?case
    using Cons.prems[of "row_table r" 1] by (simp add: sink_db_def Let_def)
qed simp

section \<open>Rows that fit the table\<close>

text \<open>
  The target holds what the stream says: an inserted row is new, an updated or deleted one is there
  with the key values of its before image, and an update moves its row to a free identity.
\<close>

definition row_matches :: "ext \<Rightarrow> string list \<Rightarrow> string list list \<Rightarrow> table \<Rightarrow> row_data \<Rightarrow> bool" where
  "row_matches e cols uks t r \<longleftrightarrow>
     (case rd_row_type r of
        RInsert \<Rightarrow> t (rkey e cols r) = None
      | _ \<Rightarrow>
          (case t (rkey e cols r) of
             None \<Rightarrow> False
           | Some old \<Rightarrow>
               list_all (\<lambda>uk. id_key e uk old = id_key e uk (opt_image (rd_before r))) uks \<and>
               (rd_row_type r = RUpdate \<longrightarrow>
                  (let k = id_key e cols (old ++ available (opt_image (rd_after r)))
                   in k = rkey e cols r \<or> t k = None))))"

fun replays :: "ext \<Rightarrow> string list \<Rightarrow> string list list \<Rightarrow> table \<Rightarrow> row_data list \<Rightarrow> bool" where
  "replays e cols uks t [] \<longleftrightarrow> unique_ok e uks t" |
  "replays e cols uks t (r # rs) \<longleftrightarrow>
     unique_ok e uks t \<and> row_matches e cols uks t r \<and> replays e cols uks (apply_row e cols t r) rs"

lemma replays_append:
  "replays e cols uks t (rs @ qs) \<Longrightarrow> replays e cols uks t rs \<and> replays e cols uks (apply_rows e cols t rs) qs"
proof (induction rs arbitrary: t)
  case Nil
  then show ?case by (cases qs) auto
qed auto

lemma replays_unique: "replays e cols uks t rs \<Longrightarrow> unique_ok e uks (apply_rows e cols t (take n rs))"
proof (induction rs arbitrary: t n)
  case (Cons r rs)
  then show ?case by (cases n) auto
qed simp

lemma replays_sink_rows:
  assumes "\<forall>T. replays e (idc T) (uks T) (db T) (filter (\<lambda>r. row_table r = T) rs)"
  shows "sink_rows e idc uks db rs = Some (foldl (apply_db e idc) db rs)"
proof (rule sink_rows_Some)
  fix n T
  let ?F = "filter (\<lambda>r. row_table r = T)"
  have "?F rs = ?F (take n rs) @ ?F (drop n rs)" by (simp flip: filter_append)
  then have "?F (take n rs) = take (length (?F (take n rs))) (?F rs)" by simp
  then show "unique_ok e (uks T) (foldl (apply_db e idc) db (take n rs) T)"
    unfolding apply_db_filter using replays_unique[OF spec[OF assms, of T]] by metis
qed

section \<open>Independent classes of entries\<close>

text \<open>
  When every row stays within the class of the entry it is keyed on, the entries of one class
  are determined by the rows of that class.
\<close>

definition keeps_class :: "ext \<Rightarrow> string list \<Rightarrow> (id_key \<Rightarrow> 'c) \<Rightarrow> row_data \<Rightarrow> bool" where
  "keeps_class e cols cls r \<longleftrightarrow>
     (rd_row_type r = RUpdate \<longrightarrow>
        (\<forall>old. id_key e cols old = rkey e cols r \<longrightarrow>
           cls (id_key e cols (old ++ available (opt_image (rd_after r)))) = cls (rkey e cols r)))"

definition restrict_class :: "(id_key \<Rightarrow> 'c) \<Rightarrow> 'c \<Rightarrow> table \<Rightarrow> table" where
  "restrict_class cls c t = (\<lambda>k. if cls k = c then t k else None)"

lemma apply_rows_table_ok: "table_ok e cols t \<Longrightarrow> table_ok e cols (apply_rows e cols t rs)"
  by (induction rs arbitrary: t) (simp_all add: apply_row_table_ok)

lemma restrict_class_ok: "table_ok e cols t \<Longrightarrow> table_ok e cols (restrict_class cls c t)"
  by (auto simp: table_ok_def restrict_class_def)

lemma restrict_class_step:
  assumes "table_ok e cols t" "keeps_class e cols cls r"
  shows "restrict_class cls c (apply_row e cols t r) =
    (if cls (rkey e cols r) = c then apply_row e cols (restrict_class cls c t) r else restrict_class cls c t)"
proof (cases "rd_row_type r")
  case RUpdate
  let ?k = "rkey e cols r" and ?new = "\<lambda>old. old ++ available (opt_image (rd_after r))"
  have k: "id_key e cols (opt_image (rd_before r)) = ?k" using RUpdate by (simp add: rkey_row_type)
  show ?thesis
  proof (cases "t ?k")
    case None
    then show ?thesis using RUpdate k by (auto simp: apply_row_def restrict_class_def)
  next
    case (Some old)
    then have "id_key e cols old = ?k" using assms(1) by (simp add: table_ok_def)
    with assms(2) RUpdate have c: "cls (id_key e cols (?new old)) = cls ?k" by (simp add: keeps_class_def)
    show ?thesis
      using Some RUpdate k c
      by (auto simp: apply_row_def restrict_class_def Let_def fun_eq_iff)
  qed
qed (auto simp: apply_row_by_key restrict_class_def fun_eq_iff)

lemma restrict_class_rows:
  assumes "table_ok e cols t" "\<forall>r\<in>set rs. keeps_class e cols cls r"
  shows "restrict_class cls c (apply_rows e cols t rs) =
    apply_rows e cols (restrict_class cls c t) (filter (\<lambda>r. cls (rkey e cols r) = c) rs)"
  using assms by (induction rs arbitrary: t) (auto simp: restrict_class_step apply_row_table_ok)

lemma apply_rows_by_class:
  assumes "table_ok e cols t" "\<forall>r\<in>set rs \<union> set qs. keeps_class e cols cls r"
    and "\<And>c. filter (\<lambda>r. cls (rkey e cols r) = c) rs = filter (\<lambda>r. cls (rkey e cols r) = c) qs"
  shows "apply_rows e cols t rs = apply_rows e cols t qs"
proof
  fix k
  have "restrict_class cls (cls k) (apply_rows e cols t rs) = restrict_class cls (cls k) (apply_rows e cols t qs)"
    using restrict_class_rows[OF assms(1), of rs cls "cls k"] restrict_class_rows[OF assms(1), of qs cls "cls k"]
      assms(2,3) by simp
  then show "apply_rows e cols t rs k = apply_rows e cols t qs k"
    by (simp add: restrict_class_def fun_eq_iff) metis
qed

section \<open>Who holds a key value\<close>

text \<open>
  Within a class of identities a key value appears with an insert and disappears with a delete, as
  long as no update changes a key.
\<close>

definition keeps_uks :: "ext \<Rightarrow> string list list \<Rightarrow> row_data \<Rightarrow> bool" where
  "keeps_uks e uks r \<longleftrightarrow>
     (rd_row_type r = RUpdate \<longrightarrow>
        (\<forall>uk\<in>set uks. \<forall>old. id_key e uk old = id_key e uk (opt_image (rd_before r)) \<longrightarrow>
           id_key e uk (old ++ available (opt_image (rd_after r))) = id_key e uk old))"

definition holds :: "ext \<Rightarrow> (id_key \<Rightarrow> 'c) \<Rightarrow> string list \<Rightarrow> id_key \<Rightarrow> table \<Rightarrow> 'c \<Rightarrow> bool" where
  "holds e cls uk v t c \<longleftrightarrow> (\<exists>k m. t k = Some m \<and> cls k = c \<and> id_key e uk m = v)"

definition hands_over :: "ext \<Rightarrow> string list list \<Rightarrow> row_data \<Rightarrow> row_data \<Rightarrow> bool" where
  "hands_over e uks d q \<longleftrightarrow>
     rd_row_type d = RDelete \<and> rd_row_type q = RInsert \<and>
     list_ex (\<lambda>uk. not_null (id_key e uk (opt_image (rd_before d))) \<and>
        id_key e uk (opt_image (rd_before d)) = id_key e uk (opt_image (rd_after q))) uks"

lemma unique_holds:
  assumes "unique_ok e uks t" "uk \<in> set uks" "not_null v" "holds e cls uk v t c" "holds e cls uk v t c'"
  shows "c = c'"
proof -
  from assms(4,5) obtain k m k' m' where
    "t k = Some m" "cls k = c" "id_key e uk m = v" "t k' = Some m'" "cls k' = c'" "id_key e uk m' = v"
    by (auto simp: holds_def)
  with assms(1-3) show ?thesis unfolding unique_ok_def by metis
qed

text \<open>A matching row, as a change of one entry.\<close>

lemma update_step:
  assumes "row_matches e cols uks t r" "rd_row_type r = RUpdate"
  obtains old where "t (rkey e cols r) = Some old" "list_all (\<lambda>uk. id_key e uk old = id_key e uk (opt_image (rd_before r))) uks"
    "apply_row e cols t r =
       (t(rkey e cols r := None))(id_key e cols (old ++ available (opt_image (rd_after r))) \<mapsto>
          old ++ available (opt_image (rd_after r)))"
    "id_key e cols (old ++ available (opt_image (rd_after r))) = rkey e cols r \<or>
       t (id_key e cols (old ++ available (opt_image (rd_after r)))) = None"
  using assms by (auto simp: row_matches_def apply_row_def rkey_row_type Let_def split: option.splits)

lemma holds_insert:
  assumes "t k0 = None"
  shows "holds e cls uk v (t(k0 \<mapsto> row)) c \<longleftrightarrow> holds e cls uk v t c \<or> cls k0 = c \<and> id_key e uk row = v"
proof
  assume "holds e cls uk v t c \<or> cls k0 = c \<and> id_key e uk row = v"
  then show "holds e cls uk v (t(k0 \<mapsto> row)) c"
  proof
    assume "holds e cls uk v t c"
    then obtain k m where "t k = Some m" "cls k = c" "id_key e uk m = v" by (auto simp: holds_def)
    with assms show ?thesis unfolding holds_def by (intro exI[of _ k] exI[of _ m]) auto
  qed (auto simp: holds_def)
qed (auto simp: holds_def split: if_splits)

lemma holds_move:
  assumes "t k = Some old" "k' = k \<or> t k' = None" "cls k' = cls k" "id_key e uk new = id_key e uk old"
  shows "holds e cls uk v ((t(k := None))(k' \<mapsto> new)) c \<longleftrightarrow> holds e cls uk v t c"
proof -
  let ?t = "t(k := None)"
  have "?t(k \<mapsto> old) = t" using assms(1) by auto
  with holds_insert[of ?t k e cls uk v old c] have
    "holds e cls uk v t c \<longleftrightarrow> holds e cls uk v ?t c \<or> cls k = c \<and> id_key e uk old = v" by simp
  moreover have "?t k' = None" using assms(2) by auto
  ultimately show ?thesis using holds_insert[of ?t k' e cls uk v new c] assms(3,4) by simp
qed

lemma holds_step:
  assumes "table_ok e cols t" "row_matches e cols uks t r" "keeps_uks e uks r" "keeps_class e cols cls r" "uk \<in> set uks"
  shows "holds e cls uk v (apply_row e cols t r) c \<longleftrightarrow>
    (case rd_row_type r of
       RInsert \<Rightarrow> holds e cls uk v t c \<or> cls (rkey e cols r) = c \<and> id_key e uk (opt_image (rd_after r)) = v
     | RUpdate \<Rightarrow> holds e cls uk v t c
     | RDelete \<Rightarrow> (\<exists>k m. t k = Some m \<and> k \<noteq> rkey e cols r \<and> cls k = c \<and> id_key e uk m = v))"
proof (cases "rd_row_type r")
  case RInsert
  with assms(2) have new: "t (rkey e cols r) = None" by (simp add: row_matches_def)
  from holds_insert[of t "rkey e cols r", OF new] RInsert show ?thesis by (simp add: apply_row_by_key)
next
  case RUpdate
  from update_step[OF assms(2) RUpdate] obtain old where
    old: "t (rkey e cols r) = Some old" "list_all (\<lambda>uk. id_key e uk old = id_key e uk (opt_image (rd_before r))) uks"
    "apply_row e cols t r =
       (t(rkey e cols r := None))(id_key e cols (old ++ available (opt_image (rd_after r))) \<mapsto>
          old ++ available (opt_image (rd_after r)))"
    "id_key e cols (old ++ available (opt_image (rd_after r))) = rkey e cols r \<or>
       t (id_key e cols (old ++ available (opt_image (rd_after r)))) = None" by blast
  let ?new = "old ++ available (opt_image (rd_after r))"
  have "id_key e cols old = rkey e cols r" using assms(1) old(1) by (simp add: table_ok_def)
  then have c: "cls (id_key e cols ?new) = cls (rkey e cols r)"
    using assms(4) RUpdate by (simp add: keeps_class_def)
  have u: "id_key e uk ?new = id_key e uk old"
    using assms(3,5) old(2) RUpdate by (simp add: keeps_uks_def list_all_iff)
  have "holds e cls uk v (apply_row e cols t r) c \<longleftrightarrow> holds e cls uk v t c"
    unfolding old(3) by (rule holds_move[of t _ old, OF old(1,4) c u])
  with RUpdate show ?thesis by simp
next
  case RDelete
  then show ?thesis by (auto simp: holds_def apply_row_by_key)
qed

lemma released:
  assumes "table_ok e cols t" "replays e cols uks t rs" "\<forall>r\<in>set rs. keeps_uks e uks r \<and> keeps_class e cols cls r"
    and "uk \<in> set uks" "holds e cls uk v t c" "\<not> holds e cls uk v (apply_rows e cols t rs) c"
  shows "\<exists>d\<in>set rs. rd_row_type d = RDelete \<and> cls (rkey e cols d) = c \<and> id_key e uk (opt_image (rd_before d)) = v"
  using assms
proof (induction rs arbitrary: t)
  case (Cons r rs)
  let ?t = "apply_row e cols t r"
  have m: "row_matches e cols uks t r" using Cons.prems(2) by simp
  have kp: "keeps_uks e uks r" "keeps_class e cols cls r" using Cons.prems(3) by simp_all
  show ?case
  proof (cases "holds e cls uk v ?t c")
    case True
    from Cons.IH[OF apply_row_table_ok[OF Cons.prems(1)] _ _ Cons.prems(4) True] Cons.prems show ?thesis by auto
  next
    case False
    with holds_step[OF Cons.prems(1) m kp Cons.prems(4), of v c] Cons.prems(5) have d: "rd_row_type r = RDelete"
      by (cases "rd_row_type r") simp_all
    from Cons.prems(5) obtain k row where k: "t k = Some row" "cls k = c" "id_key e uk row = v" by (auto simp: holds_def)
    with False holds_step[OF Cons.prems(1) m kp Cons.prems(4), of v c] d have "k = rkey e cols r" by auto
    with k m d Cons.prems(4) have "cls (rkey e cols r) = c \<and> id_key e uk (opt_image (rd_before r)) = v"
      by (auto simp: row_matches_def list_all_iff)
    with d show ?thesis by auto
  qed
qed simp

lemma taken:
  assumes "table_ok e cols t" "replays e cols uks t rs" "\<forall>r\<in>set rs. keeps_uks e uks r \<and> keeps_class e cols cls r"
    and "uk \<in> set uks" "\<not> holds e cls uk v t c" "holds e cls uk v (apply_rows e cols t rs) c"
  shows "\<exists>q\<in>set rs. rd_row_type q = RInsert \<and> cls (rkey e cols q) = c \<and> id_key e uk (opt_image (rd_after q)) = v"
  using assms
proof (induction rs arbitrary: t)
  case (Cons r rs)
  let ?t = "apply_row e cols t r"
  have m: "row_matches e cols uks t r" using Cons.prems(2) by simp
  have kp: "keeps_uks e uks r" "keeps_class e cols cls r" using Cons.prems(3) by simp_all
  show ?case
  proof (cases "holds e cls uk v ?t c")
    case False
    from Cons.IH[OF apply_row_table_ok[OF Cons.prems(1)] _ _ Cons.prems(4) False] Cons.prems show ?thesis by auto
  next
    case True
    with holds_step[OF Cons.prems(1) m kp Cons.prems(4), of v c] Cons.prems(5)
    have "rd_row_type r = RInsert \<and> cls (rkey e cols r) = c \<and> id_key e uk (opt_image (rd_after r)) = v"
      by (cases "rd_row_type r") (auto simp: holds_def)
    then show ?thesis by auto
  qed
qed simp

text \<open>
  When no delete hands a key value over to an insert of another class, no two classes ever hold the
  same value, not even at different times.
\<close>

lemma holds_exclusive_le:
  assumes "table_ok e cols t" "replays e cols uks t rs" "\<forall>r\<in>set rs. keeps_uks e uks r \<and> keeps_class e cols cls r"
    and "\<forall>d\<in>set rs. \<forall>q\<in>set rs. hands_over e uks d q \<longrightarrow> cls (rkey e cols d) = cls (rkey e cols q)"
    and "uk \<in> set uks" "not_null v" "i \<le> j"
    and "holds e cls uk v (apply_rows e cols t (take i rs)) a" "holds e cls uk v (apply_rows e cols t (take j rs)) b"
  shows "a = b"
proof (rule ccontr)
  assume ne: "a \<noteq> b"
  define mid where "mid = drop i (take j rs)"
  let ?s = "apply_rows e cols t (take i rs)"
  have j: "take j rs = take i rs @ mid"
    using append_take_drop_id[of i "take j rs"] assms(7) by (simp add: mid_def min_absorb1)
  have "set mid \<subseteq> set (take j rs)" unfolding mid_def by (rule set_drop_subset)
  then have sub: "set mid \<subseteq> set rs" using set_take_subset[of j rs] by (rule subset_trans)
  have ok: "table_ok e cols ?s" by (rule apply_rows_table_ok[OF assms(1)])
  have "replays e cols uks t (take j rs)" using replays_append[of e cols uks t "take j rs" "drop j rs"] assms(2) by simp
  then have rp: "replays e cols uks ?s mid" using replays_append[of e cols uks t "take i rs" mid] j by simp
  have kp: "\<forall>r\<in>set mid. keeps_uks e uks r \<and> keeps_class e cols cls r" using assms(3) sub by (meson subsetD)
  have fin: "apply_rows e cols t (take j rs) = apply_rows e cols ?s mid" by (simp add: j)
  note hb = assms(9)[unfolded fin]
  note un = unique_holds[OF _ assms(5,6)]
  have nb: "\<not> holds e cls uk v ?s b" using un[OF replays_unique[OF assms(2)] assms(8)] ne by meson
  have na: "\<not> holds e cls uk v (apply_rows e cols ?s mid) a"
    using un[OF replays_unique[OF assms(2), of j], unfolded fin, OF hb] ne by blast
  from released[OF ok rp kp assms(5,8) na] obtain d where
    d: "d \<in> set mid" "rd_row_type d = RDelete" "cls (rkey e cols d) = a" "id_key e uk (opt_image (rd_before d)) = v" by meson
  from taken[OF ok rp kp assms(5) nb hb] obtain q where
    q: "q \<in> set mid" "rd_row_type q = RInsert" "cls (rkey e cols q) = b" "id_key e uk (opt_image (rd_after q)) = v" by meson
  have "hands_over e uks d q" using d q assms(5,6) by (auto simp: hands_over_def list_ex_iff)
  with assms(4) subsetD[OF sub d(1)] subsetD[OF sub q(1)] d(3) q(3) ne show False by metis
qed

lemma filter_prefix_take:
  "filter P ys = xs @ zs \<Longrightarrow> \<exists>n. xs = filter P (take n ys)"
proof (induction ys arbitrary: xs)
  case (Cons y ys)
  show ?case
  proof (cases "xs = []")
    case False
    with Cons.prems obtain xs' where x: "P y \<Longrightarrow> xs = y # xs'" "P y \<Longrightarrow> filter P ys = xs' @ zs"
      by (cases xs) (auto split: if_splits)
    show ?thesis
    proof (cases "P y")
      case True
      from Cons.IH[OF x(2)[OF True]] obtain n where "xs' = filter P (take n ys)" ..
      with True x(1) show ?thesis by (intro exI[of _ "Suc n"]) simp
    next
      case False
      with Cons.prems Cons.IH[of xs] obtain n where "xs = filter P (take n ys)" by auto
      with False show ?thesis by (intro exI[of _ "Suc n"]) simp
    qed
  qed (auto intro: exI[of _ 0])
qed simp

text \<open>
  Rows that respect the unique keys in their order respect them in every order that keeps the rows of
  each class in order.
\<close>

lemma unique_any_order:
  assumes "table_ok e cols t" "replays e cols uks t rs" "\<forall>r\<in>set rs. keeps_uks e uks r \<and> keeps_class e cols cls r"
    and "\<forall>d\<in>set rs. \<forall>q\<in>set rs. hands_over e uks d q \<longrightarrow> cls (rkey e cols d) = cls (rkey e cols q)"
    and "set (pre @ post) \<subseteq> set rs"
    and cls: "\<And>c. filter (\<lambda>r. cls (rkey e cols r) = c) (pre @ post) = filter (\<lambda>r. cls (rkey e cols r) = c) rs"
  shows "unique_ok e uks (apply_rows e cols t pre)"
  unfolding unique_ok_def
proof (intro ballI allI impI)
  let ?s = "\<lambda>n. apply_rows e cols t (take n rs)"
  fix uk k k' m m'
  assume uk: "uk \<in> set uks" and km: "apply_rows e cols t pre k = Some m \<and> apply_rows e cols t pre k' = Some m' \<and>
    not_null (id_key e uk m) \<and> id_key e uk m = id_key e uk m'"
  have "\<exists>n. restrict_class cls c (apply_rows e cols t pre) = restrict_class cls c (?s n)" for c
  proof -
    let ?P = "\<lambda>r. cls (rkey e cols r) = c"
    from cls[of c] have "filter ?P rs = filter ?P pre @ filter ?P post" by simp
    from filter_prefix_take[OF this] obtain n where "filter ?P pre = filter ?P (take n rs)" ..
    moreover have "\<forall>r\<in>set pre. keeps_class e cols cls r" "\<forall>r\<in>set (take n rs). keeps_class e cols cls r"
      using assms(3,5) by (auto dest: in_set_takeD)
    ultimately show ?thesis using restrict_class_rows[OF assms(1)] by metis
  qed
  then have at: "\<exists>n. \<forall>k. cls k = c \<longrightarrow> apply_rows e cols t pre k = ?s n k" for c
    unfolding restrict_class_def by metis
  from at[of "cls k"] at[of "cls k'"] obtain i j where
    i: "\<And>x. cls x = cls k \<Longrightarrow> apply_rows e cols t pre x = ?s i x" and
    j: "\<And>x. cls x = cls k' \<Longrightarrow> apply_rows e cols t pre x = ?s j x" by blast
  let ?v = "id_key e uk m"
  have hi: "holds e cls uk ?v (?s i) (cls k)" and hj: "holds e cls uk ?v (?s j) (cls k')"
    using km i[of k] j[of k'] by (auto simp: holds_def)
  note excl = holds_exclusive_le[OF assms(1-4) uk, of ?v]
  have "cls k = cls k'"
    using excl[of i j "cls k" "cls k'"] excl[of j i "cls k'" "cls k"] hi hj km by (cases "i \<le> j") auto
  then have "?s i k = Some m" "?s i k' = Some m'" using km i[of k] i[of k'] by simp_all
  with replays_unique[OF assms(2), of i] uk km show "k = k'" unfolding unique_ok_def by blast
qed

end
