(* ===== verification/Rdb_Partitioner.thy ===== *)
theory Rdb_Partitioner
  imports Parallelizer Unique_Keys
begin

text \<open>
  \<open>dt-parallelizer/src/rdb_partitioner.rs\<close> and \<open>partition_parallelizer.rs\<close>: rows are
  distributed over partitions by the hash of their partition column and the partitions are
  sinked concurrently. As for the merger, the metadata lookup is an argument and the hash is
  arbitrary.
\<close>

section \<open>RdbPartitioner\<close>

definition partition_image :: "row_data \<Rightarrow> col_values res" where
  "partition_image r = (case rd_row_type r of RInsert \<Rightarrow> require_after r | _ \<Rightarrow> require_before r)"

definition get_partition_index ::
  "ext \<Rightarrow> (string \<Rightarrow> string \<Rightarrow> rdb_tb_meta res) \<Rightarrow> nat \<Rightarrow> row_data \<Rightarrow> nat res" where
  "get_partition_index e get_tb_meta partition_count r =
     (if partition_count \<le> 1 then Inr 0
      else
        bind_res (partition_image r) (\<lambda>col_values.
          bind_res (get_tb_meta (rd_schema r) (rd_tb r)) (\<lambda>meta.
            case map_of col_values (tm_partition_col meta) of
              Some v \<Rightarrow> Inr (unat (hash_code e v) mod partition_count)
            | None \<Rightarrow> Inr 0)))"

definition push_partition ::
  "ext \<Rightarrow> (string \<Rightarrow> string \<Rightarrow> rdb_tb_meta res) \<Rightarrow> nat \<Rightarrow> row_data list list \<Rightarrow> row_data \<Rightarrow>
   row_data list list res" where
  "push_partition e get_tb_meta partition_count subs r =
     bind_res (get_partition_index e get_tb_meta partition_count r) (\<lambda>i.
       if i < length subs then Inr (subs[i := subs ! i @ [r]])
       else Inl (Panic ''index out of bounds''))"

definition rdb_partition ::
  "ext \<Rightarrow> (string \<Rightarrow> string \<Rightarrow> rdb_tb_meta res) \<Rightarrow> nat \<Rightarrow> row_data list \<Rightarrow> row_data list list res" where
  "rdb_partition e get_tb_meta partition_count data =
     (if partition_count \<le> 1 then Inr [data]
      else fold_res (push_partition e get_tb_meta partition_count) (replicate partition_count []) data)"

definition opt_value_eq :: "ext \<Rightarrow> col_value option \<Rightarrow> col_value option \<Rightarrow> bool" where
  "opt_value_eq e a b =
     (case a of
        Some x \<Rightarrow> (case b of Some y \<Rightarrow> col_eq e x y | None \<Rightarrow> False)
      | None \<Rightarrow> b = None)"

definition can_be_partitioned ::
  "ext \<Rightarrow> (string \<Rightarrow> string \<Rightarrow> rdb_tb_meta res) \<Rightarrow> row_data \<Rightarrow> bool res" where
  "can_be_partitioned e get_tb_meta r =
     (if rd_row_type r \<noteq> RUpdate then Inr True
      else
        bind_res (get_tb_meta (rd_schema r) (rd_tb r)) (\<lambda>meta.
          bind_res (require_before r) (\<lambda>before.
            bind_res (require_after r) (\<lambda>after.
              if list_ex (\<lambda>(_, key_cols).
                   list_ex (\<lambda>col. \<not> opt_value_eq e (map_of before col) (map_of after col)) key_cols)
                   (tm_key_map meta)
              then Inr False
              else if tm_key_map meta = [] \<and>
                   \<not> opt_value_eq e (map_of before (tm_partition_col meta)) (map_of after (tm_partition_col meta))
              then Inr False
              else Inr True))))"

section \<open>PartitionParallelizer\<close>

fun partition_drain_loop ::
  "ext \<Rightarrow> (string \<Rightarrow> string \<Rightarrow> rdb_tb_meta res) \<Rightarrow> nat \<Rightarrow> dt_item list \<Rightarrow> nat \<times> nat \<Rightarrow> dt_item list \<Rightarrow>
   (dt_item list \<times> (nat \<times> nat) \<times> dt_item list) res" where
  "partition_drain_loop e g parallel_size data c [] = Inr (data, c, [])" |
  "partition_drain_loop e g parallel_size data c (item # queue) =
     (let c' = counter_add item c in
      case it_dt_data item of
        DDml r \<Rightarrow>
          (if parallel_size > 1 then
             bind_res (can_be_partitioned e g r) (\<lambda>can.
               if \<not> can then Inr (data @ [item], c', queue)
               else partition_drain_loop e g parallel_size (data @ [item]) c' queue)
           else partition_drain_loop e g parallel_size (data @ [item]) c' queue)
      | DCommit _ \<Rightarrow> partition_drain_loop e g parallel_size (data @ [item]) c' queue
      | _ \<Rightarrow> partition_drain_loop e g parallel_size data c' queue)"

definition partition_drain ::
  "ext \<Rightarrow> (string \<Rightarrow> string \<Rightarrow> rdb_tb_meta res) \<Rightarrow> nat \<Rightarrow> base_parallelizer \<Rightarrow> dt_item list \<Rightarrow>
   (dt_item list \<times> base_parallelizer \<times> dt_item list) res" where
  "partition_drain e g parallel_size b queue =
     map_res (\<lambda>(data, c, queue'). (data, update_monitor c b, queue'))
       (partition_drain_loop e g parallel_size [] (0, 0) queue)"

definition partition_sink_dml ::
  "ext \<Rightarrow> (string \<Rightarrow> string \<Rightarrow> rdb_tb_meta res) \<Rightarrow> nat \<Rightarrow> nat \<Rightarrow> row_data list \<Rightarrow>
   (row_data task list \<times> data_size) res" where
  "partition_sink_dml e g sinkers parallel_size data =
     bind_res (rdb_partition e g parallel_size data) (\<lambda>sub_data.
       map_res (\<lambda>tasks. (tasks, size_of_list rd_data_size data))
         (base_sink_dml sinkers parallel_size False sub_data))"

section \<open>The split\<close>

definition part_index :: "ext \<Rightarrow> (string \<Rightarrow> string \<Rightarrow> rdb_tb_meta res) \<Rightarrow> nat \<Rightarrow> row_data \<Rightarrow> nat" where
  "part_index e g n r = (case get_partition_index e g n r of Inr i \<Rightarrow> i | Inl _ \<Rightarrow> 0)"

lemma get_partition_index_less:
  "0 < n \<Longrightarrow> get_partition_index e g n r = Inr i \<Longrightarrow> i < n"
  by (auto simp: get_partition_index_def bind_res_eq_Inr split: if_splits option.splits)

lemma push_partition_ok:
  assumes "get_partition_index e g n r = Inr i" "1 < n" "length subs = n"
  shows "push_partition e g n subs r = Inr (subs[i := subs ! i @ [r]])"
  using assms get_partition_index_less[of n e g r i] by (simp add: push_partition_def)

lemma rdb_partition_fold:
  assumes "1 < n" "length subs = n" "\<forall>r\<in>set data. \<exists>i. get_partition_index e g n r = Inr i"
  shows "\<exists>subs'. fold_res (push_partition e g n) subs data = Inr subs' \<and> length subs' = n \<and>
    (\<forall>j<n. subs' ! j = subs ! j @ filter (\<lambda>r. part_index e g n r = j) data)"
  using assms
proof (induction data arbitrary: subs)
  case (Cons r data)
  then obtain i where i: "get_partition_index e g n r = Inr i" by auto
  let ?s = "subs[i := subs ! i @ [r]]"
  have p: "push_partition e g n subs r = Inr ?s" "part_index e g n r = i"
    using push_partition_ok[OF i Cons.prems(1,2)] i by (simp_all add: part_index_def)
  have il: "i < n" using get_partition_index_less[OF _ i] Cons.prems(1) by simp
  from Cons.IH[of ?s] Cons.prems obtain subs' where
    s': "fold_res (push_partition e g n) ?s data = Inr subs'" "length subs' = n"
    "\<forall>j<n. subs' ! j = ?s ! j @ filter (\<lambda>r. part_index e g n r = j) data" by auto
  have "subs' ! j = subs ! j @ filter (\<lambda>x. part_index e g n x = j) (r # data)" if "j < n" for j
    using s'(3) that p(2) il Cons.prems(2) by (cases "j = i") auto
  with s' p show ?case by auto
qed simp

lemma concat_single_index:
  "c < n \<Longrightarrow> concat (map (\<lambda>j. if c = j then [x] else []) [0..<n]) = [x]"
proof (induction n)
  case (Suc n)
  have "concat (map (\<lambda>j. if n = j then [x] else []) [0..<n]) = []" by simp
  with Suc show ?case by (cases "c = n") auto
qed simp

lemma mset_partition_filters:
  assumes "\<forall>x\<in>set xs. f x < n"
  shows "mset (concat (map (\<lambda>j. filter (\<lambda>x. f x = j) xs) [0..<n])) = mset xs"
  using assms
proof (induction xs)
  case (Cons x xs)
  let ?F = "\<lambda>j. filter (\<lambda>y. f y = j) xs"
  have "mset (concat (map (\<lambda>j. filter (\<lambda>y. f y = j) (x # xs)) [0..<n])) =
      mset (concat (map (\<lambda>j. (if f x = j then [x] else []) @ ?F j) [0..<n]))"
    by (rule arg_cong[of _ _ "\<lambda>l. mset (concat l)"]) auto
  also have "\<dots> = mset (concat (map (\<lambda>j. if f x = j then [x] else []) [0..<n])) + mset (concat (map ?F [0..<n]))"
    by (induction n) auto
  also have "concat (map (\<lambda>j. if f x = j then [x] else []) [0..<n]) = [x]"
    using Cons.prems by (simp add: concat_single_index)
  finally show ?case using Cons by simp
qed (simp add: map_replicate_const concat_replicate_trivial)

definition partition_ok ::
  "ext \<Rightarrow> (string \<Rightarrow> string \<Rightarrow> rdb_tb_meta res) \<Rightarrow> nat \<Rightarrow> row_data list \<Rightarrow> bool" where
  "partition_ok e g n data \<longleftrightarrow> (\<forall>r\<in>set data. \<exists>i. get_partition_index e g n r = Inr i)"

lemma rdb_partition_parts:
  assumes "1 < n" "partition_ok e g n data"
  shows "rdb_partition e g n data = Inr (map (\<lambda>j. filter (\<lambda>r. part_index e g n r = j) data) [0..<n])"
proof -
  from rdb_partition_fold[of n "replicate n []" data e g] assms obtain subs where
    s: "fold_res (push_partition e g n) (replicate n []) data = Inr subs" "length subs = n"
    "\<forall>j<n. subs ! j = filter (\<lambda>r. part_index e g n r = j) data"
    by (auto simp: partition_ok_def)
  have "subs = map (\<lambda>j. filter (\<lambda>r. part_index e g n r = j) data) [0..<n]"
    using s(2,3) by (intro nth_equalityI) simp_all
  with s(1) assms(1) show ?thesis by (simp add: rdb_partition_def)
qed

interpretation rdb_split: keyed_split "rdb_partition e g n" "part_index e g n" "partition_ok e g n" for e g n
proof
  fix xs assume ok: "partition_ok e g n xs"
  have bound: "part_index e g n x < n" if "1 < n" "x \<in> set xs" for x
    using ok that get_partition_index_less[of n e g x]
    by (auto simp: partition_ok_def part_index_def split: sum.splits)
  show "\<exists>xss. rdb_partition e g n xs = Inr xss"
    using rdb_partition_parts[OF _ ok] by (cases "1 < n") (auto simp: rdb_partition_def)
  fix xss assume s: "rdb_partition e g n xs = Inr xss"
  show "mset (concat xss) = mset xs"
  proof (cases "1 < n")
    case True
    then show ?thesis
      using rdb_partition_parts[OF True ok] s mset_partition_filters[of xs "part_index e g n" n] bound by simp
  qed (use s in \<open>auto simp: rdb_partition_def\<close>)
  fix x assume x: "x \<in> set xs"
  let ?P = "\<lambda>y. part_index e g n y = part_index e g n x"
  show "\<exists>j<length xss. filter ?P (xss ! j) = filter ?P xs"
  proof (cases "1 < n")
    case True
    then show ?thesis
      using rdb_partition_parts[OF True ok] s bound[OF True x]
      by (intro exI[of _ "part_index e g n x"]) (auto simp: filter_filter conj_absorb)
  qed (use s in \<open>auto simp: rdb_partition_def\<close>)
qed

section \<open>Rows of one partition value\<close>

definition part_class :: "string list \<Rightarrow> string \<Rightarrow> id_key \<Rightarrow> string option option option" where
  "part_class cols pc k = map_of (zip cols k) pc"

text \<open>
  A row the partitioner may distribute: the metadata is there and gives the identity \<open>idc\<close> and the
  unique keys \<open>uks\<close> of the target table, the partition column identifies rows and belongs to a key
  when there is one, the key values have an equality, and \<open>can_be_partitioned\<close> holds.
\<close>

definition plain_keys :: "string list list \<Rightarrow> row_data \<Rightarrow> bool" where
  "plain_keys uks r =
     list_all (list_all (\<lambda>c. case opt_image (rd_before r) c of Some v \<Rightarrow> plain v | None \<Rightarrow> True)) uks"

definition partition_row_ok ::
  "ext \<Rightarrow> (string \<Rightarrow> string \<Rightarrow> rdb_tb_meta res) \<Rightarrow> (string \<times> string \<Rightarrow> string list) \<Rightarrow>
   (string \<times> string \<Rightarrow> string list list) \<Rightarrow> row_data \<Rightarrow> bool" where
  "partition_row_ok e g idc uks r \<longleftrightarrow>
     (\<exists>meta. g (rd_schema r) (rd_tb r) = Inr meta \<and> tm_id_cols meta = idc (row_table r) \<and>
        map snd (tm_key_map meta) = uks (row_table r) \<and>
        tm_partition_col meta \<in> set (tm_id_cols meta) \<and> wf_row (tm_id_cols meta) r \<and>
        plain_keys (uks (row_table r)) r \<and> can_be_partitioned e g r = Inr True \<and>
        (tm_key_map meta = [] \<or> (\<exists>key\<in>set (tm_key_map meta). tm_partition_col meta \<in> set (snd key))))"

text \<open>No delete hands a key value over to an insert of another partition value.\<close>

definition part_value :: "ext \<Rightarrow> (string \<Rightarrow> string \<Rightarrow> rdb_tb_meta res) \<Rightarrow> row_data \<Rightarrow> string option option" where
  "part_value e g r =
     (case g (rd_schema r) (rd_tb r) of
        Inr meta \<Rightarrow> map_option (to_option_string e) (row_image_of r (tm_partition_col meta))
      | Inl _ \<Rightarrow> None)"

definition no_handover ::
  "ext \<Rightarrow> (string \<Rightarrow> string \<Rightarrow> rdb_tb_meta res) \<Rightarrow> (string \<times> string \<Rightarrow> string list list) \<Rightarrow> row_data list \<Rightarrow> bool" where
  "no_handover e g uks data =
     list_all (\<lambda>d. list_all (\<lambda>q.
       row_table d = row_table q \<and> hands_over e (uks (row_table d)) d q \<longrightarrow> part_value e g d = part_value e g q) data) data"

lemma part_class_id_key:
  "pc \<in> set cols \<Longrightarrow> part_class cols pc (id_key e cols m) = Some (map_option (to_option_string e) (m pc))"
  by (simp add: part_class_def id_key_def map_of_zip_map)

lemma hash_code_string: "to_option_string e v = to_option_string e w \<Longrightarrow> hash_code e v = hash_code e w"
  by (cases v; cases w) (simp_all add: hash_code_def)

lemma has_plain_key_col:
  assumes "has_plain_key cols m" "c \<in> set cols"
  obtains vs v where "m = Some vs" "map_of vs c = Some v" "plain v"
  using assms by (fastforce simp: has_plain_key_def list_all_iff split: option.splits)

lemma partition_row_value:
  assumes "wf_row cols r" "pc \<in> set cols"
  obtains vs v where "partition_image r = Inr vs" "map_of vs pc = Some v" "row_image_of r pc = Some v"
  using assms
  by (cases "rd_row_type r")
    (auto simp: wf_row_def partition_image_def row_image_of_def opt_image_def image_cols_def
      require_after_def require_before_def elim: has_plain_key_col)

lemma partition_row_index:
  assumes "partition_row_ok e g idc uks r" "g (rd_schema r) (rd_tb r) = Inr meta"
  shows "\<exists>v. row_image_of r (tm_partition_col meta) = Some v \<and>
    get_partition_index e g n r = Inr (if n \<le> 1 then 0 else unat (hash_code e v) mod n)"
proof -
  from assms have w: "wf_row (tm_id_cols meta) r" "tm_partition_col meta \<in> set (tm_id_cols meta)"
    by (auto simp: partition_row_ok_def)
  obtain vs v where v: "partition_image r = Inr vs" "map_of vs (tm_partition_col meta) = Some v"
    "row_image_of r (tm_partition_col meta) = Some v" by (rule partition_row_value[OF w])
  then show ?thesis using assms(2) by (auto simp: get_partition_index_def)
qed

lemma partition_update_same:
  assumes "partition_row_ok e g idc uks r" "g (rd_schema r) (rd_tb r) = Inr meta" "rd_row_type r = RUpdate"
  shows "opt_image (rd_before r) (tm_partition_col meta) = opt_image (rd_after r) (tm_partition_col meta)"
proof -
  let ?pc = "tm_partition_col meta"
  from assms have w: "has_plain_key (tm_id_cols meta) (rd_before r)" "?pc \<in> set (tm_id_cols meta)"
    and can: "can_be_partitioned e g r = Inr True"
    and key: "tm_key_map meta = [] \<or> (\<exists>key\<in>set (tm_key_map meta). ?pc \<in> set (snd key))"
    by (auto simp: partition_row_ok_def wf_row_def)
  obtain b v where b: "rd_before r = Some b" "map_of b ?pc = Some v" "plain v"
    by (rule has_plain_key_col[OF w])
  from can b(1) assms(2,3) obtain a where a: "rd_after r = Some a"
    by (auto simp: can_be_partitioned_def require_after_def require_before_def bind_res_eq_Inr context_res_eq_Inr)
  have "opt_value_eq e (map_of b ?pc) (map_of a ?pc)"
    using can key a b(1) assms(2,3)
    by (auto simp: can_be_partitioned_def require_after_def require_before_def list_ex_iff split: if_splits)
  then have "map_of a ?pc = Some v"
    using b col_eq_plain[OF b(3)] by (auto simp: opt_value_eq_def split: option.splits)
  with a b show ?thesis by (simp add: opt_image_def image_cols_def)
qed

lemma partition_keeps_class:
  assumes "partition_row_ok e g idc uks r" "g (rd_schema r) (rd_tb r) = Inr meta"
  shows "keeps_class e (tm_id_cols meta) (part_class (tm_id_cols meta) (tm_partition_col meta)) r"
  unfolding keeps_class_def
proof (intro impI allI)
  fix old assume u: "rd_row_type r = RUpdate" and old: "id_key e (tm_id_cols meta) old = rkey e (tm_id_cols meta) r"
  let ?pc = "tm_partition_col meta" and ?cols = "tm_id_cols meta"
  have pc: "?pc \<in> set ?cols" using assms by (auto simp: partition_row_ok_def)
  have same: "opt_image (rd_before r) ?pc = opt_image (rd_after r) ?pc"
    by (rule partition_update_same[OF assms u])
  have rk: "part_class ?cols ?pc (rkey e ?cols r) = Some (map_option (to_option_string e) (opt_image (rd_after r) ?pc))"
    using u pc same by (simp add: rkey_row_type part_class_id_key)
  have "map_option (to_option_string e) (old ?pc) = map_option (to_option_string e) (opt_image (rd_after r) ?pc)"
    using arg_cong[OF old, of "part_class ?cols ?pc"] rk pc by (simp add: part_class_id_key)
  then show "part_class ?cols ?pc (id_key e ?cols (old ++ available (opt_image (rd_after r)))) =
      part_class ?cols ?pc (rkey e ?cols r)"
    using rk pc by (auto simp: part_class_id_key map_add_def available_def split: option.splits)
qed

lemma update_value_kept:
  assumes "opt_value_eq e (b c) (a c)" "case b c of Some v \<Rightarrow> plain v | None \<Rightarrow> True"
    and "map_option (to_option_string e) (old c) = map_option (to_option_string e) (b c)"
  shows "map_option (to_option_string e) ((old ++ available a) c) = map_option (to_option_string e) (old c)"
  using assms by (auto simp: opt_value_eq_def available_def map_add_def col_eq_plain split: option.splits)

lemma partition_keeps_uks:
  assumes "partition_row_ok e g idc uks r" "g (rd_schema r) (rd_tb r) = Inr meta"
  shows "keeps_uks e (uks (row_table r)) r"
  unfolding keeps_uks_def
proof (intro impI ballI allI)
  fix uk old
  assume u: "rd_row_type r = RUpdate" and uk: "uk \<in> set (uks (row_table r))"
    and old: "id_key e uk old = id_key e uk (opt_image (rd_before r))"
  from assms have can: "can_be_partitioned e g r = Inr True" and km: "uks (row_table r) = map snd (tm_key_map meta)"
    and pk: "plain_keys (uks (row_table r)) r" by (auto simp: partition_row_ok_def)
  from can u assms(2) obtain b a where ba: "rd_before r = Some b" "rd_after r = Some a"
    by (auto simp: can_be_partitioned_def require_after_def require_before_def bind_res_eq_Inr context_res_eq_Inr)
  have eq: "opt_value_eq e (map_of b c) (map_of a c)" if "c \<in> set uk" for c
    using can u assms(2) ba uk that
    by (auto simp: can_be_partitioned_def require_after_def require_before_def km list_ex_iff split: if_splits)
  have "map_option (to_option_string e) ((old ++ available (map_of a)) c) = map_option (to_option_string e) (old c)"
    if "c \<in> set uk" for c
    using eq[OF that] pk uk old that ba
    by (intro update_value_kept) (auto simp: plain_keys_def list_all_iff opt_image_def image_cols_def id_key_def)
  then show "id_key e uk (old ++ available (opt_image (rd_after r))) = id_key e uk old"
    using ba by (simp add: id_key_def opt_image_def image_cols_def)
qed

lemma part_value_class:
  assumes "partition_row_ok e g idc uks r" "g (rd_schema r) (rd_tb r) = Inr meta"
  shows "part_class (tm_id_cols meta) (tm_partition_col meta) (rkey e (tm_id_cols meta) r) = Some (part_value e g r)"
  using assms by (auto simp: partition_row_ok_def rkey_def part_class_id_key part_value_def)

lemma partition_row_total:
  "\<forall>r\<in>set data. partition_row_ok e g idc uks r \<Longrightarrow> partition_ok e g n data"
  unfolding partition_ok_def
proof
  fix r assume "\<forall>r\<in>set data. partition_row_ok e g idc uks r" "r \<in> set data"
  then have ok: "partition_row_ok e g idc uks r" by simp
  then obtain meta where "g (rd_schema r) (rd_tb r) = Inr meta" by (auto simp: partition_row_ok_def)
  from partition_row_index[OF ok this, of n] show "\<exists>i. get_partition_index e g n r = Inr i" by auto
qed

lemma partition_class_index:
  assumes "partition_row_ok e g idc uks r" "partition_row_ok e g idc uks q"
    and "row_table q = row_table r" "g (rd_schema r) (rd_tb r) = Inr meta"
    and "part_class (tm_id_cols meta) (tm_partition_col meta) (rkey e (tm_id_cols meta) q) =
      part_class (tm_id_cols meta) (tm_partition_col meta) (rkey e (tm_id_cols meta) r)"
  shows "part_index e g n q = part_index e g n r"
proof -
  have gq: "g (rd_schema q) (rd_tb q) = Inr meta" using assms(3,4) by (simp add: row_table_def)
  obtain v where v: "row_image_of r (tm_partition_col meta) = Some v"
    "get_partition_index e g n r = Inr (if n \<le> 1 then 0 else unat (hash_code e v) mod n)"
    using partition_row_index[OF assms(1,4)] by blast
  obtain w where w: "row_image_of q (tm_partition_col meta) = Some w"
    "get_partition_index e g n q = Inr (if n \<le> 1 then 0 else unat (hash_code e w) mod n)"
    using partition_row_index[OF assms(2) gq] by blast
  have "tm_partition_col meta \<in> set (tm_id_cols meta)" using assms(1,4) by (auto simp: partition_row_ok_def)
  with assms(5) v(1) w(1) have "to_option_string e w = to_option_string e v"
    by (simp add: rkey_def part_class_id_key)
  then have "hash_code e w = hash_code e v" by (rule hash_code_string)
  with v(2) w(2) show ?thesis by (simp add: part_index_def)
qed

lemma partition_interleave_class:
  assumes ok: "\<forall>r\<in>set data. partition_row_ok e g idc uks r"
    and split: "rdb_partition e g n data = Inr xss" "interleave xss rows"
    and meta: "g (fst T) (snd T) = Inr meta"
  shows "filter (\<lambda>r. row_table r = T \<and>
      part_class (tm_id_cols meta) (tm_partition_col meta) (rkey e (tm_id_cols meta) r) = c) rows =
    filter (\<lambda>r. row_table r = T \<and>
      part_class (tm_id_cols meta) (tm_partition_col meta) (rkey e (tm_id_cols meta) r) = c) data"
    (is "filter ?Q rows = filter ?Q data")
proof -
  note pok = partition_row_total[OF ok]
  have same: "set rows = set data"
    using interleave_mset[OF split(2)] rdb_split.split_mset[OF pok split(1)] by (metis mset_eq_setD)
  show ?thesis
  proof (cases "\<exists>x\<in>set data. ?Q x")
    case True
    then obtain x where x: "x \<in> set data" "?Q x" by blast
    then have gx: "g (rd_schema x) (rd_tb x) = Inr meta" using meta by (auto simp: row_table_def)
    let ?K = "\<lambda>r. part_index e g n r = part_index e g n x"
    have impl: "?K r" if "r \<in> set data" "?Q r" for r
      using partition_class_index[of e g idc uks x r meta n] ok x that gx by simp
    have "filter ?Q rows = filter ?Q (filter ?K rows)" "filter ?Q data = filter ?Q (filter ?K data)"
      using impl same by (auto simp: filter_filter intro!: filter_cong)
    moreover have "filter ?K rows = filter ?K data"
      by (rule rdb_split.interleave_split_key[OF pok split])
    ultimately show ?thesis by simp
  next
    case False
    then have "\<forall>x\<in>set data. \<not> ?Q x" by blast
    with same have "filter ?Q rows = []" "filter ?Q data = []" by (simp_all only: filter_empty_conv)
    then show ?thesis by simp
  qed
qed

lemma partition_table_order:
  assumes ok: "\<forall>r\<in>set data. partition_row_ok e g idc uks r" and no: "no_handover e g uks data"
    and t: "table_ok e (idc T) t" and rp: "replays e (idc T) (uks T) t (filter (\<lambda>r. row_table r = T) data)"
    and il: "rdb_partition e g p data = Inr xss" "interleave xss rows"
  shows "apply_rows e (idc T) t (filter (\<lambda>r. row_table r = T) rows) = apply_rows e (idc T) t (filter (\<lambda>r. row_table r = T) data)"
    and "unique_ok e (uks T) (apply_rows e (idc T) t (filter (\<lambda>r. row_table r = T) (take n rows)))"
proof -
  let ?F = "filter (\<lambda>r. row_table r = T)"
  have same: "set rows = set data"
    using interleave_mset[OF il(2)] rdb_split.split_mset[OF partition_row_total[OF ok] il(1)] by (metis mset_eq_setD)
  have "apply_rows e (idc T) t (?F rows) = apply_rows e (idc T) t (?F data) \<and>
    unique_ok e (uks T) (apply_rows e (idc T) t (?F (take n rows)))"
  proof (cases "\<exists>r\<in>set data. row_table r = T")
    case True
    then obtain r where "r \<in> set data" "row_table r = T" by blast
    then obtain meta where m: "g (fst T) (snd T) = Inr meta" "idc T = tm_id_cols meta"
      using ok by (auto simp: partition_row_ok_def row_table_def)
    let ?cls = "part_class (tm_id_cols meta) (tm_partition_col meta)"
    have g: "g (rd_schema r) (rd_tb r) = Inr meta" "partition_row_ok e g idc uks r" "uks (row_table r) = uks T"
      if "r \<in> set (?F data)" for r using that ok m(1) by (auto simp: row_table_def)
    have kp: "\<forall>r\<in>set (?F data). keeps_uks e (uks T) r \<and> keeps_class e (idc T) ?cls r"
      using partition_keeps_uks[OF g(2,1)] partition_keeps_class[OF g(2,1)] g(3) m(2) by simp
    have cls: "filter (\<lambda>r. ?cls (rkey e (idc T) r) = c) (?F rows) = filter (\<lambda>r. ?cls (rkey e (idc T) r) = c) (?F data)" for c
      using partition_interleave_class[OF ok il m(1), of c] m(2) by (simp add: filter_filter)
    have ho: "\<forall>d\<in>set (?F data). \<forall>q\<in>set (?F data). hands_over e (uks T) d q \<longrightarrow>
        ?cls (rkey e (idc T) d) = ?cls (rkey e (idc T) q)"
      using no part_value_class[OF g(2,1)] m(2) by (auto simp: no_handover_def list_all_iff)
    have sub: "set (?F (take n rows) @ ?F (drop n rows)) \<subseteq> set (?F data)"
      using same by (auto simp flip: filter_append)
    have "apply_rows e (idc T) t (?F rows) = apply_rows e (idc T) t (?F data)"
      by (rule apply_rows_by_class[OF t _ cls]) (use kp same in auto)
    moreover have "unique_ok e (uks T) (apply_rows e (idc T) t (?F (take n rows)))"
      by (rule unique_any_order[OF t rp kp ho sub]) (use cls in \<open>simp flip: filter_append\<close>)
    ultimately show ?thesis ..
  next
    case False
    with same have "?F data = []" "?F rows = []" "?F (take n rows) = []"
      by (auto simp: filter_empty_conv dest: in_set_takeD)
    with rp show ?thesis by simp
  qed
  then show "apply_rows e (idc T) t (?F rows) = apply_rows e (idc T) t (?F data)"
    "unique_ok e (uks T) (apply_rows e (idc T) t (?F (take n rows)))" by simp_all
qed

text \<open>
  C5: \<open>PartitionParallelizer::sink_dml\<close> is right on rows that can be partitioned, on a target with
  all the unique keys of the metadata. When the stream fits the target (every row applied in order
  finds what its before image says and breaks no unique key), no row changes a column of a key
  (\<open>can_be_partitioned\<close>), and no delete hands a key value over to an insert with another value of the
  partition column, the batch is split without error, and on every interleaving of the partitions no
  statement breaks a unique key and the target ends in the state the batch in its order gives. The
  hash function is arbitrary.
\<close>

theorem partition_sink_dml_correct:
  assumes "0 < p" "p \<le> sinkers"
    and ok: "\<forall>r\<in>set data. partition_row_ok e g idc uks r" and no: "no_handover e g uks data"
    and db: "\<forall>T. table_ok e (idc T) (db T)"
    and rp: "\<forall>T. replays e (idc T) (uks T) (db T) (filter (\<lambda>r. row_table r = T) data)"
  shows "\<exists>tasks. partition_sink_dml e g sinkers p data = Inr (tasks, size_of_list rd_data_size data) \<and>
    (\<forall>rows. interleave (map task_items tasks) rows \<longrightarrow>
       sink_rows e idc uks db rows = Some (foldl (apply_db e idc) db data))"
proof -
  note pok = partition_row_total[OF ok, of p]
  obtain xss where xss: "rdb_partition e g p data = Inr xss" using rdb_split.split_total[OF pok] ..
  obtain tasks where t: "sink_from sinkers p False 0 xss = Inr tasks"
    using sink_from_total[OF assms(1,2)] by blast
  have items: "map task_items tasks = xss" using sink_from_Inr[OF t] by simp
  have "sink_rows e idc uks db rows = Some (foldl (apply_db e idc) db data)" if il: "interleave xss rows" for rows
  proof -
    note tab = partition_table_order[OF ok no spec[OF db] spec[OF rp] xss il]
    have "sink_rows e idc uks db rows = Some (foldl (apply_db e idc) db rows)"
      by (rule sink_rows_Some) (simp add: apply_db_filter tab(2))
    moreover have "foldl (apply_db e idc) db rows = foldl (apply_db e idc) db data"
      by (rule ext) (simp add: apply_db_filter tab(1))
    ultimately show ?thesis by simp
  qed
  with t items xss show ?thesis by (auto simp: partition_sink_dml_def base_sink_dml_def)
qed

lemma sample_col_eq: "col_eq sample_ext (StringV x) (StringV y) \<longleftrightarrow> x = y"
  by (simp add: col_eq_def)

lemma sample_plain_key: "has_plain_key [''id''] (Some (sample_cols i v))"
  by (simp add: has_plain_key_def sample_cols_def plain_def)

lemma sample_can_be_partitioned:
  "can_be_partitioned sample_ext sample_tb_meta (sample_update s t i v j w) = Inr (i = j)"
  by (simp add: can_be_partitioned_def require_before_def require_after_def opt_value_eq_def
      sample_col_eq sample_cols_def)

text \<open>A table with a unique key \<open>u\<close> beside its primary key \<open>id\<close>.\<close>

definition unique_tb_meta :: "string \<Rightarrow> string \<Rightarrow> rdb_tb_meta res" where
  "unique_tb_meta s t = Inr (sample_meta s t\<lparr>tm_key_map := [(''primary'', [''id'']), (''uk'', [''u''])]\<rparr>)"

definition unique_cols :: "string \<Rightarrow> string \<Rightarrow> string \<Rightarrow> col_values" where
  "unique_cols i u v = [(''id'', StringV i), (''u'', StringV u), (''v'', StringV v)]"

definition unique_row :: "row_type \<Rightarrow> col_values option \<Rightarrow> col_values option \<Rightarrow> row_data" where
  "unique_row rt before after = row_data_new sample_ext ''d'' ''t'' rt before after"

lemma unique_row_fields [simp]:
  "rd_schema (unique_row rt b a) = ''d''" "rd_tb (unique_row rt b a) = ''t''" "rd_row_type (unique_row rt b a) = rt"
  "rd_before (unique_row rt b a) = b" "rd_after (unique_row rt b a) = a" "row_table (unique_row rt b a) = (''d'', ''t'')"
  by (simp_all add: unique_row_def row_data_new_def row_table_def Let_def)

abbreviation unique_keys :: "string \<times> string \<Rightarrow> string list list" where
  "unique_keys \<equiv> \<lambda>_. [[''id''], [''u'']]"

lemma unique_rows_ok:
  "partition_row_ok sample_ext unique_tb_meta (\<lambda>_. [''id'']) unique_keys (unique_row RInsert None (Some (unique_cols i u v)))"
  "partition_row_ok sample_ext unique_tb_meta (\<lambda>_. [''id'']) unique_keys (unique_row RDelete (Some (unique_cols i u v)) None)"
  "partition_row_ok sample_ext unique_tb_meta (\<lambda>_. [''id'']) unique_keys
     (unique_row RUpdate (Some (unique_cols i u v)) (Some (unique_cols i u w)))"
  unfolding partition_row_ok_def
  by (simp_all add: unique_tb_meta_def wf_row_def has_plain_key_def unique_cols_def plain_def plain_keys_def opt_image_def
      image_cols_def can_be_partitioned_def require_before_def require_after_def opt_value_eq_def sample_col_eq)

definition sample_partition_rows :: "row_data list" where
  "sample_partition_rows =
     [unique_row RInsert None (Some (unique_cols ''1'' ''a'' ''x'')), unique_row RInsert None (Some (unique_cols ''22'' ''b'' ''x'')),
      unique_row RUpdate (Some (unique_cols ''1'' ''a'' ''x'')) (Some (unique_cols ''1'' ''a'' ''y'')),
      unique_row RDelete (Some (unique_cols ''22'' ''b'' ''x'')) None]"

lemmas table_defs =
  row_matches_def rkey_def row_image_of_def id_key_def opt_image_def image_cols_def unique_cols_def
  apply_row_def available_def is_unavailable_def map_add_def not_null_def

lemma sample_partition_replays:
  "replays sample_ext [''id''] [[''id''], [''u'']] Map.empty (filter (\<lambda>r. row_table r = T) sample_partition_rows)"
  by (cases "T = (''d'', ''t'')") (auto simp: sample_partition_rows_def unique_ok_def table_defs Let_def split: if_splits)

theorem partition_sink_dml_correct_witness:
  "\<exists>tasks. partition_sink_dml sample_ext unique_tb_meta 2 2 sample_partition_rows =
      Inr (tasks, size_of_list rd_data_size sample_partition_rows) \<and>
    (\<forall>rows. interleave (map task_items tasks) rows \<longrightarrow>
       sink_rows sample_ext (\<lambda>_. [''id'']) unique_keys (\<lambda>_. Map.empty) rows =
       Some (foldl (apply_db sample_ext (\<lambda>_. [''id''])) (\<lambda>_. Map.empty) sample_partition_rows))"
proof (rule partition_sink_dml_correct)
  show "\<forall>r\<in>set sample_partition_rows. partition_row_ok sample_ext unique_tb_meta (\<lambda>_. [''id'']) unique_keys r"
    by (simp add: sample_partition_rows_def unique_rows_ok)
  show "no_handover sample_ext unique_tb_meta unique_keys sample_partition_rows"
    by (simp add: no_handover_def sample_partition_rows_def hands_over_def part_value_def unique_tb_meta_def table_defs)
qed (simp_all add: table_ok_def sample_partition_replays)

section \<open>Draining\<close>

definition kept_by_partition :: "dt_item \<Rightarrow> bool" where
  "kept_by_partition item \<longleftrightarrow> (case it_dt_data item of DDml _ \<Rightarrow> True | DCommit _ \<Rightarrow> True | _ \<Rightarrow> False)"

definition ends_partition_batch ::
  "ext \<Rightarrow> (string \<Rightarrow> string \<Rightarrow> rdb_tb_meta res) \<Rightarrow> nat \<Rightarrow> dt_item \<Rightarrow> bool" where
  "ends_partition_batch e g p item \<longleftrightarrow>
     p > 1 \<and> (case it_dt_data item of DDml r \<Rightarrow> can_be_partitioned e g r = Inr False | _ \<Rightarrow> False)"

lemma partition_drain_loop_step:
  assumes "partition_drain_loop e g p acc c (item # queue) = Inr res"
  shows "if ends_partition_batch e g p item
    then res = (acc @ filter kept_by_partition [item], counter_add item c, queue)
    else partition_drain_loop e g p (acc @ filter kept_by_partition [item]) (counter_add item c) queue = Inr res"
  using assms
  by (auto simp: ends_partition_batch_def kept_by_partition_def Let_def bind_res_eq_Inr
      split: dt_data.splits if_splits)

lemma partition_drain_loop_correct:
  assumes "partition_drain_loop e g p acc c queue = Inr (data, c', queue')"
  shows "\<exists>taken. queue = taken @ queue' \<and> data = acc @ filter kept_by_partition taken \<and>
    list_all (\<lambda>item. \<not> ends_partition_batch e g p item) (butlast taken) \<and>
    (queue' = [] \<or> taken \<noteq> [] \<and> ends_partition_batch e g p (last taken))"
  using assms
proof (induction queue arbitrary: acc c)
  case (Cons item queue)
  note step = partition_drain_loop_step[OF Cons.prems]
  show ?case
  proof (cases "ends_partition_batch e g p item")
    case True
    with step show ?thesis by (intro exI[of _ "[item]"]) simp
  next
    case False
    with step have "partition_drain_loop e g p (acc @ filter kept_by_partition [item]) (counter_add item c) queue =
      Inr (data, c', queue')" by simp
    from Cons.IH[OF this] obtain taken where
      "queue = taken @ queue'" "data = (acc @ filter kept_by_partition [item]) @ filter kept_by_partition taken"
      "list_all (\<lambda>item. \<not> ends_partition_batch e g p item) (butlast taken)"
      "queue' = [] \<or> taken \<noteq> [] \<and> ends_partition_batch e g p (last taken)" by blast
    with False show ?thesis by (intro exI[of _ "item # taken"]) auto
  qed
qed simp

text \<open>
  C20: \<open>PartitionParallelizer::drain\<close> takes a prefix of the queue and returns its rows and commits
  in order. No row before the last one taken changes a key, and unless the queue is exhausted the
  last one does: batches end with such a row.
\<close>

theorem partition_drain_correct:
  assumes "partition_drain e g p b queue = Inr (data, b', queue')"
  shows "\<exists>taken. queue = taken @ queue' \<and> data = filter kept_by_partition taken \<and>
    list_all (\<lambda>item. \<not> ends_partition_batch e g p item) (butlast taken) \<and>
    (queue' = [] \<or> taken \<noteq> [] \<and> ends_partition_batch e g p (last taken)) \<and>
    popped_data b' = popped_data b"
  using assms partition_drain_loop_correct[of e g p "[]" "(0, 0)" queue data _ queue']
  by (auto simp: partition_drain_def map_res_eq_Inr update_monitor_def)

definition sample_key_change :: "row_data list" where
  "sample_key_change =
     [sample_delete ''d'' ''t'' ''1'' ''v'', sample_update ''d'' ''t'' ''22'' ''w'' ''1'' ''w'']"

definition sample_partition_queue :: "dt_item list" where
  "sample_partition_queue =
     sample_item DBegin # map (\<lambda>r. sample_item (DDml r)) sample_key_change @ [sample_item (DDdl sample_ddl)]"

lemma sample_item_data [simp]: "it_dt_data (sample_item d) = d"
  by (simp add: sample_item_def)

lemma sample_delete_can_be_partitioned [simp]:
  "can_be_partitioned e g (sample_delete s t i v) = Inr True"
  by (simp add: can_be_partitioned_def)

lemma sample_partition_drain:
  "\<exists>b'. partition_drain sample_ext sample_tb_meta 2 b sample_partition_queue =
     Inr (map (\<lambda>r. sample_item (DDml r)) sample_key_change, b', [sample_item (DDdl sample_ddl)])"
  by (simp add: partition_drain_def sample_partition_queue_def sample_key_change_def
      sample_can_be_partitioned)

theorem partition_drain_correct_witness:
  "\<exists>data queue' taken. sample_partition_queue = taken @ queue' \<and> data = filter kept_by_partition taken \<and>
    queue' \<noteq> [] \<and> ends_partition_batch sample_ext sample_tb_meta 2 (last taken)"
proof -
  obtain b' where d: "partition_drain sample_ext sample_tb_meta 2 \<lparr>popped_data = [], record_sizes = []\<rparr>
      sample_partition_queue =
     Inr (map (\<lambda>r. sample_item (DDml r)) sample_key_change, b', [sample_item (DDdl sample_ddl)])"
    using sample_partition_drain by blast
  from partition_drain_correct[OF d] show ?thesis by blast
qed

lemma sample_partition_index:
  "get_partition_index sample_ext sample_tb_meta 2 (sample_delete ''d'' ''t'' ''1'' v) = Inr 0"
  "get_partition_index sample_ext sample_tb_meta 2 (sample_update ''d'' ''t'' ''22'' v i w) = Inr 1"
  by (simp_all add: get_partition_index_def partition_image_def require_before_def sample_cols_def hash_code_def)

lemma sample_key_change_tasks:
  "\<exists>t1 t2 sz. partition_sink_dml sample_ext sample_tb_meta 2 2 sample_key_change = Inr ([t1, t2], sz) \<and>
     task_items t1 = [sample_key_change ! 0] \<and> task_items t2 = [sample_key_change ! 1]"
proof -
  have "replicate 2 ([] :: row_data list) = [[], []]" by (simp add: numeral_2_eq_2)
  then show ?thesis
    by (simp add: partition_sink_dml_def rdb_partition_def sample_key_change_def push_partition_def
        sample_partition_index base_sink_dml_def task_items_def)
qed

lemma interleave_two:
  assumes "i < length xss" "j < length xss" "i \<noteq> j" "xss ! i = [x]" "xss ! j = [y]"
    and "\<And>k. k < length xss \<Longrightarrow> k \<noteq> i \<Longrightarrow> k \<noteq> j \<Longrightarrow> xss ! k = []"
  shows "interleave xss [y, x]"
proof (rule interleave.step_one[OF assms(2,5)], rule interleave.step_one[of i _ _ "[]"])
  have "xss[j := [], i := []] ! k = []" if "k < length xss" for k
    using that assms(1,2,6) by (cases "k = i"; cases "k = j") simp_all
  then show "interleave (xss[j := [], i := []]) []"
    by (intro interleave.done_all) (auto simp: in_set_conv_nth)
qed (use assms in simp_all)

lemma interleave_swap: "interleave [[x], [y]] [y, x]"
  by (rule interleave_two[of 0 _ 1]) simp_all

text \<open>
  C37: A row that changes a key ends its batch but is sinked in the same batch as the rows before
  it, and its partition is the one of its old key. So it is not ordered with the rows of the new
  key: on a delete of \<open>1\<close> followed by an update of key \<open>22\<close> to \<open>1\<close>, which one drain returns
  together, an interleaving of the two partitions ends in another state than the stream.
\<close>

theorem partition_key_change_race:
  "\<exists>b' queue' tasks sz rows db.
     partition_drain sample_ext sample_tb_meta 2 b sample_partition_queue =
       Inr (map (\<lambda>r. sample_item (DDml r)) sample_key_change, b', queue') \<and>
     partition_sink_dml sample_ext sample_tb_meta 2 2 sample_key_change = Inr (tasks, sz) \<and>
     interleave (map task_items tasks) rows \<and>
     foldl (apply_db sample_ext (\<lambda>_. [''id''])) db rows \<noteq>
       foldl (apply_db sample_ext (\<lambda>_. [''id''])) db sample_key_change"
proof -
  obtain b' where d: "partition_drain sample_ext sample_tb_meta 2 b sample_partition_queue =
     Inr (map (\<lambda>r. sample_item (DDml r)) sample_key_change, b', [sample_item (DDdl sample_ddl)])"
    using sample_partition_drain by blast
  obtain t1 t2 sz where t: "partition_sink_dml sample_ext sample_tb_meta 2 2 sample_key_change = Inr ([t1, t2], sz)"
    "task_items t1 = [sample_key_change ! 0]" "task_items t2 = [sample_key_change ! 1]"
    using sample_key_change_tasks by blast
  let ?rows = "[sample_key_change ! 1, sample_key_change ! 0]"
  have il: "interleave (map task_items [t1, t2]) ?rows"
    using t(2,3) interleave_swap by simp
  let ?db = "foldl (apply_db sample_ext (\<lambda>_. [''id''])) (\<lambda>_. Map.empty)
    [sample_insert ''d'' ''t'' ''1'' ''v'', sample_insert ''d'' ''t'' ''22'' ''w'']"
  let ?k = "id_key sample_ext [''id''] (opt_image (Some (sample_cols ''1'' ''w'')))"
  have "foldl (apply_db sample_ext (\<lambda>_. [''id''])) ?db ?rows (''d'', ''t'') ?k = None"
    "foldl (apply_db sample_ext (\<lambda>_. [''id''])) ?db sample_key_change (''d'', ''t'') ?k \<noteq> None"
    by (simp_all add: sample_key_change_def apply_db_def row_table_def apply_row_def id_key_def opt_image_def
        image_cols_def sample_cols_def available_def is_unavailable_def map_add_def Let_def)
  then have "foldl (apply_db sample_ext (\<lambda>_. [''id''])) ?db ?rows \<noteq>
      foldl (apply_db sample_ext (\<lambda>_. [''id''])) ?db sample_key_change" by metis
  with d t(1) il show ?thesis by blast
qed

section \<open>A key value handed over\<close>

lemma handover_breaks:
  assumes "row_matches e cols uks t d" "hands_over e uks d q" "rkey e cols d \<noteq> rkey e cols q"
  shows "\<not> unique_ok e uks (apply_row e cols t q)"
proof -
  from assms(2) obtain uk where
    uk: "rd_row_type d = RDelete" "rd_row_type q = RInsert" "uk \<in> set uks" "not_null (id_key e uk (opt_image (rd_before d)))"
    "id_key e uk (opt_image (rd_before d)) = id_key e uk (opt_image (rd_after q))"
    by (auto simp: hands_over_def list_ex_iff)
  with assms(1) obtain old where
    old: "t (rkey e cols d) = Some old" "id_key e uk old = id_key e uk (opt_image (rd_before d))"
    by (auto simp: row_matches_def list_all_iff split: option.splits)
  have "apply_row e cols t q (rkey e cols d) = Some old"
    "apply_row e cols t q (rkey e cols q) = Some (opt_image (rd_after q))"
    using uk(2) old(1) assms(3) by (simp_all add: apply_row_by_key)
  with uk(3-5) old(2) assms(3) show ?thesis unfolding unique_ok_def by metis
qed

text \<open>
  C38: \<open>can_be_partitioned\<close> looks at updates alone, so a key value may be handed over between
  partitions: a delete of a row and the insert of another row with its value of a unique key, which
  the stream applies without an error, are drained into one batch, and when their rows fall into
  different partitions there is an interleaving on which the insert comes first and breaks the
  unique key.
\<close>

theorem partition_unique_race:
  assumes "1 < p" "p \<le> sinkers"
    and ok: "partition_row_ok e g idc uks d" "partition_row_ok e g idc uks q"
    and same: "row_table d = row_table q" and ho: "hands_over e (uks (row_table q)) d q"
    and parts: "part_index e g p d \<noteq> part_index e g p q"
    and rp: "\<forall>T. replays e (idc T) (uks T) (db T) (filter (\<lambda>r. row_table r = T) [d, q])"
    and items: "it_dt_data i = DDml d" "it_dt_data j = DDml q"
  shows "(\<exists>b'. partition_drain e g p b [i, j] = Inr ([i, j], b', [])) \<and>
    sink_rows e idc uks db [d, q] = Some (foldl (apply_db e idc) db [d, q]) \<and>
    (\<exists>tasks size rows. partition_sink_dml e g sinkers p [d, q] = Inr (tasks, size) \<and>
       interleave (map task_items tasks) rows \<and> sink_rows e idc uks db rows = None)"
proof -
  have types: "rd_row_type d = RDelete" "rd_row_type q = RInsert" using ho by (simp_all add: hands_over_def)
  have drain: "\<exists>b'. partition_drain e g p b [i, j] = Inr ([i, j], b', [])"
    using types by (auto simp: partition_drain_def items can_be_partitioned_def Let_def)
  have "\<forall>r\<in>set [d, q]. partition_row_ok e g idc uks r" using ok by simp
  note pok = partition_row_total[OF this, of p]
  let ?xss = "map (\<lambda>k. filter (\<lambda>r. part_index e g p r = k) [d, q]) [0..<p]"
  have xss: "rdb_partition e g p [d, q] = Inr ?xss" by (rule rdb_partition_parts[OF assms(1) pok])
  obtain tasks where t: "sink_from sinkers p False 0 ?xss = Inr tasks"
    using sink_from_total[OF order.strict_trans[OF zero_less_one assms(1)] assms(2)] by blast
  have bound: "part_index e g p r < p" if "r \<in> {d, q}" for r
    using pok that get_partition_index_less[of p e g r] assms(1)
    by (auto simp: partition_ok_def part_index_def split: sum.splits)
  have tasks: "map task_items tasks = ?xss" using sink_from_Inr[OF t] by simp
  have il: "interleave (map task_items tasks) [q, d]"
    unfolding tasks
    by (rule interleave_two[of "part_index e g p d" _ "part_index e g p q"]) (use bound parts in simp_all)
  obtain meta where m: "g (rd_schema d) (rd_tb d) = Inr meta" "idc (row_table q) = tm_id_cols meta"
    using ok(1) same by (auto simp: partition_row_ok_def)
  have "rkey e (idc (row_table q)) d \<noteq> rkey e (idc (row_table q)) q"
    using partition_class_index[OF ok same[symmetric] m(1), of p] parts unfolding m(2) by metis
  moreover have "row_matches e (idc (row_table q)) (uks (row_table q)) (db (row_table q)) d"
    using rp[rule_format, of "row_table q"] same by simp
  ultimately have "sink_db e idc uks db q = None"
    using handover_breaks[OF _ ho] by (simp add: sink_db_def apply_db_def Let_def)
  then have "sink_rows e idc uks db [q, d] = None" by simp
  with drain replays_sink_rows[OF rp] xss t il show ?thesis
    by (auto simp: partition_sink_dml_def base_sink_dml_def)
qed

definition sample_handover :: "row_data list" where
  "sample_handover =
     [unique_row RDelete (Some (unique_cols ''1'' ''a'' ''x'')) None, unique_row RInsert None (Some (unique_cols ''22'' ''a'' ''x''))]"

definition sample_unique_db :: database where
  "sample_unique_db = (\<lambda>T. if T = (''d'', ''t'') then [[Some (Some ''1'')] \<mapsto> map_of (unique_cols ''1'' ''a'' ''x'')] else Map.empty)"

lemma sample_handover_replays:
  "replays sample_ext [''id''] [[''id''], [''u'']] (sample_unique_db T) (filter (\<lambda>r. row_table r = T) sample_handover)"
  by (cases "T = (''d'', ''t'')")
    (auto simp: sample_handover_def sample_unique_db_def unique_ok_def table_defs Let_def split: if_splits)

lemma sample_handover_parts:
  "part_index sample_ext unique_tb_meta 2 (sample_handover ! 0) = 0" "part_index sample_ext unique_tb_meta 2 (sample_handover ! 1) = 1"
  by (simp_all add: part_index_def get_partition_index_def partition_image_def require_before_def require_after_def
      sample_handover_def unique_cols_def unique_tb_meta_def hash_code_def)

theorem partition_unique_race_witness:
  "\<exists>tasks size rows. partition_sink_dml sample_ext unique_tb_meta 2 2 sample_handover = Inr (tasks, size) \<and>
     interleave (map task_items tasks) rows \<and>
     sink_rows sample_ext (\<lambda>_. [''id'']) unique_keys sample_unique_db rows = None \<and>
     sink_rows sample_ext (\<lambda>_. [''id'']) unique_keys sample_unique_db sample_handover \<noteq> None"
proof -
  have two: "sample_handover = [sample_handover ! 0, sample_handover ! 1]" by (simp add: sample_handover_def)
  have ok: "partition_row_ok sample_ext unique_tb_meta (\<lambda>_. [''id'']) unique_keys (sample_handover ! 0)"
    "partition_row_ok sample_ext unique_tb_meta (\<lambda>_. [''id'']) unique_keys (sample_handover ! 1)"
    by (simp_all add: sample_handover_def unique_rows_ok)
  have ho: "hands_over sample_ext [[''id''], [''u'']] (sample_handover ! 0) (sample_handover ! 1)"
    by (simp add: sample_handover_def hands_over_def table_defs)
  have tb: "row_table (sample_handover ! 0) = row_table (sample_handover ! 1)" by (simp add: sample_handover_def)
  have rp: "\<forall>T. replays sample_ext [''id''] [[''id''], [''u'']] (sample_unique_db T)
      (filter (\<lambda>r. row_table r = T) [sample_handover ! 0, sample_handover ! 1])"
    using sample_handover_replays two by metis
  show ?thesis
    using partition_unique_race[OF _ _ ok tb ho _ rp, of 2 2 "sample_item (DDml (sample_handover ! 0))"
        "sample_item (DDml (sample_handover ! 1))"] sample_handover_parts
    unfolding two[symmetric] by auto
qed

end
