(* ===== verification/Limiter.thy ===== *)
theory Limiter
  imports Samples
begin

text \<open>
  \<open>dt-common/src/limiter\<close>: the trait \<open>Limiter\<close>, its two implementations \<open>CapacityLimiter\<close> (a
  semaphore) and \<open>RateLimiter\<close> (a token bucket of the crate \<open>governor\<close>) and \<open>BufferLimiter\<close>,
  which holds a list of them. An \<open>acquire\<close> that has to wait is the value \<open>Waiting\<close>; the rate
  limiter, whose waiting depends on time only, is modelled by what it returns once it is ready.
  The locale \<open>permits\<close> is the contract of the trait that the queue relies on: permits are
  conserved.
\<close>

section \<open>Limiters\<close>

datatype unit_type = UBytes | URecords

datatype limiter =
    CapacityLimiter nat unit_type
  | RateLimiter u32 unit_type

datatype 's acquired = Acquired 's | Waiting | Refused failure

fun get_unit_type :: "limiter \<Rightarrow> unit_type" where
  "get_unit_type (CapacityLimiter _ u) = u" |
  "get_unit_type (RateLimiter _ u) = u"

text \<open>The permits a limiter starts with; the rate limiter keeps none.\<close>

fun limiter_total :: "limiter \<Rightarrow> nat" where
  "limiter_total (CapacityLimiter capacity _) = capacity" |
  "limiter_total (RateLimiter _ _) = 0"

definition rate_limiter_new :: "u32 \<Rightarrow> unit_type \<Rightarrow> limiter" where
  "rate_limiter_new rate u = RateLimiter (if rate = 0 then - 1 else rate) u"

definition unit_name :: "unit_type \<Rightarrow> string" where
  "unit_name u = (case u of UBytes \<Rightarrow> ''byte'' | URecords \<Rightarrow> ''record'')"

fun limiter_acquire :: "limiter \<Rightarrow> nat \<Rightarrow> u32 \<Rightarrow> nat acquired" where
  "limiter_acquire (CapacityLimiter capacity u) avail n =
     (if unat n > capacity then
        Refused (Bail (''requested '' @ nat_to_string (unat n) @ '' '' @ unit_name u @
          '' permits exceeds limiter capacity '' @ nat_to_string capacity))
      else if unat n \<le> avail then Acquired (avail - unat n) else Waiting)" |
  "limiter_acquire (RateLimiter capacity u) avail n =
     (if n = 0 then Acquired avail
      else if n > capacity then
        Refused (Bail (''`'' @ nat_to_string (unat n) @ ''` exceeds max capacity `'' @
          nat_to_string (unat capacity) @ ''` of the rate limiter: {}''))
      else Acquired avail)"

fun limiter_release :: "limiter \<Rightarrow> nat \<Rightarrow> u32 \<Rightarrow> nat" where
  "limiter_release (CapacityLimiter _ _) avail n = avail + unat n" |
  "limiter_release (RateLimiter _ _) avail n = avail"

section \<open>BufferLimiter\<close>

record rate_limiter_config =
  max_mbps :: u32
  max_rps :: u32

record capacity_limiter_config =
  buffer_size :: nat
  buffer_memory_mb :: nat

record buffer_limiter =
  bl_limiters :: "limiter list"
  bl_has_byte_limiter :: bool
  bl_byte_capacity :: "nat option"

definition u32_max :: nat where "u32_max = 2 ^ 32 - 1"

definition MB :: nat where "MB = 1024 * 1024"

definition rate_limiters :: "rate_limiter_config \<Rightarrow> limiter list \<times> bool" where
  "rate_limiters cfg =
     (let rps = (if max_rps cfg > 0 then [rate_limiter_new (max_rps cfg) URecords] else []);
          bytes = max_mbps cfg > 0 \<and> unat (max_mbps cfg) \<le> u32_max div MB
      in (rps @ (if bytes then [rate_limiter_new (max_mbps cfg * 1024 * 1024) UBytes] else []), bytes))"

definition capacity_limiters :: "capacity_limiter_config \<Rightarrow> limiter list \<times> nat option" where
  "capacity_limiters cfg =
     (let records = (if buffer_size cfg > 0 then [CapacityLimiter (buffer_size cfg) URecords] else []);
          bytes = buffer_memory_mb cfg > 0 \<and> buffer_memory_mb cfg \<le> u32_max div MB;
          capacity_bytes = buffer_memory_mb cfg * MB
      in (records @ (if bytes then [CapacityLimiter capacity_bytes UBytes] else []),
          if bytes then Some capacity_bytes else None))"

definition buffer_limiter_from_config ::
  "rate_limiter_config option \<Rightarrow> capacity_limiter_config option \<Rightarrow> buffer_limiter option" where
  "buffer_limiter_from_config rate_cfg cap_cfg =
     (let (rate, rate_bytes) = (case rate_cfg of Some c \<Rightarrow> rate_limiters c | None \<Rightarrow> ([], False));
          (cap, byte_capacity) = (case cap_cfg of Some c \<Rightarrow> capacity_limiters c | None \<Rightarrow> ([], None));
          limiters = rate @ cap
      in if limiters = [] then None
         else Some \<lparr>bl_limiters = limiters, bl_has_byte_limiter = rate_bytes \<or> byte_capacity \<noteq> None,
                    bl_byte_capacity = byte_capacity\<rparr>)"

text \<open>The checks \<open>BufferLimiter::acquire\<close> makes before it asks the limiters: the byte permits.\<close>

definition acquire_size :: "buffer_limiter \<Rightarrow> nat \<Rightarrow> u32 res" where
  "acquire_size b data_size =
     (if (case bl_byte_capacity b of Some capacity \<Rightarrow> data_size > capacity | None \<Rightarrow> False) then
        Inl (Bail (''requested '' @ nat_to_string data_size @ '' byte permits exceeds limiter capacity '' @
          nat_to_string (the (bl_byte_capacity b))))
      else if bl_has_byte_limiter b then
        (if data_size \<le> u32_max then Inr (of_nat data_size)
         else Inl (Bail (''data size '' @ nat_to_string data_size @ '' exceeds u32 permit range'')))
      else Inr 0)"

definition acquire_permits :: "limiter \<Rightarrow> u32 \<Rightarrow> u32" where
  "acquire_permits l n = (case get_unit_type l of UBytes \<Rightarrow> n | URecords \<Rightarrow> 1)"

definition release_permits :: "limiter \<Rightarrow> nat \<Rightarrow> u32" where
  "release_permits l data_size = (case get_unit_type l of UBytes \<Rightarrow> of_nat data_size | URecords \<Rightarrow> 1)"

text \<open>\<open>acquire\<close> of a limiter list that nothing else holds permits of.\<close>

fun acquire_all :: "limiter list \<Rightarrow> u32 \<Rightarrow> unit res" where
  "acquire_all [] n = Inr ()" |
  "acquire_all (l # ls) n =
     (case limiter_acquire l (limiter_total l) (acquire_permits l n) of
        Refused err \<Rightarrow> Inl err
      | _ \<Rightarrow> acquire_all ls n)"

definition buffer_limiter_acquire :: "buffer_limiter \<Rightarrow> nat \<Rightarrow> unit res" where
  "buffer_limiter_acquire b data_size = bind_res (acquire_size b data_size) (acquire_all (bl_limiters b))"

section \<open>The contract of a limiter\<close>

locale permits =
  fixes acquire :: "nat \<Rightarrow> u32 \<Rightarrow> nat acquired"
    and release :: "nat \<Rightarrow> u32 \<Rightarrow> nat"
    and cost :: "u32 \<Rightarrow> nat"
    and total :: nat
  assumes acquire_level: "acquire avail n = Acquired avail' \<Longrightarrow> avail = avail' + cost n"
    and release_level: "release avail n = avail + cost n"
    and acquire_full: "acquire total n \<noteq> Waiting"
    and refuse_any: "acquire avail n = Refused err \<Longrightarrow> acquire avail' n = Refused err"
begin

lemma acquire_release: "acquire avail n = Acquired avail' \<Longrightarrow> release avail' n = avail"
  using acquire_level release_level by simp

lemma not_refused_full: "acquire avail n = Waiting \<Longrightarrow> \<exists>avail'. acquire total n = Acquired avail'"
  using acquire_full refuse_any by (metis acquired.exhaust acquired.distinct(5))

end

definition limiter_cost :: "limiter \<Rightarrow> u32 \<Rightarrow> nat" where
  "limiter_cost l n = (case l of CapacityLimiter _ _ \<Rightarrow> unat n | RateLimiter _ _ \<Rightarrow> 0)"

interpretation lim: permits "limiter_acquire l" "limiter_release l" "limiter_cost l" "limiter_total l" for l
  by unfold_locales (cases l; auto simp: limiter_cost_def split: if_splits)+

section \<open>Limiters of a configuration\<close>

definition limiter_wf :: "buffer_limiter \<Rightarrow> limiter \<Rightarrow> bool" where
  "limiter_wf b l \<longleftrightarrow>
     (case l of
        CapacityLimiter capacity URecords \<Rightarrow> 0 < capacity
      | CapacityLimiter capacity UBytes \<Rightarrow> bl_byte_capacity b = Some capacity \<and> bl_has_byte_limiter b
      | RateLimiter rate URecords \<Rightarrow> rate \<noteq> 0
      | RateLimiter rate UBytes \<Rightarrow> rate \<noteq> 0 \<and> bl_has_byte_limiter b)"

definition buffer_limiter_wf :: "buffer_limiter \<Rightarrow> bool" where
  "buffer_limiter_wf b \<longleftrightarrow> list_all (limiter_wf b) (bl_limiters b)"

lemma mbps_bytes:
  assumes "unat (n :: u32) \<le> u32_max div MB"
  shows "unat (n * 1024 * 1024) = unat n * MB"
proof -
  have "unat n * MB \<le> u32_max" using assms by (simp add: u32_max_def MB_def)
  then show ?thesis by (simp add: unat_word_ariths u32_max_def MB_def mod_mult_left_eq mult.assoc)
qed

lemma rate_limiter_new_wf:
  "limiter_wf b (rate_limiter_new rate URecords)"
  "bl_has_byte_limiter b \<Longrightarrow> limiter_wf b (rate_limiter_new rate UBytes)"
  by (simp_all add: rate_limiter_new_def limiter_wf_def)

lemma list_all_if_single: "list_all P (if c then [x] else []) \<longleftrightarrow> (c \<longrightarrow> P x)"
  by simp

lemma rate_limiters_wf:
  assumes "snd (rate_limiters cfg) \<longrightarrow> bl_has_byte_limiter b"
  shows "list_all (limiter_wf b) (fst (rate_limiters cfg))"
  using assms by (simp add: rate_limiters_def Let_def list_all_if_single rate_limiter_new_wf del: if_split)

lemma capacity_limiters_wf:
  assumes "snd (capacity_limiters cfg) = bl_byte_capacity b" "bl_byte_capacity b \<noteq> None \<longrightarrow> bl_has_byte_limiter b"
  shows "list_all (limiter_wf b) (fst (capacity_limiters cfg))"
  using assms
  by (auto simp: capacity_limiters_def Let_def limiter_wf_def list_all_if_single simp del: if_split split: if_split_asm)

lemma from_config_wf:
  assumes "buffer_limiter_from_config rate cap = Some b"
  shows "buffer_limiter_wf b"
proof -
  define r where "r = (case rate of Some c \<Rightarrow> rate_limiters c | None \<Rightarrow> ([], False))"
  define c where "c = (case cap of Some c \<Rightarrow> capacity_limiters c | None \<Rightarrow> ([], None))"
  from assms have b: "bl_limiters b = fst r @ fst c" "bl_has_byte_limiter b \<longleftrightarrow> snd r \<or> snd c \<noteq> None"
    "bl_byte_capacity b = snd c"
    by (auto simp: buffer_limiter_from_config_def Let_def r_def[symmetric] c_def[symmetric] split_beta split: if_splits)
  have "list_all (limiter_wf b) (fst r)"
    using b(2) rate_limiters_wf by (cases rate) (auto simp: r_def)
  moreover have "list_all (limiter_wf b) (fst c)"
    using b(2,3) capacity_limiters_wf by (cases cap) (auto simp: c_def)
  ultimately show ?thesis by (simp add: buffer_limiter_wf_def b(1))
qed

section \<open>Refusals\<close>

definition refuses :: "limiter \<Rightarrow> u32 \<Rightarrow> bool" where
  "refuses l n \<longleftrightarrow> (\<exists>err. limiter_acquire l (limiter_total l) (acquire_permits l n) = Refused err)"

lemma acquire_all_refused: "(\<exists>err. acquire_all ls n = Inl err) \<longleftrightarrow> list_ex (\<lambda>l. refuses l n) ls"
  by (induction ls) (auto simp: refuses_def split: acquired.splits)

lemma refuses_records:
  "\<not> refuses (rate_limiter_new rate URecords) n"
  "0 < capacity \<Longrightarrow> \<not> refuses (CapacityLimiter capacity URecords) n"
proof -
  have "\<not> (x < 1)" if "x \<noteq> 0" for x :: u32 using that by (auto simp: word_less_nat_alt unat_eq_zero)
  then show "\<not> refuses (rate_limiter_new rate URecords) n"
    by (auto simp: refuses_def rate_limiter_new_def acquire_permits_def)
qed (simp add: refuses_def acquire_permits_def)

lemma refuses_bytes:
  "rate \<noteq> 0 \<Longrightarrow> refuses (rate_limiter_new rate UBytes) n \<longleftrightarrow> rate < n"
  "refuses (CapacityLimiter capacity UBytes) n \<longleftrightarrow> capacity < unat n"
  by (auto simp: refuses_def rate_limiter_new_def acquire_permits_def)

lemma list_ex_if_single: "list_ex P (if c then [x] else []) \<longleftrightarrow> c \<and> P x"
  by simp

lemma rate_limiters_refuse:
  assumes "unat (max_mbps cfg) \<le> u32_max div MB"
  shows "list_ex (\<lambda>l. refuses l n) (fst (rate_limiters cfg)) \<longleftrightarrow>
    max_mbps cfg \<noteq> 0 \<and> unat (max_mbps cfg) * MB < unat n"
proof -
  note mw = mbps_bytes[OF assms]
  have "max_mbps cfg * 1024 * 1024 = 0 \<longleftrightarrow> max_mbps cfg = 0"
    using mw by (metis MB_def mult_is_0 unat_eq_zero zero_neq_numeral)
  moreover have "max_mbps cfg * 1024 * 1024 < n \<longleftrightarrow> unat (max_mbps cfg) * MB < unat n"
    using mw by (simp only: word_less_nat_alt)
  ultimately show ?thesis
    using assms refuses_bytes(1)[of "max_mbps cfg * 1024 * 1024" n]
    by (simp add: rate_limiters_def Let_def list_ex_if_single refuses_records word_gt_0 del: if_split) blast
qed

lemma capacity_limiters_refuse:
  assumes "buffer_memory_mb cfg \<le> u32_max div MB"
  shows "list_ex (\<lambda>l. refuses l n) (fst (capacity_limiters cfg)) \<longleftrightarrow>
    buffer_memory_mb cfg \<noteq> 0 \<and> buffer_memory_mb cfg * MB < unat n"
  using assms
  by (auto simp: capacity_limiters_def Let_def list_ex_if_single refuses_records refuses_bytes)

lemma unat_of_nat_u32: "k \<le> u32_max \<Longrightarrow> unat (of_nat k :: u32) = k"
  by (simp add: unat_of_nat u32_max_def)

lemma rate_only_refuses:
  assumes "buffer_limiter_from_config (Some rate) None = Some b" "unat (max_mbps rate) \<le> u32_max div MB"
  shows "(\<exists>err. buffer_limiter_acquire b data_size = Inl err) \<longleftrightarrow>
    max_mbps rate \<noteq> 0 \<and> data_size > unat (max_mbps rate) * MB"
proof -
  have ls: "bl_limiters b = fst (rate_limiters rate)" "bl_has_byte_limiter b \<longleftrightarrow> max_mbps rate \<noteq> 0"
    "bl_byte_capacity b = None"
    using assms by (auto simp: buffer_limiter_from_config_def rate_limiters_def Let_def word_gt_0 split: if_splits)
  have all: "(\<exists>err. acquire_all (bl_limiters b) n = Inl err) \<longleftrightarrow>
      max_mbps rate \<noteq> 0 \<and> unat (max_mbps rate) * MB < unat n" for n
    by (simp add: acquire_all_refused ls(1) rate_limiters_refuse[OF assms(2)])
  have le: "unat (max_mbps rate) * MB \<le> u32_max"
    using assms(2) by (simp add: u32_max_def MB_def)
  show ?thesis
    using all[of "of_nat data_size"] all[of 0] le unat_of_nat_u32[of data_size]
    by (cases "data_size \<le> u32_max") (auto simp: buffer_limiter_acquire_def acquire_size_def ls(2,3))
qed

text \<open>
  A buffer limiter built from a configuration refuses an item exactly when the item is larger
  than the configured buffer memory or than what the byte rate lets through in one second; any
  other item is let through once the permits are free. No other refusal exists: neither the record
  limiters nor the conversion of the size to \<open>u32\<close> can fail.
\<close>

theorem buffer_limiter_refuses:
  assumes "buffer_limiter_from_config (Some rate) (Some cap) = Some b"
    and "max_mbps rate = 0 \<or> unat (max_mbps rate) \<le> u32_max div MB"
    and "buffer_memory_mb cap \<le> u32_max div MB"
  shows "(\<exists>err. buffer_limiter_acquire b data_size = Inl err) \<longleftrightarrow>
    (max_mbps rate \<noteq> 0 \<and> data_size > unat (max_mbps rate) * MB) \<or>
    (buffer_memory_mb cap \<noteq> 0 \<and> data_size > buffer_memory_mb cap * MB)"
proof -
  let ?m = "unat (max_mbps rate)" and ?bm = "buffer_memory_mb cap"
  have MB: "u32_max div MB * MB \<le> u32_max" by (simp add: u32_max_def MB_def)
  have m: "?m \<le> u32_max div MB" using assms(2) by auto
  have mle: "?m * MB \<le> u32_max" "?bm * MB \<le> u32_max"
    using m assms(3) MB by (meson le_trans mult_le_mono1)+
  have ls: "bl_limiters b = fst (rate_limiters rate) @ fst (capacity_limiters cap)"
    "bl_has_byte_limiter b \<longleftrightarrow> max_mbps rate \<noteq> 0 \<or> ?bm \<noteq> 0"
    "bl_byte_capacity b = (if ?bm \<noteq> 0 then Some (?bm * MB) else None)"
    using assms m
    by (auto simp: buffer_limiter_from_config_def rate_limiters_def capacity_limiters_def Let_def word_gt_0
        split: if_splits)
  have all: "(\<exists>err. acquire_all (bl_limiters b) n = Inl err) \<longleftrightarrow>
      (max_mbps rate \<noteq> 0 \<and> ?m * MB < unat n) \<or> (?bm \<noteq> 0 \<and> ?bm * MB < unat n)" for n
    by (simp add: acquire_all_refused ls(1) rate_limiters_refuse[OF m] capacity_limiters_refuse[OF assms(3)])
  show ?thesis
  proof (cases "data_size \<le> u32_max")
    case True
    then have "unat (of_nat data_size :: u32) = data_size" by (rule unat_of_nat_u32)
    with all[of "of_nat data_size"] all[of 0] True show ?thesis
      by (auto simp: buffer_limiter_acquire_def acquire_size_def ls(2,3))
  next
    case False
    with mle show ?thesis
      using all[of 0] by (auto simp: buffer_limiter_acquire_def acquire_size_def ls(2,3))
  qed
qed

definition sample_rate :: rate_limiter_config where
  "sample_rate = \<lparr>max_mbps = 1, max_rps = 0\<rparr>"

definition sample_capacity :: capacity_limiter_config where
  "sample_capacity = \<lparr>buffer_size = 10, buffer_memory_mb = 2\<rparr>"

definition sample_buffer_limiter :: buffer_limiter where
  "sample_buffer_limiter =
     \<lparr>bl_limiters = [RateLimiter 1048576 UBytes, CapacityLimiter 10 URecords, CapacityLimiter 2097152 UBytes],
      bl_has_byte_limiter = True, bl_byte_capacity = Some 2097152\<rparr>"

lemma sample_from_config:
  "buffer_limiter_from_config (Some sample_rate) (Some sample_capacity) = Some sample_buffer_limiter"
  by (simp add: buffer_limiter_from_config_def rate_limiters_def capacity_limiters_def sample_rate_def
      sample_capacity_def sample_buffer_limiter_def u32_max_def MB_def rate_limiter_new_def)

theorem buffer_limiter_refuses_witness:
  "(\<exists>err. buffer_limiter_acquire sample_buffer_limiter 1500000 = Inl err) \<and>
   \<not> (\<exists>err. buffer_limiter_acquire sample_buffer_limiter 1000000 = Inl err)"
  using buffer_limiter_refuses[OF sample_from_config, of 1500000] buffer_limiter_refuses[OF sample_from_config, of 1000000]
  by (simp add: sample_rate_def sample_capacity_def u32_max_def MB_def)

end
