(* ===== verification/Transition.thy ===== *)
theory Transition
  imports Main
begin

text \<open>
  Transition systems: the states a system reaches from its initial ones, and the two ways the
  concurrent components use them, invariants and freedom from being stuck.
\<close>

inductive reachable :: "('s \<Rightarrow> bool) \<Rightarrow> ('s \<Rightarrow> 's \<Rightarrow> bool) \<Rightarrow> 's \<Rightarrow> bool" for init step where
  reach_init: "init s \<Longrightarrow> reachable init step s" |
  reach_step: "reachable init step s \<Longrightarrow> step s s' \<Longrightarrow> reachable init step s'"

lemma reachable_invariant:
  assumes "reachable init step s"
    and "\<And>s. init s \<Longrightarrow> I s"
    and "\<And>s s'. reachable init step s \<Longrightarrow> I s \<Longrightarrow> step s s' \<Longrightarrow> I s'"
  shows "I s"
  using assms(1) by induction (use assms(2,3) in auto)

text \<open>An inductive invariant: it holds initially and every step keeps it.\<close>

locale invariant =
  fixes init :: "'s \<Rightarrow> bool" and step :: "'s \<Rightarrow> 's \<Rightarrow> bool" and inv :: "'s \<Rightarrow> bool"
  assumes inv_init: "init s \<Longrightarrow> inv s"
    and inv_step: "inv s \<Longrightarrow> step s s' \<Longrightarrow> inv s'"
begin

lemma holds: "reachable init step s \<Longrightarrow> inv s"
  by (erule reachable_invariant) (fact inv_init, rule inv_step)

lemma holds_rtranclp: "inv s \<Longrightarrow> step\<^sup>*\<^sup>* s s' \<Longrightarrow> inv s'"
  by (rotate_tac) (induction rule: rtranclp_induct, auto intro: inv_step)

end

lemma reachable_rtranclp: "reachable init step s \<Longrightarrow> step\<^sup>*\<^sup>* s s' \<Longrightarrow> reachable init step s'"
  by (rotate_tac) (induction rule: rtranclp_induct, auto intro: reach_step)

text \<open>A system without infinite runs that can step until \<open>P\<close> holds reaches a state with \<open>P\<close>.\<close>

lemma wf_reaches:
  assumes "wf {(t, s). step\<^sup>*\<^sup>* s0 s \<and> step s t}"
    and "\<And>s. step\<^sup>*\<^sup>* s0 s \<Longrightarrow> P s \<or> (\<exists>t. step s t)"
  shows "\<exists>s. step\<^sup>*\<^sup>* s0 s \<and> P s"
proof -
  have "step\<^sup>*\<^sup>* s0 s \<Longrightarrow> \<exists>s. step\<^sup>*\<^sup>* s0 s \<and> P s" for s
  proof (induction s rule: wf_induct_rule[OF assms(1)])
    case (1 s)
    show ?case
    proof (cases "P s")
      case False
      with assms(2)[OF 1(2)] obtain t where t: "step s t" by blast
      with 1(2) have "step\<^sup>*\<^sup>* s0 t" by (rule rtranclp.rtrancl_into_rtrancl)
      with 1(1)[of t] 1(2) t show ?thesis by blast
    qed (use 1(2) in blast)
  qed
  then show ?thesis by blast
qed

lemma sum_list_update_nat:
  fixes f :: "'a \<Rightarrow> nat"
  assumes "i < length xs"
  shows "sum_list (map f (xs[i := y])) + f (xs ! i) = sum_list (map f xs) + f y"
  using assms
proof (induction xs arbitrary: i)
  case (Cons x xs)
  then show ?case by (cases i) auto
qed simp

end
