(* ===== verification/Dt_Queue.thy ===== *)
theory Dt_Queue
  imports Limiter Transition
begin

text \<open>
  \<open>dt-common/src/meta/dt_queue.rs\<close>: the bounded queue between the extractors and the pipeline,
  as a transition system. Producers run \<open>push\<close> and the consumer runs \<open>pop\<close>; a step is one access
  to shared state (a limiter, the queue, the byte counter), so every interleaving of the source's
  atomic operations is a sequence of steps. A blocked producer has no step; it makes one again
  when the consumer made room, which is what the notifications and the fallback timer of the
  source achieve. The enqueue limiter is the queue's own here; the dequeue limiter holds rate
  limiters only, as \<open>task_runner.rs\<close> builds it.
\<close>

section \<open>State\<close>

record queue_config =
  qc_capacity :: nat
  qc_max_bytes :: nat
  qc_enqueue :: "buffer_limiter option"
  qc_dequeue :: "buffer_limiter option"

datatype producer =
    PIdle
  | PAcquire dt_item u32 nat
  | PLoop dt_item
  | PChecked dt_item
  | PReserved dt_item
  | PErr dt_item nat failure

datatype consumer =
    CIdle
  | CRelease dt_item nat
  | CDequeue dt_item
  | CSubtract dt_item
  | CPanicked dt_item failure

record queue_state =
  qs_queue :: "dt_item list"
  qs_cur_bytes :: nat
  qs_avail :: "nat list"
  qs_producers :: "producer list"
  qs_consumer :: consumer
  qs_cancelled :: bool
  qs_pushed :: "dt_item list"
  qs_popped :: "dt_item list"

definition enqueue_limiters :: "queue_config \<Rightarrow> limiter list" where
  "enqueue_limiters cfg = (case qc_enqueue cfg of Some b \<Rightarrow> bl_limiters b | None \<Rightarrow> [])"

definition queue_new :: "queue_config \<Rightarrow> nat \<Rightarrow> queue_state" where
  "queue_new cfg n =
     \<lparr>qs_queue = [], qs_cur_bytes = 0, qs_avail = map limiter_total (enqueue_limiters cfg),
      qs_producers = replicate n PIdle, qs_consumer = CIdle, qs_cancelled = False,
      qs_pushed = [], qs_popped = []\<rparr>"

section \<open>Operations\<close>

definition queue_is_full :: "queue_config \<Rightarrow> queue_state \<Rightarrow> bool" where
  "queue_is_full cfg s \<longleftrightarrow> length (qs_queue s) \<ge> qc_capacity cfg"

definition is_mem_full :: "queue_config \<Rightarrow> queue_state \<Rightarrow> bool" where
  "is_mem_full cfg s \<longleftrightarrow> qc_max_bytes cfg > 0 \<and> qs_cur_bytes s > qc_max_bytes cfg"

definition subtract_bytes :: "nat \<Rightarrow> queue_state \<Rightarrow> queue_state" where
  "subtract_bytes bytes s = s\<lparr>qs_cur_bytes := qs_cur_bytes s - bytes\<rparr>"

definition set_producer :: "nat \<Rightarrow> producer \<Rightarrow> queue_state \<Rightarrow> queue_state" where
  "set_producer i p s = s\<lparr>qs_producers := (qs_producers s)[i := p]\<rparr>"

definition push_begin :: "queue_config \<Rightarrow> dt_item \<Rightarrow> producer" where
  "push_begin cfg item =
     (case qc_enqueue cfg of
        None \<Rightarrow> PLoop item
      | Some b \<Rightarrow>
          (case acquire_size b (item_size item) of
             Inl err \<Rightarrow> PErr item 0 err
           | Inr n \<Rightarrow> PAcquire item n 0))"

definition push_cancelled :: failure where
  "push_cancelled = Bail ''DtQueue::push aborted: the queue is full and the task is shutting down''"

text \<open>One step of producer \<open>i\<close>; \<open>None\<close> when it has to wait. An idle producer begins to push \<open>item\<close>.\<close>

definition push_step :: "queue_config \<Rightarrow> nat \<Rightarrow> dt_item \<Rightarrow> queue_state \<Rightarrow> queue_state option" where
  "push_step cfg i item s =
     (case qs_producers s ! i of
        PIdle \<Rightarrow> Some (set_producer i (push_begin cfg item) s)
      | PAcquire x n j \<Rightarrow>
          (if j < length (enqueue_limiters cfg) then
             (let l = enqueue_limiters cfg ! j in
              case limiter_acquire l (qs_avail s ! j) (acquire_permits l n) of
                Acquired avail \<Rightarrow>
                  Some (set_producer i (PAcquire x n (Suc j)) (s\<lparr>qs_avail := (qs_avail s)[j := avail]\<rparr>))
              | Refused err \<Rightarrow> Some (set_producer i (PErr x j err) s)
              | Waiting \<Rightarrow> None)
           else Some (set_producer i (PLoop x) s))
      | PLoop x \<Rightarrow>
          (if \<not> queue_is_full cfg s \<and> \<not> is_mem_full cfg s then Some (set_producer i (PChecked x) s)
           else if qs_cancelled s
           then Some (set_producer i (PErr x (length (enqueue_limiters cfg)) push_cancelled) s)
           else None)
      | PChecked x \<Rightarrow>
          Some (set_producer i (PReserved x) (s\<lparr>qs_cur_bytes := qs_cur_bytes s + item_size x\<rparr>))
      | PReserved x \<Rightarrow>
          (if queue_is_full cfg s then Some (set_producer i (PLoop x) (subtract_bytes (item_size x) s))
           else Some (set_producer i PIdle
             (s\<lparr>qs_queue := qs_queue s @ [x], qs_pushed := qs_pushed s @ [x]\<rparr>)))
      | PErr _ _ _ \<Rightarrow> None)"

text \<open>One step of the consumer.\<close>

definition pop_step :: "queue_config \<Rightarrow> queue_state \<Rightarrow> queue_state option" where
  "pop_step cfg s =
     (case qs_consumer s of
        CIdle \<Rightarrow>
          (case qs_queue s of
             [] \<Rightarrow> None
           | x # xs \<Rightarrow> Some (s\<lparr>qs_queue := xs, qs_popped := qs_popped s @ [x], qs_consumer := CRelease x 0\<rparr>))
      | CRelease x j \<Rightarrow>
          (if j < length (enqueue_limiters cfg) then
             (let l = enqueue_limiters cfg ! j in
              Some (s\<lparr>qs_avail := (qs_avail s)
                        [j := limiter_release l (qs_avail s ! j) (release_permits l (item_size x))],
                      qs_consumer := CRelease x (Suc j)\<rparr>))
           else Some (s\<lparr>qs_consumer := CDequeue x\<rparr>))
      | CDequeue x \<Rightarrow>
          (case qc_dequeue cfg of
             None \<Rightarrow> Some (s\<lparr>qs_consumer := CSubtract x\<rparr>)
           | Some b \<Rightarrow>
               (case buffer_limiter_acquire b (item_size x) of
                  Inl _ \<Rightarrow> Some (s\<lparr>qs_consumer := CPanicked x (Panic ''called `Result::unwrap()` on an `Err` value'')\<rparr>)
                | Inr _ \<Rightarrow> Some (s\<lparr>qs_consumer := CSubtract x\<rparr>)))
      | CSubtract x \<Rightarrow> Some (subtract_bytes (item_size x) (s\<lparr>qs_consumer := CIdle\<rparr>))
      | CPanicked _ _ \<Rightarrow> None)"

text \<open>The steps of a queue whose producers push items of \<open>items\<close>.\<close>

inductive queue_step :: "queue_config \<Rightarrow> dt_item set \<Rightarrow> queue_state \<Rightarrow> queue_state \<Rightarrow> bool" for cfg items where
  producer_step: "i < length (qs_producers s) \<Longrightarrow> item \<in> items \<Longrightarrow> push_step cfg i item s = Some s' \<Longrightarrow>
    queue_step cfg items s s'" |
  consumer_step: "pop_step cfg s = Some s' \<Longrightarrow> queue_step cfg items s s'" |
  cancel_step: "queue_step cfg items s (s\<lparr>qs_cancelled := True\<rparr>)"

definition queue_init :: "queue_config \<Rightarrow> nat \<Rightarrow> queue_state \<Rightarrow> bool" where
  "queue_init cfg n s \<longleftrightarrow> s = queue_new cfg n"

section \<open>The invariant\<close>

text \<open>What a producer and the consumer have added to the byte counter for items outside the queue.\<close>

fun reserved_bytes :: "producer \<Rightarrow> nat" where
  "reserved_bytes (PReserved x) = item_size x" |
  "reserved_bytes _ = 0"

fun held_bytes :: "consumer \<Rightarrow> nat" where
  "held_bytes CIdle = 0" |
  "held_bytes (CRelease x _) = item_size x" |
  "held_bytes (CDequeue x) = item_size x" |
  "held_bytes (CSubtract x) = item_size x" |
  "held_bytes (CPanicked x _) = item_size x"

definition bytes_ok :: "queue_state \<Rightarrow> bool" where
  "bytes_ok s \<longleftrightarrow>
     qs_cur_bytes s = sum_list (map item_size (qs_queue s)) +
       sum_list (map reserved_bytes (qs_producers s)) + held_bytes (qs_consumer s)"

text \<open>The permits of limiter \<open>j\<close> an item holds, and who holds them.\<close>

definition item_cost :: "queue_config \<Rightarrow> nat \<Rightarrow> dt_item \<Rightarrow> nat" where
  "item_cost cfg j x =
     (let l = enqueue_limiters cfg ! j in limiter_cost l (release_permits l (item_size x)))"

fun producer_permits :: "queue_config \<Rightarrow> nat \<Rightarrow> producer \<Rightarrow> nat" where
  "producer_permits cfg j PIdle = 0" |
  "producer_permits cfg j (PAcquire x _ k) = (if j < k then item_cost cfg j x else 0)" |
  "producer_permits cfg j (PErr x k _) = (if j < k then item_cost cfg j x else 0)" |
  "producer_permits cfg j (PLoop x) = item_cost cfg j x" |
  "producer_permits cfg j (PChecked x) = item_cost cfg j x" |
  "producer_permits cfg j (PReserved x) = item_cost cfg j x"

fun consumer_permits :: "queue_config \<Rightarrow> nat \<Rightarrow> consumer \<Rightarrow> nat" where
  "consumer_permits cfg j (CRelease x k) = (if k \<le> j then item_cost cfg j x else 0)" |
  "consumer_permits cfg j _ = 0"

definition permits_ok :: "queue_config \<Rightarrow> queue_state \<Rightarrow> bool" where
  "permits_ok cfg s \<longleftrightarrow>
     length (qs_avail s) = length (enqueue_limiters cfg) \<and>
     (\<forall>j<length (enqueue_limiters cfg).
        qs_avail s ! j + sum_list (map (item_cost cfg j) (qs_queue s)) +
        sum_list (map (producer_permits cfg j) (qs_producers s)) + consumer_permits cfg j (qs_consumer s) =
        limiter_total (enqueue_limiters cfg ! j))"

text \<open>
  A producer in its loop over the limiters asks for the permits that will be given back, and
  every item past the limiters was admitted by them.
\<close>

definition admitted :: "queue_config \<Rightarrow> dt_item \<Rightarrow> bool" where
  "admitted cfg x \<longleftrightarrow>
     (case qc_enqueue cfg of Some b \<Rightarrow> \<exists>n. acquire_size b (item_size x) = Inr n | None \<Rightarrow> True)"

fun producer_ok :: "queue_config \<Rightarrow> producer \<Rightarrow> bool" where
  "producer_ok cfg (PAcquire x n j) \<longleftrightarrow>
     (\<exists>b. qc_enqueue cfg = Some b \<and> acquire_size b (item_size x) = Inr n)" |
  "producer_ok cfg (PLoop x) \<longleftrightarrow> admitted cfg x" |
  "producer_ok cfg (PChecked x) \<longleftrightarrow> admitted cfg x" |
  "producer_ok cfg (PReserved x) \<longleftrightarrow> admitted cfg x" |
  "producer_ok cfg _ \<longleftrightarrow> True"

text \<open>
  Producers past the memory check are accounted with the largest item size \<open>m\<close>: the counter
  exceeds the limit by at most one item per producer.
\<close>

fun checked :: "producer \<Rightarrow> nat" where
  "checked (PChecked _) = 1" |
  "checked _ = 0"

fun producer_item :: "producer \<Rightarrow> dt_item option" where
  "producer_item PIdle = None" |
  "producer_item (PAcquire x _ _) = Some x" |
  "producer_item (PErr x _ _) = Some x" |
  "producer_item (PLoop x) = Some x" |
  "producer_item (PChecked x) = Some x" |
  "producer_item (PReserved x) = Some x"

section \<open>Every step keeps the invariant\<close>

lemma set_producer_simps [simp]:
  "qs_queue (set_producer i p s) = qs_queue s" "qs_cur_bytes (set_producer i p s) = qs_cur_bytes s"
  "qs_avail (set_producer i p s) = qs_avail s" "qs_consumer (set_producer i p s) = qs_consumer s"
  "qs_pushed (set_producer i p s) = qs_pushed s" "qs_popped (set_producer i p s) = qs_popped s"
  "qs_producers (set_producer i p s) = (qs_producers s)[i := p]"
  by (simp_all add: set_producer_def)

lemma subtract_bytes_simps [simp]:
  "qs_queue (subtract_bytes n s) = qs_queue s" "qs_cur_bytes (subtract_bytes n s) = qs_cur_bytes s - n"
  "qs_avail (subtract_bytes n s) = qs_avail s" "qs_consumer (subtract_bytes n s) = qs_consumer s"
  "qs_pushed (subtract_bytes n s) = qs_pushed s" "qs_popped (subtract_bytes n s) = qs_popped s"
  "qs_producers (subtract_bytes n s) = qs_producers s"
  by (simp_all add: subtract_bytes_def)

lemma sum_producers:
  fixes f :: "producer \<Rightarrow> nat"
  assumes "i < length ps" "ps ! i = p"
  shows "sum_list (map f (ps[i := p'])) + f p = sum_list (map f ps) + f p'"
  using sum_list_update_nat[OF assms(1), of f p'] assms(2) by simp

lemma push_begin_reserved [simp]:
  "reserved_bytes (push_begin cfg x) = 0" "checked (push_begin cfg x) = 0"
  "producer_permits cfg j (push_begin cfg x) = (if qc_enqueue cfg = None then item_cost cfg j x else 0)"
  by (auto simp: push_begin_def split: option.splits sum.splits)

lemma push_stepE:
  assumes "push_step cfg i item s = Some s'"
  obtains (start) "qs_producers s ! i = PIdle" "s' = set_producer i (push_begin cfg item) s"
  | (acquire) x n j avail where "qs_producers s ! i = PAcquire x n j" "j < length (enqueue_limiters cfg)"
      "limiter_acquire (enqueue_limiters cfg ! j) (qs_avail s ! j)
         (acquire_permits (enqueue_limiters cfg ! j) n) = Acquired avail"
      "s' = set_producer i (PAcquire x n (Suc j)) (s\<lparr>qs_avail := (qs_avail s)[j := avail]\<rparr>)"
  | (refuse) x n j err where "qs_producers s ! i = PAcquire x n j" "j < length (enqueue_limiters cfg)"
      "s' = set_producer i (PErr x j err) s"
  | (acquired) x n j where "qs_producers s ! i = PAcquire x n j" "length (enqueue_limiters cfg) \<le> j"
      "s' = set_producer i (PLoop x) s"
  | (check) x where "qs_producers s ! i = PLoop x" "\<not> queue_is_full cfg s" "\<not> is_mem_full cfg s"
      "s' = set_producer i (PChecked x) s"
  | (cancel) x where "qs_producers s ! i = PLoop x"
      "s' = set_producer i (PErr x (length (enqueue_limiters cfg)) push_cancelled) s"
  | (reserve) x where "qs_producers s ! i = PChecked x"
      "s' = set_producer i (PReserved x) (s\<lparr>qs_cur_bytes := qs_cur_bytes s + item_size x\<rparr>)"
  | (no_room) x where "qs_producers s ! i = PReserved x" "queue_is_full cfg s"
      "s' = set_producer i (PLoop x) (subtract_bytes (item_size x) s)"
  | (push) x where "qs_producers s ! i = PReserved x" "\<not> queue_is_full cfg s"
      "s' = set_producer i PIdle (s\<lparr>qs_queue := qs_queue s @ [x], qs_pushed := qs_pushed s @ [x]\<rparr>)"
  using assms unfolding push_step_def
  by (auto simp: Let_def split: producer.splits if_splits acquired.splits)

lemma pop_stepE:
  assumes "pop_step cfg s = Some s'"
  obtains (take) x xs where "qs_consumer s = CIdle" "qs_queue s = x # xs"
      "s' = s\<lparr>qs_queue := xs, qs_popped := qs_popped s @ [x], qs_consumer := CRelease x 0\<rparr>"
  | (release) x j where "qs_consumer s = CRelease x j" "j < length (enqueue_limiters cfg)"
      "s' = s\<lparr>qs_avail := (qs_avail s)[j := limiter_release (enqueue_limiters cfg ! j) (qs_avail s ! j)
                (release_permits (enqueue_limiters cfg ! j) (item_size x))], qs_consumer := CRelease x (Suc j)\<rparr>"
  | (released) x j where "qs_consumer s = CRelease x j" "length (enqueue_limiters cfg) \<le> j"
      "s' = s\<lparr>qs_consumer := CDequeue x\<rparr>"
  | (dequeue) x where "qs_consumer s = CDequeue x" "s' = s\<lparr>qs_consumer := CSubtract x\<rparr>"
  | (panic) x err b e where "qs_consumer s = CDequeue x" "s' = s\<lparr>qs_consumer := CPanicked x err\<rparr>"
      "qc_dequeue cfg = Some b" "buffer_limiter_acquire b (item_size x) = Inl e"
  | (subtract) x where "qs_consumer s = CSubtract x"
      "s' = subtract_bytes (item_size x) (s\<lparr>qs_consumer := CIdle\<rparr>)"
  using assms unfolding pop_step_def
  by (auto simp: Let_def split: consumer.splits list.splits if_splits option.splits sum.splits)

lemma bytes_push:
  assumes "bytes_ok s" "i < length (qs_producers s)" "push_step cfg i item s = Some s'"
  shows "bytes_ok s'"
proof -
  note sum = sum_producers[OF assms(2), of _ reserved_bytes]
  note bytes = assms(1)[unfolded bytes_ok_def]
  from assms(3) show ?thesis
  proof (cases rule: push_stepE)
    case start
    with bytes sum[OF start(1), of "push_begin cfg item"] show ?thesis by (simp add: bytes_ok_def)
  next
    case (acquire x n j avail)
    with bytes sum[OF acquire(1), of "PAcquire x n (Suc j)"] show ?thesis by (simp add: bytes_ok_def)
  next
    case (refuse x n j err)
    with bytes sum[OF refuse(1), of "PErr x j err"] show ?thesis by (simp add: bytes_ok_def)
  next
    case (acquired x n j)
    with bytes sum[OF acquired(1), of "PLoop x"] show ?thesis by (simp add: bytes_ok_def)
  next
    case (check x)
    with bytes sum[OF check(1), of "PChecked x"] show ?thesis by (simp add: bytes_ok_def)
  next
    case (cancel x)
    with bytes sum[OF cancel(1), of "PErr x (length (enqueue_limiters cfg)) push_cancelled"] show ?thesis by (simp add: bytes_ok_def)
  next
    case (reserve x)
    with bytes sum[OF reserve(1), of "PReserved x"] show ?thesis by (simp add: bytes_ok_def)
  next
    case (no_room x)
    with bytes sum[OF no_room(1), of "PLoop x"] show ?thesis by (simp add: bytes_ok_def)
  next
    case (push x)
    with bytes sum[OF push(1), of PIdle] show ?thesis by (simp add: bytes_ok_def)
  qed
qed

lemma bytes_pop:
  assumes "bytes_ok s" "pop_step cfg s = Some s'"
  shows "bytes_ok s'"
  using assms(2) by (cases rule: pop_stepE) (use assms(1) in \<open>auto simp: bytes_ok_def\<close>)

lemma acquire_release_permits:
  assumes "buffer_limiter_wf b" "l \<in> set (bl_limiters b)" "acquire_size b sz = Inr n"
  shows "acquire_permits l n = release_permits l sz"
  using assms
  by (cases l; cases "get_unit_type l")
    (auto simp: buffer_limiter_wf_def list_all_iff limiter_wf_def acquire_permits_def release_permits_def
      acquire_size_def split: if_splits unit_type.splits)

definition queue_config_ok :: "queue_config \<Rightarrow> bool" where
  "queue_config_ok cfg \<longleftrightarrow> (case qc_enqueue cfg of Some b \<Rightarrow> buffer_limiter_wf b | None \<Rightarrow> True)"

lemma acquire_item_cost:
  assumes "queue_config_ok cfg" "producer_ok cfg (PAcquire x n j)" "j < length (enqueue_limiters cfg)"
    and "limiter_acquire (enqueue_limiters cfg ! j) avail (acquire_permits (enqueue_limiters cfg ! j) n) = Acquired avail'"
  shows "avail = avail' + item_cost cfg j x"
proof -
  from assms(2) obtain b where b: "qc_enqueue cfg = Some b" "acquire_size b (item_size x) = Inr n" by auto
  have "enqueue_limiters cfg ! j \<in> set (bl_limiters b)" using assms(3) b(1) by (simp add: enqueue_limiters_def)
  with acquire_release_permits[OF _ _ b(2)] assms(1) b(1)
  have "acquire_permits (enqueue_limiters cfg ! j) n = release_permits (enqueue_limiters cfg ! j) (item_size x)"
    by (simp add: queue_config_ok_def)
  with lim.acquire_level[OF assms(4)] show ?thesis by (simp add: item_cost_def Let_def)
qed

lemma permits_okI:
  assumes "length (qs_avail s) = length (enqueue_limiters cfg)"
    and "\<And>j. j < length (enqueue_limiters cfg) \<Longrightarrow>
        qs_avail s ! j + sum_list (map (item_cost cfg j) (qs_queue s)) +
        sum_list (map (producer_permits cfg j) (qs_producers s)) + consumer_permits cfg j (qs_consumer s) =
        limiter_total (enqueue_limiters cfg ! j)"
  shows "permits_ok cfg s"
  using assms by (simp add: permits_ok_def)

lemma permits_push:
  assumes cfg: "queue_config_ok cfg" and ok: "permits_ok cfg s" and i: "i < length (qs_producers s)"
    and po: "producer_ok cfg (qs_producers s ! i)" and step: "push_step cfg i item s = Some s'"
  shows "permits_ok cfg s'"
proof (rule permits_okI)
  show "length (qs_avail s') = length (enqueue_limiters cfg)"
    using step ok by (cases rule: push_stepE) (auto simp: permits_ok_def)
next
  fix k assume k: "k < length (enqueue_limiters cfg)"
  note sum = sum_producers[OF i, of _ "producer_permits cfg k"]
  have lev: "qs_avail s ! k + sum_list (map (item_cost cfg k) (qs_queue s)) +
        sum_list (map (producer_permits cfg k) (qs_producers s)) + consumer_permits cfg k (qs_consumer s) =
        limiter_total (enqueue_limiters cfg ! k)" and len: "length (qs_avail s) = length (enqueue_limiters cfg)"
    using ok k by (simp_all add: permits_ok_def)
  from step show "qs_avail s' ! k + sum_list (map (item_cost cfg k) (qs_queue s')) +
        sum_list (map (producer_permits cfg k) (qs_producers s')) + consumer_permits cfg k (qs_consumer s') =
        limiter_total (enqueue_limiters cfg ! k)"
  proof (cases rule: push_stepE)
    case start
    have "qc_enqueue cfg \<noteq> None" using k by (auto simp: enqueue_limiters_def split: option.splits)
    with start lev sum[OF start(1), of "push_begin cfg item"] show ?thesis by simp
  next
    case (acquire x n j avail)
    have "qs_avail s ! j = avail + item_cost cfg j x"
      using acquire_item_cost[OF cfg _ acquire(2,3)] po acquire(1) by simp
    with acquire lev len sum[OF acquire(1), of "PAcquire x n (Suc j)"] show ?thesis
      by (cases "k = j") (auto simp: nth_list_update less_Suc_eq)
  next
    case (refuse x n j err)
    with lev sum[OF refuse(1), of "PErr x j err"] show ?thesis by simp
  next
    case (acquired x n j)
    with k lev sum[OF acquired(1), of "PLoop x"] show ?thesis by simp
  next
    case (check x)
    with lev sum[OF check(1), of "PChecked x"] show ?thesis by simp
  next
    case (cancel x)
    with k lev sum[OF cancel(1), of "PErr x (length (enqueue_limiters cfg)) push_cancelled"] show ?thesis by simp
  next
    case (reserve x)
    with lev sum[OF reserve(1), of "PReserved x"] show ?thesis by simp
  next
    case (no_room x)
    with lev sum[OF no_room(1), of "PLoop x"] show ?thesis by simp
  next
    case (push x)
    with lev sum[OF push(1), of PIdle] show ?thesis by simp
  qed
qed

lemma permits_pop:
  assumes "permits_ok cfg s" "pop_step cfg s = Some s'"
  shows "permits_ok cfg s'"
proof (rule permits_okI)
  show "length (qs_avail s') = length (enqueue_limiters cfg)"
    using assms(2,1) by (cases rule: pop_stepE) (auto simp: permits_ok_def)
next
  fix k assume k: "k < length (enqueue_limiters cfg)"
  have lev: "qs_avail s ! k + sum_list (map (item_cost cfg k) (qs_queue s)) +
        sum_list (map (producer_permits cfg k) (qs_producers s)) + consumer_permits cfg k (qs_consumer s) =
        limiter_total (enqueue_limiters cfg ! k)" and len: "length (qs_avail s) = length (enqueue_limiters cfg)"
    using assms(1) k by (simp_all add: permits_ok_def)
  from assms(2) show "qs_avail s' ! k + sum_list (map (item_cost cfg k) (qs_queue s')) +
        sum_list (map (producer_permits cfg k) (qs_producers s')) + consumer_permits cfg k (qs_consumer s') =
        limiter_total (enqueue_limiters cfg ! k)"
  proof (cases rule: pop_stepE)
    case (release x j)
    have "limiter_release (enqueue_limiters cfg ! j) a (release_permits (enqueue_limiters cfg ! j) (item_size x)) =
        a + item_cost cfg j x" for a by (simp add: lim.release_level item_cost_def Let_def)
    with release lev len show ?thesis by (cases "k = j") auto
  qed (use k lev in auto)
qed

text \<open>The invariant of the queue with \<open>n\<close> producers that push items of at most \<open>m\<close> bytes.\<close>

definition queue_inv :: "queue_config \<Rightarrow> nat \<Rightarrow> nat \<Rightarrow> queue_state \<Rightarrow> bool" where
  "queue_inv cfg n m s \<longleftrightarrow>
     length (qs_producers s) = n \<and>
     bytes_ok s \<and> permits_ok cfg s \<and>
     list_all (producer_ok cfg) (qs_producers s) \<and>
     list_all (\<lambda>p. case producer_item p of Some x \<Rightarrow> item_size x \<le> m | None \<Rightarrow> True) (qs_producers s) \<and>
     list_all (admitted cfg) (qs_queue s) \<and> length (qs_queue s) \<le> qc_capacity cfg \<and>
     qs_pushed s = qs_popped s @ qs_queue s \<and>
     (qc_max_bytes cfg > 0 \<longrightarrow>
        qs_cur_bytes s + m * sum_list (map checked (qs_producers s)) \<le> qc_max_bytes cfg + m * n)"

lemma list_all_update_nth: "list_all P xs \<Longrightarrow> P y \<Longrightarrow> list_all P (xs[i := y])"
  by (auto simp: list_all_iff dest: set_update_subset_insert[THEN subsetD])

lemma push_begin_ok:
  "producer_ok cfg (push_begin cfg x)" "producer_item (push_begin cfg x) = Some x"
  by (auto simp: push_begin_def admitted_def split: option.splits sum.splits)

lemma sum_checked_le: "sum_list (map checked ps) \<le> length ps"
proof (induction ps)
  case (Cons p ps)
  then show ?case by (cases p) auto
qed simp

lemma mem_push:
  assumes inv: "queue_inv cfg n m s" and max: "qc_max_bytes cfg > 0"
    and i: "i < length (qs_producers s)" and step: "push_step cfg i item s = Some s'"
  shows "qs_cur_bytes s' + m * sum_list (map checked (qs_producers s')) \<le> qc_max_bytes cfg + m * n"
proof -
  note sum = sum_producers[OF i, of _ checked]
  let ?C = "sum_list (map checked (qs_producers s))"
  have old: "qs_cur_bytes s + m * ?C \<le> qc_max_bytes cfg + m * n" and n: "length (qs_producers s) = n"
    using inv max by (simp_all add: queue_inv_def)
  have keep: ?thesis if "qs_producers s' = (qs_producers s)[i := p']" "checked p' = checked (qs_producers s ! i)"
    "qs_cur_bytes s' \<le> qs_cur_bytes s" for p'
    using sum[OF refl, of p'] that old by simp
  from step show ?thesis
  proof (cases rule: push_stepE)
    case (check x)
    have "?C + 1 \<le> n"
      using sum[OF check(1), of "PChecked x"] sum_checked_le[of "(qs_producers s)[i := PChecked x]"] n by simp
    then have "m * (?C + 1) \<le> m * n" by (rule mult_le_mono2)
    moreover have "qs_cur_bytes s \<le> qc_max_bytes cfg" using check(3) max by (simp add: is_mem_full_def)
    moreover have "sum_list (map checked (qs_producers s')) = ?C + 1"
      using sum[OF check(1), of "PChecked x"] check(4) by simp
    ultimately show ?thesis using check(4) by simp
  next
    case (reserve x)
    have "item_size x \<le> m"
      using inv i reserve(1) unfolding queue_inv_def list_all_length by (metis option.simps(5) producer_item.simps(5))
    moreover have "?C = sum_list (map checked (qs_producers s')) + 1"
      using sum[OF reserve(1), of "PReserved x"] reserve(2) by simp
    ultimately show ?thesis using old reserve(2) by simp
  qed (use keep in auto)
qed

lemma queue_inv_push:
  assumes cfg: "queue_config_ok cfg" and inv: "queue_inv cfg n m s" and i: "i < length (qs_producers s)"
    and item: "item_size item \<le> m" and step: "push_step cfg i item s = Some s'"
  shows "queue_inv cfg n m s'"
proof -
  have po: "list_all (producer_ok cfg) (qs_producers s)"
    and small: "list_all (\<lambda>p. case producer_item p of Some x \<Rightarrow> item_size x \<le> m | None \<Rightarrow> True) (qs_producers s)"
    and adm: "list_all (admitted cfg) (qs_queue s)"
    and rest: "length (qs_producers s) = n" "bytes_ok s" "permits_ok cfg s" "length (qs_queue s) \<le> qc_capacity cfg"
      "qs_pushed s = qs_popped s @ qs_queue s" using inv by (simp_all add: queue_inv_def)
  have poi: "producer_ok cfg (qs_producers s ! i)" using po i by (simp add: list_all_length)
  have smi: "case producer_item (qs_producers s ! i) of Some x \<Rightarrow> item_size x \<le> m | None \<Rightarrow> True"
    using small i by (simp add: list_all_length)
  have "list_all (producer_ok cfg) (qs_producers s')"
    using step by (cases rule: push_stepE)
      (use po poi in \<open>auto intro!: list_all_update_nth simp: push_begin_ok admitted_def\<close>)
  moreover have "list_all (admitted cfg) (qs_queue s')"
    using step by (cases rule: push_stepE) (use adm poi in auto)
  moreover have "list_all (\<lambda>p. case producer_item p of Some x \<Rightarrow> item_size x \<le> m | None \<Rightarrow> True) (qs_producers s')"
    using step by (cases rule: push_stepE)
      (use small smi item in \<open>auto intro!: list_all_update_nth simp: push_begin_ok\<close>)
  moreover have "length (qs_producers s') = n" "length (qs_queue s') \<le> qc_capacity cfg"
    "qs_pushed s' = qs_popped s' @ qs_queue s'"
    using step rest by (cases rule: push_stepE; simp add: queue_is_full_def)+
  ultimately show ?thesis
    using bytes_push[OF rest(2) i step] permits_push[OF cfg rest(3) i poi step] mem_push[OF inv _ i step]
    by (simp add: queue_inv_def)
qed

lemma queue_inv_pop:
  assumes inv: "queue_inv cfg n m s" and step: "pop_step cfg s = Some s'"
  shows "queue_inv cfg n m s'"
proof -
  have "qs_producers s' = qs_producers s" "length (qs_queue s') \<le> length (qs_queue s)" "qs_cur_bytes s' \<le> qs_cur_bytes s"
    using step by (cases rule: pop_stepE; simp)+
  moreover have "list_all (admitted cfg) (qs_queue s')"
    using step inv by (cases rule: pop_stepE) (auto simp: queue_inv_def)
  moreover have "qs_pushed s' = qs_popped s' @ qs_queue s'"
    using step inv by (cases rule: pop_stepE) (auto simp: queue_inv_def)
  ultimately show ?thesis
    using inv bytes_pop[OF _ step] permits_pop[OF _ step] by (auto simp: queue_inv_def)
qed

lemma queue_inv_cancel: "queue_inv cfg n m s \<Longrightarrow> queue_inv cfg n m (s\<lparr>qs_cancelled := True\<rparr>)"
proof -
  have "bytes_ok (s\<lparr>qs_cancelled := True\<rparr>) = bytes_ok s" "permits_ok cfg (s\<lparr>qs_cancelled := True\<rparr>) = permits_ok cfg s"
    by (simp_all add: bytes_ok_def permits_ok_def)
  then show "queue_inv cfg n m s \<Longrightarrow> queue_inv cfg n m (s\<lparr>qs_cancelled := True\<rparr>)" by (simp add: queue_inv_def)
qed

interpretation queue: invariant "queue_init cfg n" "queue_step cfg items"
  "\<lambda>s. queue_config_ok cfg \<longrightarrow> (\<forall>x\<in>items. item_size x \<le> m) \<longrightarrow> queue_inv cfg n m s" for cfg n items m
proof
  fix s assume "queue_init cfg n s"
  then show "queue_config_ok cfg \<longrightarrow> (\<forall>x\<in>items. item_size x \<le> m) \<longrightarrow> queue_inv cfg n m s"
    by (simp add: queue_init_def queue_new_def queue_inv_def bytes_ok_def permits_ok_def sum_list_replicate
        list_all_length)
next
  fix s s'
  assume inv: "queue_config_ok cfg \<longrightarrow> (\<forall>x\<in>items. item_size x \<le> m) \<longrightarrow> queue_inv cfg n m s"
    and "queue_step cfg items s s'"
  from this(2) show "queue_config_ok cfg \<longrightarrow> (\<forall>x\<in>items. item_size x \<le> m) \<longrightarrow> queue_inv cfg n m s'"
  proof cases
    case (producer_step i item)
    then show ?thesis using inv queue_inv_push[of cfg n m s i item s'] by simp
  next
    case consumer_step
    then show ?thesis using inv queue_inv_pop by blast
  next
    case cancel_step
    then show ?thesis using inv queue_inv_cancel by blast
  qed
qed

lemma queue_reachable_inv:
  assumes "reachable (queue_init cfg n) (queue_step cfg items) s" "queue_config_ok cfg"
    and "\<forall>x\<in>items. item_size x \<le> m"
  shows "queue_inv cfg n m s"
  using queue.holds[OF assms(1), of m] assms(2,3) by simp

section \<open>Properties\<close>

text \<open>
  C7: In every state the queue reaches, with any number of producers and one consumer interleaved
  at the granularity of single atomic operations: the byte counter is exactly the sum of the sizes
  of the queued items, of the items a producer has reserved room for and of the item the consumer
  is finishing, so that \<open>saturating_sub\<close> never saturates; items leave in the order they entered; the
  number of items stays within the capacity; and the counter exceeds \<open>max_bytes\<close> by at most one
  item per producer.
\<close>

theorem queue_invariant:
  assumes "reachable (queue_init cfg n) (queue_step cfg items) s" "queue_config_ok cfg"
    and "\<forall>x\<in>items. item_size x \<le> m"
  shows "qs_cur_bytes s = sum_list (map item_size (qs_queue s)) +
      sum_list (map reserved_bytes (qs_producers s)) + held_bytes (qs_consumer s) \<and>
    qs_pushed s = qs_popped s @ qs_queue s \<and> length (qs_queue s) \<le> qc_capacity cfg \<and>
    (qc_max_bytes cfg > 0 \<longrightarrow> qs_cur_bytes s \<le> qc_max_bytes cfg + m * n)"
proof -
  note inv = queue_reachable_inv[OF assms, unfolded queue_inv_def]
  from inv have "qc_max_bytes cfg > 0 \<longrightarrow> qs_cur_bytes s \<le> qc_max_bytes cfg + m * n" by linarith
  with inv show ?thesis unfolding bytes_ok_def by blast
qed

lemma sum_list_nth_le:
  fixes f :: "'a \<Rightarrow> nat"
  shows "x \<in> set xs \<Longrightarrow> f x \<le> sum_list (map f xs)"
  by (induction xs) auto

lemma queue_permits_bound:
  assumes "permits_ok cfg s" "j < length (enqueue_limiters cfg)"
  shows "sum_list (map (item_cost cfg j) (qs_queue s)) \<le> limiter_total (enqueue_limiters cfg ! j)"
  using assms unfolding permits_ok_def by (metis add.assoc add.commute le_add1)

lemma from_config_capacity:
  assumes "buffer_limiter_from_config rate (Some cap) = Some b"
  shows "buffer_size cap > 0 \<Longrightarrow> CapacityLimiter (buffer_size cap) URecords \<in> set (bl_limiters b)"
    and "buffer_memory_mb cap > 0 \<Longrightarrow> buffer_memory_mb cap \<le> u32_max div MB \<Longrightarrow>
      CapacityLimiter (buffer_memory_mb cap * MB) UBytes \<in> set (bl_limiters b)"
  using assms by (auto simp: buffer_limiter_from_config_def capacity_limiters_def Let_def split: if_splits prod.splits)

text \<open>
  C34: The capacity limiter of a configuration bounds what is queued: at most \<open>buffer_size\<close> records
  and \<open>buffer_memory_mb\<close> megabytes, in every reachable state.
\<close>

theorem queue_capacity_limits:
  assumes "buffer_limiter_from_config rate (Some cap) = Some b" "qc_enqueue cfg = Some b"
    and "reachable (queue_init cfg n) (queue_step cfg items) s" "\<forall>x\<in>items. item_size x \<le> m"
  shows "(buffer_size cap > 0 \<longrightarrow> length (qs_queue s) \<le> buffer_size cap) \<and>
    (buffer_memory_mb cap > 0 \<and> buffer_memory_mb cap \<le> u32_max div MB \<longrightarrow>
       sum_list (map item_size (qs_queue s)) \<le> buffer_memory_mb cap * MB)"
proof -
  have wf: "buffer_limiter_wf b" by (rule from_config_wf[OF assms(1)])
  then have inv: "queue_inv cfg n m s"
    using queue_reachable_inv[OF assms(3) _ assms(4)] assms(2) by (simp add: queue_config_ok_def)
  then have ok: "permits_ok cfg s" and adm: "list_all (admitted cfg) (qs_queue s)" by (simp_all add: queue_inv_def)
  have ls: "enqueue_limiters cfg = bl_limiters b" using assms(2) by (simp add: enqueue_limiters_def)
  have index: "\<exists>j<length (enqueue_limiters cfg). enqueue_limiters cfg ! j = l" if "l \<in> set (bl_limiters b)" for l
    using that by (simp add: ls in_set_conv_nth)
  have "length (qs_queue s) \<le> buffer_size cap" if c: "buffer_size cap > 0"
  proof -
    obtain j where j: "j < length (enqueue_limiters cfg)" "enqueue_limiters cfg ! j = CapacityLimiter (buffer_size cap) URecords"
      using index[OF from_config_capacity(1)[OF assms(1) c]] by blast
    have "item_cost cfg j = (\<lambda>_. 1)" by (rule ext) (simp add: item_cost_def j(2) limiter_cost_def release_permits_def)
    with queue_permits_bound[OF ok j(1)] j(2) show ?thesis by (simp add: sum_list_triv)
  qed
  moreover have "sum_list (map item_size (qs_queue s)) \<le> buffer_memory_mb cap * MB"
    if c: "buffer_memory_mb cap > 0" "buffer_memory_mb cap \<le> u32_max div MB"
  proof -
    note l = from_config_capacity(2)[OF assms(1) c]
    obtain j where j: "j < length (enqueue_limiters cfg)"
      "enqueue_limiters cfg ! j = CapacityLimiter (buffer_memory_mb cap * MB) UBytes"
      using index[OF l] by blast
    have hb: "bl_has_byte_limiter b" using wf l by (auto simp: buffer_limiter_wf_def list_all_iff limiter_wf_def)
    have "item_cost cfg j x = item_size x" if "x \<in> set (qs_queue s)" for x
    proof -
      have "admitted cfg x" using adm that by (simp add: list_all_iff)
      then have "item_size x \<le> u32_max" using hb assms(2) by (auto simp: admitted_def acquire_size_def split: if_splits)
      then show ?thesis
        by (simp add: item_cost_def j(2) limiter_cost_def release_permits_def unat_of_nat u32_max_def)
    qed
    with queue_permits_bound[OF ok j(1)] j(2) show ?thesis by (simp cong: map_cong)
  qed
  ultimately show ?thesis by blast
qed

section \<open>Progress\<close>

fun in_progress :: "producer \<Rightarrow> bool" where
  "in_progress PIdle = False" |
  "in_progress (PErr _ _ _) = False" |
  "in_progress _ = True"

fun producer_err :: "producer \<Rightarrow> bool" where
  "producer_err (PErr _ _ _) = True" |
  "producer_err _ = False"

lemma pop_step_None:
  "pop_step cfg s = None \<longleftrightarrow> (qs_consumer s = CIdle \<and> qs_queue s = []) \<or> (\<exists>x err. qs_consumer s = CPanicked x err)"
  by (auto simp: pop_step_def Let_def split: consumer.splits list.splits option.splits sum.splits)

lemma push_step_None:
  assumes "push_step cfg i item s = None" "in_progress (qs_producers s ! i)"
  shows "(\<exists>x n j. qs_producers s ! i = PAcquire x n j \<and> j < length (enqueue_limiters cfg) \<and>
      limiter_acquire (enqueue_limiters cfg ! j) (qs_avail s ! j) (acquire_permits (enqueue_limiters cfg ! j) n) = Waiting) \<or>
    (\<exists>x. qs_producers s ! i = PLoop x \<and> (queue_is_full cfg s \<or> is_mem_full cfg s))"
  using assms by (auto simp: push_step_def Let_def split: producer.splits if_splits acquired.splits)

lemma blocked_empty_not_full:
  assumes inv: "queue_inv cfg n m s" and cap: "0 < qc_capacity cfg"
    and idle: "qs_consumer s = CIdle" "qs_queue s = []"
    and none: "\<forall>i<n. in_progress (qs_producers s ! i) \<longrightarrow> push_step cfg i item s = None"
  shows "\<not> queue_is_full cfg s" "\<not> is_mem_full cfg s"
proof -
  have len: "length (qs_producers s) = n" using inv by (simp add: queue_inv_def)
  have "reserved_bytes p = 0" if "p \<in> set (qs_producers s)" for p
  proof -
    from that obtain i where i: "i < n" "qs_producers s ! i = p" using len by (auto simp: in_set_conv_nth)
    show ?thesis
    proof (cases p)
      case (PReserved x)
      with none i have "push_step cfg i item s = None" by simp
      with i PReserved show ?thesis by (auto simp: push_step_def split: if_splits)
    qed simp_all
  qed
  then have "sum_list (map reserved_bytes (qs_producers s)) = 0" by (simp add: sum_list_eq_0_iff)
  moreover have "bytes_ok s" using inv by (simp add: queue_inv_def)
  ultimately have "qs_cur_bytes s = 0" using idle by (simp add: bytes_ok_def)
  then show "\<not> is_mem_full cfg s" "\<not> queue_is_full cfg s" using cap idle by (simp_all add: is_mem_full_def queue_is_full_def)
qed

fun acquire_stage :: "producer \<Rightarrow> nat" where
  "acquire_stage (PAcquire _ _ j) = Suc j" |
  "acquire_stage _ = 0"

text \<open>
  C11: The queue never gets stuck: in every reachable state in which some producer has not finished
  its \<open>push\<close>, no producer has failed and the consumer has not panicked, one of the unfinished
  producers or the consumer can make a step. In particular the two capacity limiters cannot
  deadlock producers that each hold the permits of one, since all take them in the same order.
\<close>

theorem queue_not_stuck:
  assumes reach: "reachable (queue_init cfg n) (queue_step cfg items) s" and cfg: "queue_config_ok cfg"
    and items: "\<forall>x\<in>items. item_size x \<le> m" and cap: "0 < qc_capacity cfg"
    and busy: "list_ex in_progress (qs_producers s)"
    and no_err: "\<not> list_ex producer_err (qs_producers s)" "\<forall>x err. qs_consumer s \<noteq> CPanicked x err"
  shows "(\<exists>i<n. in_progress (qs_producers s ! i) \<and> push_step cfg i item s \<noteq> None) \<or> pop_step cfg s \<noteq> None"
proof (rule ccontr)
  assume stuck: "\<not> ?thesis"
  have inv: "queue_inv cfg n m s" by (rule queue_reachable_inv[OF reach cfg items])
  then have len: "length (qs_producers s) = n" by (simp add: queue_inv_def)
  from stuck no_err(2) have idle: "qs_consumer s = CIdle" "qs_queue s = []" by (auto simp: pop_step_None)
  from stuck have none: "\<forall>i<n. in_progress (qs_producers s ! i) \<longrightarrow> push_step cfg i item s = None" by blast
  note room = blocked_empty_not_full[OF inv cap idle none]
  have waiting: "\<exists>x w j. qs_producers s ! i = PAcquire x w j \<and> j < length (enqueue_limiters cfg) \<and>
      limiter_acquire (enqueue_limiters cfg ! j) (qs_avail s ! j) (acquire_permits (enqueue_limiters cfg ! j) w) = Waiting"
    if "i < n" "in_progress (qs_producers s ! i)" for i
  proof -
    have "push_step cfg i item s = None" using none that by blast
    from push_step_None[OF this that(2)] room show ?thesis by (elim disjE) auto
  qed
  from busy obtain i0 where i0: "i0 < n" "in_progress (qs_producers s ! i0)"
    using len by (auto simp: list_ex_iff in_set_conv_nth)
  let ?S = "{i. i < n \<and> in_progress (qs_producers s ! i)}"
  obtain i where i: "i \<in> ?S" "\<forall>k\<in>?S. acquire_stage (qs_producers s ! k) \<le> acquire_stage (qs_producers s ! i)"
    using i0 finite_has_maximal2[of "(\<lambda>i. acquire_stage (qs_producers s ! i)) ` ?S" "acquire_stage (qs_producers s ! i0)"]
    by fastforce
  from waiting i(1) obtain x w j where w: "qs_producers s ! i = PAcquire x w j" "j < length (enqueue_limiters cfg)"
    "limiter_acquire (enqueue_limiters cfg ! j) (qs_avail s ! j) (acquire_permits (enqueue_limiters cfg ! j) w) = Waiting"
    by blast
  have "producer_permits cfg j p = 0" if "p \<in> set (qs_producers s)" for p
  proof -
    from that obtain k where k: "k < n" "qs_producers s ! k = p" using len by (auto simp: in_set_conv_nth)
    show ?thesis
    proof (cases "in_progress p")
      case True
      with waiting k obtain y v l where p: "p = PAcquire y v l" by blast
      have "k \<in> ?S" using k True by simp
      with i(2) have "acquire_stage p \<le> acquire_stage (qs_producers s ! i)" using k(2) by blast
      with p w(1) show ?thesis by simp
    next
      case False
      with no_err(1) that show ?thesis by (cases p) (auto simp: list_ex_iff)
    qed
  qed
  then have zero: "sum_list (map (producer_permits cfg j) (qs_producers s)) = 0" by (simp add: sum_list_eq_0_iff)
  have "qs_avail s ! j + sum_list (map (item_cost cfg j) (qs_queue s)) +
      sum_list (map (producer_permits cfg j) (qs_producers s)) + consumer_permits cfg j (qs_consumer s) =
      limiter_total (enqueue_limiters cfg ! j)"
    using inv w(2) unfolding queue_inv_def permits_ok_def by blast
  then have "qs_avail s ! j = limiter_total (enqueue_limiters cfg ! j)" unfolding zero idle by simp
  with w(3) lim.acquire_full show False by metis
qed

text \<open>
  C39: \<open>pop\<close> panics on an item larger than the byte rate of the sinker lets through in a second.
  The comment at the \<open>unwrap\<close> of the dequeue limiter says that acquiring should not fail, but it
  fails for exactly these items, after they left the queue.
\<close>

theorem queue_pop_panics:
  assumes "buffer_limiter_from_config (Some rate) None = Some b" "qc_dequeue cfg = Some b"
    and "unat (max_mbps rate) \<le> u32_max div MB" "qs_consumer s = CDequeue x"
  shows "(\<exists>s' err. pop_step cfg s = Some s' \<and> qs_consumer s' = CPanicked x err) \<longleftrightarrow>
    max_mbps rate \<noteq> 0 \<and> item_size x > unat (max_mbps rate) * MB"
  using rate_only_refuses[OF assms(1,3), of "item_size x"] assms(2,4)
  by (auto simp: pop_step_def split: sum.splits)

section \<open>Witnesses\<close>

definition sample_queue_config :: queue_config where
  "sample_queue_config =
     \<lparr>qc_capacity = 1, qc_max_bytes = 100, qc_enqueue = Some sample_buffer_limiter, qc_dequeue = None\<rparr>"

definition sample_small :: dt_item where
  "sample_small = sample_item (DDml (sample_insert ''d'' ''t'' ''1'' ''v''))"

lemma sample_queue_ok: "queue_config_ok sample_queue_config"
  using from_config_wf[OF sample_from_config] by (simp add: queue_config_ok_def sample_queue_config_def)

text \<open>A producer has begun to push an item and holds the permit of the rate limiter.\<close>

definition sample_queue_state :: queue_state where
  "sample_queue_state = set_producer 0 (push_begin sample_queue_config sample_small) (queue_new sample_queue_config 2)"

lemma sample_queue_reachable:
  "reachable (queue_init sample_queue_config 2) (queue_step sample_queue_config {sample_small}) sample_queue_state"
proof (rule reach_step[OF reach_init])
  show "queue_init sample_queue_config 2 (queue_new sample_queue_config 2)" by (simp add: queue_init_def)
  show "queue_step sample_queue_config {sample_small} (queue_new sample_queue_config 2) sample_queue_state"
    by (rule producer_step[of 0 _ sample_small])
      (simp_all add: queue_new_def push_step_def sample_queue_state_def)
qed

theorem queue_invariant_witness:
  "qs_cur_bytes sample_queue_state \<le> 100 + item_size sample_small * 2 \<and>
   length (qs_queue sample_queue_state) \<le> 1"
  using queue_invariant[OF sample_queue_reachable sample_queue_ok, of "item_size sample_small"]
  by (simp add: sample_queue_config_def)

theorem queue_capacity_limits_witness:
  "length (qs_queue sample_queue_state) \<le> 10 \<and>
   sum_list (map item_size (qs_queue sample_queue_state)) \<le> 2097152"
  using queue_capacity_limits[OF sample_from_config _ sample_queue_reachable, of "item_size sample_small"]
  by (simp add: sample_queue_config_def sample_capacity_def u32_max_def MB_def)

lemma sample_small_size: "item_size sample_small = 2"
  by (simp add: item_size_def sample_small_def sample_item_def sample_insert_def row_data_new_def
      get_data_malloc_size_def sum_malloc_def sample_cols_def Let_def)

lemma sample_begin: "push_begin sample_queue_config sample_small = PAcquire sample_small 2 0"
  by (simp add: push_begin_def sample_queue_config_def acquire_size_def sample_buffer_limiter_def sample_small_size
      u32_max_def)

theorem queue_not_stuck_witness:
  "(\<exists>i<2. in_progress (qs_producers sample_queue_state ! i) \<and>
      push_step sample_queue_config i sample_small sample_queue_state \<noteq> None) \<or>
   (\<exists>s'. pop_step sample_queue_config sample_queue_state = Some s')"
  unfolding not_None_eq[symmetric]
  by (rule queue_not_stuck[OF sample_queue_reachable sample_queue_ok, of "item_size sample_small"])
    (simp_all add: sample_queue_state_def sample_begin queue_new_def numeral_2_eq_2, simp add: sample_queue_config_def)

definition sample_dequeue_config :: queue_config where
  "sample_dequeue_config =
     \<lparr>qc_capacity = 1, qc_max_bytes = 0, qc_enqueue = None,
      qc_dequeue = buffer_limiter_from_config (Some sample_rate) None\<rparr>"

definition sample_large :: dt_item where
  "sample_large = sample_item (DDml ((sample_insert ''d'' ''t'' ''1'' ''v'')\<lparr>rd_data_size := 2000000\<rparr>))"

theorem queue_pop_panics_witness:
  "\<exists>s' err. pop_step sample_dequeue_config ((queue_new sample_dequeue_config 1)\<lparr>qs_consumer := CDequeue sample_large\<rparr>) =
     Some s' \<and> qs_consumer s' = CPanicked sample_large err"
proof -
  have "\<exists>b. buffer_limiter_from_config (Some sample_rate) None = Some b"
    by (simp add: buffer_limiter_from_config_def rate_limiters_def sample_rate_def u32_max_def MB_def)
  then obtain b where b: "buffer_limiter_from_config (Some sample_rate) None = Some b" ..
  show ?thesis
    using queue_pop_panics[OF b, of sample_dequeue_config
        "(queue_new sample_dequeue_config 1)\<lparr>qs_consumer := CDequeue sample_large\<rparr>" sample_large] b
    by (simp add: sample_dequeue_config_def sample_rate_def sample_large_def item_size_def sample_item_def
        u32_max_def MB_def)
qed

end
