(* ===== verification/Pipeline.thy ===== *)
theory Pipeline
  imports Parallelizer
begin

text \<open>
  \<open>dt-pipeline/src/base_pipeline.rs\<close>: the loop that drains the queue through a parallelizer, sinks
  each batch by its kind and records checkpoints.

  The parallelizer is an argument: \<open>drain\<close>, what it holds back, and the sizes its \<open>sink_*\<close>
  operations report or their error. A round of the loop gets from outside the items the extractors
  pushed since the last one, whether the task was cancelled, and the seconds the two clocks show.
  The state keeps the calls made to the sinkers and the positions recorded, which is what a
  restarted task can see.
\<close>

section \<open>State\<close>

datatype sink_method = SmRaw | SmDdl | SmDcl | SmDml | SmStruct

datatype sink_call =
    SinkRaw "dt_item list"
  | SinkDdl "ddl_data list"
  | SinkDcl "dcl_data list"
  | SinkDml "row_data list"
  | SinkStruct "struct_data list"

record pipeline_config =
  pc_raw_dml :: bool
  pc_checkpoint_interval_secs :: nat
  pc_batch_sink_interval_secs :: nat
  pc_buffer_capacity :: nat
  pc_recorder :: bool
  pc_lua :: "(row_data list \<Rightarrow> row_data list res) option"

record 'p pipeline =
  pl_buffer :: "dt_item list"
  pl_parallelizer :: 'p
  pl_cancelled :: bool
  pl_syncer :: syncer
  pl_last_received :: position
  pl_last_commit :: position
  pl_data_marker :: "string option"
  pl_logged :: "(position \<times> position) list"
  pl_recorded :: "position list"
  pl_calls :: "sink_call list"
  pl_sinked_count :: nat
  pl_sinked_bytes :: nat
  pl_ddl_count :: nat

record round_input =
  ri_new :: "dt_item list"
  ri_cancel :: bool
  ri_sink_elapsed :: nat
  ri_checkpoint_elapsed :: nat

type_synonym positions = "position option \<times> position option"

section \<open>Fetching a batch\<close>

definition fetch_raw_step :: "nat \<times> positions \<Rightarrow> dt_item \<Rightarrow> nat \<times> positions" where
  "fetch_raw_step acc i =
     (case acc of (data_count, received, commit) \<Rightarrow>
        (case it_dt_data i of
           DCommit _ \<Rightarrow> (data_count, Some (it_position i), Some (it_position i))
         | DHeartbeat \<Rightarrow> (data_count, Some (it_position i), Some (it_position i))
         | DDdl _ \<Rightarrow> (data_count, Some (it_position i), Some (it_position i))
         | DBegin \<Rightarrow> (data_count, received, commit)
         | DRedis _ \<Rightarrow> (Suc data_count, Some (it_position i), Some (it_position i))
         | _ \<Rightarrow> (Suc data_count, Some (it_position i), commit)))"

definition fetch_raw :: "dt_item list \<Rightarrow> nat \<times> positions" where
  "fetch_raw data = foldl fetch_raw_step (0, None, None) data"

definition fetch_dml_step :: "row_data list \<times> positions \<Rightarrow> dt_item \<Rightarrow> row_data list \<times> positions" where
  "fetch_dml_step acc i =
     (case acc of (dml_data, received, commit) \<Rightarrow>
        (case it_dt_data i of
           DCommit _ \<Rightarrow> (dml_data, Some (it_position i), Some (it_position i))
         | DHeartbeat \<Rightarrow> (dml_data, Some (it_position i), Some (it_position i))
         | DDml row_data \<Rightarrow> (dml_data @ [row_data], Some (it_position i), commit)
         | _ \<Rightarrow> acc))"

definition fetch_dml :: "dt_item list \<Rightarrow> row_data list \<times> positions" where
  "fetch_dml data = foldl fetch_dml_step ([], None, None) data"

definition fetch_ddl_step :: "ddl_data list \<times> positions \<Rightarrow> dt_item \<Rightarrow> ddl_data list \<times> positions" where
  "fetch_ddl_step acc i =
     (case acc of (result, received, commit) \<Rightarrow>
        (case it_dt_data i of
           DCommit _ \<Rightarrow> (result, Some (it_position i), Some (it_position i))
         | DHeartbeat \<Rightarrow> (result, Some (it_position i), Some (it_position i))
         | DDdl ddl_data \<Rightarrow> (result @ [ddl_data], Some (it_position i), Some (it_position i))
         | _ \<Rightarrow> acc))"

definition fetch_ddl :: "dt_item list \<Rightarrow> ddl_data list \<times> positions" where
  "fetch_ddl data = foldl fetch_ddl_step ([], None, None) data"

definition fetch_dcl_step :: "dcl_data list \<times> positions \<Rightarrow> dt_item \<Rightarrow> dcl_data list \<times> positions" where
  "fetch_dcl_step acc i =
     (case acc of (result, received, commit) \<Rightarrow>
        (case it_dt_data i of
           DCommit _ \<Rightarrow> (result, Some (it_position i), Some (it_position i))
         | DHeartbeat \<Rightarrow> (result, Some (it_position i), Some (it_position i))
         | DDcl dcl_data \<Rightarrow> (result @ [dcl_data], Some (it_position i), Some (it_position i))
         | _ \<Rightarrow> acc))"

definition fetch_dcl :: "dt_item list \<Rightarrow> dcl_data list \<times> positions" where
  "fetch_dcl data = foldl fetch_dcl_step ([], None, None) data"

fun get_sink_method :: "bool \<Rightarrow> dt_item list \<Rightarrow> sink_method" where
  "get_sink_method raw_dml [] = SmRaw" |
  "get_sink_method raw_dml (i # data) =
     (case it_dt_data i of
        DStruct _ \<Rightarrow> SmStruct
      | DDdl _ \<Rightarrow> SmDdl
      | DDcl _ \<Rightarrow> SmDcl
      | DDml _ \<Rightarrow> if raw_dml then SmRaw else SmDml
      | DRedis _ \<Rightarrow> SmRaw
      | DFoxlake _ \<Rightarrow> SmRaw
      | _ \<Rightarrow> get_sink_method raw_dml data)"

section \<open>Sinking a batch\<close>

text \<open>The call a batch makes, if any, and its positions.\<close>

definition sink_raw_call :: "dt_item list \<Rightarrow> (sink_call option \<times> positions) res" where
  "sink_raw_call data =
     (case fetch_raw data of (data_count, ps) \<Rightarrow>
        Inr (if data_count > 0 then Some (SinkRaw data) else None, ps))"

definition sink_struct_call :: "dt_item list \<Rightarrow> (sink_call option \<times> positions) res" where
  "sink_struct_call data =
     Inr (Some (SinkStruct (List.map_filter
            (\<lambda>i. case it_dt_data i of DStruct struct_data \<Rightarrow> Some struct_data | _ \<Rightarrow> None) data)), None, None)"

definition sink_dml_call ::
  "(row_data list \<Rightarrow> row_data list res) option \<Rightarrow> dt_item list \<Rightarrow> (sink_call option \<times> positions) res" where
  "sink_dml_call lua all_data =
     (case fetch_dml all_data of (data, ps) \<Rightarrow>
        if data = [] then Inr (None, ps)
        else map_res (\<lambda>rows. (Some (SinkDml rows), ps)) (case lua of Some process \<Rightarrow> process data | None \<Rightarrow> Inr data))"

definition sink_ddl_call :: "dt_item list \<Rightarrow> (sink_call option \<times> positions) res" where
  "sink_ddl_call all_data =
     (case fetch_ddl all_data of (data, ps) \<Rightarrow> Inr (if data = [] then None else Some (SinkDdl data), ps))"

definition sink_dcl_call :: "dt_item list \<Rightarrow> (sink_call option \<times> positions) res" where
  "sink_dcl_call all_data =
     (case fetch_dcl all_data of (data, ps) \<Rightarrow> Inr (if data = [] then None else Some (SinkDcl data), ps))"

definition batch_call :: "pipeline_config \<Rightarrow> dt_item list \<Rightarrow> (sink_call option \<times> positions) res" where
  "batch_call cfg data =
     (case get_sink_method (pc_raw_dml cfg) data of
        SmDdl \<Rightarrow> sink_ddl_call data
      | SmDcl \<Rightarrow> sink_dcl_call data
      | SmDml \<Rightarrow> sink_dml_call (pc_lua cfg) data
      | SmRaw \<Rightarrow> sink_raw_call data
      | SmStruct \<Rightarrow> sink_struct_call data)"

text \<open>
  The size a batch is counted with: what the parallelizer reports, except that \<open>sink_dcl\<close>
  counts its statements itself.
\<close>

definition call_size :: "(sink_call \<Rightarrow> data_size res) \<Rightarrow> sink_call option \<Rightarrow> data_size res" where
  "call_size sink call =
     (case call of
        None \<Rightarrow> Inr data_size_default
      | Some (SinkDcl data) \<Rightarrow> map_res (\<lambda>_. \<lparr>ds_count = length data, ds_bytes = 0\<rparr>) (sink (SinkDcl data))
      | Some c \<Rightarrow> sink c)"

section \<open>Checkpoints\<close>

definition record_checkpoint :: "pipeline_config \<Rightarrow> nat option \<Rightarrow> 'p pipeline \<Rightarrow> 'p pipeline" where
  "record_checkpoint cfg elapsed s =
     (if (case elapsed of Some secs \<Rightarrow> secs < pc_checkpoint_interval_secs cfg | None \<Rightarrow> False) then s
      else
        (let record_position = (if pl_last_commit s = PosNone then pl_last_received s else pl_last_commit s);
             s0 = s\<lparr>pl_logged := pl_logged s @ [(pl_last_received s, pl_last_commit s)]\<rparr>;
             s1 = (if pc_recorder cfg then s0\<lparr>pl_recorded := pl_recorded s0 @ [record_position]\<rparr> else s0)
         in if pl_last_commit s = PosNone then s1
            else s1\<lparr>pl_syncer := (pl_syncer s1)\<lparr>committed_position := pl_last_commit s\<rparr>\<rparr>))"

section \<open>The loop\<close>

definition accumulating :: "pipeline_config \<Rightarrow> nat \<Rightarrow> 'p pipeline \<Rightarrow> bool" where
  "accumulating cfg sink_elapsed s \<longleftrightarrow>
     \<not> pl_cancelled s \<and> sink_elapsed < pc_batch_sink_interval_secs cfg \<and>
     \<not> length (pl_buffer s) \<ge> pc_buffer_capacity cfg"

definition set_received :: "position option \<Rightarrow> 'p pipeline \<Rightarrow> 'p pipeline" where
  "set_received p s =
     (case p of
        Some pos \<Rightarrow> s\<lparr>pl_syncer := (pl_syncer s)\<lparr>received_position := pos\<rparr>, pl_last_received := pos\<rparr>
      | None \<Rightarrow> s)"

definition set_commit :: "position option \<Rightarrow> 'p pipeline \<Rightarrow> 'p pipeline" where
  "set_commit p s = (case p of Some pos \<Rightarrow> s\<lparr>pl_last_commit := pos\<rparr> | None \<Rightarrow> s)"

text \<open>The node a marked batch comes from: that of its first item.\<close>

definition mark_origin :: "dt_item list \<Rightarrow> 'p pipeline \<Rightarrow> 'p pipeline" where
  "mark_origin data s =
     (case data of
        [] \<Rightarrow> s
      | i # _ \<Rightarrow> s\<lparr>pl_data_marker := map_option (\<lambda>_. it_data_origin_node i) (pl_data_marker s)\<rparr>)"

definition count_sinked :: "sink_call option \<Rightarrow> data_size \<Rightarrow> 'p pipeline \<Rightarrow> 'p pipeline" where
  "count_sinked call sz s =
     s\<lparr>pl_calls := (case call of Some c \<Rightarrow> pl_calls s @ [c] | None \<Rightarrow> pl_calls s),
       pl_sinked_count := pl_sinked_count s + ds_count sz,
       pl_sinked_bytes := pl_sinked_bytes s + ds_bytes sz,
       pl_ddl_count := (case call of Some (SinkDdl _) \<Rightarrow> pl_ddl_count s + ds_count sz | _ \<Rightarrow> pl_ddl_count s)\<rparr>"

definition pipeline_round ::
  "pipeline_config \<Rightarrow> ('p \<Rightarrow> dt_item list \<Rightarrow> (dt_item list \<times> 'p \<times> dt_item list) res) \<Rightarrow>
   (sink_call \<Rightarrow> data_size res) \<Rightarrow> round_input \<Rightarrow> 'p pipeline \<Rightarrow> 'p pipeline res" where
  "pipeline_round cfg drain sink inp s =
     bind_res (if accumulating cfg (ri_sink_elapsed inp) s then Inr ([], pl_parallelizer s, pl_buffer s)
               else drain (pl_parallelizer s) (pl_buffer s)) (\<lambda>(data, p, buffer).
       bind_res (batch_call cfg data) (\<lambda>(call, received, commit).
         bind_res (call_size sink call) (\<lambda>sz.
           Inr (record_checkpoint cfg (Some (ri_checkpoint_elapsed inp))
             (set_commit commit (set_received received
               (count_sinked call sz (mark_origin data (s\<lparr>pl_parallelizer := p, pl_buffer := buffer\<rparr>)))))))))"

definition arrive :: "round_input \<Rightarrow> 'p pipeline \<Rightarrow> 'p pipeline" where
  "arrive inp s = s\<lparr>pl_buffer := pl_buffer s @ ri_new inp, pl_cancelled := pl_cancelled s \<or> ri_cancel inp\<rparr>"

definition loop_ends :: "('p \<Rightarrow> bool) \<Rightarrow> 'p pipeline \<Rightarrow> bool" where
  "loop_ends has_pending_data s \<longleftrightarrow>
     \<not> (\<not> pl_cancelled s \<or> pl_buffer s \<noteq> [] \<or> has_pending_data (pl_parallelizer s))"

text \<open>The loop over the inputs of its rounds; it returns whether it ended and the inputs left.\<close>

fun pipeline_loop ::
  "pipeline_config \<Rightarrow> ('p \<Rightarrow> dt_item list \<Rightarrow> (dt_item list \<times> 'p \<times> dt_item list) res) \<Rightarrow> ('p \<Rightarrow> bool) \<Rightarrow>
   (sink_call \<Rightarrow> data_size res) \<Rightarrow> round_input list \<Rightarrow> 'p pipeline \<Rightarrow> ('p pipeline \<times> bool) res" where
  "pipeline_loop cfg drain pending sink [] s = Inr (s, False)" |
  "pipeline_loop cfg drain pending sink (inp # inps) s =
     (if loop_ends pending (arrive inp s) then Inr (arrive inp s, True)
      else bind_res (pipeline_round cfg drain sink inp (arrive inp s)) (pipeline_loop cfg drain pending sink inps))"

definition pipeline_start ::
  "pipeline_config \<Rightarrow> ('p \<Rightarrow> dt_item list \<Rightarrow> (dt_item list \<times> 'p \<times> dt_item list) res) \<Rightarrow> ('p \<Rightarrow> bool) \<Rightarrow>
   (sink_call \<Rightarrow> data_size res) \<Rightarrow> round_input list \<Rightarrow> 'p pipeline \<Rightarrow> ('p pipeline \<times> bool) res" where
  "pipeline_start cfg drain pending sink inps s =
     map_res (\<lambda>(s', ended). (if ended then record_checkpoint cfg None s' else s', ended))
       (pipeline_loop cfg drain pending sink inps s)"

definition pipeline_new :: "'p \<Rightarrow> 'p pipeline" where
  "pipeline_new p =
     \<lparr>pl_buffer = [], pl_parallelizer = p, pl_cancelled = False,
      pl_syncer = \<lparr>received_position = PosNone, committed_position = PosNone\<rparr>,
      pl_last_received = PosNone, pl_last_commit = PosNone, pl_data_marker = None, pl_logged = [], pl_recorded = [], pl_calls = [],
      pl_sinked_count = 0, pl_sinked_bytes = 0, pl_ddl_count = 0\<rparr>"

text \<open>\<open>has_pending_data\<close> of the parallelizers: an item was popped and carried over.\<close>

definition has_pending_data :: "base_parallelizer \<Rightarrow> bool" where
  "has_pending_data b \<longleftrightarrow> popped_data b \<noteq> []"

definition base_new :: base_parallelizer where
  "base_new = \<lparr>popped_data = [], record_sizes = []\<rparr>"

section \<open>What a batch delivers\<close>

definition is_marker :: "dt_data \<Rightarrow> bool" where
  "is_marker d \<longleftrightarrow> (case d of DBegin \<Rightarrow> True | DCommit _ \<Rightarrow> True | DHeartbeat \<Rightarrow> True | _ \<Rightarrow> False)"

text \<open>The data of a list of items, in order, and the data a call hands to the sinkers.\<close>

definition data_of :: "dt_item list \<Rightarrow> dt_data list" where
  "data_of items = filter (\<lambda>d. \<not> is_marker d) (map it_dt_data items)"

fun call_data :: "sink_call \<Rightarrow> dt_data list" where
  "call_data (SinkRaw items) = data_of items" |
  "call_data (SinkDdl ds) = map DDdl ds" |
  "call_data (SinkDcl ds) = map DDcl ds" |
  "call_data (SinkDml rows) = map DDml rows" |
  "call_data (SinkStruct ss) = map DStruct ss"

definition delivered :: "sink_call option \<Rightarrow> dt_data list" where
  "delivered call = (case call of Some c \<Rightarrow> call_data c | None \<Rightarrow> [])"

text \<open>The items whose position is received, and those whose position may be committed.\<close>

definition received_like :: "dt_item \<Rightarrow> bool" where
  "received_like i \<longleftrightarrow> it_dt_data i \<noteq> DBegin"

definition commit_like :: "dt_item \<Rightarrow> bool" where
  "commit_like i \<longleftrightarrow>
     (case it_dt_data i of
        DCommit _ \<Rightarrow> True | DHeartbeat \<Rightarrow> True | DDdl _ \<Rightarrow> True | DDcl _ \<Rightarrow> True | DRedis _ \<Rightarrow> True | _ \<Rightarrow> False)"

definition last_pos :: "(dt_item \<Rightarrow> bool) \<Rightarrow> position option \<Rightarrow> dt_item list \<Rightarrow> position option" where
  "last_pos P p items = foldl (\<lambda>p i. if P i then Some (it_position i) else p) p items"

text \<open>
  Streams of one kind: next to structure statements, markers and heartbeats, only rows, only Redis
  entries or only FoxLake files.
\<close>

definition one_kind :: "dt_item list \<Rightarrow> bool" where
  "one_kind items \<longleftrightarrow>
     (\<exists>K \<in> {(\<lambda>d. \<exists>x. d = DDml x), (\<lambda>d. \<exists>x. d = DRedis x), (\<lambda>d. \<exists>x. d = DFoxlake x)}.
        \<forall>i\<in>set items. is_marker (it_dt_data i) \<or> is_ddl (it_dt_data i) \<or> is_dcl (it_dt_data i) \<or> K (it_dt_data i))"

definition uniform :: "dt_item list \<Rightarrow> bool" where
  "uniform items \<longleftrightarrow> (\<forall>i\<in>set items. \<forall>j\<in>set items. get_row_sql_type i = get_row_sql_type j)"

lemma one_kind_mono: "one_kind xs \<Longrightarrow> set ys \<subseteq> set xs \<Longrightarrow> one_kind ys"
  unfolding one_kind_def by (erule bexE, rule bexI, rule ballI, drule (1) subsetD, drule (1) bspec)

lemma last_pos_simps [simp]:
  "last_pos P p [] = p"
  "last_pos P p (i # items) = last_pos P (if P i then Some (it_position i) else p) items"
  "last_pos P p (xs @ ys) = last_pos P (last_pos P p xs) ys"
  by (simp_all add: last_pos_def)

lemma last_pos_cong: "(\<And>i. i \<in> set items \<Longrightarrow> P i = Q i) \<Longrightarrow> last_pos P p items = last_pos Q p items"
  by (induction items arbitrary: p) auto

lemma last_pos_base:
  "last_pos P (Some p) items = Some (case last_pos P None items of Some x \<Rightarrow> x | None \<Rightarrow> p)"
proof (induction items rule: rev_induct)
  case (snoc i items)
  then show ?case by (cases "P i") auto
qed simp

lemma fetch_raw_spec:
  "foldl fetch_raw_step (n, r, c) items =
     (n + length (filter (\<lambda>d. \<not> is_marker d \<and> \<not> is_ddl d) (map it_dt_data items)),
      last_pos received_like r items, last_pos (\<lambda>i. commit_like i \<and> \<not> is_dcl (it_dt_data i)) c items)"
  by (induction items arbitrary: n r c)
    (auto simp: fetch_raw_step_def received_like_def commit_like_def is_marker_def is_ddl_def is_dcl_def
      split: dt_data.splits)

lemma data_of_simps [simp]:
  "data_of [] = []"
  "data_of (i # items) = (if is_marker (it_dt_data i) then [] else [it_dt_data i]) @ data_of items"
  "data_of (xs @ ys) = data_of xs @ data_of ys"
  by (simp_all add: data_of_def)

lemma fetch_dml_step_simps:
  "it_dt_data i = DDml x \<Longrightarrow> fetch_dml_step (acc, r, c) i = (acc @ [x], Some (it_position i), c) \<and>
     received_like i \<and> \<not> commit_like i \<and> \<not> is_marker (it_dt_data i)"
  "is_marker (it_dt_data i) \<Longrightarrow> fetch_dml_step (acc, r, c) i =
     (acc, if received_like i then Some (it_position i) else r, if commit_like i then Some (it_position i) else c)"
  by (auto simp: fetch_dml_step_def received_like_def commit_like_def is_marker_def split: dt_data.splits)

lemma fetch_dml_spec:
  assumes "\<forall>i\<in>set items. is_marker (it_dt_data i) \<or> (\<exists>x. it_dt_data i = DDml x)"
  shows "\<exists>rows. foldl fetch_dml_step (acc, r, c) items =
      (acc @ rows, last_pos received_like r items, last_pos commit_like c items) \<and> map DDml rows = data_of items"
  using assms
proof (induction items arbitrary: acc r c)
  case (Cons i items)
  show ?case
  proof (cases "is_marker (it_dt_data i)")
    case True
    with Cons show ?thesis by (simp add: fetch_dml_step_simps(2))
  next
    case False
    with Cons.prems obtain x where x: "it_dt_data i = DDml x" by auto
    from Cons.IH[of "acc @ [x]" "Some (it_position i)" c] Cons.prems obtain rows where
      "foldl fetch_dml_step (acc @ [x], Some (it_position i), c) items =
        ((acc @ [x]) @ rows, last_pos received_like (Some (it_position i)) items, last_pos commit_like c items)"
      "map DDml rows = data_of items" by auto
    with fetch_dml_step_simps(1)[OF x] x show ?thesis by (intro exI[of _ "x # rows"]) auto
  qed
qed simp

lemma fetch_ddl_step_simps:
  "it_dt_data i = DDdl x \<Longrightarrow> fetch_ddl_step (acc, r, c) i = (acc @ [x], Some (it_position i), Some (it_position i)) \<and>
     received_like i \<and> commit_like i \<and> \<not> is_marker (it_dt_data i)"
  "it_dt_data i = DDcl y \<Longrightarrow> fetch_dcl_step (acc', r, c) i = (acc' @ [y], Some (it_position i), Some (it_position i)) \<and>
     received_like i \<and> commit_like i \<and> \<not> is_marker (it_dt_data i)"
  by (auto simp: fetch_ddl_step_def fetch_dcl_step_def received_like_def commit_like_def is_marker_def)

lemma fetch_ddl_spec:
  assumes "\<forall>i\<in>set items. is_ddl (it_dt_data i)"
  shows "\<exists>ds. foldl fetch_ddl_step (acc, r, c) items =
      (acc @ ds, last_pos received_like r items, last_pos commit_like c items) \<and> map DDdl ds = data_of items"
  using assms
proof (induction items arbitrary: acc r c)
  case (Cons i items)
  then obtain x where x: "it_dt_data i = DDdl x" by (auto simp: is_ddl_def split: dt_data.splits)
  let ?p = "Some (it_position i)"
  from Cons.IH[of "acc @ [x]" ?p ?p] Cons.prems obtain ds where
    "foldl fetch_ddl_step (acc @ [x], ?p, ?p) items =
      ((acc @ [x]) @ ds, last_pos received_like ?p items, last_pos commit_like ?p items)"
    "map DDdl ds = data_of items" by auto
  with fetch_ddl_step_simps(1)[OF x] x show ?case by (intro exI[of _ "x # ds"]) auto
qed simp

lemma fetch_dcl_spec:
  assumes "\<forall>i\<in>set items. is_dcl (it_dt_data i)"
  shows "\<exists>ds. foldl fetch_dcl_step (acc, r, c) items =
      (acc @ ds, last_pos received_like r items, last_pos commit_like c items) \<and> map DDcl ds = data_of items"
  using assms
proof (induction items arbitrary: acc r c)
  case (Cons i items)
  then obtain x where x: "it_dt_data i = DDcl x" by (auto simp: is_dcl_def split: dt_data.splits)
  let ?p = "Some (it_position i)"
  from Cons.IH[of "acc @ [x]" ?p ?p] Cons.prems obtain ds where
    "foldl fetch_dcl_step (acc @ [x], ?p, ?p) items =
      ((acc @ [x]) @ ds, last_pos received_like ?p items, last_pos commit_like ?p items)"
    "map DDcl ds = data_of items" by auto
  with fetch_ddl_step_simps(2)[OF x] x show ?case by (intro exI[of _ "x # ds"]) auto
qed simp

section \<open>One batch\<close>

lemma uniform_kinds:
  assumes "uniform items"
  shows "(\<forall>i\<in>set items. is_ddl (it_dt_data i)) \<or> (\<forall>i\<in>set items. is_dcl (it_dt_data i)) \<or>
    (\<forall>i\<in>set items. \<not> is_ddl (it_dt_data i) \<and> \<not> is_dcl (it_dt_data i))"
proof -
  have t: "is_ddl (it_dt_data i) \<longleftrightarrow> get_row_sql_type i = SqlDDL" "is_dcl (it_dt_data i) \<longleftrightarrow> get_row_sql_type i = SqlDCL" for i
    by (auto simp: is_ddl_def is_dcl_def get_row_sql_type_def split: dt_data.splits)
  show ?thesis
  proof (cases items)
    case (Cons i rest)
    then have "i \<in> set items" by simp
    with assms have "\<forall>j\<in>set items. get_row_sql_type j = get_row_sql_type i" unfolding uniform_def by blast
    then show ?thesis unfolding t by (cases "get_row_sql_type i") simp_all
  qed simp
qed

lemma sink_method_marker:
  "is_marker (it_dt_data i) \<Longrightarrow> get_sink_method raw (i # items) = get_sink_method raw items"
  by (cases "it_dt_data i") (simp_all add: is_marker_def)

lemma sink_method_markers:
  "\<forall>i\<in>set items. is_marker (it_dt_data i) \<Longrightarrow> get_sink_method raw items = SmRaw"
  by (induction items) (simp_all add: sink_method_marker del: get_sink_method.simps(2))

lemma sink_method_one:
  assumes "\<forall>i\<in>set items. is_marker (it_dt_data i) \<or> K (it_dt_data i)" "\<exists>i\<in>set items. \<not> is_marker (it_dt_data i)"
    and "\<And>i rest. K (it_dt_data i) \<Longrightarrow> \<not> is_marker (it_dt_data i) \<Longrightarrow> get_sink_method raw (i # rest) = m"
  shows "get_sink_method raw items = m"
  using assms(1,2)
proof (induction items)
  case (Cons i items)
  show ?case
  proof (cases "is_marker (it_dt_data i)")
    case True
    with Cons sink_method_marker[OF True, of raw items] show ?thesis by simp
  next
    case False
    with Cons.prems(1) have "K (it_dt_data i)" by simp
    then show ?thesis using False by (rule assms(3))
  qed
qed simp

lemma marker_not_stmt: "is_marker d \<Longrightarrow> \<not> is_ddl d \<and> \<not> is_dcl d"
  by (cases d) (simp_all add: is_marker_def is_ddl_def is_dcl_def)

lemma batch_call_raw:
  assumes "get_sink_method (pc_raw_dml cfg) items = SmRaw"
    and "\<forall>i\<in>set items. \<not> is_ddl (it_dt_data i) \<and> \<not> is_dcl (it_dt_data i)"
  shows "\<exists>call. batch_call cfg items = Inr (call, last_pos received_like None items, last_pos commit_like None items) \<and>
    delivered call = data_of items"
proof -
  let ?n = "length (filter (\<lambda>d. \<not> is_marker d \<and> \<not> is_ddl d) (map it_dt_data items))"
  have "filter (\<lambda>d. \<not> is_marker d \<and> \<not> is_ddl d) (map it_dt_data items) = data_of items"
    unfolding data_of_def by (rule filter_cong[OF refl]) (use assms(2) in auto)
  then have n: "?n = length (data_of items)" by simp
  have c: "last_pos (\<lambda>i. commit_like i \<and> \<not> is_dcl (it_dt_data i)) None items = last_pos commit_like None items"
    by (rule last_pos_cong) (use assms(2) in auto)
  have "fetch_raw items = (length (data_of items), last_pos received_like None items, last_pos commit_like None items)"
    unfolding fetch_raw_def fetch_raw_spec n c by simp
  then show ?thesis
    by (cases "data_of items = []") (simp_all add: batch_call_def assms(1) sink_raw_call_def delivered_def)
qed

lemma batch_call_spec:
  assumes "uniform items" "one_kind items" "pc_lua cfg = None"
  shows "\<exists>call. batch_call cfg items = Inr (call, last_pos received_like None items, last_pos commit_like None items) \<and>
    delivered call = data_of items"
proof (cases "\<forall>i\<in>set items. is_marker (it_dt_data i)")
  case True
  then show ?thesis by (intro batch_call_raw sink_method_markers) (simp_all add: marker_not_stmt)
next
  case False
  then have ne: "\<exists>i\<in>set items. \<not> is_marker (it_dt_data i)" by blast
  consider (ddl) "\<forall>i\<in>set items. is_ddl (it_dt_data i)" | (dcl) "\<forall>i\<in>set items. is_dcl (it_dt_data i)"
    | (dml) "\<forall>i\<in>set items. \<not> is_ddl (it_dt_data i) \<and> \<not> is_dcl (it_dt_data i)"
    using uniform_kinds[OF assms(1)] by blast
  then show ?thesis
  proof cases
    case ddl
    obtain ds where ds: "foldl fetch_ddl_step ([], None, None) items =
      ([] @ ds, last_pos received_like None items, last_pos commit_like None items)" "map DDdl ds = data_of items"
      using fetch_ddl_spec[OF ddl] by metis
    have "get_sink_method (pc_raw_dml cfg) items = SmDdl"
      by (rule sink_method_one[where K = is_ddl]) (use ddl ne in \<open>simp_all add: is_ddl_def split: dt_data.splits\<close>)
    with ds show ?thesis by (auto simp: batch_call_def sink_ddl_call_def fetch_ddl_def delivered_def)
  next
    case dcl
    obtain ds where ds: "foldl fetch_dcl_step ([], None, None) items =
      ([] @ ds, last_pos received_like None items, last_pos commit_like None items)" "map DDcl ds = data_of items"
      using fetch_dcl_spec[OF dcl] by metis
    have "get_sink_method (pc_raw_dml cfg) items = SmDcl"
      by (rule sink_method_one[where K = is_dcl]) (use dcl ne in \<open>simp_all add: is_dcl_def split: dt_data.splits\<close>)
    with ds show ?thesis by (auto simp: batch_call_def sink_dcl_call_def fetch_dcl_def delivered_def)
  next
    case dml
    from assms(2) dml consider (rows) "\<forall>i\<in>set items. is_marker (it_dt_data i) \<or> (\<exists>x. it_dt_data i = DDml x)"
      | (redis) "\<forall>i\<in>set items. is_marker (it_dt_data i) \<or> (\<exists>x. it_dt_data i = DRedis x)"
      | (foxlake) "\<forall>i\<in>set items. is_marker (it_dt_data i) \<or> (\<exists>x. it_dt_data i = DFoxlake x)"
      unfolding one_kind_def by blast
    then show ?thesis
    proof cases
      case rows
      show ?thesis
      proof (cases "pc_raw_dml cfg")
        case True
        have "get_sink_method (pc_raw_dml cfg) items = SmRaw"
          by (rule sink_method_one[OF rows ne]) (use True in auto)
        with dml show ?thesis by (intro batch_call_raw)
      next
        case nr: False
        have m: "get_sink_method (pc_raw_dml cfg) items = SmDml"
          by (rule sink_method_one[OF rows ne]) (use nr in auto)
        obtain rs where rs: "foldl fetch_dml_step ([], None, None) items =
          ([] @ rs, last_pos received_like None items, last_pos commit_like None items)" "map DDml rs = data_of items"
          using fetch_dml_spec[OF rows] by metis
        with m show ?thesis by (auto simp: batch_call_def sink_dml_call_def fetch_dml_def delivered_def assms(3))
      qed
    next
      case redis
      have "get_sink_method (pc_raw_dml cfg) items = SmRaw" by (rule sink_method_one[OF redis ne]) auto
      with dml show ?thesis by (intro batch_call_raw)
    next
      case foxlake
      have "get_sink_method (pc_raw_dml cfg) items = SmRaw" by (rule sink_method_one[OF foxlake ne]) auto
      with dml show ?thesis by (intro batch_call_raw)
    qed
  qed
qed

section \<open>The loop keeps its promise\<close>

definition commit_pos :: "dt_item list \<Rightarrow> position" where
  "commit_pos items = the (last_pos commit_like (Some PosNone) items)"

definition received_pos :: "dt_item list \<Rightarrow> position" where
  "received_pos items = the (last_pos received_like (Some PosNone) items)"

text \<open>The checkpoint of a stream of which \<open>items\<close> was sinked.\<close>

definition checkpoint_of :: "dt_item list \<Rightarrow> position" where
  "checkpoint_of items = (if commit_pos items = PosNone then received_pos items else commit_pos items)"

definition pipeline_ok :: "dt_item list \<Rightarrow> 'p pipeline \<Rightarrow> bool" where
  "pipeline_ok consumed s \<longleftrightarrow>
     concat (map call_data (pl_calls s)) = data_of consumed \<and>
     pl_last_received s = received_pos consumed \<and> pl_last_commit s = commit_pos consumed \<and>
     received_position (pl_syncer s) = received_pos consumed \<and>
     (\<forall>l\<in>set (pl_logged s). \<exists>pre. prefix pre consumed \<and> l = (received_pos pre, commit_pos pre)) \<and>
     (\<forall>p\<in>set (pl_recorded s). \<exists>pre. prefix pre consumed \<and> p = checkpoint_of pre) \<and>
     (\<exists>pre. prefix pre consumed \<and> committed_position (pl_syncer s) = commit_pos pre)"

lemma pos_append:
  "commit_pos (xs @ ys) = (case last_pos commit_like None ys of Some p \<Rightarrow> p | None \<Rightarrow> commit_pos xs)"
  "received_pos (xs @ ys) = (case last_pos received_like None ys of Some p \<Rightarrow> p | None \<Rightarrow> received_pos xs)"
  by (simp_all add: commit_pos_def received_pos_def last_pos_base split: option.splits)

lemma pos_Nil [simp]: "commit_pos [] = PosNone" "received_pos [] = PosNone"
  by (simp_all add: commit_pos_def received_pos_def)

lemma record_checkpoint_ok:
  assumes "pipeline_ok consumed s"
  shows "pipeline_ok consumed (record_checkpoint cfg e s)"
proof -
  let ?p = "if pl_last_commit s = PosNone then pl_last_received s else pl_last_commit s"
  have p: "?p = checkpoint_of consumed" using assms by (simp add: pipeline_ok_def checkpoint_of_def)
  have 0: "pipeline_ok consumed (s\<lparr>pl_logged := pl_logged s @ [(pl_last_received s, pl_last_commit s)]\<rparr>)" (is "pipeline_ok _ ?s")
    using assms prefix_order.refl unfolding pipeline_ok_def by fastforce
  have 1: "pipeline_ok consumed (?s\<lparr>pl_recorded := pl_recorded ?s @ [?p]\<rparr>)"
    using 0 prefix_order.refl unfolding p pipeline_ok_def by fastforce
  have 2: "pipeline_ok consumed (t\<lparr>pl_syncer := (pl_syncer t)\<lparr>committed_position := pl_last_commit t\<rparr>\<rparr>)"
    if "pipeline_ok consumed t" for t :: "'a pipeline"
    using that prefix_order.refl unfolding pipeline_ok_def by fastforce
  show ?thesis using assms 0 1 2[OF 0] 2[OF 1]
    by (cases "pl_last_commit s = PosNone") (simp_all add: record_checkpoint_def Let_def)
qed

lemma record_checkpoint_last:
  "pipeline_ok consumed s \<Longrightarrow> pc_recorder cfg \<Longrightarrow>
   pl_recorded (record_checkpoint cfg None s) \<noteq> [] \<and>
   last (pl_recorded (record_checkpoint cfg None s)) = checkpoint_of consumed"
  by (simp add: pipeline_ok_def record_checkpoint_def Let_def checkpoint_of_def)

lemma record_checkpoint_simps [simp]:
  "pl_buffer (record_checkpoint cfg e s) = pl_buffer s"
  "pl_parallelizer (record_checkpoint cfg e s) = pl_parallelizer s"
  "pl_cancelled (record_checkpoint cfg e s) = pl_cancelled s"
  by (simp_all add: record_checkpoint_def Let_def)

lemma set_pos_simps [simp]:
  "pl_buffer (set_received r s) = pl_buffer s" "pl_buffer (set_commit c s) = pl_buffer s"
  "pl_parallelizer (set_received r s) = pl_parallelizer s" "pl_parallelizer (set_commit c s) = pl_parallelizer s"
  "pl_cancelled (set_received r s) = pl_cancelled s" "pl_cancelled (set_commit c s) = pl_cancelled s"
  "pl_buffer (count_sinked call sz s) = pl_buffer s" "pl_parallelizer (count_sinked call sz s) = pl_parallelizer s"
  "pl_cancelled (count_sinked call sz s) = pl_cancelled s"
  "pl_buffer (mark_origin data s) = pl_buffer s" "pl_parallelizer (mark_origin data s) = pl_parallelizer s"
  "pl_cancelled (mark_origin data s) = pl_cancelled s"
  by (simp_all add: set_received_def set_commit_def count_sinked_def mark_origin_def split: option.splits list.splits)

lemma round_positions_ok:
  assumes "pipeline_ok consumed s" "delivered call = data_of data"
  shows "pipeline_ok (consumed @ data)
    (set_commit (last_pos commit_like None data) (set_received (last_pos received_like None data)
      (count_sinked call sz (mark_origin data (s\<lparr>pl_parallelizer := p, pl_buffer := q\<rparr>)))))"
proof -
  have ex: "prefix pre consumed \<Longrightarrow> prefix pre (consumed @ data)" for pre by (rule prefix_prefix)
  have rec: "\<forall>p\<in>set (pl_recorded s). \<exists>pre. prefix pre (consumed @ data) \<and> p = checkpoint_of pre"
    and logged: "\<forall>l\<in>set (pl_logged s). \<exists>pre. prefix pre (consumed @ data) \<and> l = (received_pos pre, commit_pos pre)"
    and com: "\<exists>pre. prefix pre (consumed @ data) \<and> committed_position (pl_syncer s) = commit_pos pre"
    using assms(1) unfolding pipeline_ok_def by (blast dest: ex)+
  have m: "pl_calls (mark_origin data t) = pl_calls t" "pl_last_received (mark_origin data t) = pl_last_received t"
    "pl_last_commit (mark_origin data t) = pl_last_commit t" "pl_syncer (mark_origin data t) = pl_syncer t"
    "pl_recorded (mark_origin data t) = pl_recorded t" "pl_logged (mark_origin data t) = pl_logged t" for t :: "'a pipeline"
    by (simp_all add: mark_origin_def split: list.splits)
  from assms rec logged com show ?thesis unfolding pipeline_ok_def
    by (cases "last_pos commit_like None data"; cases "last_pos received_like None data"; cases call)
      (simp_all add: set_commit_def set_received_def count_sinked_def delivered_def pos_append m)
qed

text \<open>
  What the pipeline relies on: a parallelizer whose drains lose nothing, return batches of one
  statement class, and return something when there is something.
\<close>

locale batch_source =
  fixes drain :: "'p \<Rightarrow> dt_item list \<Rightarrow> (dt_item list \<times> 'p \<times> dt_item list) res"
    and pending :: "'p \<Rightarrow> dt_item list"
    and ok :: "'p \<Rightarrow> bool"
  assumes drain_total: "ok p \<Longrightarrow> \<exists>data p' q'. drain p q = Inr (data, p', q')"
    and drain_ok: "ok p \<Longrightarrow> drain p q = Inr (data, p', q') \<Longrightarrow>
      data @ pending p' @ q' = pending p @ q \<and> ok p' \<and> uniform data"
    and drain_some: "ok p \<Longrightarrow> drain p q = Inr (data, p', q') \<Longrightarrow> pending p @ q \<noteq> [] \<Longrightarrow> data \<noteq> []"
begin

lemma drained_batch:
  assumes ok: "ok (pl_parallelizer s)" and kind: "one_kind (pending (pl_parallelizer s) @ pl_buffer s)"
    and lua: "pc_lua cfg = None"
  obtains data p' q' call where
    "(if accumulating cfg (ri_sink_elapsed inp) s then Inr ([], pl_parallelizer s, pl_buffer s)
      else drain (pl_parallelizer s) (pl_buffer s)) = Inr (data, p', q')"
    "data @ pending p' @ q' = pending (pl_parallelizer s) @ pl_buffer s" "ok p'"
    "batch_call cfg data = Inr (call, last_pos received_like None data, last_pos commit_like None data)"
    "delivered call = data_of data"
    "\<not> accumulating cfg (ri_sink_elapsed inp) s \<longrightarrow> pending (pl_parallelizer s) @ pl_buffer s \<noteq> [] \<longrightarrow> data \<noteq> []"
proof -
  let ?drained = "if accumulating cfg (ri_sink_elapsed inp) s then Inr ([], pl_parallelizer s, pl_buffer s)
    else drain (pl_parallelizer s) (pl_buffer s)"
  obtain data p' q' where d: "?drained = Inr (data, p', q')"
    using drain_total[OF ok, of "pl_buffer s"] by (cases "accumulating cfg (ri_sink_elapsed inp) s") auto
  have keep: "data @ pending p' @ q' = pending (pl_parallelizer s) @ pl_buffer s \<and> ok p' \<and> uniform data"
  proof (cases "accumulating cfg (ri_sink_elapsed inp) s")
    case True
    with d ok show ?thesis by (simp add: uniform_def)
  next
    case False
    with d show ?thesis by (intro drain_ok[OF ok]) simp
  qed
  have "set data \<subseteq> set (data @ pending p' @ q')" by simp
  then have "set data \<subseteq> set (pending (pl_parallelizer s) @ pl_buffer s)" unfolding conjunct1[OF keep] .
  with kind have "one_kind data" by (rule one_kind_mono)
  from batch_call_spec[OF _ this lua] keep obtain call where
    call: "batch_call cfg data = Inr (call, last_pos received_like None data, last_pos commit_like None data)"
    "delivered call = data_of data" by blast
  have "data \<noteq> []" if "\<not> accumulating cfg (ri_sink_elapsed inp) s" "pending (pl_parallelizer s) @ pl_buffer s \<noteq> []"
    using d drain_some[OF ok] that by simp
  then show ?thesis using keep by (intro that[OF d _ _ call]) simp_all
qed

lemma round_keeps:
  assumes "ok (pl_parallelizer s)" "one_kind (pending (pl_parallelizer s) @ pl_buffer s)" "pc_lua cfg = None"
    and r: "pipeline_round cfg drain sink inp s = Inr s'"
  shows "\<exists>data. data @ pending (pl_parallelizer s') @ pl_buffer s' = pending (pl_parallelizer s) @ pl_buffer s \<and>
    (\<forall>consumed. pipeline_ok consumed s \<longrightarrow> pipeline_ok (consumed @ data) s') \<and> ok (pl_parallelizer s') \<and>
    pl_cancelled s' = pl_cancelled s \<and>
    (\<not> accumulating cfg (ri_sink_elapsed inp) s \<longrightarrow> pending (pl_parallelizer s) @ pl_buffer s \<noteq> [] \<longrightarrow> data \<noteq> [])"
proof -
  obtain data p' q' call where
    d: "(if accumulating cfg (ri_sink_elapsed inp) s then Inr ([], pl_parallelizer s, pl_buffer s)
      else drain (pl_parallelizer s) (pl_buffer s)) = Inr (data, p', q')"
    and keep: "data @ pending p' @ q' = pending (pl_parallelizer s) @ pl_buffer s" "ok p'"
    and call: "batch_call cfg data = Inr (call, last_pos received_like None data, last_pos commit_like None data)"
      "delivered call = data_of data"
    and some: "\<not> accumulating cfg (ri_sink_elapsed inp) s \<longrightarrow> pending (pl_parallelizer s) @ pl_buffer s \<noteq> [] \<longrightarrow> data \<noteq> []"
    by (rule drained_batch[OF assms(1-3)])
  from r have "bind_res (call_size sink call) (\<lambda>sz.
      Inr (record_checkpoint cfg (Some (ri_checkpoint_elapsed inp))
        (set_commit (last_pos commit_like None data) (set_received (last_pos received_like None data)
          (count_sinked call sz (mark_origin data (s\<lparr>pl_parallelizer := p', pl_buffer := q'\<rparr>))))))) = Inr s'"
    unfolding pipeline_round_def d by (simp add: call(1))
  then obtain sz where
    s': "s' = record_checkpoint cfg (Some (ri_checkpoint_elapsed inp))
      (set_commit (last_pos commit_like None data) (set_received (last_pos received_like None data)
        (count_sinked call sz (mark_origin data (s\<lparr>pl_parallelizer := p', pl_buffer := q'\<rparr>)))))"
    by (auto simp only: bind_res_eq_Inr sum.inject)
  have "pipeline_ok (consumed @ data) s'" if "pipeline_ok consumed s" for consumed
    unfolding s' by (rule record_checkpoint_ok[OF round_positions_ok[OF that call(2)]])
  with keep some show ?thesis by (intro exI[of _ data]) (simp add: s')
qed

lemma arrive_ok: "pipeline_ok consumed s \<Longrightarrow> pipeline_ok consumed (arrive inp s)"
  by (simp add: pipeline_ok_def arrive_def)

lemma loop_ok:
  assumes "pipeline_loop cfg drain has sink inps s = Inr (s', ended)"
    and "ok (pl_parallelizer s)" "pipeline_ok consumed s" "pc_lua cfg = None"
    and "one_kind (pending (pl_parallelizer s) @ pl_buffer s @ concat (map ri_new inps))"
  shows "\<exists>data left. data @ pending (pl_parallelizer s') @ pl_buffer s' @ concat (map ri_new left) =
      pending (pl_parallelizer s) @ pl_buffer s @ concat (map ri_new inps) \<and>
    pipeline_ok (consumed @ data) s' \<and> ok (pl_parallelizer s') \<and> (if ended then loop_ends has s' else left = []) \<and>
    set left \<subseteq> set inps"
  using assms
proof (induction inps arbitrary: s consumed)
  case Nil
  then show ?case by (intro exI[of _ "[]"]) simp_all
next
  case (Cons inp inps)
  let ?s = "arrive inp s"
  have a: "pl_parallelizer ?s = pl_parallelizer s" "pl_buffer ?s = pl_buffer s @ ri_new inp"
    by (simp_all add: arrive_def)
  show ?case
  proof (cases "loop_ends has ?s")
    case True
    with Cons.prems(1) have "s' = ?s" "ended" by simp_all
    with True Cons.prems(2) arrive_ok[OF Cons.prems(3)] a show ?thesis
      by (intro exI[of _ "[]"] exI[of _ inps]) auto
  next
    case False
    with Cons.prems(1) obtain s1 where s1: "pipeline_round cfg drain sink inp ?s = Inr s1"
      "pipeline_loop cfg drain has sink inps s1 = Inr (s', ended)" by (auto simp: bind_res_eq_Inr)
    have "one_kind (pending (pl_parallelizer ?s) @ pl_buffer ?s)"
      by (rule one_kind_mono[OF Cons.prems(5)]) (auto simp: a)
    from round_keeps[OF _ this Cons.prems(4) s1(1)] Cons.prems(2) arrive_ok[OF Cons.prems(3)] obtain data where
      data: "data @ pending (pl_parallelizer s1) @ pl_buffer s1 = pending (pl_parallelizer s) @ pl_buffer s @ ri_new inp"
      "pipeline_ok (consumed @ data) s1" "ok (pl_parallelizer s1)" unfolding a by blast
    have "data @ (pending (pl_parallelizer s1) @ pl_buffer s1 @ concat (map ri_new inps)) =
        pending (pl_parallelizer s) @ pl_buffer s @ concat (map ri_new (inp # inps))"
      using arg_cong[OF data(1), of "\<lambda>x. x @ concat (map ri_new inps)"] by simp
    then have "one_kind (pending (pl_parallelizer s1) @ pl_buffer s1 @ concat (map ri_new inps))" and
      eq: "pending (pl_parallelizer s) @ pl_buffer s @ concat (map ri_new (inp # inps)) =
        data @ (pending (pl_parallelizer s1) @ pl_buffer s1 @ concat (map ri_new inps))"
      using one_kind_mono[OF Cons.prems(5)] by (metis Un_upper2 set_append, simp)
    from Cons.IH[OF s1(2) data(3,2) Cons.prems(4) this(1)] obtain data' left where
      "data' @ pending (pl_parallelizer s') @ pl_buffer s' @ concat (map ri_new left) =
        pending (pl_parallelizer s1) @ pl_buffer s1 @ concat (map ri_new inps)"
      "pipeline_ok ((consumed @ data) @ data') s'" "ok (pl_parallelizer s')"
      "if ended then loop_ends has s' else left = []" "set left \<subseteq> set inps" by blast
    then show ?thesis unfolding eq by (intro exI[of _ "data @ data'"] exI[of _ left]) auto
  qed
qed

lemma round_total:
  assumes "ok (pl_parallelizer s)" "one_kind (pending (pl_parallelizer s) @ pl_buffer s)" "pc_lua cfg = None"
    and sink: "\<forall>c. \<exists>sz. sink c = Inr sz"
  shows "\<exists>s'. pipeline_round cfg drain sink inp s = Inr s'"
proof -
  obtain data p' q' call where
    d: "(if accumulating cfg (ri_sink_elapsed inp) s then Inr ([], pl_parallelizer s, pl_buffer s)
      else drain (pl_parallelizer s) (pl_buffer s)) = Inr (data, p', q')"
    and call: "batch_call cfg data = Inr (call, last_pos received_like None data, last_pos commit_like None data)"
    by (rule drained_batch[OF assms(1-3)])
  have "\<exists>sz. call_size sink call = Inr sz"
    using sink by (simp add: call_size_def map_res_eq_Inr split: option.splits sink_call.splits)
  then show ?thesis unfolding pipeline_round_def d by (auto simp: call)
qed

lemma loop_append:
  "pipeline_loop cfg drain has sink (xs @ ys) s =
     bind_res (pipeline_loop cfg drain has sink xs s) (\<lambda>(s', ended).
       if ended then Inr (s', True) else pipeline_loop cfg drain has sink ys s')"
proof (induction xs arbitrary: s)
  case (Cons inp xs)
  show ?case by (cases "pipeline_round cfg drain sink inp (arrive inp s)") (simp_all add: Cons.IH)
qed simp

text \<open>A round on a state where everything is as \<open>loop_ok\<close> wants it, with what it consumes.\<close>

lemma round_from:
  assumes "ok (pl_parallelizer s)" "pc_lua cfg = None" "\<forall>c. \<exists>sz. sink c = Inr sz"
    and "one_kind (pending (pl_parallelizer s) @ pl_buffer s @ concat (map ri_new (inp # inps)))"
  shows "\<exists>s1 data. pipeline_round cfg drain sink inp (arrive inp s) = Inr s1 \<and> ok (pl_parallelizer s1) \<and>
    pl_cancelled s1 = (pl_cancelled s \<or> ri_cancel inp) \<and>
    data @ pending (pl_parallelizer s1) @ pl_buffer s1 = pending (pl_parallelizer s) @ pl_buffer s @ ri_new inp \<and>
    one_kind (pending (pl_parallelizer s1) @ pl_buffer s1 @ concat (map ri_new inps)) \<and>
    (pl_cancelled s1 \<longrightarrow> pending (pl_parallelizer s) @ pl_buffer s @ ri_new inp \<noteq> [] \<longrightarrow> data \<noteq> [])"
proof -
  let ?s = "arrive inp s"
  have a: "pl_parallelizer ?s = pl_parallelizer s" "pl_buffer ?s = pl_buffer s @ ri_new inp"
    "pl_cancelled ?s = (pl_cancelled s \<or> ri_cancel inp)" by (simp_all add: arrive_def)
  have k: "one_kind (pending (pl_parallelizer ?s) @ pl_buffer ?s)"
    by (rule one_kind_mono[OF assms(4)]) (auto simp: a)
  have o: "ok (pl_parallelizer ?s)" using assms(1) by (simp add: a)
  obtain s1 where s1: "pipeline_round cfg drain sink inp ?s = Inr s1"
    using round_total[OF o k assms(2,3)] by blast
  from round_keeps[OF o k assms(2) s1] obtain data where
    data: "data @ pending (pl_parallelizer s1) @ pl_buffer s1 = pending (pl_parallelizer s) @ pl_buffer s @ ri_new inp"
    "ok (pl_parallelizer s1)" "pl_cancelled s1 = (pl_cancelled s \<or> ri_cancel inp)"
    "\<not> accumulating cfg (ri_sink_elapsed inp) ?s \<longrightarrow> pending (pl_parallelizer ?s) @ pl_buffer ?s \<noteq> [] \<longrightarrow> data \<noteq> []"
    by (auto simp: a)
  have "set (pending (pl_parallelizer s1) @ pl_buffer s1) \<subseteq> set (pending (pl_parallelizer s) @ pl_buffer s @ ri_new inp)"
    using arg_cong[OF data(1), of set] by auto
  then have "one_kind (pending (pl_parallelizer s1) @ pl_buffer s1 @ concat (map ri_new inps))"
    by (intro one_kind_mono[OF assms(4)]) auto
  moreover have "pl_cancelled s1 \<Longrightarrow> \<not> accumulating cfg (ri_sink_elapsed inp) ?s"
    by (simp add: accumulating_def data(3) a(3))
  ultimately show ?thesis using s1 data a by (intro exI[of _ s1] exI[of _ data]) simp
qed

lemma running_total:
  assumes "\<forall>inp\<in>set inps. \<not> ri_cancel inp" "\<not> pl_cancelled s" "ok (pl_parallelizer s)" "pc_lua cfg = None"
    and "\<forall>c. \<exists>sz. sink c = Inr sz" "one_kind (pending (pl_parallelizer s) @ pl_buffer s @ concat (map ri_new inps))"
  shows "\<exists>s'. pipeline_loop cfg drain has sink inps s = Inr (s', False) \<and> ok (pl_parallelizer s')"
  using assms
proof (induction inps arbitrary: s)
  case (Cons inp inps)
  from round_from[OF Cons.prems(3,4,5,6)] obtain s1 where
    s1: "pipeline_round cfg drain sink inp (arrive inp s) = Inr s1" "ok (pl_parallelizer s1)"
    "pl_cancelled s1 = (pl_cancelled s \<or> ri_cancel inp)"
    "one_kind (pending (pl_parallelizer s1) @ pl_buffer s1 @ concat (map ri_new inps))" by blast
  have go: "\<not> loop_ends has (arrive inp s)" using Cons.prems(1,2) by (simp add: loop_ends_def arrive_def)
  have "\<not> pl_cancelled s1" using s1(3) Cons.prems(1,2) by simp
  from Cons.IH[OF _ this s1(2) Cons.prems(4,5) s1(4)] Cons.prems(1) show ?case by (simp add: go s1(1))
qed simp

lemma draining_ends:
  assumes "\<forall>inp\<in>set inps. ri_new inp = []" "pl_cancelled s \<or> (inps \<noteq> [] \<and> ri_cancel (hd inps))"
    and "length (pending (pl_parallelizer s) @ pl_buffer s) < length inps"
    and "ok (pl_parallelizer s)" "pc_lua cfg = None" "\<forall>c. \<exists>sz. sink c = Inr sz"
    and "one_kind (pending (pl_parallelizer s) @ pl_buffer s)"
  shows "\<exists>s'. pipeline_loop cfg drain (\<lambda>p. pending p \<noteq> []) sink inps s = Inr (s', True)"
  using assms
proof (induction inps arbitrary: s)
  case (Cons inp inps)
  have none: "concat (map ri_new (inp # inps)) = []" "concat (map ri_new inps) = []" "ri_new inp = []"
    using Cons.prems(1) by auto
  show ?case
  proof (cases "loop_ends (\<lambda>p. pending p \<noteq> []) (arrive inp s)")
    case False
    have c: "pl_cancelled s \<or> ri_cancel inp" using Cons.prems(2) by auto
    with False have ne: "pending (pl_parallelizer s) @ pl_buffer s @ ri_new inp \<noteq> []"
      by (auto simp: loop_ends_def arrive_def)
    from Cons.prems(7) have "one_kind (pending (pl_parallelizer s) @ pl_buffer s @ concat (map ri_new (inp # inps)))"
      unfolding none by simp
    from round_from[OF Cons.prems(4,5,6) this] obtain s1 data where
      s1: "pipeline_round cfg drain sink inp (arrive inp s) = Inr s1" "ok (pl_parallelizer s1)"
      "pl_cancelled s1 = (pl_cancelled s \<or> ri_cancel inp)"
      "data @ pending (pl_parallelizer s1) @ pl_buffer s1 = pending (pl_parallelizer s) @ pl_buffer s @ ri_new inp"
      "one_kind (pending (pl_parallelizer s1) @ pl_buffer s1 @ concat (map ri_new inps))" "data \<noteq> []"
      using c ne by blast
    have "length (pending (pl_parallelizer s1) @ pl_buffer s1) < length inps"
      using arg_cong[OF s1(4), of length] s1(6) Cons.prems(3) by (simp add: none flip: length_greater_0_conv)
    from Cons.IH[OF _ _ this s1(2) Cons.prems(5,6)] Cons.prems(1) s1(3,5) c False show ?thesis
      by (simp add: none s1(1))
  qed simp
qed simp

end

lemma base_uniform:
  assumes "length (popped_data b) \<le> 1" "base_drain b q = (data, b', q')"
  shows "uniform data"
proof -
  from base_drain_popped[OF assms(2)] obtain c where
    d: "drain_loop (popped_data b) (0, 0) q = (data, c, popped_data b', q')" ..
  have "\<forall>x\<in>set (popped_data b). same_batch (hd (popped_data b)) x"
    using assms(1) by (cases "popped_data b") (auto simp: same_batch_def)
  from drain_loop_same_batch[OF d this] have "\<forall>x\<in>set data. same_batch (hd data) x" by blast
  then have "\<forall>x\<in>set data. get_row_sql_type x = get_row_sql_type (hd data)" by (simp add: same_batch_def)
  then show ?thesis by (simp add: uniform_def)
qed

interpretation base_batches: batch_source "\<lambda>b q. Inr (base_drain b q)" popped_data "\<lambda>b. length (popped_data b) \<le> 1"
proof
  fix b q data b' q'
  assume ok: "length (popped_data b) \<le> 1" and "(Inr (base_drain b q) :: (dt_item list \<times> base_parallelizer \<times> dt_item list) res) = Inr (data, b', q')"
  then have d: "base_drain b q = (data, b', q')" by simp
  from base_drain_popped[OF d] obtain c where l: "drain_loop (popped_data b) (0, 0) q = (data, c, popped_data b', q')" ..
  show "data @ popped_data b' @ q' = popped_data b @ q \<and> length (popped_data b') \<le> 1 \<and> uniform data"
    using drain_loop_keeps[OF l] base_uniform[OF ok d] by simp
  show "popped_data b @ q \<noteq> [] \<Longrightarrow> data \<noteq> []" using drain_loop_keeps[OF l] by simp
next
  show "\<exists>data b' q'. (Inr (base_drain b q) :: (dt_item list \<times> base_parallelizer \<times> dt_item list) res) = Inr (data, b', q')" for b q
    by (cases "base_drain b q") auto
qed

section \<open>Properties\<close>

lemma pipeline_new_ok: "pipeline_ok [] (pipeline_new p)"
  by (simp add: pipeline_ok_def pipeline_new_def)

lemma base_new_simps [simp]:
  "pl_parallelizer (pipeline_new p) = p" "pl_buffer (pipeline_new p) = []" "pl_cancelled (pipeline_new p) = False"
  "popped_data base_new = []"
  by (simp_all add: pipeline_new_def base_new_def)

lemma base_new_ok: "length (popped_data (pl_parallelizer (pipeline_new base_new))) \<le> 1"
  by simp

lemma start_ok:
  assumes "pipeline_start cfg (\<lambda>b q. Inr (base_drain b q)) has_pending_data sink inps (pipeline_new base_new) = Inr (s', ended)"
    and "pc_lua cfg = None" "one_kind (concat (map ri_new inps))"
  shows "\<exists>consumed rest. consumed @ popped_data (pl_parallelizer s') @ pl_buffer s' @ rest = concat (map ri_new inps) \<and>
    pipeline_ok consumed s'"
proof -
  from assms(1) obtain s where
    s: "pipeline_loop cfg (\<lambda>b q. Inr (base_drain b q)) has_pending_data sink inps (pipeline_new base_new) = Inr (s, ended)"
    "s' = (if ended then record_checkpoint cfg None s else s)"
    by (auto simp: pipeline_start_def map_res_eq_Inr)
  from assms(3) have "one_kind (popped_data (pl_parallelizer (pipeline_new base_new)) @
      pl_buffer (pipeline_new base_new) @ concat (map ri_new inps))" by simp
  from base_batches.loop_ok[OF s(1) base_new_ok pipeline_new_ok assms(2) this] obtain data and left :: "round_input list" where
    "data @ popped_data (pl_parallelizer s) @ pl_buffer s @ concat (map ri_new left) = concat (map ri_new inps)"
    "pipeline_ok data s" unfolding base_new_simps append_Nil by blast
  then show ?thesis using record_checkpoint_ok[of data s cfg None]
    by (intro exI[of _ data] exI[of _ "concat (map ri_new left)"]) (simp add: s(2))
qed

text \<open>
  C4: Checkpoints are safe. Whatever the extractors push, whenever the task is cancelled and
  whatever the clocks show, while the sinkers succeed: the data handed to the sinkers is, in order and
  exactly once, the data of the items consumed so far, which are a prefix of what arrived; every
  position the pipeline ever recorded, and the committed position the extractors see, is the
  checkpoint of a prefix of the consumed items; and so are the positions it ever logged. A task restarted at a recorded position misses nothing.
\<close>

theorem pipeline_checkpoint_safe:
  assumes "pipeline_start cfg (\<lambda>b q. Inr (base_drain b q)) has_pending_data sink inps (pipeline_new base_new) = Inr (s', ended)"
    and "pc_lua cfg = None" "one_kind (concat (map ri_new inps))"
  shows "\<exists>consumed. prefix consumed (concat (map ri_new inps)) \<and>
    concat (map call_data (pl_calls s')) = data_of consumed \<and>
    list_all (\<lambda>p. \<exists>pre. prefix pre consumed \<and> p = checkpoint_of pre) (pl_recorded s') \<and>
    list_all (\<lambda>l. \<exists>pre. prefix pre consumed \<and> l = (received_pos pre, commit_pos pre)) (pl_logged s') \<and>
    (\<exists>pre. prefix pre consumed \<and> committed_position (pl_syncer s') = commit_pos pre)"
proof -
  from start_ok[OF assms] obtain consumed rest where
    c: "consumed @ popped_data (pl_parallelizer s') @ pl_buffer s' @ rest = concat (map ri_new inps)"
    "pipeline_ok consumed s'" by blast
  from c(1) have "prefix consumed (concat (map ri_new inps))" by (metis prefixI)
  with c(2) show ?thesis unfolding pipeline_ok_def list_all_iff by blast
qed

definition sample_input :: "dt_item list \<Rightarrow> bool \<Rightarrow> round_input" where
  "sample_input items cancel = \<lparr>ri_new = items, ri_cancel = cancel, ri_sink_elapsed = 5, ri_checkpoint_elapsed = 20\<rparr>"

definition sample_config :: pipeline_config where
  "sample_config =
     \<lparr>pc_raw_dml = False, pc_checkpoint_interval_secs = 10, pc_batch_sink_interval_secs = 1,
      pc_buffer_capacity = 16, pc_recorder = True, pc_lua = None\<rparr>"

definition sample_sink :: "sink_call \<Rightarrow> data_size res" where
  "sample_sink c = Inr data_size_default"

lemma sample_stream: "one_kind sample_queue" "data_of sample_queue = [DDdl sample_ddl]" "length sample_queue = 4"
proof -
  show "one_kind sample_queue" unfolding one_kind_def
    by (rule bexI[of _ "\<lambda>d. \<exists>x. d = DDml x"])
      (simp_all add: sample_queue_def sample_item_def is_marker_def is_ddl_def)
qed (simp_all add: sample_queue_def sample_item_def is_marker_def)

lemma drained_run:
  assumes "\<forall>inp\<in>set running. \<not> ri_cancel inp"
    and "\<forall>inp\<in>set draining. ri_new inp = []" "draining \<noteq> []" "ri_cancel (hd draining)"
    and "length (concat (map ri_new running)) < length draining"
    and "one_kind (concat (map ri_new running))" "pc_lua cfg = None" "\<forall>c. \<exists>sz. sink c = Inr sz"
  shows "\<exists>s'. pipeline_start cfg (\<lambda>b q. Inr (base_drain b q)) has_pending_data sink (running @ draining)
      (pipeline_new base_new) = Inr (s', True) \<and>
    concat (map call_data (pl_calls s')) = data_of (concat (map ri_new running)) \<and>
    pl_buffer s' = [] \<and> popped_data (pl_parallelizer s') = [] \<and>
    (pc_recorder cfg \<longrightarrow> pl_recorded s' \<noteq> [] \<and> last (pl_recorded s') = checkpoint_of (concat (map ri_new running)))"
proof -
  let ?loop = "pipeline_loop cfg (\<lambda>b q. Inr (base_drain b q)) has_pending_data sink"
  have has: "has_pending_data = (\<lambda>b. popped_data b \<noteq> [])" by (simp add: has_pending_data_def fun_eq_iff)
  have none: "concat (map ri_new draining) = []" using assms(2) by simp
  obtain s where s: "?loop running (pipeline_new base_new) = Inr (s, False)" "length (popped_data (pl_parallelizer s)) \<le> 1"
    using base_batches.running_total[OF assms(1) _ _ assms(7,8), of "pipeline_new base_new"] assms(6) by auto
  from base_batches.loop_ok[OF s(1) _ pipeline_new_ok assms(7)] assms(6) obtain data where
    d: "data @ popped_data (pl_parallelizer s) @ pl_buffer s = concat (map ri_new running)" "pipeline_ok data s" by auto
  have sub: "set (popped_data (pl_parallelizer s) @ pl_buffer s) \<subseteq> set (concat (map ri_new running))"
    unfolding d(1)[symmetric] by auto
  note kind = one_kind_mono[OF assms(6) sub]
  have len: "length (popped_data (pl_parallelizer s) @ pl_buffer s) < length draining"
    using assms(5) unfolding d(1)[symmetric] by simp
  have start: "pl_cancelled s \<or> draining \<noteq> [] \<and> ri_cancel (hd draining)" using assms(3,4) by simp
  from base_batches.draining_ends[OF assms(2) start len s(2) assms(7,8) kind]
  obtain s1 where s1: "?loop draining s = Inr (s1, True)" unfolding has by blast
  from base_batches.loop_ok[OF s1 s(2) d(2) assms(7)] kind obtain data' left where
    c: "data' @ popped_data (pl_parallelizer s1) @ pl_buffer s1 @ concat (map ri_new left) =
      popped_data (pl_parallelizer s) @ pl_buffer s" "pipeline_ok (data @ data') s1" "loop_ends has_pending_data s1"
    "set left \<subseteq> set draining" by (auto simp: none)
  have "concat (map ri_new left) = []" using c(4) assms(2) by auto
  with c have e: "popped_data (pl_parallelizer s1) = []" "pl_buffer s1 = []"
    "data' = popped_data (pl_parallelizer s) @ pl_buffer s" by (auto simp: loop_ends_def has_pending_data_def)
  with c(2) d(1) have ok: "pipeline_ok (concat (map ri_new running)) s1" by simp
  have "pipeline_start cfg (\<lambda>b q. Inr (base_drain b q)) has_pending_data sink (running @ draining)
      (pipeline_new base_new) = Inr (record_checkpoint cfg None s1, True)"
    unfolding pipeline_start_def base_batches.loop_append s(1) by (simp add: s1 map_res_eq_Inr)
  then show ?thesis using e record_checkpoint_ok[OF ok, of cfg None] record_checkpoint_last[OF ok]
    by (intro exI[of _ "record_checkpoint cfg None s1"]) (simp add: pipeline_ok_def)
qed

text \<open>
  C12: A cancelled task drains. Items arrive over any number of rounds, then the task is
  cancelled and nothing more arrives: if no sinker fails, the loop ends after at most one round per
  item and one more, everything that arrived was handed to the sinkers in order and exactly once,
  nothing is left in the queue or held back by the parallelizer, and with a recorder the last
  position recorded is the checkpoint of the whole stream.
\<close>

theorem pipeline_shutdown_drains:
  assumes "\<forall>inp\<in>set running. \<not> ri_cancel inp"
    and "\<forall>inp\<in>set draining. ri_new inp = []" "draining \<noteq> []" "ri_cancel (hd draining)"
    and "length (concat (map ri_new running)) < length draining"
    and "one_kind (concat (map ri_new running))" "pc_lua cfg = None" "\<forall>c. \<exists>sz. sink c = Inr sz"
  shows "\<exists>s'. pipeline_start cfg (\<lambda>b q. Inr (base_drain b q)) has_pending_data sink (running @ draining)
      (pipeline_new base_new) = Inr (s', True) \<and>
    concat (map call_data (pl_calls s')) = data_of (concat (map ri_new running)) \<and>
    pl_buffer s' = [] \<and> popped_data (pl_parallelizer s') = [] \<and>
    (pc_recorder cfg \<longrightarrow> last (pl_recorded s') = checkpoint_of (concat (map ri_new running)))"
  using drained_run[OF assms] by blast

theorem pipeline_checkpoint_safe_witness:
  "\<exists>s' consumed. pipeline_start sample_config (\<lambda>b q. Inr (base_drain b q)) has_pending_data sample_sink
      [sample_input sample_queue False, sample_input [] False] (pipeline_new base_new) = Inr (s', False) \<and>
    prefix consumed sample_queue \<and> concat (map call_data (pl_calls s')) = data_of consumed \<and>
    list_all (\<lambda>p. \<exists>pre. prefix pre consumed \<and> p = checkpoint_of pre) (pl_recorded s')"
proof -
  let ?inps = "[sample_input sample_queue False, sample_input [] False]"
  have inps: "concat (map ri_new ?inps) = sample_queue" by (simp add: sample_input_def)
  have lua: "pc_lua sample_config = None" by (simp add: sample_config_def)
  have "one_kind (popped_data (pl_parallelizer (pipeline_new base_new)) @
      pl_buffer (pipeline_new base_new) @ concat (map ri_new ?inps))" unfolding inps using sample_stream(1) by simp
  from base_batches.running_total[OF _ _ _ lua _ this, of sample_sink has_pending_data] obtain s' where
    s': "pipeline_start sample_config (\<lambda>b q. Inr (base_drain b q)) has_pending_data sample_sink
      ?inps (pipeline_new base_new) = Inr (s', False)"
    unfolding pipeline_start_def by (auto simp: sample_input_def sample_sink_def map_res_eq_Inr)
  show ?thesis using pipeline_checkpoint_safe[OF s' lua, unfolded inps, OF sample_stream(1)] s' by blast
qed

theorem pipeline_shutdown_drains_witness:
  "\<exists>s'. pipeline_start sample_config (\<lambda>b q. Inr (base_drain b q)) has_pending_data sample_sink
      ([sample_input sample_queue False] @ sample_input [] True # replicate 4 (sample_input [] False))
      (pipeline_new base_new) = Inr (s', True) \<and>
    concat (map call_data (pl_calls s')) = [DDdl sample_ddl]"
proof -
  let ?running = "[sample_input sample_queue False]"
  let ?draining = "sample_input [] True # replicate 4 (sample_input [] False)"
  have arrived: "concat (map ri_new ?running) = sample_queue" by (simp add: sample_input_def)
  have h: "\<forall>inp\<in>set ?running. \<not> ri_cancel inp" "\<forall>inp\<in>set ?draining. ri_new inp = []" "?draining \<noteq> []"
    "ri_cancel (hd ?draining)" "length sample_queue < length ?draining"
    "pc_lua sample_config = None" "\<forall>c. \<exists>sz. sample_sink c = Inr sz"
    using sample_stream(3) by (simp_all add: sample_input_def sample_config_def sample_sink_def)
  from pipeline_shutdown_drains[OF h(1-4), unfolded arrived, OF h(5) sample_stream(1) h(6,7)]
  show ?thesis unfolding sample_stream(2) by blast
qed

end
