(* ===== verification/Config_Token_Parser.thy ===== *)
theory Config_Token_Parser
  imports Sql_Util
begin

text \<open>
  \<open>dt-common/src/config/config_token_parser.rs\<close>: splitting a configuration value such as
  \<open>`db.1`.tb_1,db_2.*\<close> into tokens. The code works on the characters of the value; every
  character it compares with is ASCII, so the model works on the bytes of the UTF-8 encoding and
  the indices are byte offsets.
\<close>

section \<open>Escapes\<close>

datatype token_escape_pair = EscChar "char \<times> char" | EscString "string \<times> string"

definition from_char_pairs :: "(char \<times> char) list \<Rightarrow> token_escape_pair list" where
  "from_char_pairs char_pairs = map EscChar char_pairs"

definition match_escape_side :: "token_escape_pair \<Rightarrow> string \<Rightarrow> nat \<Rightarrow> bool \<Rightarrow> bool" where
  "match_escape_side p chars start_index is_left =
     (case p of
        EscChar (escape_left, escape_right) \<Rightarrow>
          (let escape = (if is_left then escape_left else escape_right)
           in \<not> start_index \<ge> length chars \<and> \<not> chars ! start_index \<noteq> escape)
      | EscString (escape_left, escape_right) \<Rightarrow>
          (let escape = (if is_left then escape_left else escape_right)
           in \<not> start_index + length escape > length chars \<and>
              list_all (\<lambda>i. \<not> chars ! (start_index + i) \<noteq> escape ! i) [0..<length escape]))"

definition match_escape_left :: "token_escape_pair \<Rightarrow> string \<Rightarrow> nat \<Rightarrow> bool" where
  "match_escape_left p chars start_index = match_escape_side p chars start_index True"

definition match_escape_right :: "token_escape_pair \<Rightarrow> string \<Rightarrow> nat \<Rightarrow> bool" where
  "match_escape_right p chars start_index = match_escape_side p chars start_index False"

section \<open>Reading a token\<close>

text \<open>The loops over \<open>chars.iter().skip(start_index)\<close>; the results are the token and \<open>read_count\<close>.\<close>

fun to_delimiter_loop :: "string \<Rightarrow> string \<Rightarrow> string \<times> nat" where
  "to_delimiter_loop delimiters [] = ([], 0)" |
  "to_delimiter_loop delimiters (c # cs) =
     (if c \<in> set delimiters then ([], 0)
      else (case to_delimiter_loop delimiters cs of (token, read_count) \<Rightarrow> (c # token, Suc read_count)))"

definition read_token_to_delimiter :: "string \<Rightarrow> nat \<Rightarrow> string \<Rightarrow> string \<times> nat" where
  "read_token_to_delimiter chars start_index delimiters =
     (case to_delimiter_loop delimiters (drop start_index chars) of
        (token, read_count) \<Rightarrow> (token, start_index + read_count))"

fun char_escape_loop :: "char \<Rightarrow> char \<Rightarrow> bool \<Rightarrow> string \<Rightarrow> string \<times> nat" where
  "char_escape_loop escape_left escape_right start [] = ([], 0)" |
  "char_escape_loop escape_left escape_right start (c # cs) =
     (if start \<and> c = escape_right then ([c], 1)
      else
        (let start' = (start \<or> c = escape_left)
         in case char_escape_loop escape_left escape_right start' cs of (token, read_count) \<Rightarrow>
              if start' then (c # token, Suc read_count) else (token, read_count)))"

fun string_escape_loop ::
  "token_escape_pair \<Rightarrow> string \<Rightarrow> nat \<Rightarrow> nat \<Rightarrow> nat \<Rightarrow> string \<Rightarrow> string \<times> nat" where
  "string_escape_loop p chars start_index prefix_len read_count [] = ([], read_count)" |
  "string_escape_loop p chars start_index prefix_len read_count (c # cs) =
     (if Suc read_count > prefix_len \<and> match_escape_right p chars (start_index + Suc read_count - 1)
      then ([c], Suc read_count)
      else (case string_escape_loop p chars start_index prefix_len (Suc read_count) cs of
              (token, n) \<Rightarrow> (c # token, n)))"

definition read_token_with_escape :: "string \<Rightarrow> nat \<Rightarrow> token_escape_pair \<Rightarrow> string \<times> nat" where
  "read_token_with_escape chars start_index p =
     (case (case p of
              EscChar (escape_left, escape_right) \<Rightarrow>
                char_escape_loop escape_left escape_right False (drop start_index chars)
            | EscString (escape_left, _) \<Rightarrow>
                string_escape_loop p chars start_index (length escape_left) 0 (drop start_index chars)) of
        (token, read_count) \<Rightarrow> (token, start_index + read_count))"

definition read_token :: "string \<Rightarrow> nat \<Rightarrow> string \<Rightarrow> token_escape_pair list \<Rightarrow> string \<times> nat" where
  "read_token chars start_index delimiters escape_pairs =
     (case find (\<lambda>e. match_escape_left e chars start_index) escape_pairs of
        Some e \<Rightarrow> read_token_with_escape chars start_index e
      | None \<Rightarrow> read_token_to_delimiter chars start_index delimiters)"

lemma read_token_forward: "start_index \<le> snd (read_token chars start_index delimiters escape_pairs)"
  by (simp add: read_token_def read_token_with_escape_def read_token_to_delimiter_def
      split: option.splits prod.splits token_escape_pair.splits)

section \<open>Parsing\<close>

text \<open>The \<open>loop\<close> of \<open>parse\<close>: every turn starts after the delimiter that ended the token before.\<close>

function parse_from :: "string \<Rightarrow> nat \<Rightarrow> string \<Rightarrow> token_escape_pair list \<Rightarrow> string list" where
  "parse_from chars start_index delimiters escape_pairs =
     (let (token, next_index) = read_token chars start_index delimiters escape_pairs
      in trim token #
         (if next_index \<ge> length chars then []
          else parse_from chars (next_index + 1) delimiters escape_pairs))"
  by pat_completeness auto
termination
proof (relation "measure (\<lambda>(chars, start_index, _). length chars - start_index)", goal_cases)
  case (2 chars start_index delimiters escape_pairs x token next_index)
  then have "start_index \<le> next_index"
    using read_token_forward[of start_index chars delimiters escape_pairs] by (metis snd_conv)
  with 2 show ?case by simp
qed simp

declare parse_from.simps [simp del]

definition parse :: "string \<Rightarrow> string \<Rightarrow> token_escape_pair list \<Rightarrow> string list" where
  "parse config delimiters escape_pairs =
     (if config = [] then [] else parse_from config 0 delimiters escape_pairs)"

definition parse_config ::
  "string \<Rightarrow> db_type \<Rightarrow> string \<Rightarrow> token_escape_pair list option \<Rightarrow> string list res" where
  "parse_config config_str db_type delimiters custom_escape_pairs =
     (if config_str = [] then Inr []
      else
        (let escape_pairs = get_escape_pairs db_type;
             token_escape_pairs = from_char_pairs escape_pairs @
               (case custom_escape_pairs of Some pairs \<Rightarrow> pairs | None \<Rightarrow> []);
             tokens = parse config_str delimiters token_escape_pairs
         in case find (\<lambda>token. \<not> is_valid_token token db_type escape_pairs) tokens of
              Some token \<Rightarrow> Inl (Bail (''config error near: '' @ token @
                '', try enclose database/table/column with escapes if there are special characters other than letters and numbers''))
            | None \<Rightarrow> Inr tokens))"

section \<open>Options that are JSON documents\<close>

definition JSON_PREFIX :: string where "JSON_PREFIX = ''json:''"

text \<open>\<open>str::trim_start_matches\<close> with a string strips the prefix as often as it occurs.\<close>

function trim_start_string :: "string \<Rightarrow> string \<Rightarrow> string" where
  "trim_start_string p s =
     (if p \<noteq> [] \<and> starts_with s p then trim_start_string p (drop (length p) s) else s)"
  by pat_completeness auto
termination
proof (relation "measure (\<lambda>(p, s). length s)", goal_cases)
  case (2 p s)
  then show ?case by (cases s) (auto simp: starts_with_def)
qed simp

declare trim_start_string.simps [simp del]

definition parse_json_options ::
  "(string \<Rightarrow> ((string \<times> string) \<times> 'v) list res) \<Rightarrow> string \<Rightarrow> (string \<times> string, 'v) hash_map res" where
  "parse_json_options from_str config_str =
     (if trim config_str = [] then Inr []
      else map_res (foldl (\<lambda>results i. AList.update (fst i) (snd i) results) [])
             (from_str (trim_start_string JSON_PREFIX config_str)))"

section \<open>Printing and parsing\<close>

definition esc_left :: "token_escape_pair \<Rightarrow> string" where
  "esc_left p = (case p of EscChar (l, _) \<Rightarrow> [l] | EscString (l, _) \<Rightarrow> l)"

definition esc_right :: "token_escape_pair \<Rightarrow> string" where
  "esc_right p = (case p of EscChar (_, r) \<Rightarrow> [r] | EscString (_, r) \<Rightarrow> r)"

text \<open>
  A token that can be written into a configuration value: quoted by the first escape that opens
  it and closed by one character that does not occur before, or plain.
\<close>

definition quoted_token :: "token_escape_pair list \<Rightarrow> string \<Rightarrow> bool" where
  "quoted_token ps t \<longleftrightarrow>
     (case find (\<lambda>p. prefix (esc_left p) t) ps of
        Some p \<Rightarrow> \<exists>inner r. t = esc_left p @ inner @ [r] \<and> esc_right p = [r] \<and> r \<notin> set inner
      | None \<Rightarrow> False)"

definition plain_token :: "string \<Rightarrow> token_escape_pair list \<Rightarrow> string \<Rightarrow> bool" where
  "plain_token delimiters ps t \<longleftrightarrow>
     find (\<lambda>p. prefix (esc_left p) t) ps = None \<and> set t \<inter> set delimiters = {}"

definition good_token :: "string \<Rightarrow> token_escape_pair list \<Rightarrow> string \<Rightarrow> bool" where
  "good_token delimiters ps t \<longleftrightarrow> trim t = t \<and> (quoted_token ps t \<or> plain_token delimiters ps t)"

text \<open>A value: tokens, each followed by a delimiter, and a last token.\<close>

definition print_tokens :: "(string \<times> char) list \<Rightarrow> string \<Rightarrow> string" where
  "print_tokens ts t = concat (map (\<lambda>(x, d). x @ [d]) ts) @ t"

lemma prefix_drop_nth:
  "prefix e (drop k cs :: string) \<longleftrightarrow> k + length e \<le> length cs \<and> list_all (\<lambda>i. cs ! (k + i) = e ! i) [0..<length e]"
  if "k \<le> length cs"
proof (cases "k + length e \<le> length cs")
  case True
  have "prefix e (drop k cs) \<longleftrightarrow> take (length e) (drop k cs) = e"
    by (simp add: starts_with_prefix[symmetric] starts_with_def)
  also have "\<dots> \<longleftrightarrow> (\<forall>i<length e. cs ! (k + i) = e ! i)"
    unfolding list_eq_iff_nth_eq using True by simp
  finally show ?thesis using True by (auto simp: list_all_iff)
next
  case False
  then show ?thesis using that by (auto dest: prefix_length_le)
qed

lemma match_side:
  "match_escape_side p chars k left \<longleftrightarrow>
     k + length (if left then esc_left p else esc_right p) \<le> length chars \<and>
     list_all (\<lambda>i. chars ! (k + i) = (if left then esc_left p else esc_right p) ! i)
       [0..<length (if left then esc_left p else esc_right p)]"
  by (cases left) (auto simp: match_escape_side_def esc_left_def esc_right_def split: token_escape_pair.splits)

lemma match_escape_prefix:
  assumes "k \<le> length chars"
  shows "match_escape_left p chars k \<longleftrightarrow> prefix (esc_left p) (drop k chars)"
    "match_escape_right p chars k \<longleftrightarrow> prefix (esc_right p) (drop k chars)"
  by (simp_all add: match_escape_left_def match_escape_right_def match_side prefix_drop_nth[OF assms])

lemma to_delimiter_spec:
  "set t \<inter> set ds = {} \<Longrightarrow> u = [] \<or> hd u \<in> set ds \<Longrightarrow> to_delimiter_loop ds (t @ u) = (t, length t)"
  by (induction t) (cases u, auto)

lemma char_escape_spec:
  "r \<notin> set inner \<Longrightarrow> char_escape_loop l r True (inner @ r # u) = (inner @ [r], Suc (length inner))"
  by (induction inner) auto

lemma string_escape_spec:
  assumes "esc_right p = [r]" "r \<notin> set inner"
  shows "chars = pre @ done @ inner @ r # u \<Longrightarrow> length done \<ge> m \<Longrightarrow>
    string_escape_loop p chars (length pre) m (length done) (inner @ r # u) = (inner @ [r], length done + Suc (length inner))"
  using assms(2)
proof (induction inner arbitrary: "done")
  case Nil
  then have "match_escape_right p chars (length pre + length done)"
    by (subst match_escape_prefix) (simp_all add: assms(1))
  with Nil show ?case by simp
next
  case (Cons c inner)
  then have "\<not> match_escape_right p chars (length pre + length done)"
    by (subst match_escape_prefix) (simp_all add: assms(1))
  with Cons.IH[of "done @ [c]"] Cons.prems show ?case by simp
qed

lemma string_escape_skip:
  assumes "n + length left = m" "string_escape_loop p chars k m m s = (t, e)"
  shows "string_escape_loop p chars k m n (left @ s) = (left @ t, e)"
  using assms by (induction left arbitrary: n) auto

text \<open>What follows a token is a delimiter, which no escape has.\<close>

definition escapes_ok :: "string \<Rightarrow> token_escape_pair list \<Rightarrow> bool" where
  "escapes_ok ds ps \<longleftrightarrow> list_all (\<lambda>p. set (esc_left p) \<inter> set ds = {}) ps"

definition ends_token :: "string \<Rightarrow> string \<Rightarrow> bool" where
  "ends_token ds u \<longleftrightarrow> u = [] \<or> hd u \<in> set ds"

lemma prefix_before_delimiter:
  assumes "set e \<inter> set ds = {}" "ends_token ds u"
  shows "prefix e (t @ u) \<longleftrightarrow> prefix e t"
proof
  assume "prefix e (t @ u)"
  then consider "prefix e t" | u' where "e = t @ u'" "prefix u' u" by (auto simp: prefix_append)
  then show "prefix e t"
  proof cases
    case 2
    then have "u' = []" using assms by (cases u'; cases u) (auto simp: ends_token_def)
    with 2 show ?thesis by simp
  qed
qed simp

lemma find_escape:
  assumes "escapes_ok ds ps" "ends_token ds u"
  shows "find (\<lambda>e. match_escape_left e (pre @ t @ u) (length pre)) ps = find (\<lambda>p. prefix (esc_left p) t) ps"
proof (rule find_cong[OF refl])
  fix p assume "p \<in> set ps"
  with assms(1) have "set (esc_left p) \<inter> set ds = {}" by (simp add: escapes_ok_def list_all_iff)
  from prefix_before_delimiter[OF this assms(2), of t]
  show "match_escape_left p (pre @ t @ u) (length pre) = prefix (esc_left p) t"
    by (simp add: match_escape_prefix)
qed

lemma read_escaped:
  assumes "esc_right p = [r]" "r \<notin> set inner"
  shows "read_token_with_escape (pre @ (esc_left p @ inner @ [r]) @ u) (length pre) p =
    (esc_left p @ inner @ [r], length pre + length (esc_left p @ inner @ [r]))"
proof (cases p)
  case (EscChar lr)
  with assms show ?thesis
    by (cases lr) (simp add: read_token_with_escape_def esc_left_def esc_right_def char_escape_spec)
next
  case (EscString lr)
  obtain l r' where lr: "lr = (l, r')" by (cases lr)
  let ?chars = "pre @ l @ inner @ r # u"
  have "string_escape_loop p ?chars (length pre) (length l) (length l) (inner @ r # u) =
      (inner @ [r], length l + Suc (length inner))"
    by (rule string_escape_spec[OF assms]) simp_all
  from string_escape_skip[OF _ this, of 0 l] show ?thesis
    by (simp add: read_token_with_escape_def EscString lr esc_left_def)
qed

lemma read_good_token:
  assumes "escapes_ok ds ps" "ends_token ds u" "good_token ds ps t"
  shows "read_token (pre @ t @ u) (length pre) ds ps = (t, length pre + length t)"
proof (cases "quoted_token ps t")
  case True
  then obtain p inner r where
    p: "find (\<lambda>p. prefix (esc_left p) t) ps = Some p" "t = esc_left p @ inner @ [r]" "esc_right p = [r]" "r \<notin> set inner"
    by (auto simp: quoted_token_def split: option.splits)
  show ?thesis unfolding read_token_def find_escape[OF assms(1,2)] p(1) option.case
    by (rule read_escaped[OF p(3,4), folded p(2)])
next
  case False
  with assms(3) have "plain_token ds ps t" by (simp add: good_token_def)
  then show ?thesis using to_delimiter_spec[of t ds u] assms(2)
    by (simp add: read_token_def find_escape[OF assms(1,2)] plain_token_def read_token_to_delimiter_def ends_token_def)
qed

lemma parse_from_print:
  assumes "escapes_ok ds ps" "list_all (\<lambda>(t, d). good_token ds ps t \<and> d \<in> set ds) ts" "good_token ds ps t"
  shows "parse_from (pre @ print_tokens ts t) (length pre) ds ps = map fst ts @ [t]"
  using assms(2)
proof (induction ts arbitrary: pre)
  case Nil
  show ?case using read_good_token[OF assms(1) _ assms(3), of "[]" pre] assms(3)
    by (subst parse_from.simps) (simp add: print_tokens_def ends_token_def good_token_def)
next
  case (Cons xd ts)
  obtain x d where xd: "xd = (x, d)" by (cases xd)
  have x: "good_token ds ps x" "d \<in> set ds" using Cons.prems by (simp_all add: xd)
  have chars: "pre @ print_tokens (xd # ts) t = pre @ x @ d # print_tokens ts t"
    by (simp add: print_tokens_def xd)
  have "read_token (pre @ x @ d # print_tokens ts t) (length pre) ds ps = (x, length pre + length x)"
    by (rule read_good_token[OF assms(1) _ x(1)]) (simp add: ends_token_def x(2))
  then show ?case unfolding chars using Cons.IH[of "pre @ x @ [d]"] Cons.prems x(1)
    by (subst parse_from.simps) (simp add: xd good_token_def)
qed

text \<open>
  C31: Writing tokens into a configuration value and parsing it gives the tokens back: tokens
  quoted by an escape pair may hold delimiters and blanks, plain tokens hold no delimiter, and every
  delimiter of the list may separate them. In particular nothing is lost, split or joined.
\<close>

theorem parse_print_tokens:
  assumes "list_all (\<lambda>p. set (esc_left p) \<inter> set ds = {}) ps"
    and "list_all (\<lambda>(t, d). good_token ds ps t \<and> d \<in> set ds) ts" "good_token ds ps t" "print_tokens ts t \<noteq> []"
  shows "parse (print_tokens ts t) ds ps = map fst ts @ [t]"
  using parse_from_print[of ds ps ts t "[]"] assms by (simp add: parse_def escapes_ok_def)

definition sample_escapes :: "token_escape_pair list" where
  "sample_escapes = [EscChar (CHR 0x60, CHR 0x60), EscString (''r#'', ''#'')]"

definition sample_tokens :: "(string \<times> char) list" where
  "sample_tokens = [(''`db.1`'', CHR ''.''), (''r#t.*#'', CHR '',''), (''db_2'', CHR ''.'')]"

lemma sample_trim:
  "trim ''`db.1`'' = ''`db.1`''" "trim ''r#t.*#'' = ''r#t.*#''" "trim ''db_2'' = ''db_2''" "trim ''*'' = ''*''"
  by (simp_all add: trim_solid solid_def)

lemma sample_good:
  "good_token '',.'' sample_escapes ''`db.1`''" "good_token '',.'' sample_escapes ''r#t.*#''"
  "good_token '',.'' sample_escapes ''db_2''" "good_token '',.'' sample_escapes ''*''"
proof -
  have "quoted_token sample_escapes ''`db.1`''"
    by (simp add: quoted_token_def sample_escapes_def esc_left_def esc_right_def)
  then show "good_token '',.'' sample_escapes ''`db.1`''" by (simp add: good_token_def sample_trim)
  have "quoted_token sample_escapes ''r#t.*#''"
    by (simp add: quoted_token_def sample_escapes_def esc_left_def esc_right_def)
  then show "good_token '',.'' sample_escapes ''r#t.*#''" by (simp add: good_token_def sample_trim)
qed (simp_all add: good_token_def sample_trim plain_token_def sample_escapes_def esc_left_def)

theorem parse_print_tokens_witness:
  "parse ''`db.1`.r#t.*#,db_2.*'' '',.'' sample_escapes = [''`db.1`'', ''r#t.*#'', ''db_2'', ''*'']"
  using parse_print_tokens[of "'',.''" sample_escapes sample_tokens "''*''"] sample_good
  by (simp add: sample_tokens_def print_tokens_def sample_escapes_def esc_left_def)

section \<open>After a quoted token\<close>

lemma match_side_shift: "match_escape_side p (pre @ s) (length pre + k) left = match_escape_side p s k left"
  by (simp add: match_side nth_append_length_plus add.assoc)

lemma string_escape_shift:
  "string_escape_loop p (pre @ s) (length pre + k) m n cs = string_escape_loop p s k m n cs"
  by (induction cs arbitrary: n) (simp_all add: match_escape_right_def match_side_shift add.assoc flip: add_Suc_right)

lemma read_token_shift:
  "read_token (pre @ s) (length pre + k) ds ps = map_prod id ((+) (length pre)) (read_token s k ds ps)"
  by (simp add: read_token_def match_escape_left_def match_side_shift read_token_with_escape_def
      read_token_to_delimiter_def string_escape_shift add.assoc split: option.splits prod.splits token_escape_pair.splits)

lemma parse_from_shift: "parse_from (pre @ s) (length pre + k) ds ps = parse_from s k ds ps"
proof (induction s k ds ps rule: parse_from.induct)
  case (1 s k ds ps)
  obtain t n where t: "read_token s k ds ps = (t, n)" by (cases "read_token s k ds ps")
  show ?case using 1[OF t[symmetric] refl]
    by (subst (1 2) parse_from.simps) (simp add: t read_token_shift add.assoc)
qed

text \<open>
  The character after a quoted token is skipped unread, as if it were the delimiter: any
  character in its place gives the same tokens. So a letter there is lost, and a blank before the
  comma makes the comma end an empty token.
\<close>

theorem parse_ignores_after_quote:
  assumes "r \<notin> set inner"
  shows "parse (l # inner @ r # c # rest) ds [EscChar (l, r)] =
    trim (l # inner @ [r]) # parse_from rest 0 ds [EscChar (l, r)]"
proof -
  let ?t = "l # inner @ [r]"
  have "read_token (?t @ c # rest) 0 ds [EscChar (l, r)] = (?t, length ?t)"
    using char_escape_spec[OF assms, of l "c # rest"]
    by (simp add: read_token_def match_escape_left_def match_escape_side_def read_token_with_escape_def)
  moreover have "parse_from (?t @ c # rest) (Suc (length ?t)) ds [EscChar (l, r)] = parse_from rest 0 ds [EscChar (l, r)]"
    using parse_from_shift[of "?t @ [c]" rest 0] by simp
  ultimately show ?thesis unfolding parse_def by (subst parse_from.simps) simp
qed

theorem parse_ignores_after_quote_witness:
  "parse ''`a`x,b'' '',.'' [EscChar (CHR 0x60, CHR 0x60)] =
     trim ''`a`'' # parse_from '',b'' 0 '',.'' [EscChar (CHR 0x60, CHR 0x60)]"
  using parse_ignores_after_quote[of "CHR 0x60" "''a''" "CHR 0x60" "CHR ''x''" "'',b''" "'',.''"] by simp

end
