(* ===== verification/Rdb_Filter.thy ===== *)
theory Rdb_Filter
  imports Config_Token_Parser Dt_Data
begin

text \<open>
  \<open>dt-common/src/rdb_filter.rs\<close> and \<open>dt-common/src/config/filter_config.rs\<close>: which schemas,
  tables, events and statements a task replicates.

  Hash sets are lists without duplicates, in the order of their iteration. The regular expression
  library is an argument: \<open>rx pattern\<close> is \<open>None\<close> when \<open>Regex::new\<close> fails, else the function
  \<open>is_match\<close>. So is the JSON parser of the two options that are JSON documents. The \<open>DashMap\<close> of
  \<open>filter_tb\<close> is part of the state.
\<close>

section \<open>State\<close>

type_synonym regex_lib = "string \<Rightarrow> (string \<Rightarrow> bool) option"

record filter_config =
  fc_do_schemas :: string
  fc_ignore_schemas :: string
  fc_do_tbs :: string
  fc_ignore_tbs :: string
  fc_ignore_cols :: string
  fc_do_events :: string
  fc_do_structures :: string
  fc_do_ddls :: string
  fc_do_dcls :: string
  fc_ignore_cmds :: string
  fc_where_conditions :: string

record rdb_filter =
  rf_db_type :: db_type
  rf_do_schemas :: "string list"
  rf_ignore_schemas :: "string list"
  rf_do_tbs :: "(string \<times> string) list"
  rf_ignore_tbs :: "(string \<times> string) list"
  rf_ignore_cols :: "(string \<times> string, string list) hash_map"
  rf_do_events :: "string list"
  rf_do_structures :: "string list"
  rf_do_ddls :: "string list"
  rf_do_dcls :: "string list"
  rf_ignore_cmds :: "string list"
  rf_where_conditions :: "(string \<times> string, string) hash_map"
  rf_cache :: "(string \<times> string, bool) hash_map"

definition REGEX_ESCAPE_PAIR :: "string \<times> string" where "REGEX_ESCAPE_PAIR = (''r#'', ''#'')"

section \<open>Parsing the options\<close>

definition filter_parse_config :: "string \<Rightarrow> db_type \<Rightarrow> string list res" where
  "filter_parse_config config_str db_type =
     parse_config config_str db_type '',.'' (Some [EscString REGEX_ESCAPE_PAIR])"

definition parse_single_tokens :: "string \<Rightarrow> db_type \<Rightarrow> string list res" where
  "parse_single_tokens config_str db_type = map_res remdups (filter_parse_config config_str db_type)"

fun pair_tokens :: "string list \<Rightarrow> (string \<times> string) list" where
  "pair_tokens (a # b # tokens) = (a, b) # pair_tokens tokens" |
  "pair_tokens _ = []"

definition parse_pair_tokens :: "string \<Rightarrow> db_type \<Rightarrow> (string \<times> string) list res" where
  "parse_pair_tokens config_str db_type =
     bind_res (filter_parse_config config_str db_type) (\<lambda>tokens.
       if length tokens mod 2 \<noteq> 0 then
         Inl (Bail (''invalid db.tb filter '' @ [CHR 0x27] @ config_str @ [CHR 0x27] @
           '': expected pairs of db.tb (got '' @ nat_to_string (length tokens) @
           '' token(s)); every entry must use the form '' @ [CHR 0x27] @ ''db.tb'' @ [CHR 0x27] @ '' (e.g. '' @
           [CHR 0x27] @ ''mydb.mytbl'' @ [CHR 0x27] @ '' or '' @ [CHR 0x27] @ ''*.*'' @ [CHR 0x27] @ '')''))
       else Inr (remdups (pair_tokens tokens)))"

definition filter_from_config ::
  "(string \<Rightarrow> ((string \<times> string) \<times> string list) list res) \<Rightarrow> (string \<Rightarrow> ((string \<times> string) \<times> string) list res) \<Rightarrow>
   filter_config \<Rightarrow> db_type \<Rightarrow> rdb_filter res" where
  "filter_from_config cols_from_str conds_from_str config db_type =
     bind_res (parse_single_tokens (fc_do_schemas config) db_type) (\<lambda>do_schemas.
     bind_res (parse_single_tokens (fc_ignore_schemas config) db_type) (\<lambda>ignore_schemas.
     bind_res (parse_pair_tokens (fc_do_tbs config) db_type) (\<lambda>do_tbs.
     bind_res (parse_pair_tokens (fc_ignore_tbs config) db_type) (\<lambda>ignore_tbs.
     bind_res (parse_json_options cols_from_str (fc_ignore_cols config)) (\<lambda>ignore_cols.
     bind_res (parse_single_tokens (fc_do_events config) db_type) (\<lambda>do_events.
     bind_res (parse_single_tokens (fc_do_structures config) db_type) (\<lambda>do_structures.
     bind_res (parse_single_tokens (fc_do_ddls config) db_type) (\<lambda>do_ddls.
     bind_res (parse_single_tokens (fc_do_dcls config) db_type) (\<lambda>do_dcls.
     bind_res (parse_single_tokens (fc_ignore_cmds config) db_type) (\<lambda>ignore_cmds.
     bind_res (parse_json_options conds_from_str (fc_where_conditions config)) (\<lambda>where_conditions.
       Inr \<lparr>rf_db_type = db_type, rf_do_schemas = do_schemas, rf_ignore_schemas = ignore_schemas,
            rf_do_tbs = do_tbs, rf_ignore_tbs = ignore_tbs, rf_ignore_cols = ignore_cols,
            rf_do_events = do_events, rf_do_structures = do_structures, rf_do_ddls = do_ddls,
            rf_do_dcls = do_dcls, rf_ignore_cmds = ignore_cmds,
            rf_where_conditions = where_conditions, rf_cache = []\<rparr>)))))))))))"

section \<open>Matching\<close>

text \<open>\<open>str::replace\<close> with a character.\<close>

definition replace_char :: "char \<Rightarrow> string \<Rightarrow> string \<Rightarrow> string" where
  "replace_char c by s = concat (map (\<lambda>x. if x = c then by else [x]) s)"

definition to_regex :: "string \<Rightarrow> string" where
  "to_regex pattern =
     ''^'' @
     (if \<not> starts_with pattern (fst REGEX_ESCAPE_PAIR) \<or> \<not> ends_with pattern (snd REGEX_ESCAPE_PAIR) then
        replace_char (CHR ''?'') ''.?'' (replace_char (CHR ''*'') ''.*'' (replace_char (CHR ''.'') [CHR 0x5C, CHR ''.''] pattern))
      else butlast (drop 2 pattern)) @ ''$''"

definition match_token :: "regex_lib \<Rightarrow> string \<Rightarrow> string \<Rightarrow> (char \<times> char) list \<Rightarrow> bool res" where
  "match_token rx pattern item escape_pairs =
     (case find (is_escaped pattern) escape_pairs of
        Some escape_pair \<Rightarrow> Inr (pattern = escape item escape_pair)
      | None \<Rightarrow>
          (case rx (to_regex pattern) of
             None \<Rightarrow> Inl (Panic (''invalid filter pattern: ['' @ to_regex pattern @ '']''))
           | Some is_match \<Rightarrow> Inr (is_match item)))"

fun contain_tb :: "regex_lib \<Rightarrow> (string \<times> string) list \<Rightarrow> string \<Rightarrow> string \<Rightarrow> (char \<times> char) list \<Rightarrow> bool res" where
  "contain_tb rx [] schema tb escape_pairs = Inr False" |
  "contain_tb rx (i # tbs) schema tb escape_pairs =
     bind_res (match_token rx (fst i) schema escape_pairs) (\<lambda>m.
       if m then
         bind_res (match_token rx (snd i) tb escape_pairs) (\<lambda>m'.
           if m' then Inr True else contain_tb rx tbs schema tb escape_pairs)
       else contain_tb rx tbs schema tb escape_pairs)"

fun contain_schema :: "regex_lib \<Rightarrow> string list \<Rightarrow> string \<Rightarrow> (char \<times> char) list \<Rightarrow> bool res" where
  "contain_schema rx [] item escape_pairs = Inr False" |
  "contain_schema rx (i # schemas) item escape_pairs =
     bind_res (match_token rx i item escape_pairs) (\<lambda>m.
       if m then Inr True else contain_schema rx schemas item escape_pairs)"

text \<open>\<open>||\<close> of Rust: the right side is not evaluated when the left side is true.\<close>

definition or_res :: "bool res \<Rightarrow> bool res \<Rightarrow> bool res" where
  "or_res a b = bind_res a (\<lambda>x. if x then Inr True else b)"

definition match_all :: "string list \<Rightarrow> bool" where
  "match_all s \<longleftrightarrow> length s = 1 \<and> ''*'' \<in> set s"

definition is_pattern :: "string \<Rightarrow> db_type \<Rightarrow> bool" where
  "is_pattern pattern db_type \<longleftrightarrow>
     \<not> list_ex (is_escaped pattern) (get_escape_pairs db_type) \<and>
     (CHR ''*'' \<in> set pattern \<or> CHR ''?'' \<in> set pattern \<or> starts_with pattern (fst REGEX_ESCAPE_PAIR))"

section \<open>Filters\<close>

definition do_tb_schemas :: "rdb_filter \<Rightarrow> string list" where
  "do_tb_schemas f = remdups (map fst (rf_do_tbs f))"

definition filter_schema :: "regex_lib \<Rightarrow> rdb_filter \<Rightarrow> string \<Rightarrow> bool res" where
  "filter_schema rx f schema =
     (let escape_pairs = get_escape_pairs (rf_db_type f) in
      bind_res (or_res (contain_tb rx (rf_ignore_tbs f) schema ''*'' escape_pairs)
                       (contain_schema rx (rf_ignore_schemas f) schema escape_pairs)) (\<lambda>filter.
        if filter then Inr True
        else
          map_res Not (or_res (contain_schema rx (rf_do_schemas f) schema escape_pairs)
                              (contain_schema rx (do_tb_schemas f) schema escape_pairs))))"

definition filter_tb :: "regex_lib \<Rightarrow> rdb_filter \<Rightarrow> string \<Rightarrow> string \<Rightarrow> (bool \<times> rdb_filter) res" where
  "filter_tb rx f schema tb =
     (case map_of (rf_cache f) (schema, tb) of
        Some cache \<Rightarrow> Inr (cache, f)
      | None \<Rightarrow>
          (let escape_pairs = get_escape_pairs (rf_db_type f) in
           bind_res (or_res (contain_tb rx (rf_ignore_tbs f) schema tb escape_pairs)
                            (contain_schema rx (rf_ignore_schemas f) schema escape_pairs)) (\<lambda>filter.
           bind_res (contain_schema rx (do_tb_schemas f) schema escape_pairs) (\<lambda>schema_has_do_tbs.
           bind_res (if schema_has_do_tbs then contain_tb rx (rf_do_tbs f) schema tb escape_pairs
                     else or_res (contain_tb rx (rf_do_tbs f) schema tb escape_pairs)
                                 (contain_schema rx (rf_do_schemas f) schema escape_pairs)) (\<lambda>keep.
             let filter' = (filter \<or> \<not> keep)
             in Inr (filter', f\<lparr>rf_cache := AList.update (schema, tb) filter' (rf_cache f)\<rparr>))))))"

fun row_type_to_string :: "row_type \<Rightarrow> string" where
  "row_type_to_string RInsert = ''insert''" |
  "row_type_to_string RUpdate = ''update''" |
  "row_type_to_string RDelete = ''delete''"

definition filter_event :: "regex_lib \<Rightarrow> rdb_filter \<Rightarrow> string \<Rightarrow> string \<Rightarrow> row_type \<Rightarrow> (bool \<times> rdb_filter) res" where
  "filter_event rx f schema tb row_type =
     (if \<not> match_all (rf_do_events f) \<and> row_type_to_string row_type \<notin> set (rf_do_events f) then Inr (True, f)
      else filter_tb rx f schema tb)"

definition filter_all_ddl :: "rdb_filter \<Rightarrow> bool" where
  "filter_all_ddl f \<longleftrightarrow> rf_do_ddls f = []"

definition filter_ddl :: "regex_lib \<Rightarrow> rdb_filter \<Rightarrow> string \<Rightarrow> string \<Rightarrow> ddl_type \<Rightarrow> (bool \<times> rdb_filter) res" where
  "filter_ddl rx f schema tb ddl_type =
     (if \<not> match_all (rf_do_ddls f) \<and> ddl_type_to_string ddl_type \<notin> set (rf_do_ddls f) then Inr (True, f)
      else if tb = [] then map_res (\<lambda>b. (b, f)) (filter_schema rx f schema)
      else filter_tb rx f schema tb)"

definition filter_all_dcl :: "rdb_filter \<Rightarrow> bool" where
  "filter_all_dcl f \<longleftrightarrow> rf_do_dcls f = []"

definition filter_dcl :: "rdb_filter \<Rightarrow> dcl_type \<Rightarrow> bool" where
  "filter_dcl f dcl_type \<longleftrightarrow> \<not> match_all (rf_do_dcls f) \<and> dcl_type_to_string dcl_type \<notin> set (rf_do_dcls f)"

definition filter_structure :: "rdb_filter \<Rightarrow> structure_type \<Rightarrow> bool" where
  "filter_structure f structure_type \<longleftrightarrow>
     \<not> match_all (rf_do_structures f) \<and> structure_type_to_string structure_type \<notin> set (rf_do_structures f)"

definition filter_cmd :: "rdb_filter \<Rightarrow> string \<Rightarrow> bool" where
  "filter_cmd f cmd \<longleftrightarrow> cmd \<in> set (rf_ignore_cmds f)"

definition get_ignore_cols :: "rdb_filter \<Rightarrow> string \<Rightarrow> string \<Rightarrow> string list option" where
  "get_ignore_cols f schema tb = map_of (rf_ignore_cols f) (schema, tb)"

definition get_where_condition :: "rdb_filter \<Rightarrow> string \<Rightarrow> string \<Rightarrow> string option" where
  "get_where_condition f schema tb = map_of (rf_where_conditions f) (schema, tb)"

definition add_ignore_tb :: "string \<Rightarrow> string \<Rightarrow> rdb_filter \<Rightarrow> rdb_filter" where
  "add_ignore_tb schema tb f = f\<lparr>rf_ignore_tbs := List.insert (schema, tb) (rf_ignore_tbs f)\<rparr>"

definition add_do_tb :: "string \<Rightarrow> string \<Rightarrow> rdb_filter \<Rightarrow> rdb_filter" where
  "add_do_tb schema tb f = f\<lparr>rf_do_tbs := List.insert (schema, tb) (rf_do_tbs f)\<rparr>"

section \<open>What is replicated\<close>

text \<open>A pattern that matches, and patterns none of which is an invalid regular expression.\<close>

definition token_matches :: "regex_lib \<Rightarrow> (char \<times> char) list \<Rightarrow> string \<Rightarrow> string \<Rightarrow> bool" where
  "token_matches rx ps item pattern \<longleftrightarrow> match_token rx pattern item ps = Inr True"

definition valid_pattern :: "regex_lib \<Rightarrow> (char \<times> char) list \<Rightarrow> string \<Rightarrow> bool" where
  "valid_pattern rx ps pattern \<longleftrightarrow> list_ex (is_escaped pattern) ps \<or> rx (to_regex pattern) \<noteq> None"

definition tb_matches :: "regex_lib \<Rightarrow> (char \<times> char) list \<Rightarrow> string \<Rightarrow> string \<Rightarrow> string \<times> string \<Rightarrow> bool" where
  "tb_matches rx ps schema tb p \<longleftrightarrow> token_matches rx ps schema (fst p) \<and> token_matches rx ps tb (snd p)"

definition valid_filter :: "regex_lib \<Rightarrow> rdb_filter \<Rightarrow> bool" where
  "valid_filter rx f \<longleftrightarrow>
     list_all (valid_pattern rx (get_escape_pairs (rf_db_type f)))
       (rf_do_schemas f @ rf_ignore_schemas f @ map fst (rf_do_tbs f) @ map snd (rf_do_tbs f) @
        map fst (rf_ignore_tbs f) @ map snd (rf_ignore_tbs f))"

text \<open>
  The decision. The documentation of the configuration says that \<open>do_tbs\<close> and \<open>do_dbs\<close> are united and
  that what is ignored is not replicated. \<open>filter_tb\<close> narrows the union, as its comment says: for a
  schema that an entry of \<open>do_tbs\<close> is about, only the tables named by \<open>do_tbs\<close> are replicated.
\<close>

definition tb_ignored :: "regex_lib \<Rightarrow> rdb_filter \<Rightarrow> string \<Rightarrow> string \<Rightarrow> bool" where
  "tb_ignored rx f schema tb \<longleftrightarrow>
     list_ex (tb_matches rx (get_escape_pairs (rf_db_type f)) schema tb) (rf_ignore_tbs f) \<or>
     list_ex (token_matches rx (get_escape_pairs (rf_db_type f)) schema) (rf_ignore_schemas f)"

definition tb_named :: "regex_lib \<Rightarrow> rdb_filter \<Rightarrow> string \<Rightarrow> string \<Rightarrow> bool" where
  "tb_named rx f schema tb \<longleftrightarrow> list_ex (tb_matches rx (get_escape_pairs (rf_db_type f)) schema tb) (rf_do_tbs f)"

definition schema_named :: "regex_lib \<Rightarrow> rdb_filter \<Rightarrow> string \<Rightarrow> bool" where
  "schema_named rx f schema \<longleftrightarrow> list_ex (token_matches rx (get_escape_pairs (rf_db_type f)) schema) (rf_do_schemas f)"

definition documented :: "regex_lib \<Rightarrow> rdb_filter \<Rightarrow> string \<Rightarrow> string \<Rightarrow> bool" where
  "documented rx f schema tb \<longleftrightarrow>
     \<not> tb_ignored rx f schema tb \<and> (tb_named rx f schema tb \<or> schema_named rx f schema)"

definition narrowed :: "regex_lib \<Rightarrow> rdb_filter \<Rightarrow> string \<Rightarrow> string \<Rightarrow> bool" where
  "narrowed rx f schema tb \<longleftrightarrow>
     list_ex (\<lambda>p. token_matches rx (get_escape_pairs (rf_db_type f)) schema (fst p)) (rf_do_tbs f) \<and>
     \<not> tb_named rx f schema tb"

definition tb_kept :: "regex_lib \<Rightarrow> rdb_filter \<Rightarrow> string \<Rightarrow> string \<Rightarrow> bool" where
  "tb_kept rx f schema tb \<longleftrightarrow>
     list_ex (tb_matches rx (get_escape_pairs (rf_db_type f)) schema tb) (rf_do_tbs f) \<or>
     \<not> list_ex (\<lambda>p. token_matches rx (get_escape_pairs (rf_db_type f)) schema (fst p)) (rf_do_tbs f) \<and>
     list_ex (token_matches rx (get_escape_pairs (rf_db_type f)) schema) (rf_do_schemas f)"

definition replicated :: "regex_lib \<Rightarrow> rdb_filter \<Rightarrow> string \<Rightarrow> string \<Rightarrow> bool" where
  "replicated rx f schema tb \<longleftrightarrow> \<not> tb_ignored rx f schema tb \<and> tb_kept rx f schema tb"

lemma replicated_documented: "replicated rx f schema tb \<longleftrightarrow> documented rx f schema tb \<and> \<not> narrowed rx f schema tb"
  by (auto simp: replicated_def tb_kept_def documented_def narrowed_def tb_named_def schema_named_def list_ex_iff tb_matches_def)

definition cache_ok :: "regex_lib \<Rightarrow> rdb_filter \<Rightarrow> bool" where
  "cache_ok rx f \<longleftrightarrow> list_all (\<lambda>((schema, tb), v). v \<longleftrightarrow> \<not> replicated rx f schema tb) (rf_cache f)"

lemma match_token_valid:
  "valid_pattern rx ps pattern \<Longrightarrow> match_token rx pattern item ps = Inr (token_matches rx ps item pattern)"
  by (auto simp: valid_pattern_def token_matches_def match_token_def find_None_iff list_ex_iff
      split: option.splits)

lemma contain_schema_valid:
  "list_all (valid_pattern rx ps) ss \<Longrightarrow> contain_schema rx ss item ps = Inr (list_ex (token_matches rx ps item) ss)"
  by (induction ss) (simp_all add: match_token_valid)

lemma contain_tb_valid:
  "list_all (valid_pattern rx ps) (map fst tbs) \<Longrightarrow> list_all (valid_pattern rx ps) (map snd tbs) \<Longrightarrow>
   contain_tb rx tbs schema tb ps = Inr (list_ex (tb_matches rx ps schema tb) tbs)"
  by (induction tbs) (simp_all add: match_token_valid tb_matches_def)

lemma list_ex_remdups: "list_ex P (remdups xs) = list_ex P xs"
  by (simp add: list_ex_iff)

lemma or_res_simps [simp]: "or_res (Inr a) (Inr b) = Inr (a \<or> b)" "or_res (Inr True) r = Inr True"
  by (simp_all add: or_res_def)

lemma replicated_cache: "replicated rx (f\<lparr>rf_cache := c\<rparr>) = replicated rx f"
  by (simp add: replicated_def tb_ignored_def tb_kept_def fun_eq_iff)

lemma filter_tb_spec:
  assumes "valid_filter rx f" "cache_ok rx f"
  shows "\<exists>c. filter_tb rx f schema tb = Inr (\<not> replicated rx f schema tb, f\<lparr>rf_cache := c\<rparr>) \<and>
    cache_ok rx (f\<lparr>rf_cache := c\<rparr>)"
proof (cases "map_of (rf_cache f) (schema, tb)")
  case (Some v)
  then have "((schema, tb), v) \<in> set (rf_cache f)" by (rule map_of_SomeD)
  with assms(2) have "v \<longleftrightarrow> \<not> replicated rx f schema tb" by (auto simp: cache_ok_def list_all_iff)
  with Some assms(2) show ?thesis by (intro exI[of _ "rf_cache f"]) (simp add: filter_tb_def)
next
  case None
  let ?ps = "get_escape_pairs (rf_db_type f)"
  let ?c = "AList.update (schema, tb) (\<not> replicated rx f schema tb) (rf_cache f)"
  from assms(1) have v: "list_all (valid_pattern rx ?ps) (rf_do_schemas f)"
    "list_all (valid_pattern rx ?ps) (rf_ignore_schemas f)" "list_all (valid_pattern rx ?ps) (map fst (rf_do_tbs f))"
    "list_all (valid_pattern rx ?ps) (map snd (rf_do_tbs f))" "list_all (valid_pattern rx ?ps) (map fst (rf_ignore_tbs f))"
    "list_all (valid_pattern rx ?ps) (map snd (rf_ignore_tbs f))"
    by (simp_all add: valid_filter_def)
  have "list_all (valid_pattern rx ?ps) (do_tb_schemas f)" using v(3) by (simp add: do_tb_schemas_def list_all_iff)
  note facts = contain_schema_valid[OF this] contain_schema_valid[OF v(1)] contain_schema_valid[OF v(2)]
    contain_tb_valid[OF v(3,4)] contain_tb_valid[OF v(5,6)]
  have "filter_tb rx f schema tb = Inr (\<not> replicated rx f schema tb, f\<lparr>rf_cache := ?c\<rparr>)"
    unfolding filter_tb_def None option.case Let_def facts or_res_simps bind_res_simps
    by (auto simp: replicated_def tb_ignored_def tb_kept_def do_tb_schemas_def list_ex_remdups list_ex_iff
        tb_matches_def or_res_def facts)
  moreover have "cache_ok rx (f\<lparr>rf_cache := ?c\<rparr>)"
    using assms(2) by (simp add: cache_ok_def replicated_cache alist_all_update)
  ultimately show ?thesis by blast
qed

text \<open>A sequence of lookups, each with the cache the ones before it left.\<close>

fun filter_tbs :: "regex_lib \<Rightarrow> rdb_filter \<Rightarrow> (string \<times> string) list \<Rightarrow> bool list res" where
  "filter_tbs rx f [] = Inr []" |
  "filter_tbs rx f (q # qs) =
     bind_res (filter_tb rx f (fst q) (snd q)) (\<lambda>(b, f'). map_res ((#) b) (filter_tbs rx f' qs))"

lemma filter_tbs_spec:
  assumes "valid_filter rx f" "cache_ok rx f"
  shows "filter_tbs rx f qs = Inr (map (\<lambda>(schema, tb). \<not> replicated rx f schema tb) qs)"
  using assms
proof (induction qs arbitrary: f)
  case (Cons q qs)
  from filter_tb_spec[OF Cons.prems, of "fst q" "snd q"] obtain c where
    c: "filter_tb rx f (fst q) (snd q) = Inr (\<not> replicated rx f (fst q) (snd q), f\<lparr>rf_cache := c\<rparr>)"
    "cache_ok rx (f\<lparr>rf_cache := c\<rparr>)" by blast
  have "valid_filter rx (f\<lparr>rf_cache := c\<rparr>)" using Cons.prems(1) by (simp add: valid_filter_def)
  from Cons.IH[OF this c(2)] show ?case by (simp add: c(1) replicated_cache case_prod_beta)
qed simp

section \<open>Wildcards\<close>

text \<open>
  What a pattern without quotes promises: \<open>*\<close> stands for any characters, \<open>?\<close> for at most
  one, and every other character for itself.
\<close>

datatype glob = GLit char | GStar | GOpt

definition glob_of :: "char \<Rightarrow> glob" where
  "glob_of c = (if c = CHR ''*'' then GStar else if c = CHR ''?'' then GOpt else GLit c)"

fun glob_match :: "glob list \<Rightarrow> string \<Rightarrow> bool" where
  "glob_match [] s \<longleftrightarrow> s = []" |
  "glob_match (GLit c # g) s \<longleftrightarrow> s \<noteq> [] \<and> hd s = c \<and> glob_match g (tl s)" |
  "glob_match (GOpt # g) s \<longleftrightarrow> glob_match g s \<or> s \<noteq> [] \<and> glob_match g (tl s)" |
  "glob_match (GStar # g) s \<longleftrightarrow> list_ex (\<lambda>k. glob_match g (drop k s)) [0..<Suc (length s)]"

fun glob_regex :: "glob \<Rightarrow> string" where
  "glob_regex (GLit c) = (if c = CHR ''.'' then [CHR 0x5C, CHR ''.''] else [c])" |
  "glob_regex GStar = ''.*''" |
  "glob_regex GOpt = ''.?''"

text \<open>The characters that mean themselves in a regular expression, and the dot, which is quoted.\<close>

definition literal_char :: "char \<Rightarrow> bool" where
  "literal_char c \<longleftrightarrow>
     c \<in> set ''abcdefghijklmnopqrstuvwxyzABCDEFGHIJKLMNOPQRSTUVWXYZ0123456789_-. ''"

definition literal_glob :: "glob \<Rightarrow> bool" where
  "literal_glob g \<longleftrightarrow> (case g of GLit c \<Rightarrow> literal_char c | _ \<Rightarrow> True)"

text \<open>
  What the code relies on: the expression \<open>^...$\<close> made of literals, \<open>\.\<close>, \<open>.*\<close> and \<open>.?\<close> is
  valid and matches an item of visible ASCII characters as the documentation of the syntax says.
\<close>

definition regex_wildcards :: "regex_lib \<Rightarrow> bool" where
  "regex_wildcards rx \<longleftrightarrow>
     (\<forall>g. list_all literal_glob g \<longrightarrow>
        (\<exists>is_match. rx (''^'' @ concat (map glob_regex g) @ ''$'') = Some is_match \<and>
           (\<forall>item. list_all solid item \<longrightarrow> is_match item = glob_match g item)))"

lemma replace_chain:
  "replace_char (CHR ''?'') ''.?'' (replace_char (CHR ''*'') ''.*'' (replace_char (CHR ''.'') [CHR 0x5C, CHR ''.''] p)) =
   concat (map (glob_regex \<circ> glob_of) p)"
  by (induction p) (simp_all add: replace_char_def glob_of_def)

definition wildcard_pattern :: "(char \<times> char) list \<Rightarrow> string \<Rightarrow> bool" where
  "wildcard_pattern ps p \<longleftrightarrow> \<not> list_ex (is_escaped p) ps \<and> list_all (\<lambda>c. literal_glob (glob_of c)) p"

lemma wildcard_not_raw: "wildcard_pattern ps p \<Longrightarrow> \<not> ends_with p ''#''"
  by (cases p rule: rev_cases)
    (auto simp: wildcard_pattern_def ends_with_def literal_glob_def glob_of_def literal_char_def)

text \<open>A library with that behaviour: it reads the expression back.\<close>

fun read_regex :: "string \<Rightarrow> glob list" where
  "read_regex [] = []" |
  "read_regex [c] = [GLit c]" |
  "read_regex (c # d # s) =
     (if c = CHR 0x5C then GLit d # read_regex s
      else if c = CHR ''.'' then (if d = CHR ''*'' then GStar else GOpt) # read_regex s
      else GLit c # read_regex (d # s))"

definition sample_regex :: regex_lib where
  "sample_regex r = Some (glob_match (read_regex (butlast (tl r))))"

lemma read_regex_literal:
  "c \<noteq> CHR 0x5C \<Longrightarrow> c \<noteq> CHR ''.'' \<Longrightarrow> read_regex (c # s) = GLit c # read_regex s"
  by (cases s) auto

lemma read_regex_globs: "list_all literal_glob g \<Longrightarrow> read_regex (concat (map glob_regex g)) = g"
proof (induction g)
  case (Cons a g)
  show ?case
  proof (cases a)
    case (GLit c)
    with Cons.prems have "c \<noteq> CHR 0x5C" by (auto simp: literal_glob_def literal_char_def)
    with GLit Cons show ?thesis by (simp add: read_regex_literal)
  qed (use Cons in simp_all)
qed simp

lemma sample_regex_wildcards: "regex_wildcards sample_regex"
  by (auto simp: regex_wildcards_def sample_regex_def read_regex_globs butlast_append)

definition sample_filter :: rdb_filter where
  "sample_filter =
     \<lparr>rf_db_type = Mysql, rf_do_schemas = [''db_*''], rf_ignore_schemas = [], rf_do_tbs = [(''db_1'', ''tb_?'')],
      rf_ignore_tbs = [(''db_2'', ''`a*`'')], rf_ignore_cols = [], rf_do_events = [''insert''], rf_do_structures = [],
      rf_do_ddls = [], rf_do_dcls = [], rf_ignore_cmds = [], rf_where_conditions = [], rf_cache = []\<rparr>"

section \<open>Properties\<close>

text \<open>
  C24: What the filter decides, and that its cache does not show: over any sequence of lookups, the
  tables let through are those of the documented union (not ignored, and named by \<open>do_tbs\<close> or their
  schema by \<open>do_dbs\<close>), except the tables of a schema that some entry of \<open>do_tbs\<close> is about and that no
  entry of \<open>do_tbs\<close> names. So with both lists set the code filters tables the documentation says are
  replicated, and no others. The lookups return, as long as no pattern is an invalid regular
  expression.
\<close>

theorem filter_tb_correct:
  assumes "valid_filter rx f" "rf_cache f = []"
  shows "filter_tbs rx f qs = Inr (map (\<lambda>(schema, tb). \<not> (documented rx f schema tb \<and> \<not> narrowed rx f schema tb)) qs)"
  unfolding replicated_documented[symmetric] by (rule filter_tbs_spec[OF assms(1)]) (simp add: cache_ok_def assms(2))

lemma sample_filter_valid: "valid_filter sample_regex sample_filter" "rf_cache sample_filter = []"
  by (simp_all add: valid_filter_def sample_filter_def valid_pattern_def sample_regex_def)

lemma sample_filter_decides:
  "documented sample_regex sample_filter ''db_1'' ''tb_7''" "\<not> narrowed sample_regex sample_filter ''db_1'' ''tb_7''"
  "documented sample_regex sample_filter ''db_1'' ''x''" "narrowed sample_regex sample_filter ''db_1'' ''x''"
  "\<not> documented sample_regex sample_filter ''db_2'' ''a*''"
  by code_simp+

theorem filter_tb_correct_witness:
  "filter_tbs sample_regex sample_filter [(''db_1'', ''tb_7''), (''db_1'', ''x''), (''db_2'', ''a*''), (''db_1'', ''tb_7'')] =
     Inr [False, True, True, False] \<and> documented sample_regex sample_filter ''db_1'' ''x''"
  using filter_tb_correct[OF sample_filter_valid, of "[(''db_1'', ''tb_7''), (''db_1'', ''x''), (''db_2'', ''a*''), (''db_1'', ''tb_7'')]"]
    sample_filter_decides by simp

text \<open>
  C25: Wildcard patterns mean what the comment in \<open>match_token\<close> says: translated into a regular
  expression by three replacements, one after the other, a pattern of letters, digits, \<open>_\<close>, \<open>-\<close>,
  dots and wildcards matches exactly the names where \<open>*\<close> stands for any characters, \<open>?\<close> for at
  most one and every other character, the dot included, for itself.
\<close>

theorem match_token_glob:
  assumes "regex_wildcards rx" "wildcard_pattern ps p" "list_all solid item"
  shows "match_token rx p item ps = Inr (glob_match (map glob_of p) item)"
proof -
  have r: "to_regex p = ''^'' @ concat (map glob_regex (map glob_of p)) @ ''$''"
    using wildcard_not_raw[OF assms(2)] by (simp add: to_regex_def replace_chain REGEX_ESCAPE_PAIR_def)
  have g: "list_all literal_glob (map glob_of p)" using assms(2) by (simp add: wildcard_pattern_def list_all_iff)
  from assms(1) g obtain m where
    m: "rx (''^'' @ concat (map glob_regex (map glob_of p)) @ ''$'') = Some m"
    "\<forall>item. list_all solid item \<longrightarrow> m item = glob_match (map glob_of p) item"
    unfolding regex_wildcards_def by blast
  have "find (is_escaped p) ps = None" using assms(2) by (auto simp: wildcard_pattern_def find_None_iff list_ex_iff)
  then show ?thesis using m(2) assms(3) unfolding match_token_def r m(1) by simp
qed

theorem match_token_glob_witness:
  "match_token sample_regex ''a.b*'' ''a.bc'' [(CHR 0x60, CHR 0x60)] = Inr True \<and>
   match_token sample_regex ''a.b*'' ''axbc'' [(CHR 0x60, CHR 0x60)] = Inr False"
proof -
  have p: "wildcard_pattern [(CHR 0x60, CHR 0x60)] ''a.b*''"
    by (simp add: wildcard_pattern_def is_escaped_def literal_glob_def glob_of_def literal_char_def)
  have "list_all solid ''a.bc''" "list_all solid ''axbc''" by (simp_all add: solid_def)
  note m = match_token_glob[OF sample_regex_wildcards p this(1)] match_token_glob[OF sample_regex_wildcards p this(2)]
  show ?thesis unfolding m by (simp add: glob_of_def)
qed

end
