(* ===== verification/Rdb_Router.thy ===== *)
theory Rdb_Router
  imports Config_Token_Parser Dt_Data Samples
begin

text \<open>
  \<open>dt-connector/src/rdb_router.rs\<close>: the mapping of schemas, tables and columns of the source to
  those of the target, its reverse (used to look target rows up in the source), and the routing of
  rows, DDL statements and structure statements with the \<open>route\<close> operations of
  \<open>dt-common/src/meta/struct_meta/statement\<close>.

  Hash maps are association lists in the order of their iteration. The JSON parser of \<open>col_map\<close>
  and the match of the regular expression for the head of a routine definition are arguments.
\<close>

section \<open>State\<close>

record router_config =
  rc_schema_map :: string
  rc_tb_map :: string
  rc_col_map :: string
  rc_topic_map :: string

record rdb_router =
  schema_map :: "(string, string) hash_map"
  tb_map :: "(string \<times> string, string \<times> string) hash_map"
  col_map :: "(string \<times> string, (string, string) hash_map) hash_map"
  topic_map :: "(string \<times> string, string) hash_map"

section \<open>Parsing the options\<close>

definition router_parse_config :: "string \<Rightarrow> db_type \<Rightarrow> string list res" where
  "router_parse_config config_str db_type =
     map_res (map (\<lambda>t. fold (\<lambda>escape_pair token. unescape token escape_pair) (get_escape_pairs db_type) t))
       (parse_config config_str db_type '',.:'' None)"

text \<open>The loops index the token list without a check: a group that is not complete panics.\<close>

definition out_of_bounds :: "'a res" where
  "out_of_bounds = Inl (Panic ''index out of bounds'')"

fun schema_entries :: "(string, string) hash_map \<Rightarrow> string list \<Rightarrow> (string, string) hash_map res" where
  "schema_entries m [] = Inr m" |
  "schema_entries m (a # b # tokens) = schema_entries (AList.update a b m) tokens" |
  "schema_entries m _ = out_of_bounds"

definition parse_schema_map :: "string \<Rightarrow> db_type \<Rightarrow> (string, string) hash_map res" where
  "parse_schema_map config_str db_type =
     bind_res (router_parse_config config_str db_type) (schema_entries [])"

fun tb_entries ::
  "(string \<times> string, string \<times> string) hash_map \<Rightarrow> string list \<Rightarrow> (string \<times> string, string \<times> string) hash_map res" where
  "tb_entries m [] = Inr m" |
  "tb_entries m (a # b # c # d # tokens) = tb_entries (AList.update (a, b) (c, d) m) tokens" |
  "tb_entries m _ = out_of_bounds"

definition parse_tb_map :: "string \<Rightarrow> db_type \<Rightarrow> (string \<times> string, string \<times> string) hash_map res" where
  "parse_tb_map config_str db_type = bind_res (router_parse_config config_str db_type) (tb_entries [])"

fun topic_entries :: "(string \<times> string, string) hash_map \<Rightarrow> string list \<Rightarrow> (string \<times> string, string) hash_map res" where
  "topic_entries m [] = Inr m" |
  "topic_entries m (a # b # c # tokens) = topic_entries (AList.update (a, b) c m) tokens" |
  "topic_entries m _ = out_of_bounds"

definition parse_topic_map :: "string \<Rightarrow> db_type \<Rightarrow> (string \<times> string, string) hash_map res" where
  "parse_topic_map config_str db_type = bind_res (router_parse_config config_str db_type) (topic_entries [])"

text \<open>\<open>from_str\<close> is the parser of the JSON document after the prefix \<open>json:\<close>.\<close>

definition parse_col_map ::
  "(string \<Rightarrow> ((string \<times> string) \<times> (string, string) hash_map) list res) \<Rightarrow> string \<Rightarrow>
   (string \<times> string, (string, string) hash_map) hash_map res" where
  "parse_col_map from_str config_str =
     parse_json_options from_str config_str"

definition router_from_config ::
  "(string \<Rightarrow> ((string \<times> string) \<times> (string, string) hash_map) list res) \<Rightarrow> router_config \<Rightarrow> db_type \<Rightarrow>
   rdb_router res" where
  "router_from_config from_str config db_type =
     bind_res (parse_schema_map (rc_schema_map config) db_type) (\<lambda>schemas.
     bind_res (parse_tb_map (rc_tb_map config) db_type) (\<lambda>tbs.
     bind_res (parse_col_map from_str (rc_col_map config)) (\<lambda>cols.
     bind_res (parse_topic_map (rc_topic_map config) db_type) (\<lambda>topics.
       Inr \<lparr>schema_map = schemas, tb_map = tbs, col_map = cols, topic_map = topics\<rparr>))))"

section \<open>Lookups\<close>

definition get_schema_map :: "rdb_router \<Rightarrow> string \<Rightarrow> string" where
  "get_schema_map r schema =
     (case map_of (schema_map r) schema of Some dst_schema \<Rightarrow> dst_schema | None \<Rightarrow> schema)"

definition get_tb_map :: "rdb_router \<Rightarrow> string \<Rightarrow> string \<Rightarrow> string \<times> string" where
  "get_tb_map r schema tb =
     (case map_of (tb_map r) (schema, tb) of
        Some dst \<Rightarrow> dst
      | None \<Rightarrow>
          (case map_of (schema_map r) schema of
             Some dst_schema \<Rightarrow> (dst_schema, tb)
           | None \<Rightarrow> (schema, tb)))"

definition get_col_map :: "rdb_router \<Rightarrow> string \<Rightarrow> string \<Rightarrow> (string, string) hash_map option" where
  "get_col_map r schema tb = map_of (col_map r) (schema, tb)"

definition get_topic :: "rdb_router \<Rightarrow> string \<Rightarrow> string \<Rightarrow> string res" where
  "get_topic r schema tb =
     (case map_of (topic_map r) (schema, tb) of
        Some topic \<Rightarrow> Inr topic
      | None \<Rightarrow>
          (case map_of (topic_map r) (schema, ''*'') of
             Some topic \<Rightarrow> Inr topic
           | None \<Rightarrow>
               (case map_of (topic_map r) (''*'', ''*'') of
                  Some topic \<Rightarrow> Inr topic
                | None \<Rightarrow> Inl (Panic ''called `Option::unwrap()` on a `None` value''))))"

section \<open>The reverse router\<close>

definition reverse_map :: "('a \<times> 'b) list \<Rightarrow> ('b, 'a) hash_map" where
  "reverse_map m = foldl (\<lambda>acc e. AList.update (snd e) (fst e) acc) [] m"

definition reverse_col_step ::
  "rdb_router \<Rightarrow> (string \<times> string, (string, string) hash_map) hash_map \<Rightarrow>
   (string \<times> string) \<times> (string, string) hash_map \<Rightarrow> (string \<times> string, (string, string) hash_map) hash_map res" where
  "reverse_col_step r acc e =
     (case map_of (tb_map r) (fst e) of
        Some dst_tb \<Rightarrow> Inr (AList.update dst_tb (reverse_map (snd e)) acc)
      | None \<Rightarrow> Inl (Panic ''called `Option::unwrap()` on a `None` value''))"

definition router_reverse :: "rdb_router \<Rightarrow> rdb_router res" where
  "router_reverse r =
     map_res (\<lambda>cols.
       \<lparr>schema_map = reverse_map (schema_map r), tb_map = reverse_map (tb_map r),
        col_map = cols, topic_map = topic_map r\<rparr>)
       (fold_res (reverse_col_step r) [] (col_map r))"

section \<open>Routing rows\<close>

definition route_col :: "(string, string) hash_map \<Rightarrow> string \<Rightarrow> string" where
  "route_col cm col = (case map_of cm col of Some dst_col \<Rightarrow> dst_col | None \<Rightarrow> col)"

definition route_col_values :: "(string, string) hash_map \<Rightarrow> col_values \<Rightarrow> col_values" where
  "route_col_values cm vals = foldl (\<lambda>acc e. AList.update (route_col cm (fst e)) (snd e) acc) [] vals"

definition route_row :: "rdb_router \<Rightarrow> row_data \<Rightarrow> row_data" where
  "route_row r row =
     (let (schema, tb) = (rd_schema row, rd_tb row);
          (dst_schema, dst_tb) = get_tb_map r schema tb;
          row' = row\<lparr>rd_schema := dst_schema, rd_tb := dst_tb\<rparr>
      in case get_col_map r schema tb of
           None \<Rightarrow> row'
         | Some cm \<Rightarrow>
             row'\<lparr>rd_before := map_option (route_col_values cm) (rd_before row'),
                  rd_after := map_option (route_col_values cm) (rd_after row')\<rparr>)"

section \<open>Routing statements\<close>

definition is_rename :: "ddl_statement \<Rightarrow> bool" where
  "is_rename s \<longleftrightarrow>
     (case s of
        MysqlAlterTableRename _ _ _ _ _ \<Rightarrow> True
      | PgAlterTableRename _ _ _ _ _ _ _ \<Rightarrow> True
      | RenameTable _ _ _ _ _ \<Rightarrow> True
      | _ \<Rightarrow> False)"

definition route_ddl :: "rdb_router \<Rightarrow> ddl_data \<Rightarrow> ddl_data" where
  "route_ddl r d =
     (let (src_schema, src_tb) = ddl_get_schema_tb d;
          (dst_schema, dst_tb) = get_tb_map r src_schema src_tb;
          d' = (if is_rename (dd_statement d) then
                  (let (src_new_schema, src_new_tb) = ddl_get_rename_to_schema_tb d;
                       (dst_new_schema, dst_new_tb) = get_tb_map r src_new_schema src_new_tb
                   in d\<lparr>dd_statement := route_rename_table (dd_statement d) dst_schema dst_tb dst_new_schema dst_new_tb\<rparr>)
                else d\<lparr>dd_statement := ddl_statement_route (dd_statement d) dst_schema dst_tb\<rparr>)
      in d'\<lparr>dd_default_schema := get_schema_map r (dd_default_schema d')\<rparr>)"

definition mysql_table_route :: "string \<Rightarrow> string \<Rightarrow> struct_statement \<Rightarrow> struct_statement" where
  "mysql_table_route dst_db dst_tb s =
     (case s of
        StructMysqlCreateTable table constraints indexes \<Rightarrow>
          StructMysqlCreateTable (table\<lparr>ts_database_name := dst_db, ts_table_name := dst_tb\<rparr>)
            (map (\<lambda>c. c\<lparr>cs_database_name := dst_db, cs_table_name := dst_tb\<rparr>) constraints)
            (map (\<lambda>i. i\<lparr>ix_database_name := dst_db, ix_table_name := dst_tb\<rparr>) indexes)
      | _ \<Rightarrow> s)"

definition pg_table_route :: "string \<Rightarrow> string \<Rightarrow> struct_statement \<Rightarrow> struct_statement" where
  "pg_table_route dst_schema dst_tb s =
     (case s of
        StructPgCreateTable table table_comments column_comments constraints indexes sequences sequence_owners \<Rightarrow>
          StructPgCreateTable (table\<lparr>ts_schema_name := dst_schema, ts_table_name := dst_tb\<rparr>)
            (map (\<lambda>c. c\<lparr>cm_schema_name := dst_schema, cm_table_name := dst_tb\<rparr>) table_comments)
            (map (\<lambda>c. c\<lparr>cm_schema_name := dst_schema, cm_table_name := dst_tb\<rparr>) column_comments)
            (map (\<lambda>c. c\<lparr>cs_schema_name := dst_schema, cs_table_name := dst_tb\<rparr>) constraints)
            (map (\<lambda>i. i\<lparr>ix_schema_name := dst_schema, ix_table_name := dst_tb\<rparr>) indexes)
            (map (\<lambda>q. q\<lparr>sq_schema_name := dst_schema\<rparr>) sequences)
            (map (\<lambda>w. w\<lparr>so_schema_name := dst_schema, so_table_name := dst_tb\<rparr>) sequence_owners)
      | _ \<Rightarrow> s)"

text \<open>\<open>head_end kind sql\<close> is where the match of \<open>CREATE [OR REPLACE] FUNCTION|PROCEDURE\<close> ends.\<close>

definition double_quotes :: "string \<Rightarrow> string" where
  "double_quotes s = concat (map (\<lambda>c. if c = CHR 0x22 then [CHR 0x22, CHR 0x22] else [c]) s)"

definition rewrite_header_qualified_name ::
  "(pg_routine_kind \<Rightarrow> string \<Rightarrow> nat option) \<Rightarrow> string \<Rightarrow> pg_routine_kind \<Rightarrow> string \<Rightarrow> string \<Rightarrow> string" where
  "rewrite_header_qualified_name head_end create_sql kind dst_schema dst_routine =
     (case head_end kind create_sql of
        None \<Rightarrow> create_sql
      | Some name_start \<Rightarrow>
          (if CHR ''('' \<notin> set (drop name_start create_sql) then create_sql
           else
             take name_start create_sql @
             [CHR 0x22] @ double_quotes dst_schema @ [CHR 0x22] @ ''.'' @
             [CHR 0x22] @ double_quotes dst_routine @ [CHR 0x22] @
             dropWhile (\<lambda>c. c \<noteq> CHR ''('') (drop name_start create_sql)))"

definition route_struct ::
  "(pg_routine_kind \<Rightarrow> string \<Rightarrow> nat option) \<Rightarrow> rdb_router \<Rightarrow> struct_data \<Rightarrow> struct_data" where
  "route_struct head_end r d =
     d\<lparr>sd_statement :=
       (case sd_statement d of
          StructMysqlCreateTable table constraints indexes \<Rightarrow>
            (let (dst_schema, dst_tb) = get_tb_map r (ts_database_name table) (ts_table_name table)
             in mysql_table_route dst_schema dst_tb (sd_statement d))
        | StructMysqlCreateDatabase database \<Rightarrow>
            StructMysqlCreateDatabase (database\<lparr>db_name := get_schema_map r (db_name database)\<rparr>)
        | StructPgCreateTable table table_comments column_comments constraints indexes sequences sequence_owners \<Rightarrow>
            (let (dst_schema, dst_tb) = get_tb_map r (ts_schema_name table) (ts_table_name table)
             in pg_table_route dst_schema dst_tb (sd_statement d))
        | StructPgCreateSchema name \<Rightarrow> StructPgCreateSchema (get_schema_map r name)
        | StructPgCreateView schema_name view_name kind definition \<Rightarrow>
            (let (dst_schema, dst_tb) = get_tb_map r schema_name view_name
             in StructPgCreateView dst_schema dst_tb kind definition)
        | StructPgCreateRoutine schema_name routine_name kind create_sql \<Rightarrow>
            (let (dst_schema, dst_tb) = get_tb_map r schema_name routine_name
             in StructPgCreateRoutine dst_schema dst_tb kind
                  (rewrite_header_qualified_name head_end create_sql kind dst_schema dst_tb))
        | s \<Rightarrow> s)\<rparr>"

section \<open>Reversing\<close>

lemma foldl_update_append:
  "distinct (map f xs) \<Longrightarrow> set (map f xs) \<inter> fst ` set acc = {} \<Longrightarrow>
   foldl (\<lambda>acc e. AList.update (f e) (g e) acc) acc xs = acc @ map (\<lambda>e. (f e, g e)) xs"
proof (induction xs arbitrary: acc)
  case (Cons x xs)
  have "AList.update (f x) (g x) acc = acc @ [(f x, g x)]"
    using Cons.prems(2) by (induction acc) auto
  with Cons.IH[of "acc @ [(f x, g x)]"] Cons.prems show ?case by auto
qed simp

lemma reverse_map_eq: "distinct (map snd m) \<Longrightarrow> reverse_map m = map (\<lambda>e. (snd e, fst e)) m"
  using foldl_update_append[of snd m "[]" fst] by (simp add: reverse_map_def)

lemma reverse_map_lookup:
  assumes "distinct (map fst m)" "distinct (map snd m)"
  shows "map_of (reverse_map m) y = Some x \<longleftrightarrow> map_of m x = Some y"
proof -
  have "distinct (map fst (map (\<lambda>e. (snd e, fst e)) m))" using assms(2) by (simp add: comp_def)
  then have "map_of (map (\<lambda>e. (snd e, fst e)) m) y = Some x \<longleftrightarrow> (y, x) \<in> set (map (\<lambda>e. (snd e, fst e)) m)"
    by (rule map_of_eq_Some_iff)
  also have "\<dots> \<longleftrightarrow> (x, y) \<in> set m" by force
  also have "\<dots> \<longleftrightarrow> map_of m x = Some y" using assms(1) by (simp add: map_of_eq_Some_iff)
  finally show ?thesis by (simp add: reverse_map_eq[OF assms(2)])
qed

lemma reverse_map_none: "distinct (map snd m) \<Longrightarrow> map_of (reverse_map m) y = None \<longleftrightarrow> y \<notin> snd ` set m"
  by (auto simp: reverse_map_eq map_of_eq_None_iff image_image)

text \<open>The column maps of the reverse router, in the order of the columns maps they come from.\<close>

definition one_to_one :: "('a \<times> 'b) list \<Rightarrow> bool" where
  "one_to_one m \<longleftrightarrow> distinct (map fst m) \<and> distinct (map snd m)"

definition router_ok :: "rdb_router \<Rightarrow> bool" where
  "router_ok r \<longleftrightarrow>
     one_to_one (schema_map r) \<and> one_to_one (tb_map r) \<and> distinct (map fst (col_map r)) \<and>
     list_all (\<lambda>e. one_to_one (snd e)) (col_map r)"

lemma reverse_col_step_Inr:
  "reverse_col_step r acc e = Inr x \<longleftrightarrow>
     (\<exists>dst. map_of (tb_map r) (fst e) = Some dst \<and> x = AList.update dst (reverse_map (snd e)) acc)"
  unfolding reverse_col_step_def by (cases "map_of (tb_map r) (fst e)") auto

lemma fold_reverse_cols:
  assumes "one_to_one (tb_map r)" "distinct (map fst cols)"
    and "fold_res (reverse_col_step r) acc cols = Inr cols'"
    and "\<forall>e\<in>set acc. \<forall>k\<in>fst ` set cols. map_of (tb_map r) k \<noteq> Some (fst e)"
  shows "cols' = acc @ map (\<lambda>e. (the (map_of (tb_map r) (fst e)), reverse_map (snd e))) cols \<and>
    fst ` set cols \<subseteq> dom (map_of (tb_map r))"
  using assms(2-4)
proof (induction cols arbitrary: acc)
  case (Cons e cols)
  from Cons.prems(2) obtain dst where
    dst: "map_of (tb_map r) (fst e) = Some dst"
    "fold_res (reverse_col_step r) (AList.update dst (reverse_map (snd e)) acc) cols = Inr cols'"
    by (auto simp: bind_res_eq_Inr reverse_col_step_Inr)
  have inj: "map_of (tb_map r) k = Some dst \<Longrightarrow> k = fst e" for k
    using dst(1) assms(1) reverse_map_lookup[of "tb_map r"] unfolding one_to_one_def by (metis option.inject)
  have fresh: "dst \<notin> fst ` set acc" using Cons.prems(3) dst(1) by auto
  then have upd: "AList.update dst (reverse_map (snd e)) acc = acc @ [(dst, reverse_map (snd e))]"
    by (induction acc) auto
  have "\<forall>x\<in>set (acc @ [(dst, reverse_map (snd e))]). \<forall>k\<in>fst ` set cols. map_of (tb_map r) k \<noteq> Some (fst x)"
  proof (intro ballI)
    fix x k assume x: "x \<in> set (acc @ [(dst, reverse_map (snd e))])" and k: "k \<in> fst ` set cols"
    have "fst e \<notin> fst ` set cols" using Cons.prems(1) by simp
    with k have "k \<noteq> fst e" by metis
    then have "map_of (tb_map r) k \<noteq> Some dst" using inj by blast
    with x k Cons.prems(3) show "map_of (tb_map r) k \<noteq> Some (fst x)" by fastforce
  qed
  from Cons.IH[OF _ dst(2)[unfolded upd] this] Cons.prems(1) dst(1) show ?case by auto
qed simp

lemma reverse_maps:
  assumes "router_ok r" "router_reverse r = Inr r'"
  shows "schema_map r' = reverse_map (schema_map r)" "tb_map r' = reverse_map (tb_map r)"
    "col_map r' = map (\<lambda>e. (the (map_of (tb_map r) (fst e)), reverse_map (snd e))) (col_map r)"
    "fst ` set (col_map r) \<subseteq> dom (map_of (tb_map r))"
  using assms fold_reverse_cols[of r "col_map r" "[]"]
  by (auto simp: router_reverse_def map_res_eq_Inr router_ok_def)

section \<open>There and back\<close>

text \<open>
  A table whose target is its own: it is mapped by name, or its target is not the target of
  a mapped table, nor its schema, if not mapped, the target of a mapped schema.
\<close>

definition own_target :: "rdb_router \<Rightarrow> string \<Rightarrow> string \<Rightarrow> bool" where
  "own_target r schema tb \<longleftrightarrow>
     map_of (tb_map r) (schema, tb) \<noteq> None \<or>
     get_tb_map r schema tb \<notin> snd ` set (tb_map r) \<and>
     (map_of (schema_map r) schema \<noteq> None \<or> schema \<notin> snd ` set (schema_map r))"

text \<open>Columns that no mapped column takes the name of.\<close>

definition own_cols :: "(string, string) hash_map \<Rightarrow> col_values \<Rightarrow> bool" where
  "own_cols cm vals \<longleftrightarrow>
     distinct (map fst vals) \<and> list_all (\<lambda>e. map_of cm (fst e) \<noteq> None \<or> fst e \<notin> snd ` set cm) vals"

definition own_row :: "rdb_router \<Rightarrow> row_data \<Rightarrow> bool" where
  "own_row r row \<longleftrightarrow>
     own_target r (rd_schema row) (rd_tb row) \<and>
     (case get_col_map r (rd_schema row) (rd_tb row) of
        None \<Rightarrow> True
      | Some cm \<Rightarrow>
          (case rd_before row of Some vals \<Rightarrow> own_cols cm vals | None \<Rightarrow> True) \<and>
          (case rd_after row of Some vals \<Rightarrow> own_cols cm vals | None \<Rightarrow> True))"

lemma route_col_back:
  assumes "one_to_one cm" "map_of cm c \<noteq> None \<or> c \<notin> snd ` set cm"
  shows "route_col (reverse_map cm) (route_col cm c) = c"
proof (cases "map_of cm c")
  case (Some d)
  then have "map_of (reverse_map cm) d = Some c" using assms(1) by (simp add: one_to_one_def reverse_map_lookup)
  with Some show ?thesis by (simp add: route_col_def)
next
  case None
  with assms have "map_of (reverse_map cm) c = None" by (simp add: one_to_one_def reverse_map_none)
  with None show ?thesis by (simp add: route_col_def)
qed

lemma route_col_values_eq:
  "distinct (map (\<lambda>e. route_col cm (fst e)) vals) \<Longrightarrow> route_col_values cm vals = map (\<lambda>e. (route_col cm (fst e), snd e)) vals"
  using foldl_update_append[of "\<lambda>e. route_col cm (fst e)" vals "[]" snd] by (simp add: route_col_values_def)

lemma route_col_values_back:
  assumes "one_to_one cm" "own_cols cm vals"
  shows "route_col_values (reverse_map cm) (route_col_values cm vals) = vals"
proof -
  have there_back: "route_col (reverse_map cm) (route_col cm (fst e)) = fst e" if "e \<in> set vals" for e
    by (rule route_col_back[OF assms(1)]) (use assms(2) that in \<open>simp only: own_cols_def list_all_iff\<close>)
  have "inj_on (\<lambda>e. route_col cm (fst e)) (set vals)"
  proof (rule inj_onI)
    fix a b assume ab: "a \<in> set vals" "b \<in> set vals" "route_col cm (fst a) = route_col cm (fst b)"
    have "fst a = fst b" using arg_cong[OF ab(3), of "route_col (reverse_map cm)"]
      unfolding there_back[OF ab(1)] there_back[OF ab(2)] .
    moreover have "inj_on fst (set vals)" using assms(2) by (simp only: own_cols_def distinct_map)
    ultimately show "a = b" using ab(1,2) by (simp only: inj_on_eq_iff)
  qed
  moreover have "distinct vals" using assms(2) by (auto simp: own_cols_def distinct_map)
  ultimately have "distinct (map (\<lambda>e. route_col cm (fst e)) vals)" by (simp add: distinct_map)
  note routed = route_col_values_eq[OF this]
  have keys: "map (\<lambda>e. route_col (reverse_map cm) (fst e)) (map (\<lambda>e. (route_col cm (fst e), snd e)) vals) = map fst vals"
    using there_back by (simp add: comp_def)
  have "distinct (map fst vals)" using assms(2) by (simp add: own_cols_def)
  then have "route_col_values (reverse_map cm) (map (\<lambda>e. (route_col cm (fst e), snd e)) vals) =
      map (\<lambda>e. (route_col (reverse_map cm) (fst e), snd e)) (map (\<lambda>e. (route_col cm (fst e), snd e)) vals)"
    by (intro route_col_values_eq) (simp only: keys)
  also have "\<dots> = vals" using there_back by (simp add: comp_def map_idI)
  finally show ?thesis unfolding routed .
qed

lemma get_tb_map_back:
  assumes "router_ok r" "router_reverse r = Inr r'" "own_target r schema tb"
  shows "get_tb_map r' (fst (get_tb_map r schema tb)) (snd (get_tb_map r schema tb)) = (schema, tb)"
proof -
  note maps = reverse_maps[OF assms(1,2)]
  have o: "distinct (map fst (tb_map r))" "distinct (map snd (tb_map r))" "distinct (map fst (schema_map r))"
    "distinct (map snd (schema_map r))" using assms(1) by (simp_all add: router_ok_def one_to_one_def)
  show ?thesis
  proof (cases "map_of (tb_map r) (schema, tb)")
    case (Some dst)
    then have "map_of (tb_map r') dst = Some (schema, tb)" by (simp add: maps reverse_map_lookup[OF o(1,2)])
    with Some show ?thesis by (simp add: get_tb_map_def)
  next
    case None
    with assms(3) have t: "get_tb_map r schema tb \<notin> snd ` set (tb_map r)"
      "map_of (schema_map r) schema \<noteq> None \<or> schema \<notin> snd ` set (schema_map r)" by (auto simp: own_target_def)
    have n: "map_of (tb_map r') (get_tb_map r schema tb) = None" using t(1) by (simp add: maps reverse_map_none[OF o(2)])
    show ?thesis
    proof (cases "map_of (schema_map r) schema")
      case (Some d)
      then have "map_of (schema_map r') d = Some schema" by (simp add: maps reverse_map_lookup[OF o(3,4)])
      with n None Some show ?thesis by (simp add: get_tb_map_def)
    next
      case nos: None
      then have "map_of (schema_map r') schema = None" using t(2) by (simp add: maps reverse_map_none[OF o(4)])
      with n None nos show ?thesis by (simp add: get_tb_map_def)
    qed
  qed
qed

lemma map_of_map_key:
  "\<forall>e\<in>set m. f (fst e) = y \<longrightarrow> fst e = k \<Longrightarrow> f k = y \<Longrightarrow>
   map_of (map (\<lambda>e. (f (fst e), g (snd e))) m) y = map_option g (map_of m k)"
  by (induction m) auto

lemma get_col_map_back:
  assumes "router_ok r" "router_reverse r = Inr r'" "own_target r schema tb"
  shows "get_col_map r' (fst (get_tb_map r schema tb)) (snd (get_tb_map r schema tb)) =
    map_option reverse_map (get_col_map r schema tb)"
proof -
  note maps = reverse_maps[OF assms(1,2)]
  let ?dst = "get_tb_map r schema tb"
  have o: "distinct (map fst (tb_map r))" "distinct (map snd (tb_map r))"
    using assms(1) by (simp_all add: router_ok_def one_to_one_def)
  show ?thesis
  proof (cases "map_of (tb_map r) (schema, tb)")
    case (Some dst)
    have "fst e = (schema, tb)" if "e \<in> set (col_map r)" "the (map_of (tb_map r) (fst e)) = dst" for e
    proof -
      from maps(4) that(1) obtain d where "map_of (tb_map r) (fst e) = Some d" by blast
      with that(2) have "map_of (reverse_map (tb_map r)) dst = Some (fst e)" by (simp add: reverse_map_lookup[OF o])
      moreover from Some have "map_of (reverse_map (tb_map r)) dst = Some (schema, tb)" by (simp add: reverse_map_lookup[OF o])
      ultimately show ?thesis by simp
    qed
    then have "map_of (col_map r') dst = map_option reverse_map (map_of (col_map r) (schema, tb))"
      unfolding maps(3) by (intro map_of_map_key) (simp_all add: Some)
    with Some show ?thesis by (simp add: get_col_map_def get_tb_map_def)
  next
    case None
    have c: "map_of (col_map r) (schema, tb) = None"
      using subsetD[OF maps(4), of "(schema, tb)"] None unfolding map_of_eq_None_iff dom_map_of_conv_image_fst by blast
    have "?dst \<notin> fst ` set (col_map r')"
    proof
      assume "?dst \<in> fst ` set (col_map r')"
      then obtain e where e: "e \<in> set (col_map r)" "?dst = the (map_of (tb_map r) (fst e))" unfolding maps(3) by auto
      with maps(4) have "map_of (tb_map r) (fst e) = Some ?dst" by auto
      then have "?dst \<in> snd ` set (tb_map r)" by (metis map_of_SomeD imageI snd_conv)
      with assms(3) None show False by (simp add: own_target_def)
    qed
    then show ?thesis by (simp add: get_col_map_def c map_of_eq_None_iff)
  qed
qed

section \<open>Properties\<close>

text \<open>
  C26: The reversed router undoes the router: for maps that are one to one and a row none of
  whose names is also the target of another name, routing the row to the target and back gives the
  row: schema, table and the columns of both images. This is what lets a checker look a target row up
  in the source.
\<close>

theorem router_reverse_row:
  assumes "router_ok r" "router_reverse r = Inr r'" "own_row r row"
  shows "route_row r' (route_row r row) = row"
proof -
  let ?dst = "get_tb_map r (rd_schema row) (rd_tb row)"
  have own: "own_target r (rd_schema row) (rd_tb row)" using assms(3) by (simp add: own_row_def)
  note tb = get_tb_map_back[OF assms(1,2) own] and col = get_col_map_back[OF assms(1,2) own]
  show ?thesis
  proof (cases "get_col_map r (rd_schema row) (rd_tb row)")
    case None
    with tb col show ?thesis by (simp add: route_row_def case_prod_beta Let_def)
  next
    case (Some cm)
    then have "((rd_schema row, rd_tb row), cm) \<in> set (col_map r)" by (auto simp: get_col_map_def dest: map_of_SomeD)
    then have cm: "one_to_one cm" using assms(1) by (auto simp: router_ok_def list_all_iff)
    have "map_option (route_col_values (reverse_map cm)) (map_option (route_col_values cm) (rd_before row)) = rd_before row"
      "map_option (route_col_values (reverse_map cm)) (map_option (route_col_values cm) (rd_after row)) = rd_after row"
      using assms(3) Some route_col_values_back[OF cm]
      by (cases "rd_before row"; cases "rd_after row"; simp add: own_row_def)+
    with Some tb col show ?thesis by (simp add: route_row_def case_prod_beta Let_def)
  qed
qed

definition sample_router :: rdb_router where
  "sample_router =
     \<lparr>schema_map = [(''a'', ''b'')], tb_map = [((''s'', ''t''), (''s2'', ''t2''))],
      col_map = [((''s'', ''t''), [(''id'', ''key'')])], topic_map = []\<rparr>"

theorem router_reverse_row_witness:
  "\<exists>r'. router_reverse sample_router = Inr r' \<and>
     route_row r' (route_row sample_router (sample_insert ''s'' ''t'' ''1'' ''x'')) = sample_insert ''s'' ''t'' ''1'' ''x''"
proof -
  have ok: "router_ok sample_router" by (simp add: router_ok_def one_to_one_def sample_router_def)
  obtain r' where r': "router_reverse sample_router = Inr r'"
    by (simp add: router_reverse_def sample_router_def reverse_col_step_def)
  have "own_row sample_router (sample_insert ''s'' ''t'' ''1'' ''x'')"
    by (simp add: own_row_def own_target_def own_cols_def sample_router_def get_col_map_def sample_insert_def
        sample_cols_def row_data_new_def Let_def)
  from router_reverse_row[OF ok r' this] r' show ?thesis by blast
qed

text \<open>
  Reversing panics exactly when a table has a column map but no table map, which the
  router itself allows: \<open>route_row\<close> renames the columns of such a table.
\<close>

theorem router_reverse_panics:
  "(\<exists>msg. router_reverse r = Inl (Panic msg)) \<longleftrightarrow> list_ex (\<lambda>e. map_of (tb_map r) (fst e) = None) (col_map r)"
proof -
  have p: "(\<exists>msg. fold_res (reverse_col_step r) acc cols = Inl (Panic msg)) \<longleftrightarrow>
      list_ex (\<lambda>e. map_of (tb_map r) (fst e) = None) cols" for acc cols
    by (induction cols arbitrary: acc) (auto simp: reverse_col_step_def split: option.splits)
  show ?thesis unfolding p[of "[]", symmetric] router_reverse_def
    by (cases "fold_res (reverse_col_step r) [] (col_map r)") (simp_all add: map_res_def)
qed

text \<open>
  The statements about one table that are routed. \<open>ALTER TABLE ... SET SCHEMA\<close> names a table too, and is
  left as it is.
\<close>

definition table_statement :: "ddl_statement \<Rightarrow> bool" where
  "table_statement s \<longleftrightarrow>
     (case s of
        MysqlCreateTable _ _ _ _ \<Rightarrow> True | MysqlAlterTable _ _ _ \<Rightarrow> True | MysqlTruncateTable _ _ _ \<Rightarrow> True
      | MysqlCreateIndex _ _ _ _ _ _ \<Rightarrow> True | MysqlDropIndex _ _ _ _ \<Rightarrow> True | PgCreateTable _ _ _ _ _ _ \<Rightarrow> True
      | PgAlterTable _ _ _ _ _ \<Rightarrow> True | PgTruncateTable _ _ _ _ \<Rightarrow> True | PgCreateIndex _ _ _ _ _ _ _ _ \<Rightarrow> True
      | DropTable _ _ _ _ \<Rightarrow> True | MysqlAlterTableRename _ _ _ _ _ \<Rightarrow> True | PgAlterTableRename _ _ _ _ _ _ _ \<Rightarrow> True
      | RenameTable _ _ _ _ _ \<Rightarrow> True | _ \<Rightarrow> False)"

lemma route_statement_names:
  assumes "table_statement s"
  shows "\<not> is_rename s \<Longrightarrow>
      statement_schema_tb (ddl_statement_route s dst_schema dst_tb) = (set_nonempty (fst (statement_schema_tb s)) dst_schema, dst_tb)"
    "is_rename s \<Longrightarrow>
      statement_schema_tb (route_rename_table s dst_schema dst_tb new_schema new_tb) = (set_nonempty (fst (statement_schema_tb s)) dst_schema, dst_tb)"
    "is_rename s \<Longrightarrow>
      statement_rename_to_schema_tb (route_rename_table s dst_schema dst_tb new_schema new_tb) =
        (set_nonempty (fst (statement_rename_to_schema_tb s)) new_schema, new_tb)"
  using assms
  by (cases s; simp add: table_statement_def is_rename_def route_rename_table_def statement_rename_to_schema_tb_def)+

lemma route_ddl_names:
  assumes "table_statement (dd_statement d)"
  shows "ddl_get_schema_tb (route_ddl r d) =
    or_default (get_schema_map r (dd_default_schema d))
      (set_nonempty (fst (statement_schema_tb (dd_statement d))) (fst (get_tb_map r (fst (ddl_get_schema_tb d)) (snd (ddl_get_schema_tb d)))),
       snd (get_tb_map r (fst (ddl_get_schema_tb d)) (snd (ddl_get_schema_tb d))))"
  using route_statement_names[OF assms]
  by (cases "is_rename (dd_statement d)") (simp_all add: route_ddl_def ddl_get_schema_tb_def Let_def case_prod_beta)

definition is_set_schema :: "ddl_statement \<Rightarrow> bool" where
  "is_set_schema s = (case s of PgAlterTableSetSchema _ _ _ _ _ _ _ \<Rightarrow> True | _ \<Rightarrow> False)"

lemma names_table: "snd (statement_schema_tb s) \<noteq> [] \<Longrightarrow> table_statement s \<or> is_set_schema s"
  by (cases s) (simp_all add: table_statement_def is_set_schema_def)

lemma route_set_schema: "is_set_schema (dd_statement d) \<Longrightarrow> dd_statement (route_ddl r d) = dd_statement d"
  by (cases "dd_statement d") (simp_all add: is_set_schema_def route_ddl_def is_rename_def case_prod_beta Let_def)

lemma route_ddl_rename_names:
  assumes "table_statement (dd_statement d)" "is_rename (dd_statement d)"
    and "statement_rename_to_schema_tb (dd_statement d) = (new_schema, new_tb)" "new_schema \<noteq> []"
    and "fst (get_tb_map r new_schema new_tb) \<noteq> []"
  shows "ddl_get_rename_to_schema_tb (route_ddl r d) = get_tb_map r new_schema new_tb"
  using route_statement_names(3)[OF assms(1,2)] assms(2-5)
  by (simp add: route_ddl_def ddl_get_rename_to_schema_tb_def or_default_def set_nonempty_def case_prod_beta Let_def)

text \<open>
  C27: DDL follows the rows. Every statement that names a table with its schema written out is routed
  to the very table the rows of that table are routed to, and the new name of a rename is routed as
  the rows of a table of that name are. The exception is \<open>ALTER TABLE ... SET SCHEMA\<close>, which \<open>route\<close>
  leaves as it is: it is executed on the name the table has at the source.
\<close>

theorem route_ddl_target:
  assumes "statement_schema_tb (dd_statement d) = (schema, tb)" "schema \<noteq> []" "tb \<noteq> []"
    and "get_tb_map r schema tb = (dst_schema, dst_tb)" "dst_schema \<noteq> []"
  shows "ddl_get_schema_tb (route_ddl r d) =
      (if is_set_schema (dd_statement d) then (schema, tb) else (dst_schema, dst_tb)) \<and>
    (\<forall>new_schema new_tb.
       is_rename (dd_statement d) \<and> statement_rename_to_schema_tb (dd_statement d) = (new_schema, new_tb) \<and>
       new_schema \<noteq> [] \<and> fst (get_tb_map r new_schema new_tb) \<noteq> [] \<longrightarrow>
       ddl_get_rename_to_schema_tb (route_ddl r d) = get_tb_map r new_schema new_tb)"
proof (cases "is_set_schema (dd_statement d)")
  case True
  then have "\<not> is_rename (dd_statement d)" by (cases "dd_statement d") (simp_all add: is_set_schema_def is_rename_def)
  with True assms(1,2) show ?thesis by (simp add: ddl_get_schema_tb_def route_set_schema or_default_def)
next
  case False
  with names_table[of "dd_statement d"] assms(1,3) have ts: "table_statement (dd_statement d)" by simp
  have "ddl_get_schema_tb d = (schema, tb)" using assms(1,2) by (simp add: ddl_get_schema_tb_def or_default_def)
  with route_ddl_names[OF ts, of r] assms have "ddl_get_schema_tb (route_ddl r d) = (dst_schema, dst_tb)"
    by (simp add: or_default_def set_nonempty_def)
  with False route_ddl_rename_names[OF ts] show ?thesis by simp
qed

definition sample_alter :: "string \<Rightarrow> ddl_data" where
  "sample_alter schema = sample_ddl\<lparr>dd_default_schema := ''s'', dd_statement := MysqlAlterTable schema ''t'' ''add c int''\<rparr>"

definition sample_rename :: ddl_data where
  "sample_rename = sample_ddl\<lparr>dd_default_schema := ''s'', dd_statement := RenameTable ''s'' ''t'' ''s'' ''u'' []\<rparr>"

theorem route_ddl_target_witness:
  "ddl_get_schema_tb (route_ddl sample_router sample_rename) = (''s2'', ''t2'') \<and>
   ddl_get_rename_to_schema_tb (route_ddl sample_router sample_rename) = get_tb_map sample_router ''s'' ''u''"
proof -
  have st: "dd_statement sample_rename = RenameTable ''s'' ''t'' ''s'' ''u'' []" by (simp add: sample_rename_def)
  have tb: "get_tb_map sample_router ''s'' ''t'' = (''s2'', ''t2'')" "fst (get_tb_map sample_router ''s'' ''u'') \<noteq> []"
    by (simp_all add: get_tb_map_def get_schema_map_def sample_router_def)
  have "statement_schema_tb (dd_statement sample_rename) = (''s'', ''t'')" by (simp add: st)
  from route_ddl_target[OF this _ _ tb(1)] tb(2) show ?thesis
    by (simp add: st is_set_schema_def is_rename_def statement_rename_to_schema_tb_def)
qed

text \<open>
  C40: A statement without a schema does not follow the rows: its table is renamed by the table
  map but its schema comes from the schema map alone, so with a table map that moves the table to
  another schema the statement is executed on a table that does not exist, or on the wrong one.
\<close>

theorem route_ddl_unqualified:
  assumes "table_statement (dd_statement d)" "fst (statement_schema_tb (dd_statement d)) = []"
  shows "ddl_get_schema_tb (route_ddl r d) =
    (get_schema_map r (dd_default_schema d), snd (get_tb_map r (dd_default_schema d) (snd (statement_schema_tb (dd_statement d)))))"
proof -
  have "ddl_get_schema_tb d = (dd_default_schema d, snd (statement_schema_tb (dd_statement d)))"
    using assms(2) by (simp add: ddl_get_schema_tb_def or_default_def)
  then show ?thesis by (simp add: route_ddl_names[OF assms(1)] or_default_def set_nonempty_def assms(2))
qed

theorem route_ddl_unqualified_witness:
  "ddl_get_schema_tb (route_ddl sample_router (sample_alter [])) = (''s'', ''t2'') \<and>
   get_tb_map sample_router ''s'' ''t'' = (''s2'', ''t2'')"
  using route_ddl_unqualified[of "sample_alter []" sample_router]
  by (simp add: table_statement_def sample_alter_def sample_ddl_def get_tb_map_def get_schema_map_def sample_router_def)

end
