(* ===== verification/Rust_Std.thy ===== *)
theory Rust_Std
  imports Prelude
begin

text \<open>
  The parts of the Rust standard library the components use on bytes and strings: the bytes of a
  string, splitting, the check of \<open>String::from_utf8\<close>, and \<open>str::parse\<close> for integers.
\<close>

section \<open>Bytes and strings\<close>

definition as_bytes :: "string \<Rightarrow> u8 list" where
  "as_bytes s = map (\<lambda>c. of_nat (of_char c)) s"

definition byte_char :: "u8 \<Rightarrow> char" where
  "byte_char b = char_of (unat b)"

definition bytes_to_string :: "u8 list \<Rightarrow> string" where
  "bytes_to_string bs = map byte_char bs"

lemma bytes_to_string_as_bytes [simp]: "bytes_to_string (as_bytes s) = s"
proof -
  have "byte_char (of_nat (of_char c)) = c" for c :: char
  proof -
    have "unat (of_nat (of_char c) :: u8) = (of_char c :: nat)"
      by (simp add: unsigned_of_nat take_bit_nat_def)
    then show ?thesis by (simp add: byte_char_def)
  qed
  then show ?thesis by (simp add: bytes_to_string_def as_bytes_def comp_def)
qed

lemma length_as_bytes [simp]: "length (as_bytes s) = length s"
  by (simp add: as_bytes_def)

lemma as_bytes_simps [simp]: "as_bytes [] = []" "as_bytes (s @ t) = as_bytes s @ as_bytes t"
  by (simp_all add: as_bytes_def)

text \<open>\<open>str::split\<close> at an ASCII character.\<close>

fun split_char :: "char \<Rightarrow> string \<Rightarrow> string list" where
  "split_char c [] = [[]]" |
  "split_char c (x # xs) =
     (if x = c then [] # split_char c xs
      else case split_char c xs of y # ys \<Rightarrow> (x # y) # ys | [] \<Rightarrow> [[x]])"

section \<open>UTF-8\<close>

text \<open>The well-formed byte sequences of the Unicode standard, table 3-7.\<close>

definition between :: "u8 \<Rightarrow> nat \<Rightarrow> nat \<Rightarrow> bool" where
  "between b lo hi \<longleftrightarrow> lo \<le> unat b \<and> unat b \<le> hi"

fun utf8_valid :: "u8 list \<Rightarrow> bool" where
  "utf8_valid [] = True" |
  "utf8_valid (a # bs) =
     (if between a 0 0x7F then utf8_valid bs
      else
        (case bs of
           [] \<Rightarrow> False
         | b # cs \<Rightarrow>
             if between a 0xC2 0xDF then between b 0x80 0xBF \<and> utf8_valid cs
             else
               (case cs of
                  [] \<Rightarrow> False
                | c # ds \<Rightarrow>
                    if between a 0xE0 0xEF then
                      between b (if a = 0xE0 then 0xA0 else 0x80) (if a = 0xED then 0x9F else 0xBF) \<and>
                      between c 0x80 0xBF \<and> utf8_valid ds
                    else
                      (case ds of
                         [] \<Rightarrow> False
                       | d # es \<Rightarrow>
                           between a 0xF0 0xF4 \<and>
                           between b (if a = 0xF0 then 0x90 else 0x80) (if a = 0xF4 then 0x8F else 0xBF) \<and>
                           between c 0x80 0xBF \<and> between d 0x80 0xBF \<and> utf8_valid es))))"

definition from_utf8 :: "u8 list \<Rightarrow> string res" where
  "from_utf8 bs = (if utf8_valid bs then Inr (bytes_to_string bs) else Inl (Bail ''invalid utf-8 sequence''))"

section \<open>Integers\<close>

definition digit_value :: "char \<Rightarrow> nat option" where
  "digit_value c = (if 48 \<le> (of_char c :: nat) \<and> of_char c \<le> (57 :: nat) then Some (of_char c - 48) else None)"

fun parse_digits :: "nat \<Rightarrow> string \<Rightarrow> nat option" where
  "parse_digits acc [] = Some acc" |
  "parse_digits acc (c # s) =
     (case digit_value c of Some d \<Rightarrow> parse_digits (10 * acc + d) s | None \<Rightarrow> None)"

definition parse_magnitude :: "string \<Rightarrow> nat option" where
  "parse_magnitude s = (if s = [] then None else parse_digits 0 s)"

definition parse_integer_str :: "string \<Rightarrow> int option" where
  "parse_integer_str s =
     (case s of
        [] \<Rightarrow> None
      | c # t \<Rightarrow>
          if c = CHR ''-'' then map_option (\<lambda>n. - int n) (parse_magnitude t)
          else if c = CHR ''+'' then map_option int (parse_magnitude t)
          else map_option int (parse_magnitude s))"

text \<open>\<open>str::parse::<i64>\<close> and \<open>str::parse::<usize>\<close>.\<close>

definition parse_i64 :: "string \<Rightarrow> int option" where
  "parse_i64 s =
     (case parse_integer_str s of
        Some v \<Rightarrow> if - (2 ^ 63) \<le> v \<and> v < 2 ^ 63 then Some v else None
      | None \<Rightarrow> None)"

definition parse_usize :: "string \<Rightarrow> nat option" where
  "parse_usize s =
     (case (case s of c # t \<Rightarrow> if c = CHR ''+'' then parse_magnitude t else parse_magnitude s | [] \<Rightarrow> None) of
        Some n \<Rightarrow> if n < 2 ^ 64 then Some n else None
      | None \<Rightarrow> None)"

text \<open>\<open>str::parse\<close> for the other widths; a sign \<open>-\<close> is an error for an unsigned type.\<close>

definition parse_signed :: "nat \<Rightarrow> string \<Rightarrow> int option" where
  "parse_signed w s =
     (case parse_integer_str s of
        Some v \<Rightarrow> if - (2 ^ (w - 1)) \<le> v \<and> v < 2 ^ (w - 1) then Some v else None
      | None \<Rightarrow> None)"

definition parse_unsigned :: "nat \<Rightarrow> string \<Rightarrow> nat option" where
  "parse_unsigned w s =
     (case (case s of c # t \<Rightarrow> if c = CHR ''+'' then parse_magnitude t else parse_magnitude s | [] \<Rightarrow> None) of
        Some n \<Rightarrow> if n < 2 ^ w then Some n else None
      | None \<Rightarrow> None)"

section \<open>Printing and parsing\<close>

lemma digit_value_digit: "d < 10 \<Longrightarrow> digit_value (digit_char d) = Some d"
proof -
  assume "d < 10"
  then have "d + 48 < 256" by simp
  then have "of_char (digit_char d) = d + 48" by (simp only: digit_char_def of_char_of mod_less)
  with \<open>d < 10\<close> show ?thesis by (simp add: digit_value_def)
qed

lemma digit_char_not_sign: "d < 10 \<Longrightarrow> digit_char d \<noteq> CHR ''-'' \<and> digit_char d \<noteq> CHR ''+''"
  using digit_value_digit[of d] by (auto simp: digit_value_def)

lemma parse_digits_append:
  "parse_digits acc (s @ t) = (case parse_digits acc s of Some a \<Rightarrow> parse_digits a t | None \<Rightarrow> None)"
  by (induction s arbitrary: acc) (auto split: option.splits)

lemma parse_digits_print: "parse_digits 0 (nat_to_string n) = Some n"
proof (induction n rule: nat_to_string.induct)
  case (1 n)
  show ?case
  proof (cases "n < 10")
    case True
    then show ?thesis by (subst nat_to_string.simps) (simp add: digit_value_digit)
  next
    case False
    with 1 show ?thesis by (subst nat_to_string.simps) (simp add: parse_digits_append digit_value_digit)
  qed
qed

lemma nat_to_string_hd: "\<exists>d s. nat_to_string n = digit_char d # s \<and> d < 10"
proof (induction n rule: nat_to_string.induct)
  case (1 n)
  then show ?case by (cases "n < 10"; subst nat_to_string.simps) fastforce+
qed

lemma parse_integer_print: "parse_integer_str (nat_to_string n) = Some (int n)"
  using nat_to_string_hd[of n] parse_digits_print[of n] digit_char_not_sign
  by (auto simp: parse_integer_str_def parse_magnitude_def)

lemma parse_i64_print: "n < 2 ^ 63 \<Longrightarrow> parse_i64 (nat_to_string n) = Some (int n)"
  by (simp add: parse_i64_def parse_integer_print)

lemma parse_unsigned_print: "n < 2 ^ w \<Longrightarrow> parse_unsigned w (nat_to_string n) = Some n"
  using nat_to_string_hd[of n] parse_digits_print[of n] digit_char_not_sign
  by (auto simp: parse_unsigned_def parse_magnitude_def)

lemma parse_integer_print_int: "parse_integer_str (int_to_string i) = Some i"
  using parse_integer_print[of "nat i"] parse_digits_print[of "nat (- i)"]
  by (auto simp: int_to_string_def parse_integer_str_def[of "CHR ''-'' # t" for t] parse_magnitude_def)

lemma parse_signed_print:
  "- (2 ^ (w - 1)) \<le> i \<Longrightarrow> i < 2 ^ (w - 1) \<Longrightarrow> parse_signed w (int_to_string i) = Some i"
  by (simp add: parse_signed_def parse_integer_print_int)

lemma digit_byte: "d < 10 \<Longrightarrow> of_nat (of_char (digit_char d)) = (of_nat (d + 48) :: u8)"
proof -
  assume "d < 10"
  then have "d + 48 < 256" by simp
  then show ?thesis by (simp only: digit_char_def of_char_of mod_less)
qed

text \<open>The bytes of a number are ASCII digits.\<close>

lemma nat_to_string_bytes: "b \<in> set (as_bytes (nat_to_string n)) \<Longrightarrow> \<exists>d<10. b = of_nat (d + 48)"
proof (induction n rule: nat_to_string.induct)
  case (1 n)
  show ?case
  proof (cases "n < 10")
    case True
    with 1(2) show ?thesis by (subst (asm) nat_to_string.simps) (auto simp: as_bytes_def digit_byte)
  next
    case False
    have "b \<in> set (as_bytes (nat_to_string (n div 10))) \<or> b = of_nat (of_char (digit_char (n mod 10)))"
      using 1(2) False by (subst (asm) nat_to_string.simps) (auto simp: as_bytes_def)
    then show ?thesis using 1(1)[OF False] digit_byte[of "n mod 10"] by (auto intro: exI[of _ "n mod 10"])
  qed
qed

lemma utf8_ascii: "\<forall>b\<in>set bs. between b 0 0x7F \<Longrightarrow> utf8_valid bs"
  by (induction bs) simp_all

lemma utf8_digits: "utf8_valid (as_bytes (nat_to_string n))"
proof (rule utf8_ascii, rule ballI)
  fix b assume "b \<in> set (as_bytes (nat_to_string n))"
  then obtain d where "d < 10" "b = of_nat (d + 48)" using nat_to_string_bytes by blast
  moreover have "unat (of_nat (d + 48) :: u8) = (d + 48) mod 256" by (simp only: unsigned_of_nat take_bit_nat_def) simp
  ultimately show "between b 0 0x7F" by (simp add: between_def)
qed

end
