(* ===== verification/Redis_Resp.thy ===== *)
theory Redis_Resp
  imports Rust_Std Redis_Object
begin

text \<open>
  The Redis protocol: commands are written by
  \<open>dt-common/src/meta/redis/command/cmd_encoder.rs\<close> and values are read by
  \<open>dt-connector/src/extractor/redis/redis_resp_reader.rs\<close> (with the values of
  \<open>redis_resp_types.rs\<close>).

  The stream of the reader is the list of the bytes that are still to come; its end is the end of
  the connection. The reader calls itself for the elements of an array: the recursion has a fuel,
  and more fuel than the stream has bytes is always enough.
\<close>

section \<open>Writing\<close>

definition RESP_STRING :: u8 where "RESP_STRING = 0x24"
definition RESP_ARRAY :: u8 where "RESP_ARRAY = 0x2A"

definition write_crlf :: "u8 list" where
  "write_crlf = [13, 10]"

definition write_length :: "nat \<Rightarrow> u8 list" where
  "write_length len = as_bytes (nat_to_string len) @ write_crlf"

definition write_arg :: "u8 list \<Rightarrow> u8 list" where
  "write_arg arg = RESP_STRING # write_length (length arg) @ arg @ write_crlf"

definition encode :: "redis_cmd \<Rightarrow> u8 list" where
  "encode cmd = RESP_ARRAY # write_length (length (cmd_args cmd)) @ concat (map write_arg (cmd_args cmd))"

section \<open>Reading\<close>

datatype resp_value =
    RespNil
  | RespOkay
  | RespInt int
  | RespStatus string
  | RespData "u8 list"
  | RespBulk "resp_value list"

definition RESP_MAX_SIZE :: int where "RESP_MAX_SIZE = 512 * 1024 * 1024"
definition OK_RESPONSE :: "u8 list" where "OK_RESPONSE = [79, 75]"

fun read_until :: "u8 \<Rightarrow> u8 list \<Rightarrow> u8 list \<times> u8 list" where
  "read_until d [] = ([], [])" |
  "read_until d (b # bs) =
     (if b = d then ([b], bs) else (case read_until d bs of (line, rest) \<Rightarrow> (b # line, rest)))"

definition is_crlf :: "u8 \<Rightarrow> u8 \<Rightarrow> bool" where
  "is_crlf a b \<longleftrightarrow> a = 13 \<and> b = 10"

definition parse_integer :: "u8 list \<Rightarrow> int res" where
  "parse_integer bytes =
     bind_res (from_utf8 bytes) (\<lambda>s. case parse_i64 s of Some v \<Rightarrow> Inr v | None \<Rightarrow> Inl (Bail ''invalid digit''))"

text \<open>The payload of a bulk string: \<open>read_exact\<close> of its length and the line end.\<close>

definition read_bulk :: "nat \<Rightarrow> u8 list \<Rightarrow> (u8 list \<times> u8 list) res" where
  "read_bulk n rest =
     (if length rest < n + 2 then Inl (Bail ''unexpected end of file'')
      else if \<not> is_crlf (rest ! n) (rest ! (n + 1)) then Inl (Bail ''invalid CRLF'')
      else Inr (take n rest, drop (n + 2) rest))"

definition lift_fuel :: "('a \<Rightarrow> 'b res option) \<Rightarrow> 'a res option \<Rightarrow> 'b res option" where
  "lift_fuel f m =
     (case m of None \<Rightarrow> None | Some (Inl e) \<Rightarrow> Some (Inl e) | Some (Inr x) \<Rightarrow> f x)"

lemma lift_fuel_simps [simp]:
  "lift_fuel f None = None" "lift_fuel f (Some (Inl e)) = Some (Inl e)" "lift_fuel f (Some (Inr x)) = f x"
  by (simp_all add: lift_fuel_def)

lemma lift_fuel_cong [fundef_cong]:
  "m = m' \<Longrightarrow> (\<And>x. m' = Some (Inr x) \<Longrightarrow> f x = g x) \<Longrightarrow> lift_fuel f m = lift_fuel g m'"
  by (auto simp: lift_fuel_def split: option.splits sum.splits)

text \<open>
  The results: the value, the number of bytes read, and the rest of the stream. The first line
  settles every value but an array, for which it gives the number of elements.
\<close>

datatype resp_head =
    HeadValue "(resp_value \<times> nat \<times> u8 list) res"
  | HeadArray nat nat "u8 list"

definition decode_head :: "u8 list \<Rightarrow> resp_head" where
  "decode_head bs =
     (case read_until 10 bs of (res, rest) \<Rightarrow>
        (let len = length res in
         if len \<le> 1 then HeadValue (Inr (RespNil, len, rest))
         else if len < 3 then HeadValue (Inl (Bail (''too short: '' @ nat_to_string len)))
         else if \<not> is_crlf (res ! (len - 2)) (res ! (len - 1)) then HeadValue (Inl (Bail ''invalid CRLF''))
         else
           (let bytes = take (len - 3) (drop 1 res) in
            if hd res = 0x2B then
              (if bytes = OK_RESPONSE then HeadValue (Inr (RespOkay, len, rest))
               else HeadValue (map_res (\<lambda>s. (RespStatus s, len, rest)) (from_utf8 bytes)))
            else if hd res = 0x2D then HeadValue (bind_res (from_utf8 bytes) (\<lambda>s. Inl (Bail s)))
            else if hd res = 0x3A then HeadValue (map_res (\<lambda>v. (RespInt v, len, rest)) (parse_integer bytes))
            else if hd res = RESP_STRING then
              (case parse_integer bytes of
                 Inl e \<Rightarrow> HeadValue (Inl e)
               | Inr v \<Rightarrow>
                   if v = -1 then HeadValue (Inr (RespNil, len, rest))
                   else if v < -1 \<or> v \<ge> RESP_MAX_SIZE then
                     HeadValue (Inl (Bail (''invalid bulk length: '' @ int_to_string v)))
                   else HeadValue (map_res (\<lambda>(buf, rest'). (RespData buf, len + (nat v + 2), rest')) (read_bulk (nat v) rest)))
            else if hd res = RESP_ARRAY then
              (case parse_integer bytes of
                 Inl e \<Rightarrow> HeadValue (Inl e)
               | Inr v \<Rightarrow>
                   if v = -1 then HeadValue (Inr (RespNil, len, rest))
                   else if v < -1 \<or> v \<ge> RESP_MAX_SIZE then
                     HeadValue (Inl (Bail (''invalid array length: '' @ int_to_string v)))
                   else HeadArray len (nat v) rest)
            else HeadValue (Inl (Bail ''invalid RESP type'')))))"

fun decode :: "nat \<Rightarrow> u8 list \<Rightarrow> (resp_value \<times> nat \<times> u8 list) res option"
and decode_array :: "nat \<Rightarrow> nat \<Rightarrow> u8 list \<Rightarrow> (resp_value list \<times> nat \<times> u8 list) res option" where
  "decode 0 bs = None" |
  "decode (Suc fuel) bs =
     (case decode_head bs of
        HeadValue r \<Rightarrow> Some r
      | HeadArray len k rest \<Rightarrow>
          lift_fuel (\<lambda>(vals, n, rest'). Some (Inr (RespBulk vals, len + n, rest'))) (decode_array fuel k rest))" |
  "decode_array fuel 0 bs = Some (Inr ([], 0, bs))" |
  "decode_array fuel (Suc k) bs =
     lift_fuel (\<lambda>(val, n, rest).
       lift_fuel (\<lambda>(vals, n', rest'). Some (Inr (val # vals, n + n', rest'))) (decode_array fuel k rest))
       (decode fuel bs)"

definition resp_decode :: "u8 list \<Rightarrow> (resp_value \<times> nat \<times> u8 list) res option" where
  "resp_decode bs = decode (Suc (length bs)) bs"

section \<open>What the reader consumes\<close>

lemma read_until_append: "read_until d bs = (line, rest) \<Longrightarrow> line @ rest = bs"
  by (induction bs arbitrary: line) (auto split: if_splits prod.splits)

lemma read_until_line: "d \<notin> set line \<Longrightarrow> read_until d (line @ d # rest) = (line @ [d], rest)"
  by (induction line) auto

lemma lift_fuel_eq:
  "lift_fuel f m = None \<longleftrightarrow> m = None \<or> (\<exists>x. m = Some (Inr x) \<and> f x = None)"
  "lift_fuel f m = Some (Inr y) \<longleftrightarrow> (\<exists>x. m = Some (Inr x) \<and> f x = Some (Inr y))"
  by (cases m rule: option.exhaust; simp add: lift_fuel_def split: sum.splits)+

text \<open>What holds of every answer: it is one if the fuel is enough, and it accounts for its bytes.\<close>

definition answer_ok :: "nat \<Rightarrow> u8 list \<Rightarrow> ('v \<times> nat \<times> u8 list) res option \<Rightarrow> bool" where
  "answer_ok fuel bs r \<longleftrightarrow>
     (length bs < fuel \<longrightarrow> r \<noteq> None) \<and>
     (\<forall>v n rest. r = Some (Inr (v, n, rest)) \<longrightarrow> n \<le> length bs \<and> rest = drop n bs)"

lemma answer_ok_simps [simp]:
  "answer_ok fuel bs (Some (Inl e))"
  "answer_ok fuel bs (Some (Inr (v, n, rest))) \<longleftrightarrow> n \<le> length bs \<and> rest = drop n bs"
  by (simp_all add: answer_ok_def)

lemma answer_ok_map:
  "answer_ok fuel bs (Some (map_res f r)) \<longleftrightarrow> (\<forall>x. r = Inr x \<longrightarrow> answer_ok fuel bs (Some (Inr (f x))))"
  by (cases r) simp_all

lemma answer_ok_bail: "answer_ok fuel bs (Some (bind_res r (\<lambda>s. Inl (e s))))"
  by (cases r) simp_all

lemma answer_ok_array:
  assumes "answer_ok fuel rest r" "rest = drop len bs" "0 < len" "len \<le> length bs"
  shows "answer_ok (Suc fuel) bs (lift_fuel (\<lambda>(vals, n, rest'). Some (Inr (g vals, len + n, rest'))) r)"
proof -
  consider "r = None" | e where "r = Some (Inl e)" | v n rest' where "r = Some (Inr (v, n, rest'))"
    by (metis option.exhaust prod_cases3 sum.exhaust)
  then show ?thesis using assms by cases (auto simp: answer_ok_def add.commute)
qed

lemma answer_ok_Cons:
  assumes "answer_ok fuel bs r" "\<And>v n rest. r = Some (Inr (v, n, rest)) \<Longrightarrow> answer_ok fuel rest (next rest)"
  shows "answer_ok fuel bs (lift_fuel (\<lambda>(val, n, rest).
    lift_fuel (\<lambda>(vals, n', rest'). Some (Inr (val # vals, n + n', rest'))) (next rest)) r)"
proof -
  consider "r = None" | e where "r = Some (Inl e)" | v n rest where "r = Some (Inr (v, n, rest))"
    by (metis option.exhaust prod_cases3 sum.exhaust)
  then show ?thesis
  proof cases
    case 3
    with assms(1) have rest: "n \<le> length bs" "rest = drop n bs" by simp_all
    have a: "answer_ok fuel rest (next rest)" by (rule assms(2)[OF 3])
    consider "next rest = None" | e where "next rest = Some (Inl e)" | vs n' rest' where "next rest = Some (Inr (vs, n', rest'))"
      by (metis option.exhaust prod_cases3 sum.exhaust)
    then show ?thesis using a by cases (use 3 rest in \<open>simp_all add: answer_ok_def add.commute\<close>)
  qed (use assms(1) in \<open>simp_all add: answer_ok_def\<close>)
qed

lemma read_bulk_ok: "read_bulk n rest = Inr (buf, rest') \<Longrightarrow> n + 2 \<le> length rest \<and> rest' = drop (n + 2) rest"
  by (auto simp: read_bulk_def split: if_splits)

lemma decode_head_ok:
  "decode_head bs = HeadValue r \<Longrightarrow> answer_ok fuel bs (Some r)"
  "decode_head bs = HeadArray len k rest \<Longrightarrow> rest = drop len bs \<and> 0 < len \<and> len \<le> length bs"
proof -
  obtain line rest' where l: "read_until 10 bs = (line, rest')" by (cases "read_until 10 bs")
  have len: "rest' = drop (length line) bs" "length line \<le> length bs" using read_until_append[OF l] by auto
  show "answer_ok fuel bs (Some r)" if "decode_head bs = HeadValue r"
    using that len
    by (auto simp: decode_head_def l Let_def answer_ok_map answer_ok_bail add.commute dest!: read_bulk_ok
        split: if_splits sum.splits)
  show "rest = drop len bs \<and> 0 < len \<and> len \<le> length bs" if "decode_head bs = HeadArray len k rest"
    using that len by (auto simp: decode_head_def l Let_def split: if_splits sum.splits)
qed

lemma decode_answer_ok:
  "answer_ok fuel bs (decode fuel bs)"
  "answer_ok fuel bs' (decode_array fuel k bs')"
proof (induction fuel bs and fuel k bs' rule: decode_decode_array.induct)
  case (1 bs)
  then show ?case by (simp add: answer_ok_def)
next
  case (2 fuel bs)
  show ?case
  proof (cases "decode_head bs")
    case (HeadValue r)
    then show ?thesis using decode_head_ok(1) by simp
  next
    case (HeadArray len k rest)
    with 2[OF HeadArray] decode_head_ok(2)[OF HeadArray] show ?thesis
      by (simp only: decode.simps resp_head.case) (intro answer_ok_array, simp_all)
  qed
next
  case (4 fuel k bs)
  show ?case unfolding decode_array.simps
    by (rule answer_ok_Cons[OF 4(1)]) (rule 4(2)[OF _ refl refl])
qed simp

section \<open>The round trip\<close>

definition resp_size_ok :: "redis_cmd \<Rightarrow> bool" where
  "resp_size_ok cmd \<longleftrightarrow>
     int (length (cmd_args cmd)) < RESP_MAX_SIZE \<and> list_all (\<lambda>arg. int (length arg) < RESP_MAX_SIZE) (cmd_args cmd)"

lemma digits_no_newline: "(10 :: u8) \<notin> set (as_bytes (nat_to_string n))"
proof
  assume "(10 :: u8) \<in> set (as_bytes (nat_to_string n))"
  then obtain d where d: "d < 10" "(10 :: u8) = of_nat (d + 48)" using nat_to_string_bytes by blast
  have "unat (10 :: u8) = unat (of_nat (d + 48) :: u8)" by (rule arg_cong[OF d(2)])
  also have "\<dots> = (d + 48) mod 256" by (simp only: unsigned_of_nat take_bit_nat_def) simp
  finally show False using d(1) by simp
qed

lemma read_header:
  assumes "t \<noteq> 10"
  shows "read_until 10 (t # write_length n @ rest) = (t # write_length n, rest)"
  using read_until_line[of 10 "t # as_bytes (nat_to_string n) @ [13]" rest] digits_no_newline assms
  by (simp add: write_length_def write_crlf_def)

lemma parse_length: "int n < RESP_MAX_SIZE \<Longrightarrow> parse_integer (as_bytes (nat_to_string n)) = Inr (int n)"
  by (simp add: parse_integer_def from_utf8_def utf8_digits parse_i64_print RESP_MAX_SIZE_def)

lemma header_facts:
  fixes t :: u8 and n :: nat
  defines "line \<equiv> t # write_length n"
  shows "length line \<ge> 4" "is_crlf (line ! (length line - 2)) (line ! (length line - 1))" "hd line = t"
    "take (length line - 3) (drop 1 line) = as_bytes (nat_to_string n)"
proof -
  have "length (nat_to_string n) > 0" by simp
  then show "length line \<ge> 4" by (simp add: line_def write_length_def write_crlf_def del: nat_to_string_ne length_greater_0_conv)
qed (simp_all add: line_def write_length_def write_crlf_def is_crlf_def nth_append nth_Cons')

lemma decode_head_line:
  assumes "read_until 10 bs = (line, rest)" "length line \<ge> 4" "is_crlf (line ! (length line - 2)) (line ! (length line - 1))"
    and "parse_integer (take (length line - 3) (drop 1 line)) = Inr (int n)" "int n < RESP_MAX_SIZE"
  shows "hd line = RESP_ARRAY \<Longrightarrow> decode_head bs = HeadArray (length line) n rest"
    "hd line = RESP_STRING \<Longrightarrow> decode_head bs =
       HeadValue (map_res (\<lambda>(buf, rest'). (RespData buf, length line + (n + 2), rest')) (read_bulk n rest))"
  using assms by (simp_all add: decode_head_def Let_def RESP_ARRAY_def RESP_STRING_def)

lemma decode_head_header:
  assumes "int n < RESP_MAX_SIZE"
  shows "decode_head (RESP_ARRAY # write_length n @ rest) = HeadArray (length (RESP_ARRAY # write_length n)) n rest"
    "decode_head (RESP_STRING # write_length n @ rest) =
       HeadValue (map_res (\<lambda>(buf, rest'). (RespData buf, length (RESP_STRING # write_length n) + (n + 2), rest')) (read_bulk n rest))"
proof -
  have p: "parse_integer (take (length (t # write_length n) - 3) (drop 1 (t # write_length n))) = Inr (int n)" for t
    unfolding header_facts(4) by (rule parse_length[OF assms])
  have "RESP_ARRAY \<noteq> 10" "RESP_STRING \<noteq> 10" by (simp_all add: RESP_ARRAY_def RESP_STRING_def)
  from decode_head_line(1)[OF read_header[OF this(1)] header_facts(1,2) p assms header_facts(3)]
    decode_head_line(2)[OF read_header[OF this(2)] header_facts(1,2) p assms header_facts(3)]
  show "decode_head (RESP_ARRAY # write_length n @ rest) = HeadArray (length (RESP_ARRAY # write_length n)) n rest"
    "decode_head (RESP_STRING # write_length n @ rest) =
       HeadValue (map_res (\<lambda>(buf, rest'). (RespData buf, length (RESP_STRING # write_length n) + (n + 2), rest')) (read_bulk n rest))" .
qed

lemma decode_arg:
  assumes "int (length arg) < RESP_MAX_SIZE"
  shows "decode (Suc fuel) (write_arg arg @ rest) = Some (Inr (RespData arg, length (write_arg arg), rest))"
proof -
  have "read_bulk (length arg) (arg @ write_crlf @ rest) = Inr (arg, rest)"
    by (simp add: read_bulk_def write_crlf_def is_crlf_def nth_append)
  then show ?thesis using decode_head_header(2)[OF assms, of "arg @ write_crlf @ rest"]
    by (simp add: write_arg_def write_crlf_def)
qed

lemma decode_args:
  "list_all (\<lambda>arg. int (length arg) < RESP_MAX_SIZE) args \<Longrightarrow>
   decode_array (Suc fuel) (length args) (concat (map write_arg args) @ rest) =
     Some (Inr (map RespData args, length (concat (map write_arg args)), rest))"
  by (induction args) (simp_all add: decode_arg del: decode.simps)

text \<open>
  C21: A command sent is a command read: what the reader decodes from an encoded command is the
  array of its arguments, byte for byte whatever they contain, it reports as many bytes as the
  encoder wrote, and it leaves the rest of the stream untouched, so that commands sent one after the
  other are read one after the other.
\<close>

theorem resp_encode_decode:
  assumes "resp_size_ok cmd"
  shows "decode (Suc (Suc fuel)) (encode cmd @ rest) =
    Some (Inr (RespBulk (map RespData (cmd_args cmd)), length (encode cmd), rest))"
proof -
  have n: "int (length (cmd_args cmd)) < RESP_MAX_SIZE" using assms by (simp add: resp_size_ok_def)
  have a: "list_all (\<lambda>arg. int (length arg) < RESP_MAX_SIZE) (cmd_args cmd)" using assms by (simp add: resp_size_ok_def)
  show ?thesis using decode_args[OF a] decode_head_header(1)[OF n]
    by (simp add: encode_def)
qed

theorem resp_encode_decode_witness:
  "decode 2 (encode (from_args [[83, 69, 84], [13, 10], []]) @ [43]) =
     Some (Inr (RespBulk [RespData [83, 69, 84], RespData [13, 10], RespData []],
       length (encode (from_args [[83, 69, 84], [13, 10], []])), [43]))"
  using resp_encode_decode[of "from_args [[83, 69, 84], [13, 10], []]" 0 "[43]"]
  by (simp add: resp_size_ok_def from_args_def redis_cmd_new_def RESP_MAX_SIZE_def numeral_2_eq_2 del: decode.simps)

text \<open>
  C22: The reader always answers, on any stream: the recursion for nested arrays ends, and
  whenever it returns a value, the length it reports is the number of bytes it took from the
  stream. Replication offsets are advanced by that length.
\<close>

theorem resp_decode_total:
  "\<exists>r. resp_decode bs = Some r \<and>
     (\<forall>v n rest. r = Inr (v, n, rest) \<longrightarrow> n \<le> length bs \<and> rest = drop n bs)"
  using decode_answer_ok(1)[of "Suc (length bs)" bs] by (auto simp: resp_decode_def answer_ok_def)

theorem resp_decode_total_witness: "\<exists>r. resp_decode [42, 49, 13, 10] = Some r"
  using resp_decode_total[of "[42, 49, 13, 10]"] by blast

end
