(* ===== verification/Redis_Key.thy ===== *)
theory Redis_Key
  imports Rust_Std Redis_Object
begin

unbundle bit_operations_syntax

text \<open>
  \<open>dt-common/src/meta/redis/command/key_parser.rs\<close>, \<open>cmd_meta.rs\<close> and the table of
  \<open>cmd_constants.rs\<close>: the keys of a command and the cluster slot of a key, with \<open>parse_keys\<close> of
  \<open>redis_object.rs\<close> and \<open>cal_slots\<close> of \<open>redis_entry.rs\<close>.

  The command table, a JSON document in the source, is the content of the parser's state. The
  Unicode upper case of the standard library is an argument. The indices are \<open>i32\<close> in the source and
  \<open>int\<close> here: argument counts are far below the limit.
\<close>

section \<open>Slots\<close>

definition CRC16_TABLE :: "u16 list" where
  "CRC16_TABLE = [
      0x0000, 0x1021, 0x2042, 0x3063, 0x4084, 0x50a5, 0x60c6, 0x70e7, 0x8108, 0x9129, 0xa14a, 0xb16b,
      0xc18c, 0xd1ad, 0xe1ce, 0xf1ef, 0x1231, 0x0210, 0x3273, 0x2252, 0x52b5, 0x4294, 0x72f7, 0x62d6,
      0x9339, 0x8318, 0xb37b, 0xa35a, 0xd3bd, 0xc39c, 0xf3ff, 0xe3de, 0x2462, 0x3443, 0x0420, 0x1401,
      0x64e6, 0x74c7, 0x44a4, 0x5485, 0xa56a, 0xb54b, 0x8528, 0x9509, 0xe5ee, 0xf5cf, 0xc5ac, 0xd58d,
      0x3653, 0x2672, 0x1611, 0x0630, 0x76d7, 0x66f6, 0x5695, 0x46b4, 0xb75b, 0xa77a, 0x9719, 0x8738,
      0xf7df, 0xe7fe, 0xd79d, 0xc7bc, 0x48c4, 0x58e5, 0x6886, 0x78a7, 0x0840, 0x1861, 0x2802, 0x3823,
      0xc9cc, 0xd9ed, 0xe98e, 0xf9af, 0x8948, 0x9969, 0xa90a, 0xb92b, 0x5af5, 0x4ad4, 0x7ab7, 0x6a96,
      0x1a71, 0x0a50, 0x3a33, 0x2a12, 0xdbfd, 0xcbdc, 0xfbbf, 0xeb9e, 0x9b79, 0x8b58, 0xbb3b, 0xab1a,
      0x6ca6, 0x7c87, 0x4ce4, 0x5cc5, 0x2c22, 0x3c03, 0x0c60, 0x1c41, 0xedae, 0xfd8f, 0xcdec, 0xddcd,
      0xad2a, 0xbd0b, 0x8d68, 0x9d49, 0x7e97, 0x6eb6, 0x5ed5, 0x4ef4, 0x3e13, 0x2e32, 0x1e51, 0x0e70,
      0xff9f, 0xefbe, 0xdfdd, 0xcffc, 0xbf1b, 0xaf3a, 0x9f59, 0x8f78, 0x9188, 0x81a9, 0xb1ca, 0xa1eb,
      0xd10c, 0xc12d, 0xf14e, 0xe16f, 0x1080, 0x00a1, 0x30c2, 0x20e3, 0x5004, 0x4025, 0x7046, 0x6067,
      0x83b9, 0x9398, 0xa3fb, 0xb3da, 0xc33d, 0xd31c, 0xe37f, 0xf35e, 0x02b1, 0x1290, 0x22f3, 0x32d2,
      0x4235, 0x5214, 0x6277, 0x7256, 0xb5ea, 0xa5cb, 0x95a8, 0x8589, 0xf56e, 0xe54f, 0xd52c, 0xc50d,
      0x34e2, 0x24c3, 0x14a0, 0x0481, 0x7466, 0x6447, 0x5424, 0x4405, 0xa7db, 0xb7fa, 0x8799, 0x97b8,
      0xe75f, 0xf77e, 0xc71d, 0xd73c, 0x26d3, 0x36f2, 0x0691, 0x16b0, 0x6657, 0x7676, 0x4615, 0x5634,
      0xd94c, 0xc96d, 0xf90e, 0xe92f, 0x99c8, 0x89e9, 0xb98a, 0xa9ab, 0x5844, 0x4865, 0x7806, 0x6827,
      0x18c0, 0x08e1, 0x3882, 0x28a3, 0xcb7d, 0xdb5c, 0xeb3f, 0xfb1e, 0x8bf9, 0x9bd8, 0xabbb, 0xbb9a,
      0x4a75, 0x5a54, 0x6a37, 0x7a16, 0x0af1, 0x1ad0, 0x2ab3, 0x3a92, 0xfd2e, 0xed0f, 0xdd6c, 0xcd4d,
      0xbdaa, 0xad8b, 0x9de8, 0x8dc9, 0x7c26, 0x6c07, 0x5c64, 0x4c45, 0x3ca2, 0x2c83, 0x1ce0, 0x0cc1,
      0xef1f, 0xff3e, 0xcf5d, 0xdf7c, 0xaf9b, 0xbfba, 0x8fd9, 0x9ff8, 0x6e17, 0x7e36, 0x4e55, 0x5e74,
      0x2e93, 0x3eb2, 0x0ed1, 0x1ef0]"

definition crc16_step :: "u16 \<Rightarrow> u8 \<Rightarrow> u16" where
  "crc16_step crc n = push_bit 8 crc XOR CRC16_TABLE ! unat ((drop_bit 8 crc XOR ucast n) AND 0x00FF)"

definition crc16 :: "u8 list \<Rightarrow> u16" where
  "crc16 key = foldl crc16_step 0 key"

text \<open>The two nested loops: the first opening brace after which there is a closing one.\<close>

fun closing_brace :: "u8 list \<Rightarrow> nat \<Rightarrow> nat list \<Rightarrow> u8 list option" where
  "closing_brace key_bytes i [] = None" |
  "closing_brace key_bytes i (k # ks) =
     (if key_bytes ! k = 125 then Some (take (k - (i + 1)) (drop (i + 1) key_bytes))
      else closing_brace key_bytes i ks)"

fun hash_tag_from :: "u8 list \<Rightarrow> nat list \<Rightarrow> u8 list option" where
  "hash_tag_from key_bytes [] = None" |
  "hash_tag_from key_bytes (i # is) =
     (case (if key_bytes ! i = 123 then closing_brace key_bytes i [i..<length key_bytes] else None) of
        Some tag \<Rightarrow> Some tag
      | None \<Rightarrow> hash_tag_from key_bytes is)"

definition calc_slot :: "u8 list \<Rightarrow> u16" where
  "calc_slot key_bytes =
     (case hash_tag_from key_bytes [0..<length key_bytes] of
        Some tag \<Rightarrow> if tag \<noteq> [] then crc16 tag AND 0x3FFF else crc16 key_bytes AND 0x3FFF
      | None \<Rightarrow> crc16 key_bytes AND 0x3FFF)"

section \<open>Keys of a command\<close>

record key_spec =
  begin_search_type :: string
  begin_search_index :: int
  begin_search_keyword :: string
  begin_search_start_from :: int
  find_keys_type :: string
  find_keys_range_last_key :: int
  find_keys_range_key_step :: nat
  find_keys_range_limit :: int
  find_keys_keynum_index :: int
  find_keys_keynum_first_key :: int
  find_keys_keynum_key_step :: nat

record cmd_meta =
  cmt_name :: string
  cmt_group :: string
  cmt_key_spec :: "key_spec list"

record key_parser =
  container_cmds :: "string list"
  cmd_metas :: "(string, cmd_meta) hash_map"

definition arg_at :: "string list \<Rightarrow> int \<Rightarrow> string res" where
  "arg_at argv idx =
     (if 0 \<le> idx \<and> idx < int (length argv) then Inr (argv ! nat idx) else Inl (Panic ''index out of bounds''))"

function find_keyword :: "(string \<Rightarrow> string) \<Rightarrow> string list \<Rightarrow> string \<Rightarrow> string \<Rightarrow> bool \<Rightarrow> int \<Rightarrow> int res" where
  "find_keyword upper argv cmd keyword up idx =
     (if idx \<le> 0 \<or> idx \<ge> int (length argv) then Inl (Bail (''keyword not found: '' @ cmd))
      else if upper (argv ! nat idx) = keyword then Inr (idx + 1)
      else find_keyword upper argv cmd keyword up (if up then idx + 1 else idx - 1))"
  by pat_completeness auto
termination
  by (relation "measure (\<lambda>(_, argv, _, _, up, idx). nat (if up then int (length argv) - idx else idx))") auto

declare find_keyword.simps [simp del]

definition begin_search :: "(string \<Rightarrow> string) \<Rightarrow> string list \<Rightarrow> string \<Rightarrow> key_spec \<Rightarrow> int res" where
  "begin_search upper argv cmd spec =
     (if begin_search_type spec = ''index'' then Inr (begin_search_index spec)
      else if begin_search_type spec = ''keyword'' then
        (if begin_search_start_from spec > 0
         then find_keyword upper argv cmd (begin_search_keyword spec) True (begin_search_start_from spec)
         else find_keyword upper argv cmd (begin_search_keyword spec) False
                (int (length argv) + begin_search_start_from spec))
      else Inl (Bail (''unsupported begin search type: '' @ begin_search_type spec)))"

text \<open>\<open>(first..=last).step_by(step)\<close>, and division rounding towards zero.\<close>

definition range_by :: "int \<Rightarrow> int \<Rightarrow> nat \<Rightarrow> int list" where
  "range_by fst' lst step =
     (if lst < fst' then []
      else map (\<lambda>i. fst' + int i * int step) [0..<Suc (nat ((lst - fst') div int step))])"

definition quot :: "int \<Rightarrow> int \<Rightarrow> int" where
  "quot a b = sgn a * (\<bar>a\<bar> div b)"

text \<open>The pairs of a key and its index (counted from one).\<close>

fun range_keys :: "string list \<Rightarrow> int \<Rightarrow> int list \<Rightarrow> (string \<times> nat) list res" where
  "range_keys argv limit_count [] = Inr []" |
  "range_keys argv limit_count (idx # idxs) =
     bind_res (arg_at argv idx) (\<lambda>key.
       if limit_count - 1 \<le> 0 then Inr [(key, nat idx + 1)]
       else map_res ((#) (key, nat idx + 1)) (range_keys argv (limit_count - 1) idxs))"

fun keynum_keys :: "string list \<Rightarrow> int \<Rightarrow> nat \<Rightarrow> nat \<Rightarrow> (string \<times> nat) list res" where
  "keynum_keys argv idx step 0 = Inr []" |
  "keynum_keys argv idx step (Suc n) =
     bind_res (arg_at argv idx) (\<lambda>key.
       map_res ((#) (key, nat idx + 1)) (keynum_keys argv (idx + int step) step n))"

definition find_keys :: "string list \<Rightarrow> key_spec \<Rightarrow> int \<Rightarrow> (string \<times> nat) list res" where
  "find_keys argv spec begin' =
     (if find_keys_type spec = ''range'' then
        (let arg_cout = int (length argv);
             last_key_idx = (if find_keys_range_last_key spec \<ge> 0 then begin' + find_keys_range_last_key spec
                             else arg_cout + find_keys_range_last_key spec);
             limit_count = (if find_keys_range_limit spec \<ge> 2 then quot (arg_cout - begin') (find_keys_range_limit spec)
                            else 2147483647)
         in if find_keys_range_key_step spec = 0 then Inl (Panic ''assertion failed: step != 0'')
            else range_keys argv limit_count (range_by begin' last_key_idx (find_keys_range_key_step spec)))
      else if find_keys_type spec = ''keynum'' then
        (let keynum_idx = begin' + find_keys_keynum_index spec
         in if keynum_idx < 0 \<or> keynum_idx > int (length argv) then
              Inl (Bail (''wrong keynumidx: '' @ int_to_string keynum_idx))
            else
              bind_res (arg_at argv keynum_idx) (\<lambda>arg.
                case parse_usize arg of
                  None \<Rightarrow> Inl (Panic ''called `Result::unwrap()` on an `Err` value'')
                | Some key_count \<Rightarrow>
                    if find_keys_keynum_key_step spec = 0 then Inl (Panic ''assertion failed: step != 0'')
                    else keynum_keys argv (begin' + find_keys_keynum_first_key spec) (find_keys_keynum_key_step spec) key_count))
      else Inl (Bail (''unsupported find keys type: '' @ find_keys_type spec)))"

definition spec_keys ::
  "(string \<Rightarrow> string) \<Rightarrow> string list \<Rightarrow> string \<Rightarrow> (string \<times> nat) list \<Rightarrow> key_spec \<Rightarrow> (string \<times> nat) list res" where
  "spec_keys upper argv cmd keys spec =
     bind_res (begin_search upper argv cmd spec) (\<lambda>begin'.
       map_res (\<lambda>found. keys @ found) (find_keys argv spec begin'))"

definition parse_key_from_argv ::
  "(string \<Rightarrow> string) \<Rightarrow> key_parser \<Rightarrow> string list \<Rightarrow> (string \<times> string \<times> string list \<times> nat list) res" where
  "parse_key_from_argv upper p argv =
     bind_res (arg_at argv 0) (\<lambda>arg0.
     bind_res (if upper arg0 \<in> set (container_cmds p)
               then map_res (\<lambda>arg1. upper arg0 @ ''-'' @ upper arg1) (arg_at argv 1)
               else Inr (upper arg0)) (\<lambda>cmd.
       case map_of (cmd_metas p) cmd of
         None \<Rightarrow> Inl (Bail (''unknown command: '' @ cmd))
       | Some meta \<Rightarrow>
           map_res (\<lambda>keys. (cmd, cmt_group meta, map fst keys, map snd keys))
             (fold_res (spec_keys upper argv cmd) [] (cmt_key_spec meta))))"

definition parse_keys ::
  "(string \<Rightarrow> string) \<Rightarrow> (u8 list \<Rightarrow> string) \<Rightarrow> key_parser \<Rightarrow> redis_cmd \<Rightarrow> redis_cmd res" where
  "parse_keys upper from_utf8_lossy p cmd =
     map_res (\<lambda>(name, grp, keys, keys_indexes).
         cmd\<lparr>cmd_name := name, cmd_group := grp, cmd_keys := keys, cmd_key_indexes := keys_indexes\<rparr>)
       (parse_key_from_argv upper p (args_to_string from_utf8_lossy cmd))"

definition cal_slots ::
  "(string \<Rightarrow> string) \<Rightarrow> (u8 list \<Rightarrow> string) \<Rightarrow> key_parser \<Rightarrow> redis_entry \<Rightarrow> (u16 list \<times> redis_entry) res" where
  "cal_slots upper from_utf8_lossy p entry =
     (if re_is_base entry then Inr ([calc_slot (re_key entry)], entry)
      else
        bind_res (if cmd_keys (re_cmd entry) = []
                  then map_res (\<lambda>cmd. entry\<lparr>re_cmd := cmd\<rparr>) (parse_keys upper from_utf8_lossy p (re_cmd entry))
                  else Inr entry) (\<lambda>entry'.
          Inr (map (\<lambda>key. calc_slot (as_bytes key)) (cmd_keys (re_cmd entry')), entry')))"

section \<open>The reference: CRC-16/XMODEM bit by bit\<close>

definition crc_shift :: "u16 \<Rightarrow> u16" where
  "crc_shift c = push_bit 1 c XOR (if bit c 15 then 0x1021 else 0)"

definition crc_byte :: "u16 \<Rightarrow> u8 \<Rightarrow> u16" where
  "crc_byte crc n = (crc_shift ^^ 8) (crc XOR push_bit 8 (ucast n))"

definition crc16_xmodem :: "u8 list \<Rightarrow> u16" where
  "crc16_xmodem key = foldl crc_byte 0 key"

lemma crc_shift_xor: "crc_shift (a XOR b) = crc_shift a XOR crc_shift b"
  by (simp add: crc_shift_def push_bit_xor bit_xor_iff xor.assoc xor.left_commute)

lemma crc_shift_pow_xor: "(crc_shift ^^ k) (a XOR b) = (crc_shift ^^ k) a XOR (crc_shift ^^ k) b"
  by (induction k) (simp_all add: crc_shift_xor)

lemma crc_table_double:
  "CRC16_TABLE = concat (map (\<lambda>t. [crc_shift t, crc_shift t XOR 0x1021]) (take 128 CRC16_TABLE))"
  by (simp add: CRC16_TABLE_def crc_shift_def)

lemma nth_concat_pairs:
  "i < length xs \<Longrightarrow> concat (map (\<lambda>t. [f t, g t]) xs) ! (2 * i) = f (xs ! i)"
  "i < length xs \<Longrightarrow> concat (map (\<lambda>t. [f t, g t]) xs) ! Suc (2 * i) = g (xs ! i)"
proof (induction xs arbitrary: i)
  case (Cons x xs)
  case 1
  with Cons show ?case by (cases i) simp_all
next
  case (Cons x xs)
  case 2
  with Cons show ?case by (cases i) simp_all
qed simp_all

lemma crc_table_length: "length CRC16_TABLE = 256"
  by (simp add: CRC16_TABLE_def)

lemma crc_table_step:
  assumes "i < 128"
  shows "CRC16_TABLE ! (2 * i) = crc_shift (CRC16_TABLE ! i)"
    "CRC16_TABLE ! Suc (2 * i) = crc_shift (CRC16_TABLE ! i) XOR 0x1021"
proof -
  have i: "i < length (take 128 CRC16_TABLE)" "take 128 CRC16_TABLE ! i = CRC16_TABLE ! i"
    using assms by (simp_all add: crc_table_length)
  show "CRC16_TABLE ! (2 * i) = crc_shift (CRC16_TABLE ! i)"
    by (subst crc_table_double) (simp only: nth_concat_pairs(1)[OF i(1)] i(2))
  show "CRC16_TABLE ! Suc (2 * i) = crc_shift (CRC16_TABLE ! i) XOR 0x1021"
    by (subst crc_table_double) (simp only: nth_concat_pairs(2)[OF i(1)] i(2))
qed

lemma funpow8: "(f ^^ 8) x = f (f (f (f (f (f (f (f x)))))))"
  by (simp add: eval_nat_numeral)

lemma crc_shift_small: "\<not> bit c 15 \<Longrightarrow> crc_shift c = push_bit 1 c"
  by (simp add: crc_shift_def)

lemma crc_table:
  assumes "i < 256"
  shows "CRC16_TABLE ! i = (crc_shift ^^ 8) (push_bit 8 (of_nat i))"
  using assms
proof (induction i rule: less_induct)
  case (less i)
  show ?case
  proof (cases "i = 0")
    case True
    have "(crc_shift ^^ 8) 0 = 0" by (simp add: funpow8 crc_shift_def)
    then show ?thesis using True by (simp add: CRC16_TABLE_def)
  next
    case False
    define j where "j = i div 2"
    have j: "j < i" "j < 128" "i = 2 * j \<or> i = Suc (2 * j)" using False less.prems by (auto simp: j_def)
    have "\<not> bit j 7" using j(2) by (simp add: bit_iff_odd)
    then have b: "\<not> bit (push_bit 8 (of_nat j) :: u16) 15" by (simp add: bit_push_bit_iff bit_of_nat_iff)
    have d: "push_bit 8 (of_nat (2 * j)) = (crc_shift (push_bit 8 (of_nat j)) :: u16)"
      unfolding crc_shift_small[OF b] by (simp add: push_bit_eq_mult)
    have even: "CRC16_TABLE ! (2 * j) = (crc_shift ^^ 8) (push_bit 8 (of_nat (2 * j)))"
      unfolding crc_table_step(1)[OF j(2)] d using less.IH[OF j(1)] j(2) by (simp add: funpow_swap1)
    have one: "(crc_shift ^^ 8) (push_bit 8 1) = 0x1021" by (simp add: funpow8 crc_shift_def)
    have odd: "(of_nat (Suc (2 * j)) :: u16) = of_nat (2 * j) XOR 1" by (simp add: xor_one_eq)
    have "CRC16_TABLE ! Suc (2 * j) = (crc_shift ^^ 8) (push_bit 8 (of_nat (Suc (2 * j))))"
      unfolding odd push_bit_xor crc_shift_pow_xor one even[symmetric] crc_table_step[OF j(2)] ..
    with even j(3) show ?thesis by blast
  qed
qed

lemma crc_low: "k \<le> 8 \<Longrightarrow> (crc_shift ^^ k) (take_bit 8 c) = push_bit k (take_bit 8 c)"
proof (induction k)
  case (Suc k)
  have "\<not> bit (push_bit k (take_bit 8 c)) 15" using Suc.prems by (auto simp: bit_push_bit_iff bit_take_bit_iff)
  with Suc show ?case by (simp add: crc_shift_small)
qed simp

lemma byte_mask: "(0x00FF :: u16) = mask 8"
  by (simp add: mask_eq_exp_minus_1)

lemma crc_split:
  fixes crc :: u16 and n :: u8
  shows "crc XOR push_bit 8 (ucast n) = push_bit 8 ((drop_bit 8 crc XOR ucast n) AND 0x00FF) XOR take_bit 8 crc"
  unfolding byte_mask
  by (rule bit_word_eqI)
    (auto simp: bit_simps bit_xor_iff bit_push_bit_iff bit_take_bit_iff bit_mask_iff bit_and_iff bit_drop_bit_eq
      bit_word_ucast_iff)

lemma crc_step_byte: "crc16_step crc n = crc_byte crc n"
proof -
  let ?hi = "(drop_bit 8 crc XOR ucast n) AND 0x00FF"
  have "?hi = take_bit 8 (drop_bit 8 crc XOR ucast n)" unfolding byte_mask by (simp add: take_bit_eq_mask)
  then have "unat ?hi < 2 ^ 8" by (simp only: unsigned_take_bit_eq take_bit_nat_less_exp)
  then have "unat ?hi < 256" by simp
  from crc_table[OF this] have t: "CRC16_TABLE ! unat ?hi = (crc_shift ^^ 8) (push_bit 8 ?hi)" by simp
  have "push_bit 8 (take_bit 8 crc) = push_bit 8 crc"
    by (rule bit_word_eqI) (auto simp: bit_push_bit_iff bit_take_bit_iff)
  then show ?thesis unfolding crc16_step_def crc_byte_def crc_split crc_shift_pow_xor t crc_low[OF order_refl]
    by (simp add: xor.commute)
qed

lemma crc16_correct: "crc16 key = crc16_xmodem key"
  by (simp add: crc16_def crc16_xmodem_def crc_step_byte[abs_def])

section \<open>The reference: the hashed part of a key\<close>

text \<open>
  The specification of Redis Cluster: if there is a \<open>{\<close>, and a \<open>}\<close> to the right of the first
  one, and at least one character between the two, only these characters are hashed.
\<close>

definition after_brace :: "u8 list \<Rightarrow> u8 list" where
  "after_brace key = tl (dropWhile (\<lambda>b. b \<noteq> 123) key)"

definition hashed_part :: "u8 list \<Rightarrow> u8 list" where
  "hashed_part key =
     (if 125 \<in> set (after_brace key) \<and> takeWhile (\<lambda>b. b \<noteq> 125) (after_brace key) \<noteq> []
      then takeWhile (\<lambda>b. b \<noteq> 125) (after_brace key) else key)"

lemma closing_brace_spec:
  assumes "Suc i \<le> j" "j \<le> length key" "125 \<notin> set (take (j - Suc i) (drop (Suc i) key))"
  shows "closing_brace key i [j..<length key] =
    (if 125 \<in> set (drop j key) then Some (take (j - Suc i) (drop (Suc i) key) @ takeWhile (\<lambda>b. b \<noteq> 125) (drop j key)) else None)"
  using assms
proof (induction "length key - j" arbitrary: j)
  case (Suc n)
  then have j: "j < length key" by simp
  then have l: "[j..<length key] = j # [Suc j..<length key]" "drop j key = key ! j # drop (Suc j) key"
    by (simp_all add: upt_conv_Cons Cons_nth_drop_Suc)
  have t: "take (Suc j - Suc i) (drop (Suc i) key) = take (j - Suc i) (drop (Suc i) key) @ [key ! j]"
  proof -
    have "Suc j - Suc i = Suc (j - Suc i)" using Suc.prems(1) by simp
    moreover have "j - Suc i < length (drop (Suc i) key)" using j Suc.prems(1) by simp
    moreover have "drop (Suc i) key ! (j - Suc i) = key ! j" using j Suc.prems(1) by simp
    ultimately show ?thesis by (simp only: take_Suc_conv_app_nth)
  qed
  show ?case
  proof (cases "key ! j = 125")
    case True
    then show ?thesis by (simp add: l)
  next
    case False
    have "n = length key - Suc j" "Suc i \<le> Suc j" "Suc j \<le> length key" using Suc.hyps(2) Suc.prems(1) j by simp_all
    moreover have "125 \<notin> set (take (Suc j - Suc i) (drop (Suc i) key))" unfolding t using False Suc.prems(3) by simp
    ultimately show ?thesis using Suc.hyps(1)[of "Suc j"] False unfolding t by (simp add: l)
  qed
qed simp

lemma hash_tag_spec:
  "j \<le> length key \<Longrightarrow> hash_tag_from key [j..<length key] =
     (if 125 \<in> set (after_brace (drop j key)) then Some (takeWhile (\<lambda>b. b \<noteq> 125) (after_brace (drop j key))) else None)"
proof (induction "length key - j" arbitrary: j)
  case 0
  then show ?case by (simp add: after_brace_def)
next
  case (Suc n)
  then have j: "j < length key" by simp
  then have l: "[j..<length key] = j # [Suc j..<length key]" "drop j key = key ! j # drop (Suc j) key"
    by (simp_all add: upt_conv_Cons Cons_nth_drop_Suc)
  have IH: "hash_tag_from key [Suc j..<length key] =
     (if 125 \<in> set (after_brace (drop (Suc j) key)) then Some (takeWhile (\<lambda>b. b \<noteq> 125) (after_brace (drop (Suc j) key))) else None)"
    using Suc.hyps(1)[of "Suc j"] Suc.hyps(2) j by simp
  show ?case
  proof (cases "key ! j = 123")
    case True
    have "closing_brace key j [j..<length key] = closing_brace key j [Suc j..<length key]" using True by (simp add: l(1))
    also have "\<dots> = (if 125 \<in> set (drop (Suc j) key) then Some (takeWhile (\<lambda>b. b \<noteq> 125) (drop (Suc j) key)) else None)"
      using closing_brace_spec[of j "Suc j" key] j by simp
    finally have c: "closing_brace key j [j..<length key] = \<dots>" .
    have sub: "set (after_brace (drop (Suc j) key)) \<subseteq> set (drop (Suc j) key)"
      unfolding after_brace_def using set_dropWhileD list.set_sel(2) by (metis subsetI tl_Nil)
    show ?thesis
    proof (cases "125 \<in> set (drop (Suc j) key)")
      case in_set: True
      then show ?thesis using True c by (simp add: l(1)) (simp add: l(2) after_brace_def)
    next
      case False
      then have "125 \<notin> set (after_brace (drop (Suc j) key))" using sub by blast
      with False True c IH show ?thesis by (simp add: l(1)) (simp add: l(2) after_brace_def)
    qed
  next
    case False
    with IH show ?thesis by (simp add: l after_brace_def)
  qed
qed

definition cluster_slot :: "u8 list \<Rightarrow> u16" where
  "cluster_slot key = crc16_xmodem (hashed_part key) AND 0x3FFF"

lemma calc_slot_cluster: "calc_slot key = cluster_slot key"
proof -
  have "hash_tag_from key [0..<length key] =
     (if 125 \<in> set (after_brace key) then Some (takeWhile (\<lambda>b. b \<noteq> 125) (after_brace key)) else None)"
    using hash_tag_spec[of 0 key] by simp
  then show ?thesis by (simp add: calc_slot_def hashed_part_def crc16_correct cluster_slot_def)
qed

text \<open>
  C28: Slots are those of Redis Cluster. The table driven checksum equals CRC-16/XMODEM computed
  bit by bit, and the slot of a key is the checksum of its hashed part modulo 16384, below 16384.
\<close>

theorem calc_slot_correct:
  "calc_slot key = crc16_xmodem (hashed_part key) AND 0x3FFF \<and> unat (calc_slot key) < 16384"
proof -
  note c = calc_slot_cluster[of key, unfolded cluster_slot_def]
  have "(0x3FFF :: u16) = mask 14" by (simp add: mask_eq_exp_minus_1)
  then have "calc_slot key = take_bit 14 (crc16_xmodem (hashed_part key))" unfolding c by (simp add: take_bit_eq_mask)
  then have "unat (calc_slot key) < 2 ^ 14" by (simp only: unsigned_take_bit_eq take_bit_nat_less_exp)
  then show ?thesis using c by simp
qed

section \<open>Keys are arguments\<close>

definition key_ok :: "string list \<Rightarrow> string \<times> nat \<Rightarrow> bool" where
  "key_ok argv e \<longleftrightarrow> 0 < snd e \<and> snd e \<le> length argv \<and> fst e = argv ! (snd e - 1)"

lemma arg_at_Inr: "arg_at argv idx = Inr a \<longleftrightarrow> 0 \<le> idx \<and> idx < int (length argv) \<and> a = argv ! nat idx"
  by (auto simp: arg_at_def)

lemma arg_at_key_ok: "arg_at argv idx = Inr a \<Longrightarrow> key_ok argv (a, nat idx + 1)"
  by (auto simp: arg_at_Inr key_ok_def)

lemma range_keys_ok: "range_keys argv limit_count idxs = Inr ks \<Longrightarrow> list_all (key_ok argv) ks"
  by (induction idxs arbitrary: limit_count ks)
    (auto simp: res_eqs arg_at_key_ok[simplified] split: if_splits)

lemma keynum_keys_ok: "keynum_keys argv idx step n = Inr ks \<Longrightarrow> list_all (key_ok argv) ks"
  by (induction n arbitrary: idx ks) (auto simp: res_eqs arg_at_key_ok[simplified])

lemma find_keys_ok: "find_keys argv spec b = Inr ks \<Longrightarrow> list_all (key_ok argv) ks"
  by (auto simp: find_keys_def Let_def res_eqs split: if_splits option.splits dest: range_keys_ok keynum_keys_ok)

lemma spec_keys_ok:
  "fold_res (spec_keys upper argv name) ks specs = Inr ks' \<Longrightarrow> list_all (key_ok argv) ks \<Longrightarrow> list_all (key_ok argv) ks'"
  by (induction specs arbitrary: ks) (auto simp: spec_keys_def res_eqs dest: find_keys_ok)

text \<open>
  C30: The keys of a command are arguments of it: whatever the command table says, every key
  returned is the argument at the index (counted from one) returned with it, in bounds.
\<close>

theorem parse_key_sound:
  assumes "parse_key_from_argv upper p argv = Inr (name, grp, keys, idxs)"
  shows "length keys = length idxs \<and>
    list_all (\<lambda>(key, idx). 0 < idx \<and> idx \<le> length argv \<and> key = argv ! (idx - 1)) (zip keys idxs)"
proof -
  from assms obtain cmd :: cmd_meta and ks where
    ks: "fold_res (spec_keys upper argv name) [] (cmt_key_spec cmd) = Inr ks" "keys = map fst ks" "idxs = map snd ks"
    by (auto simp: parse_key_from_argv_def res_eqs split: option.splits)
  have "list_all (key_ok argv) ks" by (rule spec_keys_ok[OF ks(1)]) simp
  then show ?thesis by (auto simp: ks(2,3) zip_map_fst_snd key_ok_def list_all_iff)
qed

definition eval_spec :: key_spec where
  "eval_spec =
     \<lparr>begin_search_type = ''index'', begin_search_index = 2, begin_search_keyword = [], begin_search_start_from = 0,
      find_keys_type = ''keynum'', find_keys_range_last_key = 0, find_keys_range_key_step = 0, find_keys_range_limit = 0,
      find_keys_keynum_index = 0, find_keys_keynum_first_key = 1, find_keys_keynum_key_step = 1\<rparr>"

definition eval_parser :: key_parser where
  "eval_parser =
     \<lparr>container_cmds = [],
      cmd_metas = [(''EVAL'', \<lparr>cmt_name = ''EVAL'', cmt_group = ''SCRIPTING'', cmt_key_spec = [eval_spec]\<rparr>)]\<rparr>"

lemma eval_keys:
  "parse_key_from_argv id eval_parser [''EVAL'', ''return 1'', ''2'', ''a'', ''b''] =
     Inr (''EVAL'', ''SCRIPTING'', [''a'', ''b''], [4, 5])"
proof -
  have "parse_usize ''2'' = Some 2" by (simp add: parse_usize_def parse_magnitude_def digit_value_def)
  then show ?thesis
    by (simp add: parse_key_from_argv_def eval_parser_def eval_spec_def arg_at_def spec_keys_def begin_search_def
        find_keys_def numeral_2_eq_2)
qed

theorem parse_key_sound_witness:
  "length [''a'', ''b''] = length [4 :: nat, 5] \<and>
   list_all (\<lambda>(key, idx). 0 < idx \<and> idx \<le> 5 \<and> key = [''EVAL'', ''return 1'', ''2'', ''a'', ''b''] ! (idx - 1))
     (zip [''a'', ''b''] [4, 5])"
  using parse_key_sound[OF eval_keys] by simp

text \<open>
  The check of the key count index is off by one: a command that ends right where the
  number of its keys should be passes the check and the parser panics instead of returning the error
  the check is there for.
\<close>

theorem keynum_index_panics:
  assumes "find_keys_type spec = ''keynum''" "begin' + find_keys_keynum_index spec = int (length argv)"
  shows "\<exists>msg. find_keys argv spec begin' = Inl (Panic msg)"
  using assms by (simp add: find_keys_def arg_at_def)

theorem keynum_index_panics_witness: "\<exists>msg. find_keys [''EVAL'', ''return 1''] eval_spec 2 = Inl (Panic msg)"
  by (rule keynum_index_panics) (simp_all add: eval_spec_def)

end
