(* ===== verification/Redis_Parallelizer.thy ===== *)
theory Redis_Parallelizer
  imports Redis_Key Parallelizer
begin

text \<open>
  \<open>dt-parallelizer/src/redis_parallelizer.rs\<close>: entries for a Redis cluster are divided by the node
  that serves their slot; each sinker writes to one node.
\<close>

section \<open>Model\<close>

record redis_parallelizer =
  rp_slot_node_map :: "(u16, string) hash_map"
  rp_key_parser :: key_parser
  rp_node_sinker_index_map :: "(string, nat) hash_map"

text \<open>The sinkers are known by their ids, in order.\<close>

definition index_sinkers :: "string list \<Rightarrow> redis_parallelizer \<Rightarrow> redis_parallelizer" where
  "index_sinkers ids p =
     (if rp_node_sinker_index_map p = []
      then p\<lparr>rp_node_sinker_index_map := foldl (\<lambda>m (i, id'). AList.update id' i m) [] (enumerate 0 ids)\<rparr>
      else p)"

definition same_slot :: "u16 list \<Rightarrow> bool" where
  "same_slot slots \<longleftrightarrow> list_all (\<lambda>i. \<not> slots ! i \<noteq> slots ! 0) [1..<length slots]"

text \<open>The slots of an item, and the item, whose command now has its keys parsed.\<close>

definition item_slots ::
  "(string \<Rightarrow> string) \<Rightarrow> (u8 list \<Rightarrow> string) \<Rightarrow> key_parser \<Rightarrow> dt_item \<Rightarrow> (u16 list \<times> dt_item) res" where
  "item_slots upper lossy kp item =
     (case it_dt_data item of
        DRedis entry \<Rightarrow>
          bind_res (cal_slots upper lossy kp entry) (\<lambda>(slots, entry').
            if same_slot slots then Inr (slots, item\<lparr>it_dt_data := DRedis entry'\<rparr>)
            else Inl (Bail (''multi keys don'' @ [CHR 0x27] @ ''t hash to the same slot, cmd: '' @
                   join_strings '' '' (args_to_string lossy (re_cmd entry')))))
      | _ \<Rightarrow> Inr ([], item))"

definition slot_sinker :: "redis_parallelizer \<Rightarrow> u16 \<Rightarrow> nat res" where
  "slot_sinker p slot =
     (case map_of (rp_slot_node_map p) slot of
        None \<Rightarrow> Inl (Panic ''called `Option::unwrap()` on a `None` value'')
      | Some node \<Rightarrow>
          (case map_of (rp_node_sinker_index_map p) node of
             None \<Rightarrow> Inl (Panic ''called `Option::unwrap()` on a `None` value'')
           | Some i \<Rightarrow> Inr i))"

definition push_item_step ::
  "(string \<Rightarrow> string) \<Rightarrow> (u8 list \<Rightarrow> string) \<Rightarrow> redis_parallelizer \<Rightarrow> dt_item list list \<Rightarrow> dt_item \<Rightarrow>
   dt_item list list res" where
  "push_item_step upper lossy p node_data_items dt_item =
     bind_res (item_slots upper lossy (rp_key_parser p) dt_item) (\<lambda>(slots, item).
       if slots = [] then Inr (map (\<lambda>node_data. node_data @ [item]) node_data_items)
       else
         bind_res (slot_sinker p (slots ! 0)) (\<lambda>i.
           if i < length node_data_items then Inr (node_data_items[i := node_data_items ! i @ [item]])
           else Inl (Panic ''index out of bounds'')))"

definition redis_sink_raw ::
  "(string \<Rightarrow> string) \<Rightarrow> (u8 list \<Rightarrow> string) \<Rightarrow> string list \<Rightarrow> dt_item list \<Rightarrow> redis_parallelizer \<Rightarrow>
   (dt_item task list \<times> redis_parallelizer) res" where
  "redis_sink_raw upper lossy ids data p =
     (if rp_slot_node_map p = [] then map_res (\<lambda>tasks. (tasks, p)) (base_sink_raw (length ids) 1 False [data])
      else
        (let p' = index_sinkers ids p
         in map_res (\<lambda>nodes. (map (\<lambda>(i, node_data). (i, [(node_data, False)])) (enumerate 0 nodes), p'))
              (fold_res (push_item_step upper lossy p') (replicate (length ids) []) data)))"

section \<open>Where an item goes\<close>

text \<open>
  The item with the keys of its command, and the keys. An item belongs to a node when the node serves
  the slots of all its keys; one without a key belongs to every node.
\<close>

definition parsed_item ::
  "(string \<Rightarrow> string) \<Rightarrow> (u8 list \<Rightarrow> string) \<Rightarrow> key_parser \<Rightarrow> dt_item \<Rightarrow> dt_item res" where
  "parsed_item upper lossy kp item =
     (case it_dt_data item of
        DRedis entry \<Rightarrow>
          if re_is_base entry \<or> cmd_keys (re_cmd entry) \<noteq> [] then Inr item
          else map_res (\<lambda>cmd. item\<lparr>it_dt_data := DRedis (entry\<lparr>re_cmd := cmd\<rparr>)\<rparr>) (parse_keys upper lossy kp (re_cmd entry))
      | _ \<Rightarrow> Inr item)"

definition item_keys :: "dt_item \<Rightarrow> u8 list list" where
  "item_keys item =
     (case it_dt_data item of
        DRedis entry \<Rightarrow> if re_is_base entry then [re_key entry] else map as_bytes (cmd_keys (re_cmd entry))
      | _ \<Rightarrow> [])"

definition one_slot :: "dt_item \<Rightarrow> bool" where
  "one_slot item \<longleftrightarrow> (\<forall>k\<in>set (item_keys item). \<forall>k'\<in>set (item_keys item). cluster_slot k = cluster_slot k')"

definition serves :: "(u16, string) hash_map \<Rightarrow> string \<Rightarrow> dt_item \<Rightarrow> bool" where
  "serves slot_nodes node item = list_all (\<lambda>k. map_of slot_nodes (cluster_slot k) = Some node) (item_keys item)"

text \<open>The sinkers are not indexed yet, or every node is known by the place of its sinker.\<close>

definition sinkers_known :: "string list \<Rightarrow> redis_parallelizer \<Rightarrow> bool" where
  "sinkers_known ids p \<longleftrightarrow>
     rp_node_sinker_index_map p = [] \<or>
     (\<forall>node i. map_of (rp_node_sinker_index_map p) node = Some i \<longleftrightarrow> i < length ids \<and> ids ! i = node)"

lemma same_slot_iff: "same_slot slots \<longleftrightarrow> (\<forall>s\<in>set slots. \<forall>s'\<in>set slots. s = s')"
proof (cases slots)
  case (Cons x xs)
  have "same_slot slots \<longleftrightarrow> (\<forall>i<length xs. xs ! i = x)"
  proof
    assume same: "same_slot slots"
    show "\<forall>i<length xs. xs ! i = x"
    proof (intro allI impI)
      fix i assume "i < length xs"
      then have "Suc i \<in> set [1..<length slots]" by (auto simp: Cons)
      with same have "slots ! Suc i = slots ! 0" unfolding same_slot_def list_all_iff by blast
      then show "xs ! i = x" by (simp add: Cons)
    qed
  next
    assume "\<forall>i<length xs. xs ! i = x"
    then show "same_slot slots" unfolding same_slot_def list_all_iff Cons by (auto simp: nth_Cons')
  qed
  also have "\<dots> \<longleftrightarrow> (\<forall>s\<in>set xs. s = x)" by (simp add: all_set_conv_all_nth)
  also have "\<dots> \<longleftrightarrow> (\<forall>s\<in>set slots. \<forall>s'\<in>set slots. s = s')" by (simp add: Cons) metis
  finally show ?thesis .
qed (simp add: same_slot_def)

lemma item_keys_entry:
  "item_keys (item\<lparr>it_dt_data := DRedis entry\<rparr>) =
     (if re_is_base entry then [re_key entry] else map as_bytes (cmd_keys (re_cmd entry)))"
  by (simp add: item_keys_def)

lemma cal_slots_parsed:
  assumes "parsed_item upper lossy kp item = Inr item'" "it_dt_data item = DRedis entry"
  shows "\<exists>entry'. item' = item\<lparr>it_dt_data := DRedis entry'\<rparr> \<and>
    cal_slots upper lossy kp entry = Inr (map cluster_slot (item_keys item'), entry')"
proof (cases "re_is_base entry \<or> cmd_keys (re_cmd entry) \<noteq> []")
  case True
  then have "item' = item" using assms by (simp add: parsed_item_def)
  also have "item = item\<lparr>it_dt_data := DRedis entry\<rparr>" using assms(2) by (cases item) simp
  finally have "item' = item\<lparr>it_dt_data := DRedis entry\<rparr>" .
  then show ?thesis using True by (intro exI[of _ entry]) (auto simp: cal_slots_def item_keys_entry calc_slot_cluster)
next
  case False
  with assms obtain cmd where "parse_keys upper lossy kp (re_cmd entry) = Inr cmd"
    "item' = item\<lparr>it_dt_data := DRedis (entry\<lparr>re_cmd := cmd\<rparr>)\<rparr>" by (auto simp: parsed_item_def res_eqs)
  then show ?thesis using False
    by (intro exI[of _ "entry\<lparr>re_cmd := cmd\<rparr>"]) (simp add: cal_slots_def item_keys_entry calc_slot_cluster)
qed

lemma item_slots_parsed:
  assumes "parsed_item upper lossy kp item = Inr item'"
  shows "if one_slot item' then item_slots upper lossy kp item = Inr (map cluster_slot (item_keys item'), item')
    else \<exists>msg. item_slots upper lossy kp item = Inl (Bail msg)"
proof (cases "it_dt_data item")
  case (DRedis entry)
  from cal_slots_parsed[OF assms DRedis] obtain entry' where
    e: "cal_slots upper lossy kp entry = Inr (map cluster_slot (item_keys item'), entry')"
       "item\<lparr>it_dt_data := DRedis entry'\<rparr> = item'" by metis
  have "same_slot (map cluster_slot (item_keys item')) \<longleftrightarrow> one_slot item'"
    by (auto simp: same_slot_iff one_slot_def)
  then show ?thesis using DRedis by (simp add: item_slots_def e)
qed (use assms in \<open>simp_all add: parsed_item_def item_slots_def one_slot_def item_keys_def\<close>)

lemma enumerate_index:
  assumes "distinct ids"
  shows "map_of (foldl (\<lambda>m (i, id'). AList.update id' i m) [] (enumerate 0 ids)) node = Some i \<longleftrightarrow> i < length ids \<and> ids ! i = node"
  using assms
proof (induction ids rule: rev_induct)
  case (snoc x ids)
  let ?m = "foldl (\<lambda>m (i, id'). AList.update id' i m) [] (enumerate 0 ids)"
  have step: "map_of (foldl (\<lambda>m (i, id'). AList.update id' i m) [] (enumerate 0 (ids @ [x]))) node =
      (if node = x then Some (length ids) else map_of ?m node)"
    by (simp add: enumerate_append_eq update_conv')
  have IH: "map_of ?m node = Some i \<longleftrightarrow> i < length ids \<and> ids ! i = node" using snoc by simp
  show ?case
  proof (cases "node = x")
    case True
    have "i < length ids \<Longrightarrow> ids ! i \<noteq> x" using snoc.prems nth_mem[of i ids] by auto
    with True show ?thesis unfolding step by (auto simp: nth_append less_Suc_eq)
  next
    case False
    then show ?thesis unfolding step using IH by (auto simp: nth_append less_Suc_eq)
  qed
qed simp

lemma index_sinkers_known:
  assumes "distinct ids" "sinkers_known ids p"
  shows "map_of (rp_node_sinker_index_map (index_sinkers ids p)) node = Some i \<longleftrightarrow> i < length ids \<and> ids ! i = node"
  using assms enumerate_index[OF assms(1)] by (auto simp: index_sinkers_def sinkers_known_def)

lemma slot_sinker_node:
  assumes "\<And>node i. map_of (rp_node_sinker_index_map p) node = Some i \<longleftrightarrow> i < length ids \<and> ids ! i = node"
    and "map_of (rp_slot_node_map p) slot = Some node" "node \<in> set ids"
  shows "\<exists>i<length ids. ids ! i = node \<and> slot_sinker p slot = Inr i"
proof -
  from assms(3) obtain i where "i < length ids" "ids ! i = node" by (auto simp: in_set_conv_nth)
  with assms(1)[of node i] assms(2) show ?thesis by (auto simp: slot_sinker_def)
qed

text \<open>One step, for sinkers that got the items \<open>prev\<close> of their nodes.\<close>

definition node_batches :: "(u16, string) hash_map \<Rightarrow> string list \<Rightarrow> dt_item list \<Rightarrow> dt_item list list" where
  "node_batches slot_nodes ids items = map (\<lambda>node. filter (serves slot_nodes node) items) ids"

lemma push_item_route:
  assumes idx: "\<And>node i. map_of (rp_node_sinker_index_map p) node = Some i \<longleftrightarrow> i < length ids \<and> ids ! i = node"
    and "distinct ids" "parsed_item upper lossy (rp_key_parser p) item = Inr item'" "one_slot item'"
    and served: "\<forall>k\<in>set (item_keys item'). \<exists>node\<in>set ids. map_of (rp_slot_node_map p) (cluster_slot k) = Some node"
  shows "push_item_step upper lossy p (node_batches (rp_slot_node_map p) ids prev) item =
    Inr (node_batches (rp_slot_node_map p) ids (prev @ [item']))"
proof -
  have slots: "item_slots upper lossy (rp_key_parser p) item = Inr (map cluster_slot (item_keys item'), item')"
    using item_slots_parsed[OF assms(3)] assms(4) by simp
  show ?thesis
  proof (cases "item_keys item'")
    case Nil
    then show ?thesis using slots by (simp add: push_item_step_def node_batches_def serves_def)
  next
    case (Cons k ks)
    then obtain node where node: "node \<in> set ids" "map_of (rp_slot_node_map p) (cluster_slot k) = Some node"
      using served by auto
    from slot_sinker_node[OF idx node(2,1)] obtain i where
      i: "i < length ids" "ids ! i = node" "slot_sinker p (cluster_slot k) = Inr i" by blast
    have same: "cluster_slot k' = cluster_slot k" if "k' \<in> set (item_keys item')" for k'
      using assms(4) that Cons unfolding one_slot_def by (metis list.set_intros(1))
    have "serves (rp_slot_node_map p) n item' \<longleftrightarrow>
        (\<forall>k'\<in>set (item_keys item'). map_of (rp_slot_node_map p) (cluster_slot k) = Some n)" for n
      unfolding serves_def list_all_iff by (rule ball_cong[OF refl]) (simp only: same)
    then have "serves (rp_slot_node_map p) n item' \<longleftrightarrow> n = node" for n
      using node(2) Cons by auto
    moreover have "ids ! j = node \<longleftrightarrow> j = i" if "j < length ids" for j
      using i(1,2) that assms(2) by (auto simp: nth_eq_iff_index_eq)
    ultimately have "(node_batches (rp_slot_node_map p) ids prev)[i := node_batches (rp_slot_node_map p) ids prev ! i @ [item']] =
        node_batches (rp_slot_node_map p) ids (prev @ [item'])"
      using i(1) by (intro nth_equalityI) (auto simp: node_batches_def nth_list_update)
    with slots i Cons show ?thesis by (simp add: push_item_step_def node_batches_def)
  qed
qed

lemma push_items_route:
  assumes idx: "\<And>node i. map_of (rp_node_sinker_index_map p) node = Some i \<longleftrightarrow> i < length ids \<and> ids ! i = node"
    and "distinct ids" "traverse_res (parsed_item upper lossy (rp_key_parser p)) data = Inr items"
    and "\<forall>item\<in>set items. \<forall>k\<in>set (item_keys item). \<exists>node\<in>set ids. map_of (rp_slot_node_map p) (cluster_slot k) = Some node"
  shows "if list_all one_slot items
    then fold_res (push_item_step upper lossy p) (node_batches (rp_slot_node_map p) ids prev) data =
      Inr (node_batches (rp_slot_node_map p) ids (prev @ items))
    else \<exists>msg. fold_res (push_item_step upper lossy p) (node_batches (rp_slot_node_map p) ids prev) data = Inl (Bail msg)"
  using assms(3,4)
proof (induction data arbitrary: items prev)
  case (Cons item data)
  then obtain item' items' where
    i: "parsed_item upper lossy (rp_key_parser p) item = Inr item'" "items = item' # items'"
       "traverse_res (parsed_item upper lossy (rp_key_parser p)) data = Inr items'" by (auto simp: res_eqs)
  show ?case
  proof (cases "one_slot item'")
    case True
    note step = push_item_route[OF idx assms(2) i(1) True, of prev]
    from Cons.IH[OF i(3), of "prev @ [item']"] step Cons.prems(2) True show ?thesis by (simp add: i(2))
  next
    case False
    with item_slots_parsed[OF i(1)] obtain msg where "item_slots upper lossy (rp_key_parser p) item = Inl (Bail msg)" by auto
    with False show ?thesis by (simp add: i(2) push_item_step_def)
  qed
qed simp

text \<open>
  C29: Entries for a cluster reach the node that serves their keys. Let the ids of the sinkers be
  distinct, and the slot of every key in the batch be served by a node with a sinker. When the keys of
  every entry lie in one slot (CRC-16/XMODEM of the hashed part, modulo 16384), the sinker of each node
  gets, in the order of the batch, exactly the entries all of whose keys its node serves, entries
  without a key included; so the commands on one key keep their order whatever the sinkers do in
  parallel. When some entry has keys in two slots, nothing is sinked and an error is returned. The index
  of the sinkers built by the first batch serves all later ones.
\<close>

theorem redis_sink_raw_order:
  assumes "rp_slot_node_map p \<noteq> []" "distinct ids" "sinkers_known ids p"
    and "traverse_res (parsed_item upper lossy (rp_key_parser p)) data = Inr items"
    and "\<forall>item\<in>set items. \<forall>k\<in>set (item_keys item). \<exists>node\<in>set ids. map_of (rp_slot_node_map p) (cluster_slot k) = Some node"
  shows "if list_all one_slot items
    then \<exists>p'. redis_sink_raw upper lossy ids data p =
        Inr (map (\<lambda>i. (i, [(filter (serves (rp_slot_node_map p) (ids ! i)) items, False)])) [0..<length ids], p') \<and>
      sinkers_known ids p' \<and> rp_slot_node_map p' = rp_slot_node_map p \<and> rp_key_parser p' = rp_key_parser p
    else \<exists>msg. redis_sink_raw upper lossy ids data p = Inl (Bail msg)"
proof -
  let ?p = "index_sinkers ids p"
  have keep: "rp_slot_node_map ?p = rp_slot_node_map p" "rp_key_parser ?p = rp_key_parser p" by (simp_all add: index_sinkers_def)
  note idx = index_sinkers_known[OF assms(2,3)]
  have known: "sinkers_known ids ?p" unfolding sinkers_known_def using idx by blast
  have empty: "replicate (length ids) [] = node_batches (rp_slot_node_map ?p) ids []"
    by (simp add: node_batches_def map_replicate_const)
  have tasks: "map (\<lambda>(i, node_data). (i, [(node_data, False)])) (enumerate 0 (node_batches (rp_slot_node_map p) ids items)) =
      map (\<lambda>i. (i, [(filter (serves (rp_slot_node_map p) (ids ! i)) items, False)])) [0..<length ids]"
    by (rule nth_equalityI) (simp_all add: node_batches_def nth_enumerate_eq)
  note run = push_items_route[of ?p ids upper lossy data items "[]", OF idx assms(2), unfolded keep, OF assms(4,5)]
  show ?thesis
  proof (cases "list_all one_slot items")
    case True
    with run have "redis_sink_raw upper lossy ids data p =
        Inr (map (\<lambda>i. (i, [(filter (serves (rp_slot_node_map p) (ids ! i)) items, False)])) [0..<length ids], ?p)"
      using assms(1) tasks unfolding redis_sink_raw_def empty keep by (simp add: Let_def)
    with True known keep show ?thesis by auto
  next
    case False
    with run assms(1) show ?thesis unfolding redis_sink_raw_def empty keep by (auto simp: Let_def)
  qed
qed

definition sample_redis_entry :: "u8 list \<Rightarrow> redis_entry" where
  "sample_redis_entry key =
     \<lparr>re_id = 0, re_is_base = True, re_db_id = 0, re_timestamp_ms = 0, re_expire_ms = 0, re_key = key,
      re_value = StringObject key [1], re_value_type_byte = 0, re_raw_bytes = [], re_cmd = redis_cmd_new,
      re_data_size = 0, re_slot = 0, re_freq = 0\<rparr>"

definition sample_cluster :: redis_parallelizer where
  "sample_cluster =
     \<lparr>rp_slot_node_map = [(0, ''n0''), (0x3C87, ''n1'')], rp_key_parser = eval_parser, rp_node_sinker_index_map = []\<rparr>"

definition sample_redis_item :: "u8 list \<Rightarrow> dt_item" where
  "sample_redis_item key =
     \<lparr>it_dt_data = DRedis (sample_redis_entry key), it_position = PosNone, it_data_origin_node = []\<rparr>"

lemma sample_slots: "calc_slot [] = 0" "calc_slot [0x61] = 0x3C87"
  by (simp_all add: calc_slot_def crc16_def crc16_step_def CRC16_TABLE_def upt_rec)

lemma sample_keys:
  "parsed_item upper lossy kp (sample_redis_item key) = Inr (sample_redis_item key)" "item_keys (sample_redis_item key) = [key]"
  by (simp_all add: parsed_item_def item_keys_def sample_redis_item_def sample_redis_entry_def)

lemma sample_cluster_slots: "cluster_slot [] = 0" "cluster_slot [0x61] = 0x3C87"
  using sample_slots by (simp_all flip: calc_slot_cluster)

theorem redis_sink_raw_order_witness:
  "\<exists>p'. redis_sink_raw id (\<lambda>_. []) [''n0'', ''n1''] (map sample_redis_item [[0x61], [], [0x61]]) sample_cluster =
     Inr ([(0, [([sample_redis_item []], False)]), (1, [([sample_redis_item [0x61], sample_redis_item [0x61]], False)])], p') \<and>
     sinkers_known [''n0'', ''n1''] p'"
proof -
  let ?items = "map sample_redis_item [[0x61], [], [0x61]]"
  have "traverse_res (parsed_item id (\<lambda>_. []) (rp_key_parser sample_cluster)) ?items = Inr ?items" by (simp add: sample_keys)
  note run = redis_sink_raw_order[OF _ _ _ this, of "[''n0'', ''n1'']"]
  have "list_all one_slot ?items" by (simp add: one_slot_def sample_keys)
  then show ?thesis
    using run
    by (auto simp: sample_cluster_def sinkers_known_def sample_keys sample_cluster_slots serves_def)
qed

end
