(* ===== verification/Base_Splitter.thy ===== *)
theory Base_Splitter
  imports Col_Value Complex_Main
begin

text \<open>
  Cutting the range of an integer column into chunks of about equal size:
  \<open>dt-connector/src/extractor/base_splitter.rs\<close>. The section on doubles models the arithmetic of
  \<open>f64\<close> the file uses: the exact result, rounded to 53 significant bits, ties to even. All numbers
  of the file are far inside the range of normal doubles, so exponents are not bounded here.

  Numbers of chunks are natural numbers: a \<open>u64\<close> counter cannot wrap around by counting chunks.
\<close>

unbundle bit_operations_syntax

section \<open>Doubles\<close>

definition pow2 :: "int \<Rightarrow> rat" where
  "pow2 k = (if 0 \<le> k then 2 ^ nat k else 1 / 2 ^ nat (- k))"

definition round_half_even :: "rat \<Rightarrow> int" where
  "round_half_even x =
     (let f = \<lfloor>x\<rfloor>; r = x - of_int f
      in if r < 1 / 2 then f else if r > 1 / 2 then f + 1 else if even f then f else f + 1)"

fun bit_length :: "nat \<Rightarrow> nat" where
  "bit_length n = (if n = 0 then 0 else Suc (bit_length (n div 2)))"

declare bit_length.simps [simp del]

text \<open>The exponent of a positive number: \<open>pow2 (exponent2 x) \<le> x < pow2 (exponent2 x + 1)\<close>.\<close>

definition exponent2 :: "rat \<Rightarrow> int" where
  "exponent2 x =
     (let (n, d) = quotient_of x; k = int (bit_length (nat n)) - int (bit_length (nat d))
      in if pow2 k \<le> x then k else k - 1)"

definition f64_round_pos :: "rat \<Rightarrow> rat" where
  "f64_round_pos x = (let e = exponent2 x - 52 in of_int (round_half_even (x / pow2 e)) * pow2 e)"

definition f64_round :: "rat \<Rightarrow> rat" where
  "f64_round x = (if x = 0 then 0 else if x > 0 then f64_round_pos x else - f64_round_pos (- x))"

text \<open>\<open>as i128\<close> of a double: truncation towards zero.\<close>

definition f64_to_int :: "rat \<Rightarrow> int" where
  "f64_to_int x = (if 0 \<le> x then \<lfloor>x\<rfloor> else \<lceil>x\<rceil>)"

section \<open>The splitter\<close>

definition DISTRIBUTION_FACTOR_LOWER :: rat where "DISTRIBUTION_FACTOR_LOWER = f64_round (1 / 20)"
definition DISTRIBUTION_FACTOR_UPPER :: rat where "DISTRIBUTION_FACTOR_UPPER = 1000"
definition NO_NEXT_CHUNKS :: u8 where "NO_NEXT_CHUNKS = 0b01"
definition NO_EVEN_CHUNKS :: u8 where "NO_EVEN_CHUNKS = 0b10"

type_synonym chunk_range = "col_value \<times> col_value"

record snapshot_chunk =
  chunk_id :: nat
  chunk_range :: chunk_range

record base_splitter =
  chunk_id_generator :: nat
  split_state :: u8

text \<open>The two errors that callers look for; any other error is a failure.\<close>

datatype split_outcome =
    Chunks "snapshot_chunk list"
  | BadSplitColumnError string string
  | OutOfDistributionFactorRangeError rat

definition base_splitter_new :: base_splitter where
  "base_splitter_new = \<lparr>chunk_id_generator = 0, split_state = 0\<rparr>"

definition set_state :: "u8 \<Rightarrow> base_splitter \<Rightarrow> base_splitter" where
  "set_state m s = s\<lparr>split_state := split_state s OR m\<rparr>"

definition has_state :: "base_splitter \<Rightarrow> u8 \<Rightarrow> bool" where
  "has_state s m \<longleftrightarrow> split_state s AND m = m"

definition has_no_next_chunks :: "base_splitter \<Rightarrow> bool" where
  "has_no_next_chunks s \<longleftrightarrow> has_state s NO_NEXT_CHUNKS"

definition has_no_even_chunks :: "base_splitter \<Rightarrow> bool" where
  "has_no_even_chunks s \<longleftrightarrow> has_state s NO_EVEN_CHUNKS"

definition mark_no_next_chunks :: "base_splitter \<Rightarrow> base_splitter" where
  "mark_no_next_chunks s = set_state NO_NEXT_CHUNKS s"

definition mark_no_even_chunks :: "base_splitter \<Rightarrow> base_splitter" where
  "mark_no_even_chunks s = set_state NO_EVEN_CHUNKS s"

definition gen_next_chunk_id :: "base_splitter \<Rightarrow> nat \<times> base_splitter" where
  "gen_next_chunk_id s =
     (let s' = s\<lparr>chunk_id_generator := chunk_id_generator s + 1\<rparr> in (chunk_id_generator s', s'))"

definition gen_next_chunk :: "chunk_range \<Rightarrow> base_splitter \<Rightarrow> snapshot_chunk \<times> base_splitter" where
  "gen_next_chunk rng s =
     (case gen_next_chunk_id s of (i, s') \<Rightarrow> (\<lparr>chunk_id = i, chunk_range = rng\<rparr>, s'))"

text \<open>
  The loop that walks from the current value to the maximum. The step is \<open>max raw 1\<close> for the
  truncated product \<open>raw\<close>, computed where it is used, so that the recursion visibly ends.
\<close>

function even_chunks_loop ::
  "int \<Rightarrow> col_value \<Rightarrow> int \<Rightarrow> col_value \<Rightarrow> int \<Rightarrow> snapshot_chunk list \<Rightarrow> base_splitter \<Rightarrow>
   (snapshot_chunk list \<times> base_splitter) res" where
  "even_chunks_loop raw max_value max_i cur_value cur_i chunks s =
     (if cur_i < max_i then
        (let step_size = max raw 1; t_i = cur_i + step_size
         in bind_res (if t_i \<ge> max_i then Inr max_value else add_integer_128 cur_value step_size) (\<lambda>t_value.
              case gen_next_chunk (cur_value, t_value) s of
                (chunk, s') \<Rightarrow> even_chunks_loop raw max_value max_i t_value t_i (chunks @ [chunk]) s'))
      else Inr (chunks, s))"
  by auto
termination
  by (relation "measure (\<lambda>(raw, max_value, max_i, cur_value, cur_i, chunks, s). nat (max_i - cur_i))") auto

declare even_chunks_loop.simps [simp del]

definition distribution_factor :: "int \<Rightarrow> int \<Rightarrow> nat \<Rightarrow> rat" where
  "distribution_factor min_i max_i row_cnt =
     f64_round (f64_round (of_int (max_i - min_i + 1)) / f64_round (of_nat row_cnt))"

definition raw_step :: "rat \<Rightarrow> nat \<Rightarrow> int" where
  "raw_step factor batch_size = f64_to_int (f64_round (factor * f64_round (of_nat batch_size)))"

definition gen_next_evenly_sized_chunks ::
  "chunk_range \<Rightarrow> nat \<Rightarrow> nat \<Rightarrow> col_value option \<Rightarrow> base_splitter \<Rightarrow> (split_outcome \<times> base_splitter) res" where
  "gen_next_evenly_sized_chunks rng batch_size row_cnt resume_value s =
     (case rng of (min_value, max_value) \<Rightarrow>
      bind_res (convert_into_integer_128 min_value) (\<lambda>min_i.
      bind_res (convert_into_integer_128 max_value) (\<lambda>max_i.
        let factor = distribution_factor min_i max_i row_cnt in
        if factor < DISTRIBUTION_FACTOR_LOWER \<or> factor > DISTRIBUTION_FACTOR_UPPER
        then Inr (OutOfDistributionFactorRangeError factor, s)
        else
          let raw = raw_step factor batch_size; step_size = max raw 1 in
          case resume_value of
            Some NoneV \<Rightarrow> Inr (Chunks [], mark_no_next_chunks s)
          | Some current \<Rightarrow>
              bind_res (convert_into_integer_128 current) (\<lambda>cur_i.
                map_res (\<lambda>(chunks, s'). (Chunks chunks, mark_no_next_chunks s'))
                  (even_chunks_loop raw max_value max_i current cur_i [] s))
          | None \<Rightarrow>
              bind_res (if min_i + step_size \<ge> max_i then Inr max_value else add_integer_128 min_value step_size) (\<lambda>cur_value.
                case gen_next_chunk (NoneV, cur_value) s of
                  (chunk, s1) \<Rightarrow>
                    map_res (\<lambda>(chunks, s'). (Chunks chunks, mark_no_next_chunks s'))
                      (even_chunks_loop raw max_value max_i cur_value (min_i + step_size) [chunk] s1)))))"

section \<open>Chains of chunks\<close>

text \<open>
  A chunk stands for the values above its left end, if it has one, and up to its right end, in the
  order \<open>le\<close> of the source. A chain of chunks goes up from \<open>a\<close> to \<open>b\<close> without gaps.
\<close>

definition in_chunk :: "(col_value \<Rightarrow> col_value \<Rightarrow> bool) \<Rightarrow> col_value \<Rightarrow> snapshot_chunk \<Rightarrow> bool" where
  "in_chunk le v c \<longleftrightarrow>
     (fst (chunk_range c) = NoneV \<or> \<not> le v (fst (chunk_range c))) \<and> le v (snd (chunk_range c))"

fun chunk_chain ::
  "(col_value \<Rightarrow> col_value \<Rightarrow> bool) \<Rightarrow> col_value \<Rightarrow> snapshot_chunk list \<Rightarrow> col_value \<Rightarrow> bool" where
  "chunk_chain le a [] b \<longleftrightarrow> a = b" |
  "chunk_chain le a (c # cs) b \<longleftrightarrow>
     fst (chunk_range c) = a \<and> snd (chunk_range c) \<noteq> NoneV \<and> (a = NoneV \<or> le a (snd (chunk_range c))) \<and>
     chunk_chain le (snd (chunk_range c)) cs b"

definition total_preorder :: "(col_value \<Rightarrow> col_value \<Rightarrow> bool) \<Rightarrow> bool" where
  "total_preorder le \<longleftrightarrow> (\<forall>x y. le x y \<or> le y x) \<and> (\<forall>x y z. le x y \<longrightarrow> le y z \<longrightarrow> le x z)"

lemma total_preorderD:
  assumes "total_preorder le"
  shows "\<not> le x y \<Longrightarrow> le y x" "le x y \<Longrightarrow> le y z \<Longrightarrow> le x z"
  using assms unfolding total_preorder_def by blast+

lemma chunk_chain_ends:
  assumes "total_preorder le" "chunk_chain le a cs b" "a \<noteq> NoneV"
  shows "b \<noteq> NoneV \<and> le a b"
  using assms(2,3)
proof (induction cs arbitrary: a)
  case Nil
  then show ?case using total_preorderD(1)[OF assms(1)] by auto
next
  case (Cons c cs)
  then show ?case using total_preorderD(2)[OF assms(1)] by auto
qed

text \<open>Every value between the ends lies in exactly one chunk of a chain, every other value in none.\<close>

lemma chunk_chain_covers:
  assumes "total_preorder le" "chunk_chain le a cs b" "a \<noteq> NoneV \<or> cs \<noteq> []"
  shows "length (filter (in_chunk le v) cs) = of_bool ((a = NoneV \<or> \<not> le v a) \<and> le v b)"
  using assms(2,3)
proof (induction cs arbitrary: a)
  case (Cons c cs)
  let ?m = "snd (chunk_range c)"
  from Cons.prems(1) have c: "fst (chunk_range c) = a" "?m \<noteq> NoneV" "a = NoneV \<or> le a ?m" "chunk_chain le ?m cs b"
    by simp_all
  have IH: "length (filter (in_chunk le v) cs) = of_bool (\<not> le v ?m \<and> le v b)"
    using Cons.IH[OF c(4)] c(2) by simp
  have up: "le ?m b" using chunk_chain_ends[OF assms(1) c(4,2)] by simp
  have "in_chunk le v c \<longleftrightarrow> (a = NoneV \<or> \<not> le v a) \<and> le v ?m" by (simp add: in_chunk_def c(1))
  moreover have "le v b" if "le v ?m" using total_preorderD(2)[OF assms(1) that up] .
  moreover have "le v ?m" if "a \<noteq> NoneV" "le v a" using total_preorderD(2)[OF assms(1)] that c(3) by blast
  ultimately show ?case using IH by (cases "le v ?m"; cases "a = NoneV"; cases "le v a") simp_all
qed auto

lemma chunk_chain_append:
  "chunk_chain le a (xs @ ys) b \<longleftrightarrow> (\<exists>m. chunk_chain le a xs m \<and> chunk_chain le m ys b)"
  by (induction xs arbitrary: a) auto

section \<open>Evenly sized chunks\<close>

text \<open>The largest value \<open>add_integer_128\<close> gives: the signed maximum, for unsigned values too.\<close>

fun add_max :: "col_value \<Rightarrow> int" where
  "add_max (Tiny _) = i8_MAX" |
  "add_max (UnsignedTiny _) = i8_MAX" |
  "add_max (Short _) = i16_MAX" |
  "add_max (UnsignedShort _) = i16_MAX" |
  "add_max (Long _) = i32_MAX" |
  "add_max (UnsignedLong _) = i32_MAX" |
  "add_max _ = i64_MAX"

lemmas int_maxes = i8_MAX_def i16_MAX_def i32_MAX_def i64_MAX_def

lemma sint_range: "- (2 ^ (LENGTH('a) - 1)) \<le> sint w \<and> sint w < 2 ^ (LENGTH('a) - 1)"
  for w :: "'a::len word"
  using sint_greater_eq[of w] sint_less[of w] by simp

lemma uint_range: "0 \<le> uint w \<and> uint w < 2 ^ LENGTH('a)"
  for w :: "'a::len word"
  using uint_lt2p[of w] by simp

lemmas word_ranges =
  sint_range[where 'a = 8, simplified] sint_range[where 'a = 16, simplified]
  sint_range[where 'a = 32, simplified] sint_range[where 'a = 64, simplified]
  uint_range[where 'a = 8, simplified] uint_range[where 'a = 16, simplified]
  uint_range[where 'a = 32, simplified] uint_range[where 'a = 64, simplified]

lemma integer_value_bounds:
  assumes "convert_into_integer_128 v = Inr i"
  shows "- 9223372036854775808 \<le> i \<and> i < 18446744073709551616"
proof (cases v)
  case (Tiny w) then show ?thesis using assms word_ranges(1)[of w] by auto
next
  case (UnsignedTiny w)
  with assms have "i = uint w" by simp
  then show ?thesis using word_ranges(5)[of w] uint_ge_0[of w] by linarith
next
  case (Short w) then show ?thesis using assms word_ranges(2)[of w] by auto
next
  case (UnsignedShort w)
  with assms have "i = uint w" by simp
  then show ?thesis using word_ranges(6)[of w] uint_ge_0[of w] by linarith
next
  case (Long w) then show ?thesis using assms word_ranges(3)[of w] by auto
next
  case (UnsignedLong w)
  with assms have "i = uint w" by simp
  then show ?thesis using word_ranges(7)[of w] uint_ge_0[of w] by linarith
next
  case (LongLong w) then show ?thesis using assms word_ranges(4)[of w] by auto
next
  case (UnsignedLongLong w)
  with assms have "i = uint w" by simp
  then show ?thesis using word_ranges(8)[of w] uint_ge_0[of w] by linarith
qed (use assms in auto)

lemma wrap_i128_id:
  assumes "- (2 ^ 127) \<le> i" "i < 2 ^ 127"
  shows "wrap_i128 i = i"
  using assms by (simp add: wrap_i128_def signed_take_bit_int_eq_self)

lemma signed_add_clamp:
  fixes w :: "'a::len word"
  assumes "0 \<le> t" "sint w + t < 2 ^ 127" "M = 2 ^ (LENGTH('a) - 1) - 1" "LENGTH('a) \<le> 127"
  shows "sint (word_of_int (min (wrap_i128 (sint w + t)) M) :: 'a word) = min (sint w + t) M"
proof -
  have "(2::int) ^ (LENGTH('a) - 1) \<le> 2 ^ 127" using assms(4) by (intro power_increasing) simp_all
  with sint_range[of w] assms(1) have "- (2 ^ 127) \<le> sint w + t" by linarith
  then have "wrap_i128 (sint w + t) = sint w + t" using assms(2) by (rule wrap_i128_id)
  moreover have "- (2 ^ (LENGTH('a) - 1)) \<le> min (sint w + t) M" "min (sint w + t) M < 2 ^ (LENGTH('a) - 1)"
    using sint_range[of w] assms(1,3) by (auto simp: min_def)
  ultimately show ?thesis unfolding sint_sbintrunc' by (simp add: signed_take_bit_int_eq_self)
qed

lemma unsigned_add_clamp:
  fixes w :: "'a::len word"
  assumes "0 \<le> t" "uint w + t < 2 ^ 127" "M = 2 ^ (LENGTH('a) - 1) - 1"
  shows "uint (word_of_int (min (wrap_i128 (uint w + t)) M) :: 'a word) = min (uint w + t) M"
proof -
  have "(0::int) \<le> 2 ^ 127" by simp
  with uint_ge_0[of w] assms(1) have "- (2 ^ 127) \<le> uint w + t" by linarith
  then have "wrap_i128 (uint w + t) = uint w + t" using assms(2) by (rule wrap_i128_id)
  moreover have "(2::int) ^ (LENGTH('a) - 1) \<le> 2 ^ LENGTH('a)" by (intro power_increasing) simp_all
  then have "min (uint w + t) M < 2 ^ LENGTH('a)" unfolding assms(3) by linarith
  moreover have "(1::int) \<le> 2 ^ (LENGTH('a) - 1)" by simp
  then have "0 \<le> min (uint w + t) M" unfolding assms(3) using uint_ge_0[of w] assms(1) by linarith
  ultimately show ?thesis by (simp add: uint_word_of_int)
qed

lemma add_integer_128_value:
  assumes "convert_into_integer_128 v = Inr i" "0 \<le> t" "i + t < 2 ^ 64"
  shows "\<exists>v'. add_integer_128 v t = Inr v' \<and> convert_into_integer_128 v' = Inr (min (i + t) (add_max v)) \<and>
    add_max v' = add_max v"
proof -
  have b: "i + t < 2 ^ 127" using assms(3) by simp
  show ?thesis using assms(1,2) b
    by (cases v) (auto simp: signed_add_clamp unsigned_add_clamp int_maxes)
qed

text \<open>An order of the source that orders integers by their value.\<close>

definition int_order :: "(col_value \<Rightarrow> col_value \<Rightarrow> bool) \<Rightarrow> bool" where
  "int_order le \<longleftrightarrow>
     (\<forall>x y i j. convert_into_integer_128 x = Inr i \<longrightarrow> convert_into_integer_128 y = Inr j \<longrightarrow> (le x y \<longleftrightarrow> i \<le> j))"

text \<open>Chunks are numbered one after the other.\<close>

definition numbered :: "base_splitter \<Rightarrow> snapshot_chunk list \<Rightarrow> base_splitter \<Rightarrow> bool" where
  "numbered s cs s' \<longleftrightarrow>
     map chunk_id cs = [Suc (chunk_id_generator s)..<Suc (chunk_id_generator s + length cs)] \<and>
     chunk_id_generator s' = chunk_id_generator s + length cs \<and> split_state s' = split_state s"

lemma gen_next_chunk_simps [simp]:
  "gen_next_chunk rng s =
     (\<lparr>chunk_id = Suc (chunk_id_generator s), chunk_range = rng\<rparr>, s\<lparr>chunk_id_generator := Suc (chunk_id_generator s)\<rparr>)"
  by (simp add: gen_next_chunk_def gen_next_chunk_id_def Let_def)

lemma numbered_Cons:
  assumes "numbered (s\<lparr>chunk_id_generator := Suc (chunk_id_generator s)\<rparr>) cs s'"
  shows "numbered s (\<lparr>chunk_id = Suc (chunk_id_generator s), chunk_range = rng\<rparr> # cs) s'"
  using assms by (simp add: numbered_def upt_conv_Cons del: upt_Suc)

lemma convert_not_None: "convert_into_integer_128 v = Inr i \<Longrightarrow> v \<noteq> NoneV"
  by auto

lemma even_chunks_loop_spec:
  assumes "convert_into_integer_128 max_value = Inr max_i" "int_order le"
    and "convert_into_integer_128 cur_value = Inr c" "c \<le> cur_i" "c \<le> add_max cur_value"
  shows "\<exists>cs s'. even_chunks_loop raw max_value max_i cur_value cur_i chunks s = Inr (chunks @ cs, s') \<and>
    numbered s cs s' \<and> (if cur_i < max_i then chunk_chain le cur_value cs max_value else cs = [])"
  using assms(1,3-5)
proof (induction raw max_value max_i cur_value cur_i chunks s arbitrary: c rule: even_chunks_loop.induct)
  case (1 raw max_value max_i cur_value cur_i chunks s)
  note IH = "1.IH" and max_i = "1.prems"(1) and cur = "1.prems"(2-4)
  let ?step = "max raw 1" and ?s = "s\<lparr>chunk_id_generator := Suc (chunk_id_generator s)\<rparr>"
  show ?case
  proof (cases "cur_i < max_i")
    case lt: True
    show ?thesis
    proof (cases "cur_i + ?step \<ge> max_i")
      case True
      let ?c = "\<lparr>chunk_id = Suc (chunk_id_generator s), chunk_range = (cur_value, max_value)\<rparr>"
      have "even_chunks_loop raw max_value max_i cur_value cur_i chunks s = Inr (chunks @ [?c], ?s)"
        using lt True by (simp add: even_chunks_loop.simps[of raw max_value max_i] Let_def)
      moreover have "le cur_value max_value"
        using assms(2) max_i cur(1,2) lt unfolding int_order_def by auto
      ultimately show ?thesis
        using lt convert_not_None[OF max_i] by (intro exI[of _ "[?c]"] exI[of _ ?s]) (simp add: numbered_def)
    next
      case False
      then have "c + ?step < 2 ^ 64" using cur(2) integer_value_bounds[OF max_i] by simp
      moreover have "0 \<le> ?step" by simp
      ultimately obtain tv where
        tv: "add_integer_128 cur_value ?step = Inr tv" "add_max tv = add_max cur_value"
          "convert_into_integer_128 tv = Inr (min (c + ?step) (add_max cur_value))"
        using add_integer_128_value[OF cur(1)] by blast
      let ?c = "\<lparr>chunk_id = Suc (chunk_id_generator s), chunk_range = (cur_value, tv)\<rparr>"
      have step: "even_chunks_loop raw max_value max_i cur_value cur_i chunks s =
          even_chunks_loop raw max_value max_i tv (cur_i + ?step) (chunks @ [?c]) ?s"
        using lt False tv(1) by (simp add: even_chunks_loop.simps[of raw max_value max_i cur_value] Let_def)
      have "\<exists>cs s'. even_chunks_loop raw max_value max_i tv (cur_i + ?step) (chunks @ [?c]) ?s = Inr ((chunks @ [?c]) @ cs, s') \<and>
          numbered ?s cs s' \<and> (if cur_i + ?step < max_i then chunk_chain le tv cs max_value else cs = [])"
        by (rule IH[OF lt refl refl _ max_i tv(3)]) (use False tv cur in auto)
      then obtain cs s' where
        "even_chunks_loop raw max_value max_i tv (cur_i + ?step) (chunks @ [?c]) ?s = Inr ((chunks @ [?c]) @ cs, s')"
        "numbered ?s cs s'" "chunk_chain le tv cs max_value" using False by auto
      moreover have "le cur_value tv" using assms(2) cur tv(3) unfolding int_order_def by auto
      ultimately show ?thesis
        using lt convert_not_None[OF tv(3)] step
        by (intro exI[of _ "?c # cs"] exI[of _ s']) (simp add: numbered_Cons)
    qed
  next
    case False
    then show ?thesis by (simp add: even_chunks_loop.simps[of raw max_value max_i] numbered_def)
  qed
qed

lemma mark_simps [simp]:
  "chunk_id_generator (mark_no_next_chunks s) = chunk_id_generator s"
  "chunk_id_generator (mark_no_even_chunks s) = chunk_id_generator s"
  "has_no_next_chunks (mark_no_next_chunks s)" "has_no_even_chunks (mark_no_even_chunks s)"
  "has_no_next_chunks (mark_no_even_chunks s) = has_no_next_chunks s"
  "has_no_even_chunks (mark_no_next_chunks s) = has_no_even_chunks s"
proof -
  have b: "(w OR 1) AND 1 = 1" "(w OR 2) AND 2 = 2" "(w OR 2) AND 1 = 1 \<longleftrightarrow> w AND 1 = 1"
      "(w OR 1) AND 2 = 2 \<longleftrightarrow> w AND 2 = 2" for w :: u8
    by (simp_all add: bit.conj_disj_distrib2)
  show "chunk_id_generator (mark_no_next_chunks s) = chunk_id_generator s"
    "chunk_id_generator (mark_no_even_chunks s) = chunk_id_generator s"
    "has_no_next_chunks (mark_no_next_chunks s)" "has_no_even_chunks (mark_no_even_chunks s)"
    "has_no_next_chunks (mark_no_even_chunks s) = has_no_next_chunks s"
    "has_no_even_chunks (mark_no_next_chunks s) = has_no_even_chunks s"
    by (simp_all add: mark_no_next_chunks_def mark_no_even_chunks_def has_no_next_chunks_def
        has_no_even_chunks_def has_state_def set_state_def NO_NEXT_CHUNKS_def NO_EVEN_CHUNKS_def b)
qed

text \<open>
  Whenever the values are spread evenly enough, the chunks go up from the value to resume from, or from
  below the minimum, to the maximum. Without a value to resume from there is always a chunk.
\<close>

lemma gen_next_evenly_sized_chunks_spec:
  assumes "convert_into_integer_128 min_value = Inr min_i" "convert_into_integer_128 max_value = Inr max_i"
    and "int_order le" "gen_next_evenly_sized_chunks (min_value, max_value) batch_size row_cnt resume s = Inr (Chunks cs, s')"
    and "case resume of None \<Rightarrow> True | Some v \<Rightarrow> \<exists>i. convert_into_integer_128 v = Inr i \<and> i \<le> add_max v"
  shows "(case resume of
        None \<Rightarrow> cs \<noteq> [] \<and> chunk_chain le NoneV cs max_value
      | Some v \<Rightarrow> if \<not> le max_value v then chunk_chain le v cs max_value else cs = []) \<and>
    (\<exists>s1. numbered s cs s1 \<and> s' = mark_no_next_chunks s1)"
proof -
  let ?raw = "raw_step (distribution_factor min_i max_i row_cnt) batch_size"
  let ?step = "max ?raw 1" and ?s = "s\<lparr>chunk_id_generator := Suc (chunk_id_generator s)\<rparr>"
  show ?thesis
  proof (cases resume)
    case None
    obtain cv c where cv: "(if min_i + ?step \<ge> max_i then Inr max_value else add_integer_128 min_value ?step) = Inr cv"
      "convert_into_integer_128 cv = Inr c" "c \<le> min_i + ?step" "min_i + ?step < max_i \<Longrightarrow> c \<le> add_max cv"
      "min_i + ?step \<ge> max_i \<Longrightarrow> cv = max_value"
    proof (cases "min_i + ?step \<ge> max_i")
      case True
      then show ?thesis using that[of max_value max_i] assms(2) by simp
    next
      case False
      then have "min_i + ?step < 2 ^ 64" using integer_value_bounds[OF assms(2)] by simp
      moreover have "0 \<le> ?step" by simp
      ultimately obtain cv where "add_integer_128 min_value ?step = Inr cv" "add_max cv = add_max min_value"
        "convert_into_integer_128 cv = Inr (min (min_i + ?step) (add_max min_value))"
        using add_integer_128_value[OF assms(1)] by blast
      then show ?thesis using that[of cv] False by simp
    qed
    let ?c = "\<lparr>chunk_id = Suc (chunk_id_generator s), chunk_range = (NoneV, cv)\<rparr>"
    have loop: "\<exists>cs s'. even_chunks_loop ?raw max_value max_i cv (min_i + ?step) [?c] ?s = Inr ([?c] @ cs, s') \<and>
        numbered ?s cs s' \<and> (if min_i + ?step < max_i then chunk_chain le cv cs max_value else cs = [])"
    proof (cases "min_i + ?step < max_i")
      case True
      then show ?thesis using even_chunks_loop_spec[OF assms(2,3) cv(2,3) cv(4)[OF True], of ?raw "[?c]" ?s] by simp
    next
      case False
      then show ?thesis by (simp add: even_chunks_loop.simps[of ?raw max_value max_i] numbered_def)
    qed
    then obtain cs1 s1 where l: "even_chunks_loop ?raw max_value max_i cv (min_i + ?step) [?c] ?s = Inr ([?c] @ cs1, s1)"
      "numbered ?s cs1 s1" "if min_i + ?step < max_i then chunk_chain le cv cs1 max_value else cs1 = []" by blast
    from assms(4) have "cs = ?c # cs1" "s' = mark_no_next_chunks s1"
      by (simp_all add: gen_next_evenly_sized_chunks_def assms(1,2) None Let_def cv(1) l(1) split: if_splits)
    moreover have "chunk_chain le cv cs1 max_value" using l(3) cv(5) by (auto split: if_splits)
    ultimately show ?thesis using convert_not_None[OF cv(2)] numbered_Cons[OF l(2)] None by auto
  next
    case (Some v)
    with assms(5) obtain i where i: "convert_into_integer_128 v = Inr i" "i \<le> add_max v" by auto
    from even_chunks_loop_spec[OF assms(2,3) i(1) order_refl i(2), of ?raw "[]" s] obtain cs1 s1 where
      l: "even_chunks_loop ?raw max_value max_i v i [] s = Inr (cs1, s1)" "numbered s cs1 s1"
        "if i < max_i then chunk_chain le v cs1 max_value else cs1 = []" by auto
    from assms(4) have "cs = cs1" "s' = mark_no_next_chunks s1"
      using convert_not_None[OF i(1)] i(1) l(1)
      by (auto simp: gen_next_evenly_sized_chunks_def assms(1,2) Some Let_def split: if_splits col_value.splits)
    moreover have "\<not> le max_value v \<longleftrightarrow> i < max_i" using assms(2,3) i(1) unfolding int_order_def by auto
    ultimately show ?thesis using l Some by auto
  qed
qed

lemma gen_next_evenly_sized_chunks_total:
  assumes "convert_into_integer_128 min_value = Inr min_i" "convert_into_integer_128 max_value = Inr max_i"
    and "case resume of None \<Rightarrow> True | Some v \<Rightarrow> \<exists>i. convert_into_integer_128 v = Inr i \<and> i \<le> add_max v"
  shows "(\<exists>cs s'. gen_next_evenly_sized_chunks (min_value, max_value) batch_size row_cnt resume s = Inr (Chunks cs, s')) \<or>
    (\<exists>f. gen_next_evenly_sized_chunks (min_value, max_value) batch_size row_cnt resume s =
       Inr (OutOfDistributionFactorRangeError f, s))"
proof -
  let ?f = "distribution_factor min_i max_i row_cnt"
  let ?raw = "raw_step ?f batch_size"
  let ?step = "max ?raw 1"
  define le where "le x y \<longleftrightarrow> (case (convert_into_integer_128 x, convert_into_integer_128 y) of
      (Inr i, Inr j) \<Rightarrow> i \<le> j | _ \<Rightarrow> False)" for x y
  have le: "int_order le" by (simp add: int_order_def le_def)
  have loop: "\<exists>cs s'. even_chunks_loop ?raw max_value max_i v i chunks s = Inr (cs, s')"
    if "convert_into_integer_128 v = Inr c" "c \<le> i" "i < max_i \<Longrightarrow> c \<le> add_max v" for v c i chunks s
  proof (cases "i < max_i")
    case True
    then show ?thesis using even_chunks_loop_spec[OF assms(2) le that(1,2) that(3)] by blast
  qed (simp add: even_chunks_loop.simps[of ?raw max_value max_i])
  show ?thesis
  proof (cases "?f < DISTRIBUTION_FACTOR_LOWER \<or> ?f > DISTRIBUTION_FACTOR_UPPER")
    case True
    then show ?thesis by (simp add: gen_next_evenly_sized_chunks_def assms(1,2) Let_def)
  next
    case ok: False
    show ?thesis
    proof (cases resume)
      case None
      show ?thesis
      proof (cases "min_i + ?step \<ge> max_i")
        case True
        with None ok show ?thesis
          by (simp add: gen_next_evenly_sized_chunks_def assms(1,2) Let_def even_chunks_loop.simps[of ?raw max_value max_i])
      next
        case False
        then have "min_i + ?step < 2 ^ 64" "0 \<le> ?step" using integer_value_bounds[OF assms(2)] by simp_all
        then obtain cv where cv: "add_integer_128 min_value ?step = Inr cv" "add_max cv = add_max min_value"
          "convert_into_integer_128 cv = Inr (min (min_i + ?step) (add_max min_value))"
          using add_integer_128_value[OF assms(1)] by blast
        then obtain cs s' where "even_chunks_loop ?raw max_value max_i cv (min_i + ?step)
            [fst (gen_next_chunk (NoneV, cv) s)] (snd (gen_next_chunk (NoneV, cv) s)) = Inr (cs, s')"
          using loop[OF cv(3)] by fastforce
        then show ?thesis using None ok False cv(1)
          by (simp add: gen_next_evenly_sized_chunks_def assms(1,2) Let_def)
      qed
    next
      case (Some v)
      with assms(3) obtain i where i: "convert_into_integer_128 v = Inr i" "i \<le> add_max v" by auto
      then obtain cs s' where "even_chunks_loop ?raw max_value max_i v i [] s = Inr (cs, s')"
        using loop[OF i(1) order_refl] by blast
      then show ?thesis using Some ok i(1)
        by (cases v) (simp_all add: gen_next_evenly_sized_chunks_def assms(1,2) Let_def)
    qed
  qed
qed

end
