(* ===== verification/Db_Meta.thy ===== *)
theory Db_Meta
  imports Row_Data
begin

text \<open>
  Table metadata of the two relational sources: \<open>dt-common/src/meta/mysql/mysql_col_type.rs\<close>,
  \<open>mysql_tb_meta.rs\<close>, \<open>dt-common/src/meta/pg/pg_value_type.rs\<close>, \<open>pg_col_type.rs\<close> and
  \<open>pg_tb_meta.rs\<close>.
\<close>

section \<open>MySQL\<close>

datatype mysql_col_type =
    MyUnknown string bool
  | MyTinyInt bool
  | MySmallInt bool
  | MyMediumInt bool
  | MyInt bool
  | MyBigInt bool
  | MyFloat
  | MyDouble
  | MyDecimal u32 u32
  | MyTime u32
  | MyDate bool
  | MyDateTime u32 bool
  | MyTimestamp u32 "64 word" bool
  | MyYear
  | MyChar u64 string
  | MyVarchar u64 string
  | MyTinyText u64 string
  | MyMediumText u64 string
  | MyText u64 string
  | MyLongText u64 string
  | MyBinary u8
  | MyVarBinary u16
  | MyTinyBlob
  | MyMediumBlob
  | MyLongBlob
  | MyBlob
  | MyBit
  | MySet "(u64, string) hash_map"
  | MyEnum "string list"
  | MyJson
  | MyGeometry string

fun mysql_is_geometry :: "mysql_col_type \<Rightarrow> bool" where
  "mysql_is_geometry (MyGeometry _) = True" |
  "mysql_is_geometry _ = False"

fun mysql_is_integer :: "mysql_col_type \<Rightarrow> bool" where
  "mysql_is_integer (MyTinyInt _) = True" |
  "mysql_is_integer (MySmallInt _) = True" |
  "mysql_is_integer (MyMediumInt _) = True" |
  "mysql_is_integer (MyInt _) = True" |
  "mysql_is_integer (MyBigInt _) = True" |
  "mysql_is_integer _ = False"

fun mysql_is_string :: "mysql_col_type \<Rightarrow> bool" where
  "mysql_is_string (MyChar _ _) = True" |
  "mysql_is_string (MyVarchar _ _) = True" |
  "mysql_is_string (MyTinyText _ _) = True" |
  "mysql_is_string (MyMediumText _ _) = True" |
  "mysql_is_string (MyText _ _) = True" |
  "mysql_is_string (MyLongText _ _) = True" |
  "mysql_is_string _ = False"

text \<open>The match lists the types that can be split; these are the ones it does not list.\<close>

fun mysql_can_be_splitted :: "mysql_col_type \<Rightarrow> bool" where
  "mysql_can_be_splitted (MyUnknown _ _) = False" |
  "mysql_can_be_splitted (MySet _) = False" |
  "mysql_can_be_splitted (MyEnum _) = False" |
  "mysql_can_be_splitted (MyGeometry _) = False" |
  "mysql_can_be_splitted _ = True"

record mysql_tb_meta =
  my_basic :: rdb_tb_meta
  my_col_type_map :: "(string, mysql_col_type) hash_map"

definition mysql_get_col_type :: "mysql_tb_meta \<Rightarrow> string \<Rightarrow> mysql_col_type res" where
  "mysql_get_col_type meta col =
     (case map_of (my_col_type_map meta) col of
        Some t \<Rightarrow> Inr t
      | None \<Rightarrow> Inl (Panic (''col: ['' @ col @ ''] not exists in tb_meta'')))"

section \<open>PostgreSQL\<close>

datatype pg_value_type =
    PgFloat32 | PgFloat64 | PgInt16 | PgInt32 | PgInt64 | PgBoolean | PgStruct | PgChar | PgString
  | PgTimestamp | PgTimestampTZ | PgDate | PgTime | PgTimeTZ | PgInterval | PgNumeric | PgBytes
  | PgUUID | PgJSON | PgHStore | PgGeography | PgGeometry | PgPoint | PgCIDR | PgINET | PgMacaddr
  | PgArrayFloat32 | PgArrayFloat64 | PgArrayInt16 | PgArrayInt32 | PgArrayInt64 | PgArrayString
  | PgArrayDate | PgArrayTimestamp | PgArrayTimestampTZ | PgArrayBoolean

definition pg_is_integer :: "pg_value_type \<Rightarrow> bool" where
  "pg_is_integer t \<longleftrightarrow> t \<in> set [PgInt16, PgInt32, PgInt64]"

definition pg_can_be_splitted :: "pg_value_type \<Rightarrow> bool" where
  "pg_can_be_splitted t \<longleftrightarrow>
     t \<in> set [PgInt32, PgInt16, PgInt64, PgFloat32, PgFloat64, PgNumeric, PgTimestampTZ, PgTimestamp, PgTime,
              PgTimeTZ, PgDate, PgString]"

record pg_col_type =
  pg_value_type :: pg_value_type
  pg_name :: string
  pg_alias :: string
  pg_oid :: "32 word"
  pg_parent_oid :: "32 word"
  pg_element_oid :: "32 word"
  pg_category :: string
  pg_enum_values :: "string list option"
  pg_schema_name :: string

record pg_tb_meta =
  pg_basic :: rdb_tb_meta
  pg_tb_oid :: "32 word"
  pg_col_type_map :: "(string, pg_col_type) hash_map"

definition pg_get_col_type :: "pg_tb_meta \<Rightarrow> string \<Rightarrow> pg_col_type res" where
  "pg_get_col_type meta col =
     (case map_of (pg_col_type_map meta) col of
        Some t \<Rightarrow> Inr t
      | None \<Rightarrow> Inl (Panic (''col: ['' @ col @ ''] not exists in tb_meta'')))"

definition get_extract_type :: "pg_col_type \<Rightarrow> string" where
  "get_extract_type t =
     (if pg_alias t = ''oid'' then ''int8''
      else if pg_name t = ''blob'' then ''text''
      else if pg_value_type t \<in> set [PgBytes, PgBoolean, PgInt16, PgInt32, PgInt64, PgFloat32, PgFloat64]
      then pg_alias t
      else ''text'')"

end
