(* ===== verification/Mysql_Splitter.thy ===== *)
theory Mysql_Splitter
  imports Base_Splitter Db_Meta Dt_Data
begin

text \<open>
  How a table is cut into chunks that are extracted in parallel:
  \<open>dt-connector/src/extractor/mysql/mysql_snapshot_splitter.rs\<close>.

  The connection pool is an argument: a function from the text of a statement and the values bound to
  it to the rows of the answer, a row being the decoded values by column name. What the splitter relies
  on of MySQL is stated in \<open>source_answers\<close>.
\<close>

section \<open>Model\<close>

type_synonym mysql_conn = "string \<Rightarrow> col_value list \<Rightarrow> col_values list res"

record mysql_splitter =
  ms_basic :: base_splitter
  ms_snapshot_range :: "chunk_range option"
  ms_tb_meta :: mysql_tb_meta
  ms_batch_size :: nat
  ms_estimated_row_count :: nat
  ms_partition_col :: string
  ms_current_col_value :: "col_value option"
  ms_checkpoint_id :: nat
  ms_checkpoint_map :: "(nat, col_value) hash_map"

definition mysql_splitter_new :: "mysql_tb_meta \<Rightarrow> nat \<Rightarrow> string \<Rightarrow> mysql_splitter" where
  "mysql_splitter_new meta batch_size partition_col =
     \<lparr>ms_basic = base_splitter_new, ms_snapshot_range = None, ms_tb_meta = meta, ms_batch_size = batch_size,
      ms_estimated_row_count = 0, ms_partition_col = partition_col, ms_current_col_value = None,
      ms_checkpoint_id = 0, ms_checkpoint_map = []\<rparr>"

definition mysql_splitter_init :: "col_values \<Rightarrow> mysql_splitter \<Rightarrow> mysql_splitter" where
  "mysql_splitter_init resume_values s =
     s\<lparr>ms_current_col_value :=
         (if resume_values \<noteq> [] then map_of resume_values (ms_partition_col s) else None)\<rparr>"

definition quote_mysql :: "string \<Rightarrow> string" where
  "quote_mysql s = [MYSQL_ESCAPE] @ s @ [MYSQL_ESCAPE]"

definition nl :: string where "nl = [CHR 0x0A]"

definition estimate_sql :: "rdb_tb_meta \<Rightarrow> string" where
  "estimate_sql m =
     ''select'' @ nl @ ''    TABLE_ROWS'' @ nl @ ''FROM'' @ nl @ ''    information_schema.TABLES'' @ nl @ ''WHERE'' @ nl @
     ''    table_type = '' @ [CHR 0x27] @ ''BASE TABLE'' @ [CHR 0x27] @ nl @
     ''    AND table_schema = '' @ [CHR 0x27] @ tm_schema m @ [CHR 0x27] @ nl @
     ''    AND table_name = '' @ [CHR 0x27] @ tm_tb m @ [CHR 0x27] @ nl @ ''LIMIT 1''"

definition estimate_row_count :: "mysql_conn \<Rightarrow> rdb_tb_meta \<Rightarrow> nat res" where
  "estimate_row_count conn m =
     bind_res (conn (estimate_sql m) []) (\<lambda>rows.
       case rows of
         [] \<Rightarrow> Inr 0
       | row # _ \<Rightarrow>
           (case row of
              (_, UnsignedLongLong n) # _ \<Rightarrow> Inr (unat n)
            | _ \<Rightarrow> Inl (Bail ''error occurred while decoding column 0'')))"

definition range_sql :: "string \<Rightarrow> rdb_tb_meta \<Rightarrow> string" where
  "range_sql partition_col m =
     ''select'' @ nl @ ''    MIN('' @ quote_mysql partition_col @ '') AS min_value, MAX('' @ quote_mysql partition_col @
     '') AS max_value'' @ nl @ ''FROM'' @ nl @ ''    '' @ quote_mysql (tm_schema m) @ ''.'' @ quote_mysql (tm_tb m)"

definition get_partition_col_range :: "mysql_conn \<Rightarrow> string \<Rightarrow> mysql_tb_meta \<Rightarrow> chunk_range res" where
  "get_partition_col_range conn partition_col meta =
     bind_res (conn (range_sql partition_col (my_basic meta)) []) (\<lambda>rows.
       case rows of
         [] \<Rightarrow> Inr (NoneV, NoneV)
       | row # _ \<Rightarrow>
           bind_res (mysql_get_col_type meta partition_col) (\<lambda>_.
           bind_res (context_res ''fails to get min value'' (map_of row ''min_value'')) (\<lambda>min_value.
           bind_res (context_res ''fails to get max value'' (map_of row ''max_value'')) (\<lambda>max_value.
             Inr (min_value, max_value)))))"

definition set_basic :: "base_splitter \<Rightarrow> mysql_splitter \<Rightarrow> mysql_splitter" where
  "set_basic b s = s\<lparr>ms_basic := b\<rparr>"

definition get_evenly_sized_chunks ::
  "ext \<Rightarrow> mysql_conn \<Rightarrow> mysql_splitter \<Rightarrow> (split_outcome \<times> mysql_splitter) res" where
  "get_evenly_sized_chunks e conn s0 =
     (if has_no_even_chunks (ms_basic s0) \<or> has_no_next_chunks (ms_basic s0) then Inr (Chunks [], s0)
      else
        let s = set_basic (mark_no_even_chunks (ms_basic s0)) s0;
            gen = (\<lambda>range' s1.
              map_res (\<lambda>(outcome, b). (outcome, set_basic b s1))
                (gen_next_evenly_sized_chunks range' (ms_batch_size s1) (ms_estimated_row_count s1)
                  (ms_current_col_value s1) (ms_basic s1)))
        in case ms_snapshot_range s of
             Some range' \<Rightarrow> gen range' s
           | None \<Rightarrow>
               bind_res (get_partition_col_range conn (ms_partition_col s) (ms_tb_meta s)) (\<lambda>range'.
                 if is_same_value e (fst range') (snd range')
                 then Inr (BadSplitColumnError (col_value_to_string e (fst range')) (col_value_to_string e (snd range')), s)
                 else gen range' (s\<lparr>ms_snapshot_range := Some range'\<rparr>)))"

definition next_end_where :: "mysql_splitter \<Rightarrow> string" where
  "next_end_where s =
     (let m = my_basic (ms_tb_meta s);
          where_clause = (if is_col_nullable m (ms_partition_col s)
                          then ''WHERE '' @ quote_mysql (ms_partition_col s) @ '' IS NOT NULL'' else [])
      in if ms_current_col_value s \<noteq> None then
           (if where_clause = [] then ''WHERE '' @ quote_mysql (tm_partition_col m) @ '' > ?''
            else where_clause @ '' AND '' @ quote_mysql (tm_partition_col m) @ '' > ?'')
         else where_clause)"

definition next_end_sql :: "mysql_splitter \<Rightarrow> string" where
  "next_end_sql s =
     (let m = my_basic (ms_tb_meta s); col = quote_mysql (ms_partition_col s) in
      ''SELECT MAX('' @ col @ '') AS max_value FROM ('' @ nl @ ''SELECT '' @ col @ '' FROM '' @
      quote_mysql (tm_schema m) @ ''.'' @ quote_mysql (tm_tb m) @ '' '' @ next_end_where s @ '' ORDER BY '' @ col @
      '' ASC LIMIT '' @ nat_to_string (ms_batch_size s) @ '') AS T'')"

definition get_next_unevenly_sized_chunk ::
  "mysql_conn \<Rightarrow> mysql_splitter \<Rightarrow> (snapshot_chunk option \<times> mysql_splitter) res" where
  "get_next_unevenly_sized_chunk conn s =
     bind_res (mysql_get_col_type (ms_tb_meta s) (ms_partition_col s)) (\<lambda>_.
       let stop = Inr (None, set_basic (mark_no_next_chunks (ms_basic s)) s) in
       if ms_current_col_value s = Some NoneV then stop
       else
         bind_res (conn (next_end_sql s) (case ms_current_col_value s of Some v \<Rightarrow> [v] | None \<Rightarrow> [])) (\<lambda>rows.
           case rows of
             [] \<Rightarrow> Inl (Bail ''fails to get next chunk end value'')
           | row # _ \<Rightarrow>
               bind_res (context_res ''no column max_value'' (map_of row ''max_value'')) (\<lambda>next_end.
                 if next_end = NoneV then stop
                 else
                   (case gen_next_chunk (case ms_current_col_value s of Some v \<Rightarrow> v | None \<Rightarrow> NoneV, next_end) (ms_basic s) of
                      (chunk, b) \<Rightarrow> Inr (Some chunk, set_basic b (s\<lparr>ms_current_col_value := Some next_end\<rparr>))))))"

definition no_split_chunk :: "mysql_splitter \<Rightarrow> snapshot_chunk list \<times> mysql_splitter" where
  "no_split_chunk s = (case gen_next_chunk (NoneV, NoneV) (ms_basic s) of (chunk, b) \<Rightarrow> ([chunk], set_basic b s))"

definition uneven_chunks :: "mysql_conn \<Rightarrow> mysql_splitter \<Rightarrow> (snapshot_chunk list \<times> mysql_splitter) res" where
  "uneven_chunks conn s =
     map_res (\<lambda>(c, s'). (case c of Some chunk \<Rightarrow> [chunk] | None \<Rightarrow> [], s')) (get_next_unevenly_sized_chunk conn s)"

definition get_next_chunks ::
  "ext \<Rightarrow> mysql_conn \<Rightarrow> mysql_splitter \<Rightarrow> (snapshot_chunk list \<times> mysql_splitter) res" where
  "get_next_chunks e conn s =
     (if has_no_next_chunks (ms_basic s) then Inr ([], s)
      else
        bind_res (mysql_get_col_type (ms_tb_meta s) (ms_partition_col s)) (\<lambda>col_type.
          if \<not> mysql_can_be_splitted col_type
          then Inr (no_split_chunk (set_basic (mark_no_next_chunks (ms_basic s)) s))
          else
            bind_res (if ms_estimated_row_count s = 0 then estimate_row_count conn (my_basic (ms_tb_meta s))
                      else Inr (ms_estimated_row_count s)) (\<lambda>n.
              let s1 = s\<lparr>ms_estimated_row_count := n\<rparr> in
              if n \<le> ms_batch_size s1
              then Inr (no_split_chunk (set_basic (mark_no_next_chunks (ms_basic s1)) s1))
              else if \<not> has_no_even_chunks (ms_basic s1) \<and> mysql_is_integer col_type
              then
                bind_res (get_evenly_sized_chunks e conn s1) (\<lambda>(outcome, s2).
                  case outcome of
                    Chunks chunks \<Rightarrow> Inr (chunks, s2)
                  | BadSplitColumnError _ _ \<Rightarrow> Inr (no_split_chunk s2)
                  | OutOfDistributionFactorRangeError _ \<Rightarrow> uneven_chunks conn s2)
              else uneven_chunks conn s1)))"

function checkpoint_loop ::
  "(col_value \<Rightarrow> position) \<Rightarrow> position \<Rightarrow> nat \<Rightarrow> (nat, col_value) hash_map \<Rightarrow> position \<times> nat \<times> (nat, col_value) hash_map" where
  "checkpoint_loop build position id' m =
     (case map_of m (id' + 1) of
        Some v \<Rightarrow> checkpoint_loop build (build v) (id' + 1) (AList.delete (id' + 1) m)
      | None \<Rightarrow> (position, id', m))"
  by auto
termination
proof (relation "measure (\<lambda>(build, position, id', m). length m)")
  fix build :: "col_value \<Rightarrow> position" and position id' m v
  assume "map_of m (id' + 1) = Some (v :: col_value)"
  then have "(id' + 1, v) \<in> set m" by (rule map_of_SomeD)
  then have "length (AList.delete (id' + 1) m) < length m"
    by (auto simp: AList.delete_eq intro: length_filter_less)
  then show "((build, build v, id' + 1, AList.delete (id' + 1) m), build, position, id', m)
    \<in> measure (\<lambda>(build, position, id', m). length m)" by simp
qed simp

declare checkpoint_loop.simps [simp del]

definition get_next_checkpoint_position ::
  "ext \<Rightarrow> nat \<Rightarrow> col_value \<Rightarrow> mysql_splitter \<Rightarrow> position option \<times> mysql_splitter" where
  "get_next_checkpoint_position e i v s =
     (let build = build_position_for_partition e (my_basic (ms_tb_meta s)) Mysql (ms_partition_col s) in
      if i = ms_checkpoint_id s + 1 then
        (case checkpoint_loop build (build v) i (ms_checkpoint_map s) of
           (position, id', m) \<Rightarrow> (Some position, s\<lparr>ms_checkpoint_id := id', ms_checkpoint_map := m\<rparr>))
      else (None, s\<lparr>ms_checkpoint_map := AList.update i v (ms_checkpoint_map s)\<rparr>))"

section \<open>What the source promises\<close>

text \<open>
  \<open>vals\<close> are the values of the partition column that are not \<open>NULL\<close>, one per row, \<open>le\<close> is the order
  of the column. \<open>MIN\<close> and \<open>MAX\<close> are \<open>NULL\<close> on no value; the statement for the end of a chunk gives
  the largest of the first \<open>n\<close> values above the current one, in ascending order.
\<close>

definition above :: "(col_value \<Rightarrow> col_value \<Rightarrow> bool) \<Rightarrow> col_value option \<Rightarrow> col_value \<Rightarrow> bool" where
  "above le cur v \<longleftrightarrow> (case cur of Some c \<Rightarrow> \<not> le v c | None \<Rightarrow> True)"

definition is_max :: "(col_value \<Rightarrow> col_value \<Rightarrow> bool) \<Rightarrow> col_value list \<Rightarrow> col_value \<Rightarrow> bool" where
  "is_max le vs x \<longleftrightarrow> (if vs = [] then x = NoneV else x \<in> set vs \<and> list_all (\<lambda>v. le v x) vs)"

definition next_end_answer ::
  "(col_value \<Rightarrow> col_value \<Rightarrow> bool) \<Rightarrow> col_value list \<Rightarrow> nat \<Rightarrow> col_value option \<Rightarrow> col_value \<Rightarrow> bool" where
  "next_end_answer le vals n cur x \<longleftrightarrow>
     (\<exists>vs. mset vs = mset (filter (above le cur) vals) \<and> sorted_wrt le vs \<and> is_max le (take n vs) x)"

definition source_answers ::
  "mysql_conn \<Rightarrow> (col_value \<Rightarrow> col_value \<Rightarrow> bool) \<Rightarrow> col_value list \<Rightarrow> mysql_splitter \<Rightarrow> bool" where
  "source_answers conn le vals s \<longleftrightarrow>
     (\<exists>mn mx. conn (range_sql (ms_partition_col s) (my_basic (ms_tb_meta s))) [] =
          Inr [[(''min_value'', mn), (''max_value'', mx)]] \<and>
        is_max le vals mx \<and> is_max (\<lambda>x y. le y x) vals mn) \<and>
     (\<forall>cur. cur \<noteq> Some NoneV \<longrightarrow>
        (\<exists>x. conn (next_end_sql (s\<lparr>ms_current_col_value := cur\<rparr>)) (case cur of Some v \<Rightarrow> [v] | None \<Rightarrow> []) =
            Inr [[(''max_value'', x)]] \<and> next_end_answer le vals (ms_batch_size s) cur x))"

text \<open>
  The states of a splitter of a table that is worth splitting. The partition column is the one of the
  table: with a column of the user's the statement for the end of a chunk compares the wrong column.
\<close>

definition splits ::
  "ext \<Rightarrow> mysql_conn \<Rightarrow> (col_value \<Rightarrow> col_value \<Rightarrow> bool) \<Rightarrow> col_value list \<Rightarrow> mysql_splitter \<Rightarrow> bool" where
  "splits e conn le vals s \<longleftrightarrow>
     total_preorder le \<and> NoneV \<notin> set vals \<and> 0 < ms_batch_size s \<and> ms_current_col_value s \<noteq> Some NoneV \<and>
     source_answers conn le vals s \<and> ms_partition_col s = tm_partition_col (my_basic (ms_tb_meta s)) \<and>
     (\<exists>t. mysql_get_col_type (ms_tb_meta s) (ms_partition_col s) = Inr t \<and> mysql_can_be_splitted t \<and>
       (mysql_is_integer t \<longrightarrow>
          int_order le \<and> list_all (\<lambda>v. \<exists>i. convert_into_integer_128 v = Inr i) vals \<and>
          (\<not> has_no_even_chunks (ms_basic s) \<longrightarrow> ms_snapshot_range s = None \<and>
            (\<forall>v. ms_current_col_value s = Some v \<longrightarrow> (\<exists>i. convert_into_integer_128 v = Inr i \<and> i \<le> add_max v)) \<and>
            (\<forall>mn mx. get_partition_col_range conn (ms_partition_col s) (ms_tb_meta s) = Inr (mn, mx) \<longrightarrow>
               \<not> is_same_value e mn mx)))) \<and>
     (\<exists>n. (if ms_estimated_row_count s = 0 then estimate_row_count conn (my_basic (ms_tb_meta s))
            else Inr (ms_estimated_row_count s)) = Inr n \<and> ms_batch_size s < n)"

text \<open>Where the next chunk starts, and whether there is nothing more to split.\<close>

definition split_start :: "mysql_splitter \<Rightarrow> col_value" where
  "split_start s = (case ms_current_col_value s of Some v \<Rightarrow> v | None \<Rightarrow> NoneV)"

definition split_done :: "mysql_splitter \<Rightarrow> bool" where
  "split_done s \<longleftrightarrow> has_no_next_chunks (ms_basic s)"

text \<open>
  What a call for the next chunks promises: chunks that continue where the last ones ended, numbered
  on; when there are none, or when the splitter is done, no value is left above the last end.
\<close>

definition next_chunks_ok ::
  "(col_value \<Rightarrow> col_value \<Rightarrow> bool) \<Rightarrow> col_value list \<Rightarrow> mysql_splitter \<Rightarrow> snapshot_chunk list \<Rightarrow> mysql_splitter \<Rightarrow> bool" where
  "next_chunks_ok le vals s cs s' \<longleftrightarrow>
     map chunk_id cs = [Suc (chunk_id_generator (ms_basic s))..<Suc (chunk_id_generator (ms_basic s) + length cs)] \<and>
     chunk_id_generator (ms_basic s') = chunk_id_generator (ms_basic s) + length cs \<and>
     ms_checkpoint_id s' = ms_checkpoint_id s \<and> ms_checkpoint_map s' = ms_checkpoint_map s \<and>
     ms_tb_meta s' = ms_tb_meta s \<and> ms_partition_col s' = ms_partition_col s \<and>
     (if cs = [] then split_done s' \<and> (split_done s \<or> list_all (\<lambda>v. \<not> above le (ms_current_col_value s) v) vals)
      else \<not> split_done s \<and>
        (\<exists>b. b \<noteq> NoneV \<and> chunk_chain le (split_start s) cs b \<and>
           (if split_done s' then list_all (\<lambda>v. le v b) vals else split_start s' = b)))"

lemma set_basic_simps [simp]:
  "ms_basic (set_basic b s) = b" "ms_snapshot_range (set_basic b s) = ms_snapshot_range s"
  "ms_tb_meta (set_basic b s) = ms_tb_meta s" "ms_batch_size (set_basic b s) = ms_batch_size s"
  "ms_estimated_row_count (set_basic b s) = ms_estimated_row_count s"
  "ms_partition_col (set_basic b s) = ms_partition_col s" "ms_current_col_value (set_basic b s) = ms_current_col_value s"
  "ms_checkpoint_id (set_basic b s) = ms_checkpoint_id s" "ms_checkpoint_map (set_basic b s) = ms_checkpoint_map s"
  by (simp_all add: set_basic_def)

lemma next_end_sql_cong:
  assumes "ms_tb_meta s' = ms_tb_meta s" "ms_partition_col s' = ms_partition_col s" "ms_batch_size s' = ms_batch_size s"
    and "ms_current_col_value s' = cur"
  shows "next_end_sql s' = next_end_sql (s\<lparr>ms_current_col_value := cur\<rparr>)"
  using assms by (simp add: next_end_sql_def next_end_where_def Let_def)

lemma source_answers_cong:
  assumes "ms_tb_meta s' = ms_tb_meta s" "ms_partition_col s' = ms_partition_col s" "ms_batch_size s' = ms_batch_size s"
  shows "source_answers conn le vals s' = source_answers conn le vals s"
proof -
  have "next_end_sql (s'\<lparr>ms_current_col_value := cur\<rparr>) = next_end_sql (s\<lparr>ms_current_col_value := cur\<rparr>)" for cur
    by (rule next_end_sql_cong) (simp_all add: assms)
  then show ?thesis by (simp add: source_answers_def assms)
qed

lemma source_next_end:
  assumes "source_answers conn le vals s" "ms_current_col_value s \<noteq> Some NoneV"
  shows "\<exists>x. conn (next_end_sql s) (case ms_current_col_value s of Some v \<Rightarrow> [v] | None \<Rightarrow> []) = Inr [[(''max_value'', x)]] \<and>
    next_end_answer le vals (ms_batch_size s) (ms_current_col_value s) x"
proof -
  have "s\<lparr>ms_current_col_value := ms_current_col_value s\<rparr> = s" by simp
  with conjunct2[OF assms(1)[unfolded source_answers_def], THEN spec[of _ "ms_current_col_value s"]] assms(2)
  show ?thesis by simp
qed

text \<open>The statement for the end of a chunk gives a value above the current one, or none is left.\<close>

lemma next_end_answer_above:
  assumes "next_end_answer le vals n cur x" "0 < n" "NoneV \<notin> set vals"
  shows "if x = NoneV then list_all (\<lambda>v. \<not> above le cur v) vals else x \<in> set vals \<and> above le cur x"
proof -
  from assms(1) obtain vs where vs: "mset vs = mset (filter (above le cur) vals)" "is_max le (take n vs) x"
    by (auto simp: next_end_answer_def)
  have set: "set vs = {v \<in> set vals. above le cur v}" using mset_eq_setD[OF vs(1)] by auto
  show ?thesis
  proof (cases "vs = []")
    case True
    with vs(2) set assms(3) show ?thesis by (auto simp: is_max_def list_all_iff)
  next
    case False
    then have "x \<in> set vs" using vs(2) assms(2) by (auto simp: is_max_def split: if_splits dest: in_set_takeD)
    with set assms(3) show ?thesis by auto
  qed
qed

lemma uneven_chunk_spec:
  assumes "splits e conn le vals s" "\<not> split_done s"
  shows "\<exists>c s'. get_next_unevenly_sized_chunk conn s = Inr (c, s') \<and>
    next_chunks_ok le vals s (case c of Some chunk \<Rightarrow> [chunk] | None \<Rightarrow> []) s' \<and>
    (case c of
       None \<Rightarrow> s' = set_basic (mark_no_next_chunks (ms_basic s)) s
     | Some chunk \<Rightarrow> \<exists>x\<in>set vals. above le (ms_current_col_value s) x \<and>
         s' = set_basic (snd (gen_next_chunk (split_start s, x) (ms_basic s))) (s\<lparr>ms_current_col_value := Some x\<rparr>))"
proof -
  from assms(1) obtain t where t: "mysql_get_col_type (ms_tb_meta s) (ms_partition_col s) = Inr t"
    and src: "source_answers conn le vals s" and cur: "ms_current_col_value s \<noteq> Some NoneV" and nn: "NoneV \<notin> set vals" and n: "0 < ms_batch_size s"
    and le: "total_preorder le"
    unfolding splits_def by blast
  from source_next_end[OF src cur] obtain x where x:
    "conn (next_end_sql s) (case ms_current_col_value s of Some v \<Rightarrow> [v] | None \<Rightarrow> []) = Inr [[(''max_value'', x)]]"
    "next_end_answer le vals (ms_batch_size s) (ms_current_col_value s) x" by blast
  show ?thesis
  proof (cases "x = NoneV")
    case True
    with next_end_answer_above[OF x(2) n nn] nn have "list_all (\<lambda>v. \<not> above le (ms_current_col_value s) v) vals" by simp
    then show ?thesis using True x(1) t cur
      by (simp add: get_next_unevenly_sized_chunk_def Let_def next_chunks_ok_def split_done_def)
  next
    case False
    with next_end_answer_above[OF x(2) n nn] have xv: "x \<in> set vals" "above le (ms_current_col_value s) x" by simp_all
    then have "split_start s = NoneV \<or> le (split_start s) x"
      using total_preorderD(1)[OF le] by (auto simp: above_def split_start_def split: option.splits)
    then show ?thesis using False x(1) t cur xv assms(2)
      by (auto simp: get_next_unevenly_sized_chunk_def Let_def next_chunks_ok_def split_done_def split_start_def
          has_no_next_chunks_def has_state_def intro!: bexI[of _ x] split: option.splits)
  qed
qed

lemma splits_preserved:
  assumes "splits e conn le vals s" "ms_tb_meta s' = ms_tb_meta s" "ms_partition_col s' = ms_partition_col s"
    and "ms_batch_size s' = ms_batch_size s" "ms_current_col_value s' \<noteq> Some NoneV" "ms_batch_size s < ms_estimated_row_count s'"
    and "has_no_even_chunks (ms_basic s') \<or>
      (\<exists>t. mysql_get_col_type (ms_tb_meta s) (ms_partition_col s) = Inr t \<and> \<not> mysql_is_integer t)"
  shows "splits e conn le vals s'"
proof -
  have n: "ms_estimated_row_count s' \<noteq> 0" using assms(6) by simp
  from assms(1) obtain t where "mysql_get_col_type (ms_tb_meta s) (ms_partition_col s) = Inr t" "mysql_can_be_splitted t"
    "mysql_is_integer t \<longrightarrow> int_order le \<and> list_all (\<lambda>v. \<exists>i. convert_into_integer_128 v = Inr i) vals"
    unfolding splits_def by blast
  with assms(7) have "\<exists>t. mysql_get_col_type (ms_tb_meta s') (ms_partition_col s') = Inr t \<and> mysql_can_be_splitted t \<and>
       (mysql_is_integer t \<longrightarrow>
          int_order le \<and> list_all (\<lambda>v. \<exists>i. convert_into_integer_128 v = Inr i) vals \<and>
          (\<not> has_no_even_chunks (ms_basic s') \<longrightarrow> ms_snapshot_range s' = None \<and>
            (\<forall>v. ms_current_col_value s' = Some v \<longrightarrow> (\<exists>i. convert_into_integer_128 v = Inr i \<and> i \<le> add_max v)) \<and>
            (\<forall>mn mx. get_partition_col_range conn (ms_partition_col s') (ms_tb_meta s') = Inr (mn, mx) \<longrightarrow>
               \<not> is_same_value e mn mx)))"
    by (intro exI[of _ t]) (auto simp: assms(2,3))
  moreover have "source_answers conn le vals s'"
    using assms(1) source_answers_cong[OF assms(2-4)] by (simp add: splits_def)
  ultimately show ?thesis
    using assms(1,4,5,6) n unfolding splits_def assms(2,3,4) by auto
qed

text \<open>The number of values a splitter may still find; every chunk takes one away.\<close>

definition split_weight :: "(col_value \<Rightarrow> col_value \<Rightarrow> bool) \<Rightarrow> col_value list \<Rightarrow> mysql_splitter \<Rightarrow> nat" where
  "split_weight le vals s =
     (if split_done s then 0 else Suc (length (filter (above le (ms_current_col_value s)) vals)))"

lemma above_smaller:
  assumes "total_preorder le" "x \<in> set vals" "above le cur x"
  shows "length (filter (above le (Some x)) vals) < length (filter (above le cur) vals)"
proof -
  have up: "above le cur v" if "above le (Some x) v" for v
  proof (cases cur)
    case (Some c)
    with assms(3) have "le c x" using total_preorderD(1)[OF assms(1)] by (simp add: above_def)
    then have "\<not> le v c" using that total_preorderD(2)[OF assms(1), of v c x] by (auto simp: above_def)
    then show ?thesis by (simp add: above_def Some)
  qed (simp add: above_def)
  have sub: "filter (above le (Some x)) vals = filter (above le (Some x)) (filter (above le cur) vals)"
    unfolding filter_filter by (rule filter_cong[OF refl]) (use up in blast)
  have "le x x" using total_preorderD(1)[OF assms(1), of x x] by blast
  then have "\<not> above le (Some x) x" by (simp add: above_def)
  then show ?thesis using assms(2,3) by (subst sub) (intro length_filter_less[of x], simp_all)
qed

lemma uneven_chunks_spec:
  assumes "splits e conn le vals s" "\<not> split_done s" "ms_batch_size s < ms_estimated_row_count s"
    and "has_no_even_chunks (ms_basic s) \<or>
      (\<exists>t. mysql_get_col_type (ms_tb_meta s) (ms_partition_col s) = Inr t \<and> \<not> mysql_is_integer t)"
  shows "\<exists>cs s'. uneven_chunks conn s = Inr (cs, s') \<and> next_chunks_ok le vals s cs s' \<and> splits e conn le vals s' \<and>
    split_weight le vals s' < split_weight le vals s"
proof -
  from uneven_chunk_spec[OF assms(1,2)] obtain c s' where
    c: "get_next_unevenly_sized_chunk conn s = Inr (c, s')"
      "next_chunks_ok le vals s (case c of Some chunk \<Rightarrow> [chunk] | None \<Rightarrow> []) s'"
    and s': "case c of
       None \<Rightarrow> s' = set_basic (mark_no_next_chunks (ms_basic s)) s
     | Some chunk \<Rightarrow> \<exists>x\<in>set vals. above le (ms_current_col_value s) x \<and>
         s' = set_basic (snd (gen_next_chunk (split_start s, x) (ms_basic s))) (s\<lparr>ms_current_col_value := Some x\<rparr>)"
    by blast
  have pre: "total_preorder le" "NoneV \<notin> set vals" "ms_current_col_value s \<noteq> Some NoneV"
    using assms(1) by (simp_all add: splits_def)
  have "splits e conn le vals s' \<and> split_weight le vals s' < split_weight le vals s"
  proof (cases c)
    case None
    with s' have s': "s' = set_basic (mark_no_next_chunks (ms_basic s)) s" by simp
    show ?thesis
      by (intro conjI splits_preserved[OF assms(1)])
        (use assms pre in \<open>simp_all add: s' split_weight_def split_done_def\<close>)
  next
    case (Some chunk)
    with s' obtain x where x: "x \<in> set vals" "above le (ms_current_col_value s) x"
      and s': "s' = set_basic (snd (gen_next_chunk (split_start s, x) (ms_basic s))) (s\<lparr>ms_current_col_value := Some x\<rparr>)" by auto
    have same: "has_no_even_chunks (ms_basic s') = has_no_even_chunks (ms_basic s)" "split_done s' = split_done s"
      by (simp_all add: s' has_no_even_chunks_def has_state_def split_done_def has_no_next_chunks_def)
    show ?thesis
      using above_smaller[OF pre(1) x] assms(2) same x(1) pre(2)
      by (intro conjI splits_preserved[OF assms(1)])
        (use assms pre in \<open>auto simp: same s' split_weight_def\<close>)
  qed
  with c show ?thesis by (simp add: uneven_chunks_def)
qed

lemma next_chunks_ok_cong:
  assumes "next_chunks_ok le vals s1 cs s'" "chunk_id_generator (ms_basic s1) = chunk_id_generator (ms_basic s)"
    and "ms_checkpoint_id s1 = ms_checkpoint_id s" "ms_checkpoint_map s1 = ms_checkpoint_map s"
    and "ms_current_col_value s1 = ms_current_col_value s" "split_done s1 = split_done s"
    and "ms_tb_meta s1 = ms_tb_meta s" "ms_partition_col s1 = ms_partition_col s"
  shows "next_chunks_ok le vals s cs s'"
proof -
  have "split_start s1 = split_start s" by (simp add: split_start_def assms(5))
  with assms(1) show ?thesis unfolding next_chunks_ok_def assms(2-8) by metis
qed

lemma even_range:
  assumes "splits e conn le vals s" "\<not> has_no_even_chunks (ms_basic s)"
    and "mysql_get_col_type (ms_tb_meta s) (ms_partition_col s) = Inr t" "mysql_is_integer t"
  shows "\<exists>mn mx i j. get_partition_col_range conn (ms_partition_col s) (ms_tb_meta s) = Inr (mn, mx) \<and>
    \<not> is_same_value e mn mx \<and> convert_into_integer_128 mn = Inr i \<and> convert_into_integer_128 mx = Inr j \<and>
    list_all (\<lambda>v. le v mx) vals"
proof -
  have src: "source_answers conn le vals s" using assms(1) by (simp add: splits_def)
  from assms(1) have ints: "list_all (\<lambda>v. \<exists>i. convert_into_integer_128 v = Inr i) vals"
    and diff: "\<forall>mn mx. get_partition_col_range conn (ms_partition_col s) (ms_tb_meta s) = Inr (mn, mx) \<longrightarrow>
       \<not> is_same_value e mn mx"
    using assms(2-4) unfolding splits_def by auto
  from src obtain mn mx where
    c: "conn (range_sql (ms_partition_col s) (my_basic (ms_tb_meta s))) [] = Inr [[(''min_value'', mn), (''max_value'', mx)]]"
    and m: "is_max le vals mx" "is_max (\<lambda>x y. le y x) vals mn"
    unfolding source_answers_def by blast
  then have r: "get_partition_col_range conn (ms_partition_col s) (ms_tb_meta s) = Inr (mn, mx)"
    using assms(3) by (simp add: get_partition_col_range_def)
  with diff have d: "\<not> is_same_value e mn mx" by blast
  have "vals \<noteq> []"
  proof
    assume "vals = []"
    with m have "mn = NoneV" "mx = NoneV" by (simp_all add: is_max_def)
    with d show False by (simp add: is_same_value_def col_eq_def)
  qed
  with m have "mn \<in> set vals" "mx \<in> set vals" "list_all (\<lambda>v. le v mx) vals" by (auto simp: is_max_def)
  with ints r d show ?thesis unfolding list_all_iff by blast
qed

lemma even_chunks_spec:
  assumes "splits e conn le vals s" "\<not> split_done s" "ms_batch_size s < ms_estimated_row_count s"
    and "\<not> has_no_even_chunks (ms_basic s)" "mysql_get_col_type (ms_tb_meta s) (ms_partition_col s) = Inr t" "mysql_is_integer t"
  shows "\<exists>out s1. get_evenly_sized_chunks e conn s = Inr (out, s1) \<and>
    (case out of
       Chunks cs \<Rightarrow> next_chunks_ok le vals s cs s1 \<and> splits e conn le vals s1 \<and> split_done s1
     | BadSplitColumnError _ _ \<Rightarrow> False
     | OutOfDistributionFactorRangeError _ \<Rightarrow>
         \<exists>range'. s1 = set_basic (mark_no_even_chunks (ms_basic s)) (s\<lparr>ms_snapshot_range := Some range'\<rparr>))"
proof -
  from even_range[OF assms(1,4-6)] obtain mn mx i j where
    r: "get_partition_col_range conn (ms_partition_col s) (ms_tb_meta s) = Inr (mn, mx)" "\<not> is_same_value e mn mx"
      "convert_into_integer_128 mn = Inr i" "convert_into_integer_128 mx = Inr j" "list_all (\<lambda>v. le v mx) vals" by blast
  from assms(1) have pre: "total_preorder le" "int_order le" "ms_snapshot_range s = None" "ms_current_col_value s \<noteq> Some NoneV"
    and cur: "\<forall>v. ms_current_col_value s = Some v \<longrightarrow> (\<exists>i. convert_into_integer_128 v = Inr i \<and> i \<le> add_max v)"
    using assms(4-6) unfolding splits_def by auto
  let ?b = "mark_no_even_chunks (ms_basic s)" and ?cur = "ms_current_col_value s"
  let ?s1 = "set_basic ?b (s\<lparr>ms_snapshot_range := Some (mn, mx)\<rparr>)"
  let ?gen = "gen_next_evenly_sized_chunks (mn, mx) (ms_batch_size s) (ms_estimated_row_count s) ?cur ?b"
  have cur': "case ?cur of None \<Rightarrow> True | Some v \<Rightarrow> \<exists>i. convert_into_integer_128 v = Inr i \<and> i \<le> add_max v"
    using cur by (simp split: option.split)
  have ev: "get_evenly_sized_chunks e conn s = map_res (\<lambda>(out, b). (out, set_basic b ?s1)) ?gen"
    using assms(2,4) r(1,2) pre(3)
    by (simp add: get_evenly_sized_chunks_def Let_def split_done_def set_basic_def)
  show ?thesis
  proof (cases "\<exists>cs b. ?gen = Inr (Chunks cs, b)")
    case True
    then obtain cs b where g: "?gen = Inr (Chunks cs, b)" by blast
    from gen_next_evenly_sized_chunks_spec[OF r(3,4) pre(2) g cur'] obtain b1 where
      cs: "case ?cur of None \<Rightarrow> cs \<noteq> [] \<and> chunk_chain le NoneV cs mx
        | Some v \<Rightarrow> if \<not> le mx v then chunk_chain le v cs mx else cs = []"
      and b: "numbered ?b cs b1" "b = mark_no_next_chunks b1" by blast
    let ?s2 = "set_basic b ?s1"
    have nn: "mx \<noteq> NoneV" by (rule convert_not_None[OF r(4)])
    have "has_no_even_chunks b1" using b(1) by (simp add: numbered_def has_no_even_chunks_def has_state_def)
        (use mark_simps(4)[of "ms_basic s"] in \<open>simp add: has_no_even_chunks_def has_state_def\<close>)
    then have "splits e conn le vals ?s2"
      by (intro splits_preserved[OF assms(1)]) (use assms(3) pre(4) in \<open>simp_all add: b(2)\<close>)
    moreover have "next_chunks_ok le vals s cs ?s2"
    proof (cases ?cur)
      case None
      with cs nn assms(2) r(5) b show ?thesis
        by (auto simp: next_chunks_ok_def numbered_def split_done_def split_start_def)
    next
      case (Some v)
      show ?thesis
      proof (cases "le mx v")
        case True
        have "\<not> above le ?cur x" if "x \<in> set vals" for x
          using that r(5) Some True total_preorderD(2)[OF pre(1), of x mx v] by (simp add: list_all_iff above_def)
        with cs b Some True show ?thesis by (simp add: next_chunks_ok_def numbered_def split_done_def list_all_iff)
      next
        case False
        with cs Some have chain: "chunk_chain le v cs mx" by simp
        moreover from this False have "cs \<noteq> []" using total_preorderD(1)[OF pre(1), of mx mx] by auto
        ultimately show ?thesis using nn assms(2) r(5) b Some
          by (auto simp: next_chunks_ok_def numbered_def split_done_def split_start_def)
      qed
    qed
    moreover have "split_done ?s2" by (simp add: split_done_def b(2))
    ultimately show ?thesis using ev g by simp
  next
    case False
    with gen_next_evenly_sized_chunks_total[OF r(3,4) cur', of "ms_batch_size s" "ms_estimated_row_count s" ?b] obtain f where
      "?gen = Inr (OutOfDistributionFactorRangeError f, ?b)" by blast
    then show ?thesis using ev by (auto simp: set_basic_def)
  qed
qed

lemma get_next_chunks_spec:
  assumes "splits e conn le vals s"
  shows "\<exists>cs s'. get_next_chunks e conn s = Inr (cs, s') \<and> next_chunks_ok le vals s cs s' \<and> splits e conn le vals s' \<and>
    (split_done s \<or> split_weight le vals s' < split_weight le vals s)"
proof (cases "split_done s")
  case True
  then show ?thesis using assms by (simp add: get_next_chunks_def split_done_def next_chunks_ok_def)
next
  case False
  from assms obtain t n where t: "mysql_get_col_type (ms_tb_meta s) (ms_partition_col s) = Inr t" "mysql_can_be_splitted t"
    and n: "(if ms_estimated_row_count s = 0 then estimate_row_count conn (my_basic (ms_tb_meta s))
            else Inr (ms_estimated_row_count s)) = Inr n" "ms_batch_size s < n"
    unfolding splits_def by blast
  let ?s = "s\<lparr>ms_estimated_row_count := n\<rparr>"
  have s1: "splits e conn le vals ?s"
  proof -
    have "source_answers conn le vals ?s"
      using assms source_answers_cong[of ?s s] by (simp add: splits_def)
    then show ?thesis using assms n unfolding splits_def by auto
  qed
  have done1: "\<not> split_done ?s" using False by (simp add: split_done_def)
  have weight: "split_weight le vals ?s = split_weight le vals s" by (simp add: split_weight_def split_done_def)
  have from_s: "next_chunks_ok le vals s cs s'" if "next_chunks_ok le vals ?s cs s'" for cs s'
    by (rule next_chunks_ok_cong[OF that]) (simp_all add: split_done_def)
  have eq: "get_next_chunks e conn s =
      (if \<not> has_no_even_chunks (ms_basic ?s) \<and> mysql_is_integer t
       then bind_res (get_evenly_sized_chunks e conn ?s) (\<lambda>(outcome, s2).
              case outcome of
                Chunks chunks \<Rightarrow> Inr (chunks, s2)
              | BadSplitColumnError _ _ \<Rightarrow> Inr (no_split_chunk s2)
              | OutOfDistributionFactorRangeError _ \<Rightarrow> uneven_chunks conn s2)
       else uneven_chunks conn ?s)"
    using False t n by (simp add: get_next_chunks_def split_done_def Let_def)
  show ?thesis
  proof (cases "\<not> has_no_even_chunks (ms_basic ?s) \<and> mysql_is_integer t")
    case True
    from even_chunks_spec[OF s1 done1 _ conjunct1[OF True] _ conjunct2[OF True]] t n obtain out s2 where
      ev: "get_evenly_sized_chunks e conn ?s = Inr (out, s2)" and out: "case out of
         Chunks cs \<Rightarrow> next_chunks_ok le vals ?s cs s2 \<and> splits e conn le vals s2 \<and> split_done s2
       | BadSplitColumnError _ _ \<Rightarrow> False
       | OutOfDistributionFactorRangeError _ \<Rightarrow>
           \<exists>range'. s2 = set_basic (mark_no_even_chunks (ms_basic ?s)) (?s\<lparr>ms_snapshot_range := Some range'\<rparr>)" by auto
    show ?thesis
    proof (cases out)
      case (Chunks cs)
      then show ?thesis using out ev True eq from_s False by (auto simp: split_weight_def)
    next
      case (OutOfDistributionFactorRangeError f)
      with out obtain range' where s2: "s2 = set_basic (mark_no_even_chunks (ms_basic ?s)) (?s\<lparr>ms_snapshot_range := Some range'\<rparr>)"
        by auto
      have cur: "ms_current_col_value s \<noteq> Some NoneV" using assms by (simp add: splits_def)
      have sp2: "splits e conn le vals s2" by (rule splits_preserved[OF s1]) (use n cur in \<open>simp_all add: s2\<close>)
      have d2: "\<not> split_done s2" using False by (simp add: s2 split_done_def)
      from uneven_chunks_spec[OF sp2 d2] n obtain cs s' where
        "uneven_chunks conn s2 = Inr (cs, s')" "next_chunks_ok le vals s2 cs s'" "splits e conn le vals s'"
        "split_weight le vals s' < split_weight le vals s2" by (auto simp: s2)
      moreover from this(2) have "next_chunks_ok le vals s cs s'"
        by (rule next_chunks_ok_cong) (simp_all add: s2 split_done_def)
      moreover have "split_weight le vals s2 = split_weight le vals s" by (simp add: s2 split_weight_def split_done_def)
      ultimately show ?thesis using eq True ev OutOfDistributionFactorRangeError by auto
    qed (use out in simp)
  next
    case even: False
    have "has_no_even_chunks (ms_basic ?s) \<or>
        (\<exists>t. mysql_get_col_type (ms_tb_meta ?s) (ms_partition_col ?s) = Inr t \<and> \<not> mysql_is_integer t)"
      using even t by auto
    from uneven_chunks_spec[OF s1 done1 _ this] n eq even from_s weight show ?thesis by auto
  qed
qed

section \<open>Checkpoints\<close>

text \<open>
  The chunks that are done, by number, with the last value read from each. The checkpoint is behind the
  longest run of chunks from the first one on; values of later chunks wait in the map.
\<close>

definition checkpoint_ok :: "(nat, col_value) hash_map \<Rightarrow> mysql_splitter \<Rightarrow> bool" where
  "checkpoint_ok finished s \<longleftrightarrow>
     (\<forall>i. 1 \<le> i \<and> i \<le> ms_checkpoint_id s \<longrightarrow> map_of finished i \<noteq> None) \<and>
     map_of finished (Suc (ms_checkpoint_id s)) = None \<and>
     (\<forall>i. map_of (ms_checkpoint_map s) i = (if i \<le> ms_checkpoint_id s then None else map_of finished i))"

lemma checkpoint_loop_spec:
  assumes "checkpoint_loop build pos i m = (pos', i', m')"
  shows "i \<le> i' \<and> map_of m (Suc i') = None \<and>
    (\<forall>j. i < j \<and> j \<le> i' \<longrightarrow> map_of m j \<noteq> None) \<and>
    (\<forall>j. map_of m' j = (if i < j \<and> j \<le> i' then None else map_of m j)) \<and>
    pos' = (if i' = i then pos else build (the (map_of m i')))"
  using assms
proof (induction build pos i m arbitrary: pos' i' m' rule: checkpoint_loop.induct)
  case (1 build pos i m)
  show ?case
  proof (cases "map_of m (i + 1)")
    case None
    with "1.prems" show ?thesis by (auto simp: checkpoint_loop.simps[of build pos i m])
  next
    case (Some v)
    with "1.prems" have "checkpoint_loop build (build v) (i + 1) (AList.delete (i + 1) m) = (pos', i', m')"
      by (simp add: checkpoint_loop.simps[of build pos i m])
    note IH = "1.IH"[OF Some this]
    have del: "map_of (AList.delete (i + 1) m) j = (if j = Suc i then None else map_of m j)" for j
      by (simp add: map_simps)
    from IH have i': "Suc i \<le> i'" by simp
    have "map_of m (Suc i') = None" using IH i' by (auto simp: del)
    moreover have "map_of m j \<noteq> None" if "i < j" "j \<le> i'" for j
      using IH that Some by (cases "j = Suc i") (auto simp: del)
    moreover have "map_of m' j = (if i < j \<and> j \<le> i' then None else map_of m j)" for j
      using IH i' by (cases "j = Suc i") (auto simp: del)
    moreover have "pos' = build (the (map_of m i'))" using IH i' Some by (cases "i' = Suc i") (auto simp: del)
    ultimately show ?thesis using i' by auto
  qed
qed

text \<open>
  Whatever the order in which chunks are finished, the position sent is built from the last chunk of the
  run of finished chunks, and it is sent exactly when the run gets longer.
\<close>

lemma get_next_checkpoint_position_spec:
  assumes "checkpoint_ok finished s" "map_of finished i = None" "1 \<le> i"
    and "get_next_checkpoint_position e i v s = (pos, s')"
  shows "checkpoint_ok ((i, v) # finished) s' \<and>
    pos = (if ms_checkpoint_id s' = ms_checkpoint_id s then None
           else Some (build_position_for_partition e (my_basic (ms_tb_meta s)) Mysql (ms_partition_col s)
             (the (map_of ((i, v) # finished) (ms_checkpoint_id s'))))) \<and>
    (\<exists>id' m. s' = s\<lparr>ms_checkpoint_id := id', ms_checkpoint_map := m\<rparr>)"
proof -
  let ?k = "ms_checkpoint_id s" and ?m = "ms_checkpoint_map s"
  let ?build = "build_position_for_partition e (my_basic (ms_tb_meta s)) Mysql (ms_partition_col s)"
  have run: "map_of finished j \<noteq> None" if "1 \<le> j" "j \<le> ?k" for j
    using assms(1) that by (simp add: checkpoint_ok_def)
  have open_next: "map_of finished (Suc ?k) = None" using assms(1) by (simp add: checkpoint_ok_def)
  have m: "map_of ?m j = (if j \<le> ?k then None else map_of finished j)" for j
    using assms(1) by (simp add: checkpoint_ok_def)
  have i: "?k < i" using run[of i] assms(2,3) by force
  show ?thesis
  proof (cases "i = ?k + 1")
    case True
    obtain pos' i' m' where l: "checkpoint_loop ?build (?build v) i ?m = (pos', i', m')" by (metis prod_cases3)
    from assms(4) True l have s': "pos = Some pos'" "s' = s\<lparr>ms_checkpoint_id := i', ms_checkpoint_map := m'\<rparr>"
      by (simp_all add: get_next_checkpoint_position_def)
    from checkpoint_loop_spec[OF l] have loop: "i \<le> i'" "map_of ?m (Suc i') = None"
      and more: "\<And>j. i < j \<Longrightarrow> j \<le> i' \<Longrightarrow> map_of ?m j \<noteq> None"
      and m': "\<And>j. map_of m' j = (if i < j \<and> j \<le> i' then None else map_of ?m j)"
      and pos': "pos' = (if i' = i then ?build v else ?build (the (map_of ?m i')))" by auto
    have "map_of ((i, v) # finished) j \<noteq> None" if "1 \<le> j" "j \<le> i'" for j
    proof (cases "i < j")
      case True
      with more[OF True that(2)] i show ?thesis by (simp add: m)
    next
      case False
      with run[of j] that True show ?thesis by (cases "j = i") auto
    qed
    moreover have "map_of ((i, v) # finished) (Suc i') = None" using loop i by (simp add: m split: if_splits)
    moreover have "map_of m' j = (if j \<le> i' then None else map_of ((i, v) # finished) j)" for j
      using loop(1) i True open_next by (cases "j = i") (auto simp: m' m)
    moreover have "pos' = ?build (the (map_of ((i, v) # finished) i'))" using pos' loop(1) i by (auto simp: m)
    ultimately show ?thesis using loop(1) i by (auto simp: s' checkpoint_ok_def)
  next
    case False
    with assms(4) have s': "pos = None" "s' = s\<lparr>ms_checkpoint_map := AList.update i v ?m\<rparr>"
      by (simp_all add: get_next_checkpoint_position_def)
    have "checkpoint_ok ((i, v) # finished) s'"
      using run open_next i False by (auto simp: checkpoint_ok_def s' m)
    moreover have "\<exists>id' m. s' = s\<lparr>ms_checkpoint_id := id', ms_checkpoint_map := m\<rparr>"
      by (rule exI[of _ ?k], rule exI[of _ "AList.update i v ?m"]) (simp add: s'(2))
    moreover have "ms_checkpoint_id s' = ?k" by (simp add: s'(2))
    ultimately show ?thesis using s'(1) by simp
  qed
qed

end
