(* ===== verification/Snapshot_Statement.thy ===== *)
theory Snapshot_Statement
  imports Db_Meta Dt_Data
begin

text \<open>
  The text of the \<open>SELECT\<close> statements a snapshot is extracted with:
  \<open>dt-connector/src/extractor/rdb_snapshot_extract_statement.rs\<close>. The placeholder counter, a
  \<open>Cell\<close> of the source, is threaded through the functions that print placeholders.
\<close>

section \<open>Model\<close>

datatype predicate_type = PredNone | PredGreaterThan | PredLessThanOrEqual | PredRange | PredIsNull

record extract_statement =
  es_db_type :: db_type
  es_rdb_tb_meta :: rdb_tb_meta
  es_pg_tb_meta :: "pg_tb_meta option"
  es_mysql_tb_meta :: "mysql_tb_meta option"
  es_order_cols :: "string list option"
  es_ignore_cols :: "string list option"
  es_where_condition :: "string option"
  es_limit :: nat
  es_predicate_type :: predicate_type
  es_placeholder_index :: nat

definition statement_from_mysql :: "mysql_tb_meta \<Rightarrow> extract_statement" where
  "statement_from_mysql meta =
     \<lparr>es_db_type = Mysql, es_rdb_tb_meta = my_basic meta, es_pg_tb_meta = None, es_mysql_tb_meta = Some meta,
      es_order_cols = None, es_ignore_cols = None, es_where_condition = None, es_limit = 0,
      es_predicate_type = PredNone, es_placeholder_index = 0\<rparr>"

definition statement_from_pg :: "pg_tb_meta \<Rightarrow> extract_statement" where
  "statement_from_pg meta =
     \<lparr>es_db_type = Pg, es_rdb_tb_meta = pg_basic meta, es_pg_tb_meta = Some meta, es_mysql_tb_meta = None,
      es_order_cols = None, es_ignore_cols = None, es_where_condition = None, es_limit = 0,
      es_predicate_type = PredNone, es_placeholder_index = 0\<rparr>"

definition statement_escape :: "extract_statement \<Rightarrow> string \<Rightarrow> string" where
  "statement_escape st token = escape_by_db_type token (es_db_type st)"

definition extract_col :: "extract_statement \<Rightarrow> string \<Rightarrow> string res" where
  "extract_col st col =
     (case es_pg_tb_meta st of
        Some meta \<Rightarrow>
          map_res (\<lambda>t. if get_extract_type t = [] then statement_escape st col
                       else statement_escape st col @ ''::'' @ get_extract_type t)
            (pg_get_col_type meta col)
      | None \<Rightarrow> Inr (statement_escape st col))"

definition build_extract_cols_str :: "extract_statement \<Rightarrow> string res" where
  "build_extract_cols_str st =
     map_res (join_strings '','')
       (traverse_res (extract_col st)
         (filter (\<lambda>col. \<not> (case es_ignore_cols st of Some cols \<Rightarrow> col \<in> set cols | None \<Rightarrow> False))
           (tm_cols (es_rdb_tb_meta st))))"

definition build_order_col_str :: "extract_statement \<Rightarrow> string list \<Rightarrow> string" where
  "build_order_col_str st order_cols = join_strings '', '' (map (statement_escape st) order_cols)"

fun pg_place_holders :: "pg_tb_meta \<Rightarrow> nat \<Rightarrow> string list \<Rightarrow> string list res" where
  "pg_place_holders meta idx [] = Inr []" |
  "pg_place_holders meta idx (col # cols) =
     bind_res (pg_get_col_type meta col) (\<lambda>t.
       map_res (\<lambda>hs. (''$'' @ nat_to_string (Suc idx) @ ''::'' @ pg_alias t) # hs)
         (pg_place_holders meta (Suc idx) cols))"

definition build_place_holder_str :: "extract_statement \<Rightarrow> string list \<Rightarrow> (string \<times> extract_statement) res" where
  "build_place_holder_str st order_cols =
     (case es_pg_tb_meta st of
        Some meta \<Rightarrow>
          map_res (\<lambda>hs. (join_strings '', '' hs,
                          st\<lparr>es_placeholder_index := es_placeholder_index st + length order_cols\<rparr>))
            (pg_place_holders meta (es_placeholder_index st) order_cols)
      | None \<Rightarrow>
          (case es_mysql_tb_meta st of
             Some _ \<Rightarrow> Inr (join_strings '', '' (map (\<lambda>_. ''?'') order_cols), st)
           | None \<Rightarrow> Inl (Bail ''unsupported db type for building placeholder string'')))"

definition build_order_col_predicate_range :: "extract_statement \<Rightarrow> string list \<Rightarrow> string res" where
  "build_order_col_predicate_range st order_cols =
     (if order_cols = [] then Inr []
      else
        bind_res (build_place_holder_str st order_cols) (\<lambda>(h1, st1).
        bind_res (build_place_holder_str st1 order_cols) (\<lambda>(h2, st2).
          let cols = build_order_col_str st order_cols in
          if length order_cols = 1 then Inr (cols @ '' > '' @ h1 @ '' AND '' @ cols @ '' <= '' @ h2)
          else Inr (''('' @ cols @ '') > ('' @ h1 @ '') AND ('' @ cols @ '') <= ('' @ h2 @ '')''))))"

definition build_order_col_predicate_gt :: "extract_statement \<Rightarrow> string list \<Rightarrow> string res" where
  "build_order_col_predicate_gt st order_cols =
     (if order_cols = [] then Inr []
      else
        map_res (\<lambda>(h, _).
            let cols = build_order_col_str st order_cols in
            if length order_cols = 1 then cols @ '' > '' @ h else ''('' @ cols @ '') > ('' @ h @ '')'')
          (build_place_holder_str st order_cols))"

definition build_order_col_predicate_le :: "extract_statement \<Rightarrow> string list \<Rightarrow> string res" where
  "build_order_col_predicate_le st order_cols =
     (if order_cols = [] then Inr []
      else
        map_res (\<lambda>(h, _).
            let cols = build_order_col_str st order_cols in
            if length order_cols = 1 then cols @ '' <= '' @ h else ''('' @ cols @ '') <= ('' @ h @ '')'')
          (build_place_holder_str st order_cols))"

definition build_null_predicate :: "extract_statement \<Rightarrow> string list \<Rightarrow> bool \<Rightarrow> string" where
  "build_null_predicate st order_cols is_null =
     (let null_check = (if is_null then ''IS NULL'' else ''IS NOT NULL'');
          join_str = (if is_null then ''OR'' else ''AND'')
      in if order_cols = [] then []
         else join_strings ('' '' @ join_str @ '' '')
                (map (\<lambda>col. statement_escape st col @ '' '' @ null_check)
                  (filter (is_col_nullable (es_rdb_tb_meta st)) order_cols)))"

definition order_by_col :: "extract_statement \<Rightarrow> string \<Rightarrow> string" where
  "order_by_col st col =
     statement_escape st (tm_schema (es_rdb_tb_meta st)) @ ''.'' @ statement_escape st (tm_tb (es_rdb_tb_meta st)) @
     ''.'' @ statement_escape st col @ '' ASC''"

definition build_order_by_clause :: "extract_statement \<Rightarrow> string list \<Rightarrow> string" where
  "build_order_by_clause st order_cols =
     (case order_cols of
        [] \<Rightarrow> []
      | [col] \<Rightarrow> order_by_col st col
      | _ \<Rightarrow> join_strings '', '' (map (order_by_col st) order_cols))"

definition order_predicate :: "extract_statement \<Rightarrow> string list \<Rightarrow> string res" where
  "order_predicate st order_cols =
     (case es_predicate_type st of
        PredGreaterThan \<Rightarrow> build_order_col_predicate_gt st order_cols
      | PredLessThanOrEqual \<Rightarrow> build_order_col_predicate_le st order_cols
      | PredRange \<Rightarrow> build_order_col_predicate_range st order_cols
      | _ \<Rightarrow> Inr [])"

definition null_predicate :: "extract_statement \<Rightarrow> string list \<Rightarrow> string list \<Rightarrow> string list" where
  "null_predicate st order_cols predicates =
     (case es_predicate_type st of
        PredIsNull \<Rightarrow>
          (let p = build_null_predicate st order_cols True
           in if p = [] then predicates
              else predicates @ [if predicates = [] then p else ''('' @ p @ '')''])
      | _ \<Rightarrow>
          (let p = build_null_predicate st order_cols False
           in if p = [] then predicates else predicates @ [p]))"

definition statement_predicates :: "extract_statement \<Rightarrow> string list res" where
  "statement_predicates st =
     (let cond = (case es_where_condition st of
                    Some c \<Rightarrow> if c \<noteq> [] then [''('' @ c @ '')''] else []
                  | None \<Rightarrow> [])
      in case es_order_cols st of
           None \<Rightarrow> Inr cond
         | Some order_cols \<Rightarrow>
             if order_cols = [] then Inr cond
             else map_res (\<lambda>p. null_predicate st order_cols (if p = [] then cond else cond @ [p]))
                    (order_predicate st order_cols))"

definition build_statement :: "extract_statement \<Rightarrow> string res" where
  "build_statement st =
     bind_res (build_extract_cols_str st) (\<lambda>cols.
     bind_res (statement_predicates st) (\<lambda>preds.
       let predicates = filter (\<lambda>p. p \<noteq> []) preds;
           sql = ''SELECT '' @ cols @ '' FROM '' @ statement_escape st (tm_schema (es_rdb_tb_meta st)) @ ''.'' @
                 statement_escape st (tm_tb (es_rdb_tb_meta st));
           sql1 = (if predicates = [] then sql else sql @ '' WHERE '' @ join_strings '' AND '' predicates);
           sql2 = (case es_order_cols st of
                     Some order_cols \<Rightarrow>
                       if order_cols = [] then sql1 else sql1 @ '' ORDER BY '' @ build_order_by_clause st order_cols
                   | None \<Rightarrow> sql1)
       in Inr (if es_limit st > 0 then sql2 @ '' LIMIT '' @ nat_to_string (es_limit st) else sql2)))"

end
