(* ===== verification/Base_Extractor.thy ===== *)
theory Base_Extractor
  imports Rdb_Router Rust_Std
begin

text \<open>
  What every extractor does with the data it reads: \<open>dt-connector/src/extractor/base_extractor.rs\<close>,
  \<open>dt-connector/src/data_marker.rs\<close> and the state of \<open>dt-common/src/time_filter.rs\<close>. The data marker
  keeps data from going around in a topology of tasks: a task writes a marker row first in every
  transaction, and a task that reads the transaction learns from it which node the data come from.

  The queue is the list of the items pushed; the queue itself is modelled in \<open>Dt_Queue\<close>.
\<close>

section \<open>Data marker\<close>

record data_marker_config =
  dmc_topo_name :: string
  dmc_topo_nodes :: string
  dmc_src_node :: string
  dmc_dst_node :: string
  dmc_do_nodes :: string
  dmc_ignore_nodes :: string
  dmc_marker :: string

record data_marker =
  dm_db_type :: db_type
  dm_topo_name :: string
  dm_topo_nodes :: "string list"
  dm_src_node :: string
  dm_dst_node :: string
  dm_do_nodes :: "string list"
  dm_ignore_nodes :: "string list"
  dm_marker_schema :: string
  dm_marker_tb :: string
  dm_marker :: string
  dm_data_origin_node :: string
  dm_filter :: bool
  dm_reset :: bool

definition DATA_ORIGIN_NODE :: string where "DATA_ORIGIN_NODE = ''data_origin_node''"

definition marker_reset :: "data_marker \<Rightarrow> data_marker" where
  "marker_reset m = m\<lparr>dm_data_origin_node := dm_src_node m, dm_filter := False, dm_reset := True\<rparr>"

definition marker_names :: "data_marker_config \<Rightarrow> db_type \<Rightarrow> (string \<times> string \<times> string) res" where
  "marker_names config db =
     (if db \<in> set [Mysql, Pg, GaussDBPg, Mongo]
      then (case split_char (CHR ''.'') (dmc_marker config) of
              schema # tb # _ \<Rightarrow> Inr (schema, tb, [])
            | _ \<Rightarrow> Inl (Panic ''index out of bounds''))
      else Inr ([], [], dmc_marker config))"

definition marker_from_config :: "data_marker_config \<Rightarrow> db_type \<Rightarrow> data_marker res" where
  "marker_from_config config db =
     map_res (\<lambda>(schema, tb, marker).
       marker_reset
         \<lparr>dm_db_type = db, dm_topo_name = dmc_topo_name config,
          dm_topo_nodes = split_char (CHR '','') (dmc_topo_nodes config),
          dm_src_node = dmc_src_node config, dm_dst_node = dmc_dst_node config,
          dm_do_nodes = split_char (CHR '','') (dmc_do_nodes config),
          dm_ignore_nodes = split_char (CHR '','') (dmc_ignore_nodes config),
          dm_marker_schema = schema, dm_marker_tb = tb, dm_marker = marker,
          dm_data_origin_node = [], dm_filter = False, dm_reset = False\<rparr>)
       (marker_names config db)"

definition is_redis_marker_info :: "(u8 list \<Rightarrow> string) \<Rightarrow> data_marker \<Rightarrow> redis_entry \<Rightarrow> bool" where
  "is_redis_marker_info lossy m entry \<longleftrightarrow>
     (let entry_key = (if is_raw entry then lossy (re_key entry) else get_str_arg lossy (re_cmd entry) 1)
      in entry_key = dm_marker m \<or> starts_with entry_key (dm_marker m @ ''{''))"

definition is_rdb_marker_info :: "data_marker \<Rightarrow> string \<Rightarrow> string \<Rightarrow> bool" where
  "is_rdb_marker_info m schema tb \<longleftrightarrow> dm_marker_schema m = schema \<and> dm_marker_tb m = tb"

definition is_marker_info :: "(u8 list \<Rightarrow> string) \<Rightarrow> data_marker \<Rightarrow> dt_data \<Rightarrow> bool" where
  "is_marker_info lossy m d =
     (case d of
        DDml r \<Rightarrow> is_rdb_marker_info m (rd_schema r) (rd_tb r)
      | DRedis entry \<Rightarrow> is_redis_marker_info lossy m entry
      | _ \<Rightarrow> False)"

definition marker_node :: "ext \<Rightarrow> (u8 list \<Rightarrow> string) \<Rightarrow> dt_data \<Rightarrow> string option" where
  "marker_node e lossy d =
     (case d of
        DDml r \<Rightarrow>
          (case rd_after r of
             Some after \<Rightarrow> map_option (col_value_to_string e) (map_of after DATA_ORIGIN_NODE)
           | None \<Rightarrow> None)
      | DRedis entry \<Rightarrow> Some (get_str_arg lossy (re_cmd entry) 2)
      | _ \<Rightarrow> None)"

definition marker_refresh :: "ext \<Rightarrow> (u8 list \<Rightarrow> string) \<Rightarrow> dt_data \<Rightarrow> data_marker \<Rightarrow> data_marker" where
  "marker_refresh e lossy d m =
     (let m1 = (case marker_node e lossy d of Some node \<Rightarrow> m\<lparr>dm_data_origin_node := node\<rparr> | None \<Rightarrow> m)
      in m1\<lparr>dm_filter := dm_data_origin_node m1 \<in> set (dm_ignore_nodes m1) \<or>
                         dm_data_origin_node m1 \<notin> set (dm_do_nodes m1),
            dm_reset := False\<rparr>)"

section \<open>Base extractor\<close>

record time_filter =
  tf_start_timestamp :: u32
  tf_end_timestamp :: u32
  tf_started :: bool
  tf_ended :: bool

record extractor_counters =
  extracted_record_count :: nat
  extracted_data_size :: nat
  pushed_record_count :: nat
  pushed_data_size :: nat

record base_extractor =
  be_buffer :: "dt_item list"
  be_router :: rdb_router
  be_counters :: extractor_counters
  be_data_marker :: "data_marker option"
  be_time_filter :: time_filter

definition is_data_marker_info :: "base_extractor \<Rightarrow> string \<Rightarrow> string \<Rightarrow> bool" where
  "is_data_marker_info b schema tb =
     (case be_data_marker b of Some m \<Rightarrow> is_rdb_marker_info m schema tb | None \<Rightarrow> False)"

definition record_extracted_metrics :: "nat \<Rightarrow> nat \<Rightarrow> base_extractor \<Rightarrow> base_extractor" where
  "record_extracted_metrics records bytes b =
     b\<lparr>be_counters := (be_counters b)\<lparr>extracted_record_count := extracted_record_count (be_counters b) + records,
                                       extracted_data_size := extracted_data_size (be_counters b) + bytes\<rparr>\<rparr>"

definition check_data_marker :: "ext \<Rightarrow> (u8 list \<Rightarrow> string) \<Rightarrow> dt_data \<Rightarrow> data_marker \<Rightarrow> bool \<times> data_marker" where
  "check_data_marker e lossy d m =
     (if is_begin d \<or> is_commit d then (dm_filter (marker_reset m), marker_reset m)
      else if dm_reset m then
        (if is_marker_info lossy m d then (True, marker_refresh e lossy d m)
         else (False, m\<lparr>dm_filter := False, dm_reset := False\<rparr>))
      else (dm_filter m, m))"

definition refresh_and_check_data_marker ::
  "ext \<Rightarrow> (u8 list \<Rightarrow> string) \<Rightarrow> dt_data \<Rightarrow> base_extractor \<Rightarrow> bool \<times> base_extractor" where
  "refresh_and_check_data_marker e lossy d b =
     (case be_data_marker b of
        Some m \<Rightarrow> (case check_data_marker e lossy d m of (hide, m') \<Rightarrow> (hide, b\<lparr>be_data_marker := Some m'\<rparr>))
      | None \<Rightarrow> (False, b))"

definition push_dt_data ::
  "ext \<Rightarrow> (u8 list \<Rightarrow> string) \<Rightarrow> dt_data \<Rightarrow> position \<Rightarrow> base_extractor \<Rightarrow> base_extractor" where
  "push_dt_data e lossy d pos b0 =
     (let b = record_extracted_metrics (get_data_count d) (dt_data_get_data_size d) b0 in
      if \<not> tf_started (be_time_filter b) then b
      else
        case refresh_and_check_data_marker e lossy d b of
          (True, b1) \<Rightarrow> b1
        | (False, b1) \<Rightarrow>
            let c = be_counters b1;
                node = (case be_data_marker b1 of Some m \<Rightarrow> dm_data_origin_node m | None \<Rightarrow> [])
            in b1\<lparr>be_counters := c\<lparr>pushed_record_count := pushed_record_count c + get_data_count d,
                                   pushed_data_size := pushed_data_size c + dt_data_get_data_size d\<rparr>,
                  be_buffer := be_buffer b1 @ [\<lparr>it_dt_data = d, it_position = pos, it_data_origin_node = node\<rparr>]\<rparr>)"

definition be_push_row :: "ext \<Rightarrow> (u8 list \<Rightarrow> string) \<Rightarrow> row_data \<Rightarrow> position \<Rightarrow> base_extractor \<Rightarrow> base_extractor" where
  "be_push_row e lossy r pos b = push_dt_data e lossy (DDml (route_row (be_router b) r)) pos b"

definition be_push_dcl :: "ext \<Rightarrow> (u8 list \<Rightarrow> string) \<Rightarrow> dcl_data \<Rightarrow> position \<Rightarrow> base_extractor \<Rightarrow> base_extractor" where
  "be_push_dcl e lossy d pos b = push_dt_data e lossy (DDcl d) pos b"

text \<open>A DDL statement waits for the queue to drain; the wait fails when the task is cancelled.\<close>

definition be_push_ddl ::
  "ext \<Rightarrow> (u8 list \<Rightarrow> string) \<Rightarrow> bool \<Rightarrow> ddl_data \<Rightarrow> position \<Rightarrow> base_extractor \<Rightarrow> base_extractor res" where
  "be_push_ddl e lossy drained d pos b =
     (let d' = route_ddl (be_router b) d in
      if \<not> drained
      then Inl (Bail ''extractor stopped before ddl barrier drained: the task is shutting down'')
      else Inr (push_dt_data e lossy (DDdl d') pos b))"

definition update_time_filter :: "u32 \<Rightarrow> time_filter \<Rightarrow> time_filter" where
  "update_time_filter timestamp f =
     (let f1 = (if \<not> tf_started f \<and> timestamp \<ge> tf_start_timestamp f then f\<lparr>tf_started := True\<rparr> else f)
      in if \<not> tf_ended f1 \<and> timestamp \<ge> tf_end_timestamp f1 then f1\<lparr>tf_ended := True\<rparr> else f1)"

section \<open>Transactions through the marker\<close>

text \<open>
  A transaction of the stream: whether it begins with an event of its own, its body and its commit,
  each with its position.
\<close>

record transaction =
  tx_begin :: "position option"
  tx_body :: "(dt_data \<times> position) list"
  tx_xid :: string
  tx_commit :: position

definition tx_items :: "transaction \<Rightarrow> (dt_data \<times> position) list" where
  "tx_items tx =
     (case tx_begin tx of Some pos \<Rightarrow> [(DBegin, pos)] | None \<Rightarrow> []) @ tx_body tx @ [(DCommit (tx_xid tx), tx_commit tx)]"

definition tx_ok :: "transaction \<Rightarrow> bool" where
  "tx_ok tx \<longleftrightarrow> list_all (\<lambda>(d, _). \<not> is_begin d \<and> \<not> is_commit d) (tx_body tx)"

definition tagged :: "string \<Rightarrow> (dt_data \<times> position) list \<Rightarrow> dt_item list" where
  "tagged node = map (\<lambda>(d, pos). \<lparr>it_dt_data = d, it_position = pos, it_data_origin_node = node\<rparr>)"

text \<open>The node the body of a transaction comes from, and the body without the marker.\<close>

definition body_origin :: "ext \<Rightarrow> (u8 list \<Rightarrow> string) \<Rightarrow> data_marker \<Rightarrow> (dt_data \<times> position) list \<Rightarrow> string option" where
  "body_origin e lossy m body =
     (case body of
        (d, _) # _ \<Rightarrow>
          if is_marker_info lossy m d
          then Some (case marker_node e lossy d of Some node \<Rightarrow> node | None \<Rightarrow> dm_src_node m)
          else None
      | [] \<Rightarrow> None)"

definition body_pushed :: "ext \<Rightarrow> (u8 list \<Rightarrow> string) \<Rightarrow> data_marker \<Rightarrow> (dt_data \<times> position) list \<Rightarrow> dt_item list" where
  "body_pushed e lossy m body =
     (case body_origin e lossy m body of
        None \<Rightarrow> tagged (dm_src_node m) body
      | Some node \<Rightarrow>
          if node \<in> set (dm_ignore_nodes m) \<or> node \<notin> set (dm_do_nodes m) then [] else tagged node (tl body))"

definition tx_pushed :: "ext \<Rightarrow> (u8 list \<Rightarrow> string) \<Rightarrow> data_marker \<Rightarrow> transaction \<Rightarrow> dt_item list" where
  "tx_pushed e lossy m tx =
     tagged (dm_src_node m) (case tx_begin tx of Some pos \<Rightarrow> [(DBegin, pos)] | None \<Rightarrow> []) @
     body_pushed e lossy m (tx_body tx) @
     tagged (dm_src_node m) [(DCommit (tx_xid tx), tx_commit tx)]"

definition push_all :: "ext \<Rightarrow> (u8 list \<Rightarrow> string) \<Rightarrow> (dt_data \<times> position) list \<Rightarrow> base_extractor \<Rightarrow> base_extractor" where
  "push_all e lossy items b = foldl (\<lambda>b (d, pos). push_dt_data e lossy d pos b) b items"

definition marker_state :: "data_marker \<Rightarrow> string \<Rightarrow> bool \<Rightarrow> bool \<Rightarrow> base_extractor \<Rightarrow> bool" where
  "marker_state m node hide fresh b \<longleftrightarrow>
     be_data_marker b = Some (m\<lparr>dm_data_origin_node := node, dm_filter := hide, dm_reset := fresh\<rparr>) \<and>
     tf_started (be_time_filter b)"

lemmas push_defs =
  push_dt_data_def refresh_and_check_data_marker_def check_data_marker_def record_extracted_metrics_def
  marker_reset_def Let_def

lemma push_end:
  assumes "marker_state m node hide fresh b" "is_begin d \<or> is_commit d"
  shows "marker_state m (dm_src_node m) False True (push_dt_data e lossy d pos b) \<and>
    be_buffer (push_dt_data e lossy d pos b) = be_buffer b @ tagged (dm_src_node m) [(d, pos)]"
  using assms by (simp add: marker_state_def push_defs tagged_def)

lemma push_inside:
  assumes "marker_state m node hide False b" "\<not> is_begin d \<and> \<not> is_commit d"
  shows "marker_state m node hide False (push_dt_data e lossy d pos b) \<and>
    be_buffer (push_dt_data e lossy d pos b) = be_buffer b @ (if hide then [] else tagged node [(d, pos)])"
  using assms by (simp add: marker_state_def push_defs tagged_def)

lemma push_insides:
  assumes "marker_state m node hide False b" "list_all (\<lambda>(d, _). \<not> is_begin d \<and> \<not> is_commit d) items"
  shows "marker_state m node hide False (push_all e lossy items b) \<and>
    be_buffer (push_all e lossy items b) = be_buffer b @ (if hide then [] else tagged node items)"
  using assms
proof (induction items arbitrary: b)
  case (Cons x items)
  obtain d pos where x: "x = (d, pos)" by (cases x)
  with Cons.prems(2) have "\<not> is_begin d \<and> \<not> is_commit d" by simp
  note step = push_inside[OF Cons.prems(1) this, of e lossy pos]
  from Cons.IH[OF conjunct1[OF step]] Cons.prems(2) step show ?case
    by (auto simp: push_all_def x tagged_def)
qed (simp_all add: push_all_def tagged_def)

lemma is_marker_info_update [simp]:
  "is_marker_info lossy (m\<lparr>dm_data_origin_node := node, dm_filter := hide, dm_reset := fresh\<rparr>) d = is_marker_info lossy m d"
  by (simp add: is_marker_info_def is_rdb_marker_info_def is_redis_marker_info_def split: dt_data.split)

lemma push_first:
  assumes "marker_state m (dm_src_node m) False True b" "\<not> is_begin d \<and> \<not> is_commit d"
  shows "if is_marker_info lossy m d
    then (let node = (case marker_node e lossy d of Some node \<Rightarrow> node | None \<Rightarrow> dm_src_node m) in
      marker_state m node (node \<in> set (dm_ignore_nodes m) \<or> node \<notin> set (dm_do_nodes m)) False (push_dt_data e lossy d pos b) \<and>
      be_buffer (push_dt_data e lossy d pos b) = be_buffer b)
    else marker_state m (dm_src_node m) False False (push_dt_data e lossy d pos b) \<and>
      be_buffer (push_dt_data e lossy d pos b) = be_buffer b @ tagged (dm_src_node m) [(d, pos)]"
  using assms by (auto simp: marker_state_def push_defs marker_refresh_def tagged_def split: option.split)

lemma push_body:
  assumes "marker_state m (dm_src_node m) False True b"
    and "list_all (\<lambda>(d, _). \<not> is_begin d \<and> \<not> is_commit d) body"
  shows "(\<exists>node hide fresh. marker_state m node hide fresh (push_all e lossy body b)) \<and>
    be_buffer (push_all e lossy body b) = be_buffer b @ body_pushed e lossy m body"
proof (cases body)
  case Nil
  then show ?thesis using assms(1) by (auto simp: push_all_def body_pushed_def body_origin_def tagged_def)
next
  case (Cons x rest)
  obtain d pos where x: "x = (d, pos)" by (cases x)
  have d: "\<not> is_begin d \<and> \<not> is_commit d" and rest: "list_all (\<lambda>(d, _). \<not> is_begin d \<and> \<not> is_commit d) rest"
    using assms(2) Cons x by simp_all
  let ?b = "push_dt_data e lossy d pos b"
  have all: "push_all e lossy body b = push_all e lossy rest ?b" by (simp add: push_all_def Cons x)
  note first = push_first[OF assms(1) d, of lossy e pos]
  show ?thesis
  proof (cases "is_marker_info lossy m d")
    case True
    define node where "node = (case marker_node e lossy d of Some node \<Rightarrow> node | None \<Rightarrow> dm_src_node m)"
    from first True have "marker_state m node (node \<in> set (dm_ignore_nodes m) \<or> node \<notin> set (dm_do_nodes m)) False ?b"
      "be_buffer ?b = be_buffer b" by (simp_all add: Let_def node_def)
    with push_insides[OF this(1) rest, of e lossy] True show ?thesis
      unfolding all by (auto simp: body_pushed_def body_origin_def Cons x simp flip: node_def)
  next
    case False
    with first have "marker_state m (dm_src_node m) False False ?b"
      "be_buffer ?b = be_buffer b @ tagged (dm_src_node m) [(d, pos)]" by simp_all
    with push_insides[OF this(1) rest, of e lossy] False show ?thesis
      unfolding all by (auto simp: body_pushed_def body_origin_def Cons x tagged_def)
  qed
qed

lemma push_tx:
  assumes "marker_state m (dm_src_node m) False True b" "tx_ok tx"
  shows "marker_state m (dm_src_node m) False True (push_all e lossy (tx_items tx) b) \<and>
    be_buffer (push_all e lossy (tx_items tx) b) = be_buffer b @ tx_pushed e lossy m tx"
proof -
  define pre :: "(dt_data \<times> position) list" where
    "pre = (case tx_begin tx of Some pos \<Rightarrow> [(DBegin, pos)] | None \<Rightarrow> [])"
  let ?b1 = "push_all e lossy pre b" and ?b2 = "push_all e lossy (tx_body tx) (push_all e lossy pre b)"
  have b1: "marker_state m (dm_src_node m) False True ?b1" "be_buffer ?b1 = be_buffer b @ tagged (dm_src_node m) pre"
    using assms(1) push_end[OF assms(1), of DBegin e lossy]
    by (auto simp: pre_def push_all_def is_begin_def tagged_def split: option.split)
  from push_body[OF b1(1), of "tx_body tx" e lossy] assms(2) obtain node hide fresh where
    b2: "marker_state m node hide fresh ?b2" "be_buffer ?b2 = be_buffer ?b1 @ body_pushed e lossy m (tx_body tx)"
    by (auto simp: tx_ok_def)
  have "push_all e lossy (tx_items tx) b = push_dt_data e lossy (DCommit (tx_xid tx)) (tx_commit tx) ?b2"
    by (simp add: tx_items_def push_all_def pre_def)
  with push_end[OF b2(1), of "DCommit (tx_xid tx)" e lossy "tx_commit tx"] show ?thesis
    by (simp add: is_commit_def b1(2) b2(2) tx_pushed_def flip: pre_def)
qed

text \<open>
  C16: The data marker keeps replication from going around. Begin and commit of every transaction are
  pushed, tagged with the source node. Of the items between them, when the first one is a marker whose
  node is ignored, or is not among the nodes to replicate, none is pushed; when it is a marker of
  another node, the marker is dropped and the rest are pushed in order, tagged with the node it names;
  and without a marker all are pushed in order, tagged with the source node. A marker that names no
  node counts as one of the source node. No transaction influences the next.
\<close>

theorem data_marker_filters:
  assumes "marker_from_config config db = Inr m" "be_data_marker b = Some m" "tf_started (be_time_filter b)"
    and "list_all tx_ok txs"
  shows "be_buffer (push_all e lossy (concat (map tx_items txs)) b) =
    be_buffer b @ concat (map (tx_pushed e lossy m) txs)"
proof -
  have "marker_state m (dm_src_node m) False True b"
    using assms(1-3) by (auto simp: marker_from_config_def marker_state_def marker_reset_def res_eqs)
  from this assms(4) show ?thesis
  proof (induction txs arbitrary: b)
    case Nil
    then show ?case by (simp add: push_all_def)
  next
    case (Cons tx txs)
    then have "tx_ok tx" "list_all tx_ok txs" by simp_all
    note step = push_tx[OF Cons.prems(1) this(1), of e lossy]
    have "push_all e lossy (concat (map tx_items (tx # txs))) b =
        push_all e lossy (concat (map tx_items txs)) (push_all e lossy (tx_items tx) b)" by (simp add: push_all_def)
    then show ?case using Cons.IH[OF conjunct1[OF step] \<open>list_all tx_ok txs\<close>] step by simp
  qed
qed

definition sample_marker_config :: data_marker_config where
  "sample_marker_config =
     \<lparr>dmc_topo_name = ''t'', dmc_topo_nodes = ''a,b,c'', dmc_src_node = ''a'', dmc_dst_node = ''b'', dmc_do_nodes = ''a,c'',
      dmc_ignore_nodes = ''b'', dmc_marker = ''d.m''\<rparr>"

definition sample_marker :: data_marker where
  "sample_marker =
     \<lparr>dm_db_type = Mysql, dm_topo_name = ''t'', dm_topo_nodes = [''a'', ''b'', ''c''], dm_src_node = ''a'', dm_dst_node = ''b'',
      dm_do_nodes = [''a'', ''c''], dm_ignore_nodes = [''b''], dm_marker_schema = ''d'', dm_marker_tb = ''m'', dm_marker = [],
      dm_data_origin_node = ''a'', dm_filter = False, dm_reset = True\<rparr>"

definition sample_marker_row :: "string \<Rightarrow> row_data" where
  "sample_marker_row node =
     row_data_new sample_ext ''d'' ''m'' RInsert None (Some [(''data_origin_node'', StringV node)])"

definition sample_tx :: "row_data list \<Rightarrow> transaction" where
  "sample_tx rows =
     \<lparr>tx_begin = None, tx_body = map (\<lambda>r. (DDml r, PosNone)) rows, tx_xid = ''x'', tx_commit = PosNone\<rparr>"

definition sample_base_extractor :: base_extractor where
  "sample_base_extractor =
     \<lparr>be_buffer = [], be_router = sample_router,
      be_counters = \<lparr>extracted_record_count = 0, extracted_data_size = 0, pushed_record_count = 0, pushed_data_size = 0\<rparr>,
      be_data_marker = Some sample_marker,
      be_time_filter = \<lparr>tf_start_timestamp = 0, tf_end_timestamp = 0xFFFFFFFF, tf_started = True, tf_ended = False\<rparr>\<rparr>"

lemma sample_marker_from_config: "marker_from_config sample_marker_config Mysql = Inr sample_marker"
  by (simp add: marker_from_config_def sample_marker_config_def marker_names_def marker_reset_def sample_marker_def)

text \<open>Of three transactions, from \<open>b\<close>, from \<open>c\<close> and from the source itself, the first is hidden.\<close>

theorem data_marker_filters_witness:
  "be_buffer (push_all sample_ext (\<lambda>_. []) (concat (map tx_items
      [sample_tx [sample_marker_row ''b'', sample_insert ''s'' ''t'' ''1'' ''x''],
       sample_tx [sample_marker_row ''c'', sample_insert ''s'' ''t'' ''2'' ''y''],
       sample_tx [sample_insert ''s'' ''t'' ''3'' ''z'']])) sample_base_extractor) =
   tagged ''a'' [(DCommit ''x'', PosNone)] @
   tagged ''c'' [(DDml (sample_insert ''s'' ''t'' ''2'' ''y''), PosNone)] @ tagged ''a'' [(DCommit ''x'', PosNone)] @
   tagged ''a'' [(DDml (sample_insert ''s'' ''t'' ''3'' ''z''), PosNone), (DCommit ''x'', PosNone)]"
proof -
  have "be_data_marker sample_base_extractor = Some sample_marker" "tf_started (be_time_filter sample_base_extractor)"
    "be_buffer sample_base_extractor = []"
    by (simp_all add: sample_base_extractor_def)
  note run = data_marker_filters[OF sample_marker_from_config this(1,2), of _ sample_ext "\<lambda>_. []", unfolded this(3)]
  have node: "rd_schema (sample_marker_row n) = ''d''" "rd_tb (sample_marker_row n) = ''m''"
    "rd_after (sample_marker_row n) = Some [(''data_origin_node'', StringV n)]" for n
    by (simp_all add: sample_marker_row_def row_data_new_def Let_def)
  have pushed: "body_pushed sample_ext (\<lambda>_. []) sample_marker (map (\<lambda>r. (DDml r, PosNone)) (sample_marker_row n # rows)) =
      (if n \<in> {''a'', ''c''} then tagged n (map (\<lambda>r. (DDml r, PosNone)) rows) else [])" for n rows
    by (simp add: body_pushed_def body_origin_def is_marker_info_def is_rdb_marker_info_def marker_node_def node
        sample_marker_def DATA_ORIGIN_NODE_def col_value_to_string_def)
  have plain: "body_pushed sample_ext (\<lambda>_. []) sample_marker [(DDml (sample_insert ''s'' ''t'' i v), PosNone)] =
      tagged ''a'' [(DDml (sample_insert ''s'' ''t'' i v), PosNone)]" for i v
    by (simp add: body_pushed_def body_origin_def is_marker_info_def is_rdb_marker_info_def sample_marker_def)
  have src: "dm_src_node sample_marker = ''a''" by (simp add: sample_marker_def)
  have one: "tx_pushed sample_ext (\<lambda>_. []) sample_marker (sample_tx (sample_marker_row n # rows)) =
      (if n \<in> {''a'', ''c''} then tagged n (map (\<lambda>r. (DDml r, PosNone)) rows) else []) @ tagged ''a'' [(DCommit ''x'', PosNone)]" for n rows
    using pushed[of n rows] by (simp add: tx_pushed_def sample_tx_def src tagged_def)
  have two: "tx_pushed sample_ext (\<lambda>_. []) sample_marker (sample_tx [sample_insert ''s'' ''t'' i v]) =
      tagged ''a'' [(DDml (sample_insert ''s'' ''t'' i v), PosNone), (DCommit ''x'', PosNone)]" for i v
    using plain[of i v] by (simp add: tx_pushed_def sample_tx_def src tagged_def)
  have ok: "tx_ok (sample_tx rows)" for rows
    by (simp add: tx_ok_def sample_tx_def is_begin_def is_commit_def list_all_iff)
  show ?thesis by (subst run) (simp_all add: one two ok)
qed

end
