(* ===== verification/Snapshot_Extractor.thy ===== *)
theory Snapshot_Extractor
  imports Mysql_Splitter Snapshot_Statement Base_Extractor Transition
begin

text \<open>
  Extraction of the rows of a MySQL table by parallel tasks, one per chunk:
  \<open>dt-connector/src/extractor/mysql/mysql_snapshot_extractor.rs\<close> with \<open>RowData::from_mysql_row\<close> of
  \<open>dt-common/src/meta/row_data.rs\<close>.

  A spawned task fetches its rows when it starts and pushes them one at a time; the tasks and the loop
  that joins them are interleaved by the step relation \<open>parallel_step\<close>. The queue is the buffer of the
  base extractor, in the order of the pushes.
\<close>

section \<open>Model\<close>

record snapshot_extractor =
  sx_db :: string
  sx_tb :: string
  sx_conn :: mysql_conn
  sx_tb_meta :: mysql_tb_meta
  sx_partition_col :: string
  sx_ignore_cols :: "string list option"
  sx_where_condition :: "string option"
  sx_batch_size :: nat
  sx_parallel_size :: nat
  sx_sample_interval :: nat

definition snapshot_statement ::
  "snapshot_extractor \<Rightarrow> string list \<Rightarrow> predicate_type \<Rightarrow> nat \<Rightarrow> string res" where
  "snapshot_statement x order_cols pred limit =
     build_statement
       ((statement_from_mysql (sx_tb_meta x))
         \<lparr>es_ignore_cols := Some (case sx_ignore_cols x of Some cols \<Rightarrow> cols | None \<Rightarrow> []),
          es_order_cols := Some order_cols,
          es_where_condition := Some (case sx_where_condition x of Some c \<Rightarrow> c | None \<Rightarrow> []),
          es_predicate_type := pred, es_limit := limit\<rparr>)"

definition from_mysql_row :: "ext \<Rightarrow> mysql_tb_meta \<Rightarrow> string list option \<Rightarrow> col_values \<Rightarrow> row_data res" where
  "from_mysql_row e meta ignore_cols row =
     map_res (\<lambda>after. build_insert_row_data e after (my_basic meta))
       (traverse_res
         (\<lambda>(col, _). case map_of row col of
            Some v \<Rightarrow> Inr (col, v)
          | None \<Rightarrow> Inl (Panic ''called `Result::unwrap()` on an `Err` value''))
         (filter (\<lambda>(col, _). \<not> (case ignore_cols of Some cols \<Rightarrow> col \<in> set cols | None \<Rightarrow> False)) (my_col_type_map meta)))"

text \<open>A task: the rows it has yet to push, the last partition value it saw, and its failure.\<close>

record chunk_task =
  ct_id :: nat
  ct_left :: "col_values list"
  ct_last :: col_value
  ct_failed :: "failure option"

record parallel_state =
  ps_splitter :: mysql_splitter
  ps_pending :: "snapshot_chunk list"
  ps_running :: "chunk_task list"
  ps_base :: base_extractor

definition fetch_chunk :: "mysql_conn \<Rightarrow> string \<Rightarrow> string \<Rightarrow> chunk_range \<Rightarrow> col_values list res" where
  "fetch_chunk conn sql_le sql_range rng =
     (if snd rng = NoneV then Inl (Bail ''chunk has bad chunk range'')
      else if fst rng = NoneV then conn sql_le [snd rng]
      else conn sql_range [fst rng, snd rng])"

definition spawn_sub_parallel_extract :: "mysql_conn \<Rightarrow> string \<Rightarrow> string \<Rightarrow> snapshot_chunk \<Rightarrow> chunk_task" where
  "spawn_sub_parallel_extract conn sql_le sql_range chunk =
     (case fetch_chunk conn sql_le sql_range (chunk_range chunk) of
        Inr rows \<Rightarrow> \<lparr>ct_id = chunk_id chunk, ct_left = rows, ct_last = NoneV, ct_failed = None\<rparr>
      | Inl err \<Rightarrow> \<lparr>ct_id = chunk_id chunk, ct_left = [], ct_last = NoneV, ct_failed = Some err\<rparr>)"

definition sub_push_row :: "row_data \<Rightarrow> position \<Rightarrow> base_extractor \<Rightarrow> base_extractor" where
  "sub_push_row row pos b =
     b\<lparr>be_buffer := be_buffer b @
         [\<lparr>it_dt_data = DDml (route_row (be_router b) row), it_position = pos, it_data_origin_node = []\<rparr>]\<rparr>"

text \<open>A task pushes its next row, or fails on it.\<close>

definition task_push :: "ext \<Rightarrow> snapshot_extractor \<Rightarrow> chunk_task \<Rightarrow> base_extractor \<Rightarrow> (chunk_task \<times> base_extractor) option" where
  "task_push e x t b =
     (case (ct_failed t, ct_left t) of
        (None, row # rows) \<Rightarrow>
          Some (case map_of row (sx_partition_col x) of
                  None \<Rightarrow> (t\<lparr>ct_failed := Some (Panic ''called `Result::unwrap()` on an `Err` value'')\<rparr>, b)
                | Some v \<Rightarrow>
                    (case from_mysql_row e (sx_tb_meta x) (sx_ignore_cols x) row of
                       Inl err \<Rightarrow> (t\<lparr>ct_failed := Some err\<rparr>, b)
                     | Inr row_data \<Rightarrow> (t\<lparr>ct_left := rows, ct_last := v\<rparr>, sub_push_row row_data PosNone b)))
      | _ \<Rightarrow> None)"

definition push_row_step :: "ext \<Rightarrow> snapshot_extractor \<Rightarrow> nat \<Rightarrow> parallel_state \<Rightarrow> parallel_state option" where
  "push_row_step e x i st =
     (if i < length (ps_running st) then
        map_option (\<lambda>(t, b). st\<lparr>ps_running := (ps_running st)[i := t], ps_base := b\<rparr>)
          (task_push e x (ps_running st ! i) (ps_base st))
      else None)"

definition send_checkpoint_position :: "ext \<Rightarrow> (u8 list \<Rightarrow> string) \<Rightarrow> position \<Rightarrow> base_extractor \<Rightarrow> base_extractor" where
  "send_checkpoint_position e lossy pos b = push_dt_data e lossy (DCommit []) pos b"

text \<open>The chunk to spawn next: a pending one, or the first of the next chunks of the splitter.\<close>

definition take_chunk ::
  "ext \<Rightarrow> mysql_conn \<Rightarrow> snapshot_chunk list \<Rightarrow> mysql_splitter \<Rightarrow>
   (snapshot_chunk option \<times> snapshot_chunk list \<times> mysql_splitter) res" where
  "take_chunk e conn pending sp =
     (case pending of
        c # rest \<Rightarrow> Inr (Some c, rest, sp)
      | [] \<Rightarrow>
          map_res (\<lambda>(chunks, sp'). case chunks of c # rest \<Rightarrow> (Some c, rest, sp') | [] \<Rightarrow> (None, [], sp'))
            (get_next_chunks e conn sp))"

text \<open>\<open>join_next\<close> gives a task that has ended; its failure ends the extraction.\<close>

definition join_step ::
  "ext \<Rightarrow> (u8 list \<Rightarrow> string) \<Rightarrow> snapshot_extractor \<Rightarrow> string \<Rightarrow> string \<Rightarrow> nat \<Rightarrow> parallel_state \<Rightarrow> parallel_state res option" where
  "join_step e lossy x sql_le sql_range i st =
     (if i < length (ps_running st) then
        (let t = ps_running st ! i; others = take i (ps_running st) @ drop (Suc i) (ps_running st) in
         case ct_failed t of
           Some err \<Rightarrow> Some (Inl err)
         | None \<Rightarrow>
             if ct_left t \<noteq> [] then None
             else
               (case get_next_checkpoint_position e (ct_id t) (ct_last t) (ps_splitter st) of
                  (pos, sp) \<Rightarrow>
                    let b = (case pos of Some p \<Rightarrow> send_checkpoint_position e lossy p (ps_base st) | None \<Rightarrow> ps_base st)
                    in Some
                      (map_res (\<lambda>(chunk, pending, sp').
                           \<lparr>ps_splitter = sp', ps_pending = pending,
                            ps_running = others @ (case chunk of
                               Some c \<Rightarrow> [spawn_sub_parallel_extract (sx_conn x) sql_le sql_range c] | None \<Rightarrow> []),
                            ps_base = b\<rparr>)
                        (take_chunk e (sx_conn x) (ps_pending st) sp))))
      else None)"

text \<open>
  The first loop spawns up to \<open>parallel_size\<close> tasks; a chunk without ends means that the table is not
  split, and then the result is \<open>True\<close>.
\<close>

fun fill_tasks ::
  "ext \<Rightarrow> snapshot_extractor \<Rightarrow> string \<Rightarrow> string \<Rightarrow> nat \<Rightarrow> parallel_state \<Rightarrow> (bool \<times> parallel_state) res" where
  "fill_tasks e x sql_le sql_range 0 st = Inr (False, st)" |
  "fill_tasks e x sql_le sql_range (Suc n) st =
     bind_res (get_next_chunks e (sx_conn x) (ps_splitter st)) (\<lambda>(chunks, sp).
       case ps_pending st @ chunks of
         [] \<Rightarrow> Inr (False, st\<lparr>ps_splitter := sp\<rparr>)
       | c # rest \<Rightarrow>
           let st' = st\<lparr>ps_splitter := sp, ps_pending := rest\<rparr> in
           if chunk_range c = (NoneV, NoneV) then
             (if ps_running st \<noteq> [] then Inl (Bail ''table has no split chunk, but some parallel extractors are running'')
              else Inr (True, st'))
           else fill_tasks e x sql_le sql_range n
                  (st'\<lparr>ps_running := ps_running st' @ [spawn_sub_parallel_extract (sx_conn x) sql_le sql_range c]\<rparr>))"

definition parallel_init :: "snapshot_extractor \<Rightarrow> col_values \<Rightarrow> base_extractor \<Rightarrow> parallel_state" where
  "parallel_init x resume_values b =
     \<lparr>ps_splitter = mysql_splitter_init resume_values (mysql_splitter_new (sx_tb_meta x) (sx_batch_size x) (sx_partition_col x)),
      ps_pending = [], ps_running = [], ps_base = b\<rparr>"

definition parallel_start ::
  "ext \<Rightarrow> snapshot_extractor \<Rightarrow> col_values \<Rightarrow> base_extractor \<Rightarrow> (string \<times> string \<times> bool \<times> parallel_state) res" where
  "parallel_start e x resume_values b =
     bind_res (mysql_get_col_type (sx_tb_meta x) (sx_partition_col x)) (\<lambda>_.
     bind_res (snapshot_statement x [sx_partition_col x] PredLessThanOrEqual 0) (\<lambda>sql_le.
     bind_res (snapshot_statement x [sx_partition_col x] PredRange 0) (\<lambda>sql_range.
       map_res (\<lambda>(no_split, st). (sql_le, sql_range, no_split, st))
         (fill_tasks e x sql_le sql_range (sx_parallel_size x) (parallel_init x resume_values b)))))"

definition parallel_step ::
  "ext \<Rightarrow> (u8 list \<Rightarrow> string) \<Rightarrow> snapshot_extractor \<Rightarrow> string \<Rightarrow> string \<Rightarrow> parallel_state \<Rightarrow> parallel_state \<Rightarrow> bool" where
  "parallel_step e lossy x sql_le sql_range st st' \<longleftrightarrow>
     (\<exists>i. push_row_step e x i st = Some st' \<or> join_step e lossy x sql_le sql_range i st = Some (Inr st'))"

text \<open>After the tasks: the rows whose partition column is \<open>NULL\<close>.\<close>

definition extract_nulls ::
  "ext \<Rightarrow> (u8 list \<Rightarrow> string) \<Rightarrow> snapshot_extractor \<Rightarrow> string list \<Rightarrow> base_extractor \<Rightarrow> base_extractor res" where
  "extract_nulls e lossy x order_cols b =
     bind_res (snapshot_statement x order_cols PredIsNull 0) (\<lambda>sql.
     bind_res (sx_conn x sql []) (\<lambda>rows.
       fold_res (\<lambda>b row. map_res (\<lambda>row_data. be_push_row e lossy row_data PosNone b)
                   (from_mysql_row e (sx_tb_meta x) (sx_ignore_cols x) row)) b rows))"

definition parallel_finish ::
  "ext \<Rightarrow> (u8 list \<Rightarrow> string) \<Rightarrow> snapshot_extractor \<Rightarrow> parallel_state \<Rightarrow> base_extractor res" where
  "parallel_finish e lossy x st =
     (if is_col_nullable (my_basic (sx_tb_meta x)) (sx_partition_col x)
      then extract_nulls e lossy x [sx_partition_col x] (ps_base st)
      else Inr (ps_base st))"

section \<open>What the chunk statements promise\<close>

definition pval :: "snapshot_extractor \<Rightarrow> col_values \<Rightarrow> col_value" where
  "pval x r = (case map_of r (sx_partition_col x) of Some v \<Rightarrow> v | None \<Rightarrow> NoneV)"

text \<open>The answer to a statement: the rows of the table the predicate holds for, in ascending order.\<close>

definition selects ::
  "(col_value \<Rightarrow> col_value \<Rightarrow> bool) \<Rightarrow> snapshot_extractor \<Rightarrow> col_values list \<Rightarrow> (col_value \<Rightarrow> bool) \<Rightarrow> col_values list \<Rightarrow> bool" where
  "selects le x tbl P rows \<longleftrightarrow>
     mset rows = mset (filter (\<lambda>r. P (pval x r)) tbl) \<and> sorted_wrt (\<lambda>r r'. le (pval x r) (pval x r')) rows"

text \<open>
  \<open>tbl\<close> holds the rows of the table that satisfy the condition of the task and whose partition column is
  not \<open>NULL\<close>; \<open>vals\<close> the values of that column in the whole table.
\<close>

definition chunk_answers ::
  "ext \<Rightarrow> snapshot_extractor \<Rightarrow> string \<Rightarrow> string \<Rightarrow> (col_value \<Rightarrow> col_value \<Rightarrow> bool) \<Rightarrow> col_value list \<Rightarrow> col_values list \<Rightarrow> bool" where
  "chunk_answers e x sql_le sql_range le vals tbl \<longleftrightarrow>
     (\<forall>hi. hi \<noteq> NoneV \<longrightarrow> (\<exists>rows. sx_conn x sql_le [hi] = Inr rows \<and> selects le x tbl (\<lambda>v. le v hi) rows)) \<and>
     (\<forall>lo hi. lo \<noteq> NoneV \<longrightarrow> hi \<noteq> NoneV \<longrightarrow>
        (\<exists>rows. sx_conn x sql_range [lo, hi] = Inr rows \<and> selects le x tbl (\<lambda>v. \<not> le v lo \<and> le v hi) rows)) \<and>
     list_all (\<lambda>r. pval x r \<in> set vals \<and> pval x r \<noteq> NoneV \<and>
       (\<exists>rd. from_mysql_row e (sx_tb_meta x) (sx_ignore_cols x) r = Inr rd)) tbl"

definition rows_of :: "snapshot_extractor \<Rightarrow> string \<Rightarrow> string \<Rightarrow> snapshot_chunk \<Rightarrow> col_values list" where
  "rows_of x sql_le sql_range c =
     (case fetch_chunk (sx_conn x) sql_le sql_range (chunk_range c) of Inr rows \<Rightarrow> rows | Inl _ \<Rightarrow> [])"

lemma rows_of_spec:
  assumes "chunk_answers e x sql_le sql_range le vals tbl" "snd (chunk_range c) \<noteq> NoneV"
  shows "fetch_chunk (sx_conn x) sql_le sql_range (chunk_range c) = Inr (rows_of x sql_le sql_range c) \<and>
    selects le x tbl (\<lambda>v. in_chunk le v c) (rows_of x sql_le sql_range c)"
proof (cases "fst (chunk_range c) = NoneV")
  case True
  from assms obtain rows where "sx_conn x sql_le [snd (chunk_range c)] = Inr rows"
    "selects le x tbl (\<lambda>v. le v (snd (chunk_range c))) rows" unfolding chunk_answers_def by blast
  then show ?thesis using True assms(2) by (simp add: rows_of_def fetch_chunk_def in_chunk_def)
next
  case False
  with assms obtain rows where "sx_conn x sql_range [fst (chunk_range c), snd (chunk_range c)] = Inr rows"
    "selects le x tbl (\<lambda>v. \<not> le v (fst (chunk_range c)) \<and> le v (snd (chunk_range c))) rows"
    unfolding chunk_answers_def by blast
  then show ?thesis using False assms(2) by (simp add: rows_of_def fetch_chunk_def in_chunk_def)
qed

lemma spawn_spec:
  assumes "chunk_answers e x sql_le sql_range le vals tbl" "snd (chunk_range c) \<noteq> NoneV"
  shows "spawn_sub_parallel_extract (sx_conn x) sql_le sql_range c =
    \<lparr>ct_id = chunk_id c, ct_left = rows_of x sql_le sql_range c, ct_last = NoneV, ct_failed = None\<rparr>"
  using rows_of_spec[OF assms] by (simp add: spawn_sub_parallel_extract_def)

lemma mset_concat_classes:
  assumes "\<And>r. r \<in> set tbl \<Longrightarrow> length (filter (P r) cs) = of_bool (Q r)"
  shows "mset (concat (map (\<lambda>c. filter (\<lambda>r. P r c) tbl) cs)) = mset (filter Q tbl)"
proof -
  have one: "count (mset (concat (map (\<lambda>c. filter (\<lambda>r. P r c) tbl) cs))) a = length (filter (P a) cs) * count (mset tbl) a" for a
    by (induction cs) (auto simp: count_mset)
  show ?thesis
  proof (rule multiset_eqI)
    fix a
    show "count (mset (concat (map (\<lambda>c. filter (\<lambda>r. P r c) tbl) cs))) a = count (mset (filter Q tbl)) a"
      unfolding one using assms[of a] by (cases "a \<in> set tbl") (auto simp: count_mset)
  qed
qed

text \<open>The chunks of a chain fetch the rows between its ends, each once.\<close>

lemma chunk_rows_cover:
  assumes "chunk_answers e x sql_le sql_range le vals tbl" "total_preorder le"
    and "chunk_chain le a cs b" "a \<noteq> NoneV \<or> cs \<noteq> []"
  shows "mset (concat (map (rows_of x sql_le sql_range) cs)) =
    mset (filter (\<lambda>r. (a = NoneV \<or> \<not> le (pval x r) a) \<and> le (pval x r) b) tbl)"
proof -
  have ends: "snd (chunk_range c) \<noteq> NoneV" if "c \<in> set cs" for c
    using assms(3) that by (induction cs arbitrary: a) auto
  have "mset (rows_of x sql_le sql_range c) = mset (filter (\<lambda>r. in_chunk le (pval x r) c) tbl)" if "c \<in> set cs" for c
    using rows_of_spec[OF assms(1) ends[OF that]] by (simp add: selects_def)
  then have "mset (concat (map (rows_of x sql_le sql_range) cs)) = mset (concat (map (\<lambda>c. filter (\<lambda>r. in_chunk le (pval x r) c) tbl) cs))"
    by (induction cs) simp_all
  also have "\<dots> = mset (filter (\<lambda>r. (a = NoneV \<or> \<not> le (pval x r) a) \<and> le (pval x r) b) tbl)"
    by (rule mset_concat_classes) (rule chunk_chain_covers[OF assms(2-4)])
  finally show ?thesis .
qed

section \<open>The chunks cut so far\<close>

definition above_start :: "(col_value \<Rightarrow> col_value \<Rightarrow> bool) \<Rightarrow> col_value \<Rightarrow> col_value \<Rightarrow> bool" where
  "above_start le a v \<longleftrightarrow> a = NoneV \<or> \<not> le v a"

lemma above_start: "above le (ms_current_col_value s) v \<longleftrightarrow> above_start le (split_start s) v"
  if "ms_current_col_value s \<noteq> Some NoneV"
  using that by (auto simp: above_def above_start_def split_start_def split: option.splits)

text \<open>\<open>cs\<close> are the chunks a splitter that started at \<open>a\<close> has given, \<open>b\<close> is where they end.\<close>

definition cut_upto ::
  "(col_value \<Rightarrow> col_value \<Rightarrow> bool) \<Rightarrow> col_value list \<Rightarrow> col_value \<Rightarrow> mysql_splitter \<Rightarrow> snapshot_chunk list \<Rightarrow> col_value \<Rightarrow> bool" where
  "cut_upto le vals a s cs b \<longleftrightarrow>
     map chunk_id cs = [1..<Suc (length cs)] \<and> chunk_id_generator (ms_basic s) = length cs \<and>
     chunk_chain le a cs b \<and> (cs \<noteq> [] \<longrightarrow> b \<noteq> NoneV) \<and>
     (if split_done s then list_all (\<lambda>v. above_start le a v \<longrightarrow> cs \<noteq> [] \<and> le v b) vals else split_start s = b)"

lemma cut_more:
  assumes "splits e conn le vals s" "cut_upto le vals a s cs b"
  shows "\<exists>new s'. get_next_chunks e conn s = Inr (new, s') \<and> splits e conn le vals s' \<and>
    (\<exists>b'. cut_upto le vals a s' (cs @ new) b') \<and> (new = [] \<longrightarrow> split_done s') \<and>
    (split_done s \<longrightarrow> new = [] \<and> s' = s) \<and> (split_done s \<or> split_weight le vals s' < split_weight le vals s) \<and>
    ms_tb_meta s' = ms_tb_meta s \<and> ms_partition_col s' = ms_partition_col s \<and>
    ms_checkpoint_id s' = ms_checkpoint_id s \<and> ms_checkpoint_map s' = ms_checkpoint_map s"
proof (cases "split_done s")
  case True
  then have "get_next_chunks e conn s = Inr ([], s)" by (simp add: get_next_chunks_def split_done_def)
  with True assms show ?thesis by auto
next
  case False
  from get_next_chunks_spec[OF assms(1)] obtain new s' where
    g: "get_next_chunks e conn s = Inr (new, s')" "next_chunks_ok le vals s new s'" "splits e conn le vals s'"
      "split_weight le vals s' < split_weight le vals s" using False by blast
  have pre: "ms_current_col_value s \<noteq> Some NoneV" using assms(1) by (simp add: splits_def)
  have cut: "map chunk_id cs = [1..<Suc (length cs)]" "chunk_id_generator (ms_basic s) = length cs"
    "chunk_chain le a cs b" "cs \<noteq> [] \<longrightarrow> b \<noteq> NoneV" "split_start s = b"
    using assms(2) False by (simp_all add: cut_upto_def)
  have ids: "map chunk_id (cs @ new) = [1..<Suc (length (cs @ new))]"
  proof -
    have "map chunk_id new = [Suc (length cs)..<Suc (length cs + length new)]"
      using g(2) unfolding next_chunks_ok_def cut(2) by blast
    then show ?thesis using upt_add_eq_append[of 1 "Suc (length cs)" "length new"] by (simp add: cut(1) del: upt_Suc)
  qed
  have gen: "chunk_id_generator (ms_basic s') = length (cs @ new)"
    using g(2) unfolding next_chunks_ok_def cut(2) by simp
  have "\<exists>b'. cut_upto le vals a s' (cs @ new) b'"
  proof (cases "new = []")
    case True
    with g(2) False have d: "split_done s'" "list_all (\<lambda>v. \<not> above_start le b v) vals"
      by (simp_all add: next_chunks_ok_def above_start[OF pre] cut(5))
    have "list_all (\<lambda>v. above_start le a v \<longrightarrow> cs \<noteq> [] \<and> le v b) vals"
      using d(2) cut(3,4) by (cases "cs = []") (auto simp: list_all_iff above_start_def)
    then have "cut_upto le vals a s' (cs @ new) b"
      using ids gen cut(3,4) d(1) True by (simp add: cut_upto_def del: upt_Suc)
    then show ?thesis ..
  next
    case ne: False
    with g(2) obtain b' where b': "b' \<noteq> NoneV" "chunk_chain le b new b'"
      "if split_done s' then list_all (\<lambda>v. le v b') vals else split_start s' = b'"
      unfolding next_chunks_ok_def cut(5) by auto
    have "chunk_chain le a (cs @ new) b'" using cut(3) b'(2) chunk_chain_append by blast
    then have "cut_upto le vals a s' (cs @ new) b'"
      using ids gen b' ne by (auto simp: cut_upto_def list_all_iff simp del: upt_Suc)
    then show ?thesis ..
  qed
  moreover have "ms_tb_meta s' = ms_tb_meta s \<and> ms_partition_col s' = ms_partition_col s \<and>
    ms_checkpoint_id s' = ms_checkpoint_id s \<and> ms_checkpoint_map s' = ms_checkpoint_map s \<and> (new = [] \<longrightarrow> split_done s')"
    using g(2) by (simp add: next_chunks_ok_def)
  ultimately show ?thesis using g False by blast
qed

section \<open>The invariant of the extraction\<close>

definition item_of :: "ext \<Rightarrow> snapshot_extractor \<Rightarrow> rdb_router \<Rightarrow> col_values \<Rightarrow> dt_item" where
  "item_of e x router r =
     \<lparr>it_dt_data = (case from_mysql_row e (sx_tb_meta x) (sx_ignore_cols x) r of
        Inr rd \<Rightarrow> DDml (route_row router rd) | Inl _ \<Rightarrow> DHeartbeat),
      it_position = PosNone, it_data_origin_node = []\<rparr>"

definition row_items :: "dt_item list \<Rightarrow> dt_item list" where
  "row_items = filter (\<lambda>it. \<not> is_commit (it_dt_data it))"

definition last_val :: "snapshot_extractor \<Rightarrow> col_values list \<Rightarrow> col_value" where
  "last_val x rows = (if rows = [] then NoneV else pval x (last rows))"

definition task_ok :: "snapshot_extractor \<Rightarrow> string \<Rightarrow> string \<Rightarrow> snapshot_chunk list \<Rightarrow> chunk_task \<Rightarrow> bool" where
  "task_ok x sql_le sql_range cs t \<longleftrightarrow>
     ct_failed t = None \<and>
     (\<exists>pushed. rows_of x sql_le sql_range (cs ! (ct_id t - 1)) = pushed @ ct_left t \<and> ct_last t = last_val x pushed)"

text \<open>A checkpoint is sent after all rows of the chunks up to some chunk, with the last value of that chunk.\<close>

definition sent_ok ::
  "ext \<Rightarrow> snapshot_extractor \<Rightarrow> string \<Rightarrow> string \<Rightarrow> rdb_router \<Rightarrow> snapshot_chunk list \<Rightarrow> dt_item list \<Rightarrow> bool" where
  "sent_ok e x sql_le sql_range router cs new \<longleftrightarrow>
     (\<forall>pre it post. new = pre @ it # post \<longrightarrow> is_commit (it_dt_data it) \<longrightarrow>
        (\<exists>j. 1 \<le> j \<and> j \<le> length cs \<and>
           it_position it = build_position_for_partition e (my_basic (sx_tb_meta x)) Mysql (sx_partition_col x)
             (last_val x (rows_of x sql_le sql_range (cs ! (j - 1)))) \<and>
           mset (map (item_of e x router) (concat (map (rows_of x sql_le sql_range) (take j cs)))) \<subseteq># mset pre))"

definition left_items :: "ext \<Rightarrow> snapshot_extractor \<Rightarrow> rdb_router \<Rightarrow> chunk_task list \<Rightarrow> dt_item multiset" where
  "left_items e x router ts = sum_list (map (\<lambda>t. mset (map (item_of e x router) (ct_left t))) ts)"

definition base_ok ::
  "ext \<Rightarrow> snapshot_extractor \<Rightarrow> string \<Rightarrow> string \<Rightarrow> base_extractor \<Rightarrow> snapshot_chunk list \<Rightarrow> nat \<Rightarrow> chunk_task list \<Rightarrow> base_extractor \<Rightarrow> bool" where
  "base_ok e x sql_le sql_range b0 cs k ts b \<longleftrightarrow>
     be_router b = be_router b0 \<and> be_data_marker b = None \<and> tf_started (be_time_filter b) \<and>
     (\<exists>new. be_buffer b = be_buffer b0 @ new \<and> sent_ok e x sql_le sql_range (be_router b0) cs new \<and>
        mset (row_items new) + left_items e x (be_router b0) ts =
          mset (map (item_of e x (be_router b0)) (concat (map (rows_of x sql_le sql_range) (take k cs)))))"

definition snap_core ::
  "ext \<Rightarrow> snapshot_extractor \<Rightarrow> string \<Rightarrow> string \<Rightarrow> (col_value \<Rightarrow> col_value \<Rightarrow> bool) \<Rightarrow> col_value list \<Rightarrow> col_value \<Rightarrow> base_extractor \<Rightarrow>
   snapshot_chunk list \<Rightarrow> nat \<Rightarrow> (nat, col_value) hash_map \<Rightarrow>
   mysql_splitter \<Rightarrow> snapshot_chunk list \<Rightarrow> chunk_task list \<Rightarrow> base_extractor \<Rightarrow> bool" where
  "snap_core e x sql_le sql_range le vals a b0 cs k fin sp pending running base \<longleftrightarrow>
     splits e (sx_conn x) le vals sp \<and> (\<exists>b. cut_upto le vals a sp cs b) \<and>
     ms_tb_meta sp = sx_tb_meta x \<and> ms_partition_col sp = sx_partition_col x \<and>
     k \<le> length cs \<and> pending = drop k cs \<and>
     distinct (map ct_id running @ map fst fin) \<and> set (map ct_id running @ map fst fin) = {1..k} \<and>
     list_all (task_ok x sql_le sql_range cs) running \<and>
     list_all (\<lambda>(i, v). v = last_val x (rows_of x sql_le sql_range (cs ! (i - 1)))) fin \<and>
     checkpoint_ok fin sp \<and> base_ok e x sql_le sql_range b0 cs k running base"

definition snap_inv ::
  "ext \<Rightarrow> snapshot_extractor \<Rightarrow> string \<Rightarrow> string \<Rightarrow> (col_value \<Rightarrow> col_value \<Rightarrow> bool) \<Rightarrow> col_value list \<Rightarrow> col_value \<Rightarrow> base_extractor \<Rightarrow>
   snapshot_chunk list \<Rightarrow> nat \<Rightarrow> (nat, col_value) hash_map \<Rightarrow> parallel_state \<Rightarrow> bool" where
  "snap_inv e x sql_le sql_range le vals a b0 cs k fin st \<longleftrightarrow>
     snap_core e x sql_le sql_range le vals a b0 cs k fin (ps_splitter st) (ps_pending st) (ps_running st) (ps_base st)"

lemma snap_coreD:
  assumes "snap_core e x sql_le sql_range le vals a b0 cs k fin sp pending running base"
  shows "splits e (sx_conn x) le vals sp" "\<exists>b. cut_upto le vals a sp cs b"
    "ms_tb_meta sp = sx_tb_meta x" "ms_partition_col sp = sx_partition_col x" "k \<le> length cs" "pending = drop k cs"
    "distinct (map ct_id running @ map fst fin)" "set (map ct_id running @ map fst fin) = {1..k}"
    "list_all (task_ok x sql_le sql_range cs) running"
    "list_all (\<lambda>(i, v). v = last_val x (rows_of x sql_le sql_range (cs ! (i - 1)))) fin"
    "checkpoint_ok fin sp" "base_ok e x sql_le sql_range b0 cs k running base"
  using assms unfolding snap_core_def by blast+

lemmas snap_invD = snap_coreD[OF iffD1[OF snap_inv_def]]

lemma left_items_update:
  assumes "i < length ts"
  shows "left_items e x rt (ts[i := t]) + mset (map (item_of e x rt) (ct_left (ts ! i))) =
    left_items e x rt ts + mset (map (item_of e x rt) (ct_left t))"
  using assms
proof (induction ts arbitrary: i)
  case (Cons u ts)
  then show ?case by (cases i) (auto simp: left_items_def ac_simps)
qed simp

lemma snoc_split:
  assumes "xs @ [y] = pre @ z # post"
  shows "(pre = xs \<and> z = y) \<or> (\<exists>post'. xs = pre @ z # post')"
  using assms by (cases post rule: rev_cases) auto

lemma sent_ok_push:
  assumes "sent_ok e x sl sr rt cs new" "\<not> is_commit (it_dt_data it)"
  shows "sent_ok e x sl sr rt cs (new @ [it])"
  unfolding sent_ok_def
proof (intro allI impI)
  fix pre it' post
  assume eq: "new @ [it] = pre @ it' # post" and c: "is_commit (it_dt_data it')"
  from snoc_split[OF eq] c assms(2) obtain post' where "new = pre @ it' # post'" by auto
  then show "\<exists>j. 1 \<le> j \<and> j \<le> length cs \<and> it_position it' = build_position_for_partition e (my_basic (sx_tb_meta x)) Mysql (sx_partition_col x)
      (last_val x (rows_of x sl sr (cs ! (j - 1)))) \<and>
    mset (map (item_of e x rt) (concat (map (rows_of x sl sr) (take j cs)))) \<subseteq># mset pre"
    using assms(1) c unfolding sent_ok_def by blast
qed

lemma chain_end: "chunk_chain le a cs b \<Longrightarrow> c \<in> set cs \<Longrightarrow> snd (chunk_range c) \<noteq> NoneV"
  by (induction cs arbitrary: a) auto

lemma snap_inv_chunk:
  assumes "snap_inv e x sl sr le vals a b0 cs k fin st" "c \<in> set cs"
  shows "snd (chunk_range c) \<noteq> NoneV"
  using assms chain_end unfolding snap_inv_def snap_core_def cut_upto_def by blast

lemma rows_of_table:
  assumes "chunk_answers e x sl sr le vals tbl" "snd (chunk_range c) \<noteq> NoneV" "r \<in> set (rows_of x sl sr c)"
  shows "r \<in> set tbl" "map_of r (sx_partition_col x) = Some (pval x r)" "pval x r \<noteq> NoneV"
    "\<exists>rd. from_mysql_row e (sx_tb_meta x) (sx_ignore_cols x) r = Inr rd"
proof -
  from rows_of_spec[OF assms(1,2)] have "mset (rows_of x sl sr c) = mset (filter (\<lambda>r. in_chunk le (pval x r) c) tbl)"
    by (simp add: selects_def)
  from mset_eq_setD[OF this] assms(3) show t: "r \<in> set tbl" by auto
  with assms(1) show "pval x r \<noteq> NoneV" "\<exists>rd. from_mysql_row e (sx_tb_meta x) (sx_ignore_cols x) r = Inr rd"
    by (auto simp: chunk_answers_def list_all_iff)
  then show "map_of r (sx_partition_col x) = Some (pval x r)" by (auto simp: pval_def split: option.splits)
qed

lemma snap_task_chunk:
  assumes "snap_inv e x sl sr le vals a b0 cs k fin st" "t \<in> set (ps_running st)"
  shows "1 \<le> ct_id t \<and> ct_id t \<le> k \<and> cs ! (ct_id t - 1) \<in> set cs"
proof -
  have "ct_id t \<in> {1..k}" "k \<le> length cs" using assms unfolding snap_inv_def snap_core_def by auto
  then show ?thesis by auto
qed

lemma snap_push:
  assumes src: "chunk_answers e x sl sr le vals tbl"
    and inv: "snap_inv e x sl sr le vals a b0 cs k fin st"
    and step: "push_row_step e x i st = Some st'"
  shows "snap_inv e x sl sr le vals a b0 cs k fin st' \<and> ps_splitter st' = ps_splitter st \<and> ps_pending st' = ps_pending st \<and>
    (\<exists>rows row. ct_left (ps_running st ! i) = row # rows \<and> i < length (ps_running st) \<and>
       map (\<lambda>t. length (ct_left t)) (ps_running st') = (map (\<lambda>t. length (ct_left t)) (ps_running st))[i := length rows])"
proof -
  let ?t = "ps_running st ! i" and ?rt = "be_router b0"
  from step have i: "i < length (ps_running st)" by (simp add: push_row_step_def split: if_splits)
  then have t: "?t \<in> set (ps_running st)" by simp
  from inv t have ok: "task_ok x sl sr cs ?t" by (auto simp: snap_inv_def snap_core_def list_all_iff)
  note c = snap_task_chunk[OF inv t]
  from ok obtain pushed where p: "rows_of x sl sr (cs ! (ct_id ?t - 1)) = pushed @ ct_left ?t" "ct_failed ?t = None"
    by (auto simp: task_ok_def)
  from step i obtain row rows where left: "ct_left ?t = row # rows"
    by (auto simp: push_row_step_def task_push_def split: list.splits option.splits)
  have row: "row \<in> set (rows_of x sl sr (cs ! (ct_id ?t - 1)))" unfolding p(1) left by simp
  note facts = rows_of_table[OF src snap_inv_chunk[OF inv] row]
  from facts(4) c obtain rd where rd: "from_mysql_row e (sx_tb_meta x) (sx_ignore_cols x) row = Inr rd" by blast
  let ?t' = "?t\<lparr>ct_left := rows, ct_last := pval x row\<rparr>"
  have st': "st' = st\<lparr>ps_running := (ps_running st)[i := ?t'], ps_base := sub_push_row rd PosNone (ps_base st)\<rparr>"
    using step i left p(2) facts(2) c rd by (simp add: push_row_step_def task_push_def)
  have "task_ok x sl sr cs ?t'"
    using p left by (auto simp: task_ok_def last_val_def intro!: exI[of _ "pushed @ [row]"])
  then have tasks: "list_all (task_ok x sl sr cs) ((ps_running st)[i := ?t'])"
    using inv by (auto simp: snap_inv_def snap_core_def list_all_iff dest: subsetD[OF set_update_subset_insert])
  have ids: "map ct_id ((ps_running st)[i := ?t']) = map ct_id (ps_running st)"
    using i by (simp add: map_update list_update_same_conv)
  from inv obtain new where new: "be_router (ps_base st) = ?rt" "be_data_marker (ps_base st) = None"
    "tf_started (be_time_filter (ps_base st))" "be_buffer (ps_base st) = be_buffer b0 @ new" "sent_ok e x sl sr ?rt cs new"
    "mset (row_items new) + left_items e x ?rt (ps_running st) =
       mset (map (item_of e x ?rt) (concat (map (rows_of x sl sr) (take k cs))))"
    unfolding snap_inv_def snap_core_def base_ok_def by blast
  let ?it = "item_of e x ?rt row"
  have it: "be_buffer (sub_push_row rd PosNone (ps_base st)) = be_buffer b0 @ (new @ [?it])"
    by (simp add: sub_push_row_def new(1,4) item_of_def rd)
  have nc: "\<not> is_commit (it_dt_data ?it)" by (simp add: item_of_def rd is_commit_def)
  have one: "left_items e x ?rt (ps_running st) = left_items e x ?rt ((ps_running st)[i := ?t']) + {#?it#}"
    using left_items_update[OF i, of e x ?rt ?t'] left by simp
  have "mset (row_items (new @ [?it])) + left_items e x ?rt ((ps_running st)[i := ?t']) =
      mset (map (item_of e x ?rt) (concat (map (rows_of x sl sr) (take k cs))))"
    using new(6) nc unfolding one by (simp add: row_items_def ac_simps)
  then have "base_ok e x sl sr b0 cs k ((ps_running st)[i := ?t']) (sub_push_row rd PosNone (ps_base st))"
    using new(1-3) it sent_ok_push[OF new(5) nc] unfolding base_ok_def by (auto simp: sub_push_row_def)
  with inv tasks ids have "snap_inv e x sl sr le vals a b0 cs k fin st'"
    unfolding snap_inv_def snap_core_def st' by simp
  then show ?thesis using left i by (simp add: st' map_update)
qed

lemma splits_checkpoint [simp]:
  "splits e conn le vals (s\<lparr>ms_checkpoint_id := i, ms_checkpoint_map := m\<rparr>) = splits e conn le vals s"
  using source_answers_cong[of "s\<lparr>ms_checkpoint_id := i, ms_checkpoint_map := m\<rparr>" s conn le vals]
  by (simp add: splits_def)

lemma cut_upto_checkpoint [simp]:
  "cut_upto le vals a (s\<lparr>ms_checkpoint_id := i, ms_checkpoint_map := m\<rparr>) cs b = cut_upto le vals a s cs b"
  by (simp add: cut_upto_def split_done_def split_start_def)

lemma items_of_take:
  assumes "k \<le> length cs"
  shows "mset (map f (concat (map g (take k cs)))) = (\<Sum>j\<in>{1..k}. mset (map f (g (cs ! (j - 1)))))"
  using assms
proof (induction k)
  case (Suc k)
  then have "take (Suc k) cs = take k cs @ [cs ! k]" by (simp add: take_Suc_conv_app_nth)
  with Suc show ?case by (simp add: sum.nat_ivl_Suc')
qed simp

lemma sum_over_ids:
  fixes f :: "nat \<Rightarrow> 'b multiset"
  assumes "distinct (map g xs)"
  shows "sum f (set (map g xs)) = sum_list (map (\<lambda>y. f (g y)) xs)"
  using sum.distinct_set_conv_list[OF assms, of f] by (simp add: comp_def)

lemma sum_list_subseteq:
  fixes f :: "'a \<Rightarrow> 'b multiset"
  assumes "\<And>y. y \<in> set ys \<Longrightarrow> f y \<subseteq># g y"
  shows "sum_list (map f ys) \<subseteq># sum_list (map g ys)"
  using assms by (induction ys) (auto intro: subset_mset.add_mono)

lemma mset_rest:
  fixes A :: "'b multiset"
  assumes "A \<subseteq># B" "N + A = B + F"
  shows "F \<subseteq># N"
proof -
  from assms(1) obtain C where "B = A + C" by (auto simp: subset_mset.le_iff_add)
  with assms(2) have "N = C + F" by simp
  then show ?thesis by simp
qed

text \<open>The rows of the finished chunks are in the queue.\<close>

lemma finished_rows_pushed:
  assumes inv: "snap_inv e x sl sr le vals a b0 cs k fin st"
    and new: "mset (row_items new) + left_items e x rt (ps_running st) =
       mset (map (item_of e x rt) (concat (map (rows_of x sl sr) (take k cs))))"
    and j: "j \<le> length cs" "{1..j} \<subseteq> set (map fst fin)"
  shows "mset (map (item_of e x rt) (concat (map (rows_of x sl sr) (take j cs)))) \<subseteq># mset new"
proof -
  let ?R = "\<lambda>j. mset (map (item_of e x rt) (rows_of x sl sr (cs ! (j - 1))))"
  have ids: "distinct (map ct_id (ps_running st))" "set (map ct_id (ps_running st)) \<inter> set (map fst fin) = {}"
    "set (map ct_id (ps_running st)) \<union> set (map fst fin) = {1..k}" "k \<le> length cs"
    using inv unfolding snap_inv_def snap_core_def by auto
  have "left_items e x rt (ps_running st) \<subseteq># (\<Sum>i\<in>set (map ct_id (ps_running st)). ?R i)"
  proof -
    have "mset (map (item_of e x rt) (ct_left t)) \<subseteq># ?R (ct_id t)" if "t \<in> set (ps_running st)" for t
      using inv that by (auto simp: snap_inv_def snap_core_def list_all_iff task_ok_def)
    then have "left_items e x rt (ps_running st) \<subseteq># sum_list (map (\<lambda>t. ?R (ct_id t)) (ps_running st))"
      unfolding left_items_def by (rule sum_list_subseteq)
    then show ?thesis unfolding sum_over_ids[OF ids(1)] .
  qed
  moreover have "mset (row_items new) + left_items e x rt (ps_running st) =
      (\<Sum>i\<in>set (map ct_id (ps_running st)). ?R i) + (\<Sum>i\<in>set (map fst fin). ?R i)"
    unfolding new items_of_take[OF ids(4)] ids(3)[symmetric] by (rule sum.union_disjoint[OF _ _ ids(2)]) simp_all
  ultimately have "(\<Sum>i\<in>set (map fst fin). ?R i) \<subseteq># mset (row_items new)"
    by (rule mset_rest)
  moreover have "(\<Sum>i\<in>{1..j}. ?R i) \<subseteq># (\<Sum>i\<in>set (map fst fin). ?R i)"
    using sum.subset_diff[OF j(2), of ?R] by simp
  moreover have "mset (row_items new) \<subseteq># mset new" by (simp add: row_items_def)
  ultimately show ?thesis unfolding items_of_take[OF j(1)] by (meson subset_mset.order_trans)
qed

lemma sent_ok_mono:
  assumes "sent_ok e x sl sr rt cs new"
  shows "sent_ok e x sl sr rt (cs @ cs2) new"
  unfolding sent_ok_def
proof (intro allI impI)
  fix pre it post
  assume "new = pre @ it # post" "is_commit (it_dt_data it)"
  with assms obtain j where j: "1 \<le> j" "j \<le> length cs"
    "it_position it = build_position_for_partition e (my_basic (sx_tb_meta x)) Mysql (sx_partition_col x)
      (last_val x (rows_of x sl sr (cs ! (j - 1))))"
    "mset (map (item_of e x rt) (concat (map (rows_of x sl sr) (take j cs)))) \<subseteq># mset pre"
    unfolding sent_ok_def by blast
  then show "\<exists>j. 1 \<le> j \<and> j \<le> length (cs @ cs2) \<and>
      it_position it = build_position_for_partition e (my_basic (sx_tb_meta x)) Mysql (sx_partition_col x)
        (last_val x (rows_of x sl sr ((cs @ cs2) ! (j - 1)))) \<and>
      mset (map (item_of e x rt) (concat (map (rows_of x sl sr) (take j (cs @ cs2))))) \<subseteq># mset pre"
    by (intro exI[of _ j]) (auto simp: nth_append)
qed

lemma sent_ok_commit:
  assumes "sent_ok e x sl sr rt cs new" "1 \<le> j" "j \<le> length cs"
    and "pos = build_position_for_partition e (my_basic (sx_tb_meta x)) Mysql (sx_partition_col x)
      (last_val x (rows_of x sl sr (cs ! (j - 1))))"
    and "mset (map (item_of e x rt) (concat (map (rows_of x sl sr) (take j cs)))) \<subseteq># mset new"
  shows "sent_ok e x sl sr rt cs (new @ [\<lparr>it_dt_data = d, it_position = pos, it_data_origin_node = node\<rparr>])"
  unfolding sent_ok_def
proof (intro allI impI)
  fix pre it post
  let ?it = "\<lparr>it_dt_data = d, it_position = pos, it_data_origin_node = node\<rparr>"
  assume eq: "new @ [?it] = pre @ it # post" and c: "is_commit (it_dt_data it)"
  show "\<exists>j. 1 \<le> j \<and> j \<le> length cs \<and> it_position it = build_position_for_partition e (my_basic (sx_tb_meta x)) Mysql (sx_partition_col x)
      (last_val x (rows_of x sl sr (cs ! (j - 1)))) \<and>
    mset (map (item_of e x rt) (concat (map (rows_of x sl sr) (take j cs)))) \<subseteq># mset pre"
    using snoc_split[OF eq]
  proof
    assume "pre = new \<and> it = ?it"
    with assms(2-5) show ?thesis by (intro exI[of _ j]) simp
  next
    assume "\<exists>post'. new = pre @ it # post'"
    then show ?thesis using assms(1) c unfolding sent_ok_def by blast
  qed
qed

lemma push_commit:
  assumes "be_data_marker b = None" "tf_started (be_time_filter b)"
  shows "be_buffer (send_checkpoint_position e lossy pos b) =
      be_buffer b @ [\<lparr>it_dt_data = DCommit [], it_position = pos, it_data_origin_node = []\<rparr>] \<and>
    be_router (send_checkpoint_position e lossy pos b) = be_router b \<and>
    be_data_marker (send_checkpoint_position e lossy pos b) = None \<and>
    tf_started (be_time_filter (send_checkpoint_position e lossy pos b))"
  using assms by (simp add: send_checkpoint_position_def push_defs)

lemma left_items_remove:
  assumes "i < length ts"
  shows "left_items e x rt ts =
    left_items e x rt (take i ts @ drop (Suc i) ts) + mset (map (item_of e x rt) (ct_left (ts ! i)))"
  by (subst id_take_nth_drop[OF assms]) (simp add: left_items_def ac_simps)

text \<open>A task that ended is joined: its chunk counts as finished, and maybe a checkpoint is sent.\<close>

lemma snap_finish:
  assumes inv: "snap_inv e x sl sr le vals a b0 cs k fin st"
    and t: "i < length (ps_running st)" "t = ps_running st ! i" "ct_left t = []"
    and pos: "get_next_checkpoint_position e (ct_id t) (ct_last t) (ps_splitter st) = (pos, sp)"
    and b: "b = (case pos of Some p \<Rightarrow> send_checkpoint_position e lossy p (ps_base st) | None \<Rightarrow> ps_base st)"
  shows "snap_inv e x sl sr le vals a b0 cs k ((ct_id t, ct_last t) # fin)
    (st\<lparr>ps_splitter := sp, ps_running := take i (ps_running st) @ drop (Suc i) (ps_running st), ps_base := b\<rparr>)"
proof -
  let ?others = "take i (ps_running st) @ drop (Suc i) (ps_running st)" and ?fin = "(ct_id t, ct_last t) # fin"
  let ?rt = "be_router b0" and ?sp = "ps_splitter st"
  have tm: "t \<in> set (ps_running st)" using t by simp
  note c = snap_task_chunk[OF inv tm]
  have perm: "mset (ps_running st) = mset (t # ?others)"
    by (subst id_take_nth_drop[OF t(1)]) (simp add: t(2))
  have ids0: "distinct (map ct_id (ps_running st) @ map fst fin)" "set (map ct_id (ps_running st) @ map fst fin) = {1..k}"
    and kc: "k \<le> length cs" using inv unfolding snap_inv_def snap_core_def by blast+
  have permids: "mset (map ct_id (ps_running st) @ map fst fin) = mset (map ct_id ?others @ map fst ?fin)"
    using arg_cong[OF perm, of "image_mset ct_id"] by simp
  have ids: "distinct (map ct_id ?others @ map fst ?fin)" "set (map ct_id ?others @ map fst ?fin) = {1..k}"
    using ids0 mset_eq_imp_distinct_iff[OF permids] mset_eq_setD[OF permids] by simp_all
  have fresh: "map_of fin (ct_id t) = None"
    using ids(1) by (simp add: map_of_eq_None_iff)
  have ck: "checkpoint_ok fin ?sp" and tasks: "list_all (task_ok x sl sr cs) (ps_running st)"
    and fins: "list_all (\<lambda>(i, v). v = last_val x (rows_of x sl sr (cs ! (i - 1)))) fin"
    and meta: "ms_tb_meta ?sp = sx_tb_meta x" "ms_partition_col ?sp = sx_partition_col x"
    using inv unfolding snap_inv_def snap_core_def by blast+
  from get_next_checkpoint_position_spec[OF ck fresh _ pos] c obtain i' m where
    ck': "checkpoint_ok ?fin sp" and sp: "sp = ?sp\<lparr>ms_checkpoint_id := i', ms_checkpoint_map := m\<rparr>"
    and posv: "pos = (if ms_checkpoint_id sp = ms_checkpoint_id ?sp then None
           else Some (build_position_for_partition e (my_basic (sx_tb_meta x)) Mysql (sx_partition_col x)
             (the (map_of ?fin (ms_checkpoint_id sp)))))" by (auto simp: meta)
  have "ct_last t = last_val x (rows_of x sl sr (cs ! (ct_id t - 1)))"
    using tasks tm t(3) by (auto simp: list_all_iff task_ok_def)
  with fins have fins': "list_all (\<lambda>(i, v). v = last_val x (rows_of x sl sr (cs ! (i - 1)))) ?fin" by simp
  have tasks': "list_all (task_ok x sl sr cs) ?others"
    using tasks by (auto simp: list_all_iff dest: in_set_takeD in_set_dropD)
  from inv obtain new where new: "be_router (ps_base st) = ?rt" "be_data_marker (ps_base st) = None"
    "tf_started (be_time_filter (ps_base st))" "be_buffer (ps_base st) = be_buffer b0 @ new" "sent_ok e x sl sr ?rt cs new"
    "mset (row_items new) + left_items e x ?rt (ps_running st) =
       mset (map (item_of e x ?rt) (concat (map (rows_of x sl sr) (take k cs))))"
    unfolding snap_inv_def snap_core_def base_ok_def by blast
  have rows: "mset (row_items new) + left_items e x ?rt ?others =
      mset (map (item_of e x ?rt) (concat (map (rows_of x sl sr) (take k cs))))"
    using new(6) unfolding left_items_remove[OF t(1)] using t(2,3) by simp
  have core: "snap_core e x sl sr le vals a b0 cs k ?fin sp (ps_pending st) ?others (ps_base st)"
  proof -
    from snap_invD(2)[OF inv] obtain bb where bb: "cut_upto le vals a ?sp cs bb" ..
    have "base_ok e x sl sr b0 cs k ?others (ps_base st)" unfolding base_ok_def using new(1-5) rows by blast
    moreover have "splits e (sx_conn x) le vals sp" "\<exists>b. cut_upto le vals a sp cs b" "ms_tb_meta sp = sx_tb_meta x"
      "ms_partition_col sp = sx_partition_col x"
      using snap_invD(1)[OF inv] bb meta by (auto simp: sp)
    ultimately show ?thesis
      unfolding snap_core_def using snap_invD(5,6)[OF inv] ids tasks' fins' ck' by blast
  qed
  have inv1: "snap_inv e x sl sr le vals a b0 cs k ?fin (st\<lparr>ps_splitter := sp, ps_running := ?others\<rparr>)"
    using core by (simp add: snap_inv_def)
  have "base_ok e x sl sr b0 cs k ?others b"
  proof (cases pos)
    case None
    then show ?thesis using snap_invD(12)[OF inv1] b by simp
  next
    case (Some p)
    let ?j = "ms_checkpoint_id sp"
    have j: "?j \<noteq> ms_checkpoint_id ?sp" "p = build_position_for_partition e (my_basic (sx_tb_meta x)) Mysql (sx_partition_col x)
        (the (map_of ?fin ?j))" using posv Some by (simp_all split: if_splits)
    have run: "map_of ?fin i \<noteq> None" if "1 \<le> i" "i \<le> ?j" for i using ck' that unfolding checkpoint_ok_def by blast
    have j1: "1 \<le> ?j"
    proof (rule ccontr)
      assume "\<not> 1 \<le> ?j"
      then have zero: "?j = 0" by simp
      have "map_of ?fin (Suc ?j) = None" using ck' unfolding checkpoint_ok_def by blast
      then have "map_of fin 1 = None" by (simp add: zero split: if_splits)
      moreover have "1 \<le> ms_checkpoint_id ?sp" using j(1) by (simp add: zero)
      ultimately show False using ck unfolding checkpoint_ok_def by blast
    qed
    have sub: "{1..?j} \<subseteq> set (map fst ?fin)"
    proof
      fix i assume "i \<in> {1..?j}"
      then have "map_of ?fin i \<noteq> None" using run[of i] by simp
      then show "i \<in> set (map fst ?fin)" unfolding map_of_eq_None_iff by simp
    qed
    then have "?j \<in> set (map fst ?fin)" using j1 by (meson atLeastAtMost_iff order_refl subsetD)
    then have "?j \<in> {1..k}" unfolding ids(2)[symmetric] set_append by blast
    then have jc: "?j \<le> length cs" using kc by simp
    obtain v where v: "map_of ?fin ?j = Some v" using run[OF j1 order_refl] by auto
    with fins' have "v = last_val x (rows_of x sl sr (cs ! (?j - 1)))"
      using map_of_SomeD[OF v] by (auto simp: list_all_iff)
    then have p: "p = build_position_for_partition e (my_basic (sx_tb_meta x)) Mysql (sx_partition_col x)
        (last_val x (rows_of x sl sr (cs ! (?j - 1))))" using j(2) v by simp
    have "mset (map (item_of e x ?rt) (concat (map (rows_of x sl sr) (take ?j cs)))) \<subseteq># mset new"
      by (rule finished_rows_pushed[OF inv1 _ jc sub]) (simp add: rows)
    note sent = sent_ok_commit[OF new(5) j1 jc p this]
    have "b = send_checkpoint_position e lossy p (ps_base st)" using b Some by simp
    with push_commit[OF new(2,3), of e lossy p] show ?thesis
      unfolding base_ok_def using new(1,4) rows sent[of "DCommit []" "[]"]
      by (intro conjI exI[of _ "new @ [\<lparr>it_dt_data = DCommit [], it_position = p, it_data_origin_node = []\<rparr>]"])
        (simp_all add: row_items_def is_commit_def)
  qed
  then have "snap_core e x sl sr le vals a b0 cs k ?fin sp (ps_pending st) ?others b"
    using core unfolding snap_core_def by blast
  then show ?thesis by (simp add: snap_inv_def)
qed

lemma snap_more:
  assumes core: "snap_core e x sl sr le vals a b0 cs k fin sp pending running base"
    and cut: "\<exists>b. cut_upto le vals a sp' (cs @ new) b" "splits e (sx_conn x) le vals sp'"
    and same: "ms_tb_meta sp' = ms_tb_meta sp" "ms_partition_col sp' = ms_partition_col sp"
      "ms_checkpoint_id sp' = ms_checkpoint_id sp" "ms_checkpoint_map sp' = ms_checkpoint_map sp"
  shows "snap_core e x sl sr le vals a b0 (cs @ new) k fin sp' (pending @ new) running base"
proof -
  note D = snap_coreD[OF core]
  have ids: "i - 1 < length cs" if "i \<in> set (map ct_id running @ map fst fin)" for i
  proof -
    have "i \<in> {1..k}" using that unfolding D(8) .
    then show ?thesis using D(5) by auto
  qed
  have nth: "(cs @ new) ! (i - 1) = cs ! (i - 1)" if "i \<in> set (map ct_id running @ map fst fin)" for i
    using ids[OF that] by (simp add: nth_append)
  have "task_ok x sl sr (cs @ new) t" if "t \<in> set running" for t
    using D(9) that nth[of "ct_id t"] unfolding task_ok_def list_all_iff by auto
  then have tasks: "list_all (task_ok x sl sr (cs @ new)) running" by (simp add: list_all_iff)
  have "v = last_val x (rows_of x sl sr ((cs @ new) ! (i - 1)))" if "(i, v) \<in> set fin" for i v
  proof -
    have i: "i \<in> set (map ct_id running @ map fst fin)" using that by force
    show ?thesis using D(10) that unfolding nth[OF i] by (auto simp: list_all_iff)
  qed
  then have fins: "list_all (\<lambda>(i, v). v = last_val x (rows_of x sl sr ((cs @ new) ! (i - 1)))) fin"
    by (auto simp: list_all_iff)
  have base: "base_ok e x sl sr b0 (cs @ new) k running base"
    using D(12) D(5) sent_ok_mono unfolding base_ok_def by (simp add: take_append) blast
  have "checkpoint_ok fin sp'" using D(11) by (simp add: checkpoint_ok_def same)
  with cut tasks fins base show ?thesis
    unfolding snap_core_def using D(3-8) by (simp add: same)
qed

lemma snap_spawn:
  assumes src: "chunk_answers e x sl sr le vals tbl"
    and core: "snap_core e x sl sr le vals a b0 cs k fin sp (c # rest) running base"
  shows "snap_core e x sl sr le vals a b0 cs (Suc k) fin sp rest
    (running @ [spawn_sub_parallel_extract (sx_conn x) sl sr c]) base \<and> snd (chunk_range c) \<noteq> NoneV"
proof -
  note D = snap_coreD[OF core]
  have k: "k < length cs" "cs ! k = c" "rest = drop (Suc k) cs"
    using D(6) by (metis length_Cons drop_eq_Nil not_le list.distinct(1), metis hd_drop_conv_nth drop_eq_Nil list.distinct(1) list.sel(1) not_le,
      metis drop_Suc list.sel(3) tl_drop)
  from D(2) obtain b where cut: "cut_upto le vals a sp cs b" ..
  then have "map chunk_id cs ! k = [1..<Suc (length cs)] ! k" by (simp add: cut_upto_def del: upt_Suc)
  then have id: "chunk_id c = Suc k" using k(1,2) by (simp del: upt_Suc)
  have fin: "snd (chunk_range c) \<noteq> NoneV" using cut chain_end[of le a cs b c] k(1,2) by (auto simp: cut_upto_def)
  let ?t = "\<lparr>ct_id = Suc k, ct_left = rows_of x sl sr c, ct_last = NoneV, ct_failed = None\<rparr>"
  have t: "spawn_sub_parallel_extract (sx_conn x) sl sr c = ?t" using spawn_spec[OF src fin] by (simp add: id)
  have "task_ok x sl sr cs ?t" by (simp add: task_ok_def k(2) last_val_def)
  then have tasks: "list_all (task_ok x sl sr cs) (running @ [?t])" using D(9) by simp
  have notin: "Suc k \<notin> set (map ct_id running @ map fst fin)" unfolding D(8) by simp
  have ids: "distinct (map ct_id (running @ [?t]) @ map fst fin)" "set (map ct_id (running @ [?t]) @ map fst fin) = {1..Suc k}"
  proof -
    show "distinct (map ct_id (running @ [?t]) @ map fst fin)" using D(7) notin by auto
    have "set (map ct_id (running @ [?t]) @ map fst fin) = insert (Suc k) (set (map ct_id running @ map fst fin))" by auto
    then show "set (map ct_id (running @ [?t]) @ map fst fin) = {1..Suc k}" unfolding D(8) by auto
  qed
  have "take (Suc k) cs = take k cs @ [c]" using k by (simp add: take_Suc_conv_app_nth)
  then have "base_ok e x sl sr b0 cs (Suc k) (running @ [?t]) base"
    using D(12) unfolding base_ok_def by (auto simp: left_items_def add.assoc[symmetric])
  with ids tasks k(1,3) D(1-4,10,11) have "snap_core e x sl sr le vals a b0 cs (Suc k) fin sp rest (running @ [?t]) base"
    unfolding snap_core_def by (intro conjI) (assumption | simp)+
  with t fin show ?thesis by simp
qed

end
