(* ===== verification/Sample_Source.thy ===== *)
theory Sample_Source
  imports Snapshot_Extractor Samples
begin

text \<open>
  A MySQL server that holds one table, with the integer column \<open>id\<close> in ascending order: what it answers
  to the statements of the snapshot extractor. The theorems on extractions are instantiated with it.
\<close>

definition id_int :: "col_value \<Rightarrow> int" where
  "id_int v = (case convert_into_integer_128 v of Inr i \<Rightarrow> i | Inl _ \<Rightarrow> 0)"

definition id_le :: "col_value \<Rightarrow> col_value \<Rightarrow> bool" where
  "id_le a b \<longleftrightarrow> id_int a \<le> id_int b"

definition my_sample_meta :: mysql_tb_meta where
  "my_sample_meta =
     \<lparr>my_basic = sample_meta ''s'' ''t'', my_col_type_map = [(''id'', MyInt False), (''v'', MyVarchar 10 ''utf8mb4'')]\<rparr>"

definition id_row :: "u32 \<Rightarrow> col_values" where
  "id_row i = [(''id'', Long i), (''v'', StringV ''x'')]"

definition sample_sql_le :: string where
  "sample_sql_le = ''SELECT `id`,`v` FROM `s`.`t` WHERE `id` <= ? ORDER BY `s`.`t`.`id` ASC''"

definition sample_sql_range :: string where
  "sample_sql_range = ''SELECT `id`,`v` FROM `s`.`t` WHERE `id` > ? AND `id` <= ? ORDER BY `s`.`t`.`id` ASC''"

definition last_or_null :: "col_value list \<Rightarrow> col_value" where
  "last_or_null vs = (if vs = [] then NoneV else last vs)"

definition sample_server :: "nat \<Rightarrow> u32 list \<Rightarrow> mysql_conn" where
  "sample_server n ids sql binds =
     (let vals = map Long ids; rows = map id_row ids; key = (\<lambda>r. case map_of r ''id'' of Some v \<Rightarrow> v | None \<Rightarrow> NoneV) in
      if sql = estimate_sql (sample_meta ''s'' ''t'')
      then Inr [[(''TABLE_ROWS'', UnsignedLongLong (of_nat (length ids)))]]
      else if sql = range_sql ''id'' (sample_meta ''s'' ''t'')
      then Inr [[(''min_value'', if vals = [] then NoneV else hd vals), (''max_value'', last_or_null vals)]]
      else
        (case binds of
           [] \<Rightarrow> Inr [[(''max_value'', last_or_null (take n vals))]]
         | [v] \<Rightarrow>
             if sql = sample_sql_le then Inr (filter (\<lambda>r. id_le (key r) v) rows)
             else Inr [[(''max_value'', last_or_null (take n (filter (\<lambda>w. \<not> id_le w v) vals)))]]
         | lo # hi # _ \<Rightarrow> Inr (filter (\<lambda>r. \<not> id_le (key r) lo \<and> id_le (key r) hi) rows)))"

definition sample_extractor :: "nat \<Rightarrow> u32 list \<Rightarrow> snapshot_extractor" where
  "sample_extractor n ids =
     \<lparr>sx_db = ''s'', sx_tb = ''t'', sx_conn = sample_server n ids, sx_tb_meta = my_sample_meta, sx_partition_col = ''id'',
      sx_ignore_cols = None, sx_where_condition = None, sx_batch_size = n, sx_parallel_size = 2, sx_sample_interval = 1\<rparr>"

definition sample_base :: base_extractor where
  "sample_base = sample_base_extractor\<lparr>be_data_marker := None\<rparr>"

definition ascending :: "u32 list \<Rightarrow> bool" where
  "ascending ids \<longleftrightarrow> sorted_wrt (\<lambda>a b. sint a < sint b) ids"

lemma id_le_order: "total_preorder id_le" "int_order id_le"
  by (auto simp: total_preorder_def int_order_def id_le_def id_int_def)

lemma id_int_Long [simp]: "id_int (Long i) = sint i"
  by (simp add: id_int_def)

lemma pval_id_row [simp]: "pval (sample_extractor n ids) (id_row i) = Long i"
  by (simp add: pval_def sample_extractor_def id_row_def)

lemma sample_extractor_simps [simp]:
  "sx_conn (sample_extractor n ids) = sample_server n ids" "sx_tb_meta (sample_extractor n ids) = my_sample_meta"
  "sx_partition_col (sample_extractor n ids) = ''id''" "sx_ignore_cols (sample_extractor n ids) = None"
  "sx_batch_size (sample_extractor n ids) = n" "sx_parallel_size (sample_extractor n ids) = 2"
  "sx_db (sample_extractor n ids) = ''s''" "sx_tb (sample_extractor n ids) = ''t''" "sx_sample_interval (sample_extractor n ids) = 1"
  by (simp_all add: sample_extractor_def)

lemma my_sample_meta_simps [simp]:
  "my_basic my_sample_meta = sample_meta ''s'' ''t''" "mysql_get_col_type my_sample_meta ''id'' = Inr (MyInt False)"
  by (simp_all add: my_sample_meta_def mysql_get_col_type_def)

lemma sample_statements:
  "snapshot_statement (sample_extractor n ids) [''id''] PredLessThanOrEqual 0 = Inr sample_sql_le"
  "snapshot_statement (sample_extractor n ids) [''id''] PredRange 0 = Inr sample_sql_range"
  by (code_simp)+

lemma sample_sql_distinct:
  "sample_sql_le \<noteq> estimate_sql m" "sample_sql_le \<noteq> range_sql c m" "sample_sql_range \<noteq> estimate_sql m"
  "sample_sql_range \<noteq> range_sql c m" "next_end_sql s \<noteq> estimate_sql m" "next_end_sql s \<noteq> range_sql c m"
  "next_end_sql s \<noteq> sample_sql_le" "range_sql c m \<noteq> estimate_sql m'"
  by (simp_all add: sample_sql_le_def sample_sql_range_def estimate_sql_def range_sql_def next_end_sql_def Let_def nl_def)

lemma is_max_last:
  assumes "sorted_wrt le vs" "total_preorder le"
  shows "is_max le vs (last_or_null vs)"
proof (cases vs rule: rev_cases)
  case (snoc ys y)
  then show ?thesis
    using assms total_preorderD(1)[OF assms(2), of y y] by (auto simp: is_max_def last_or_null_def list_all_iff sorted_wrt_append)
qed (simp add: is_max_def last_or_null_def)

lemma is_max_hd:
  assumes "sorted_wrt le vs" "total_preorder le"
  shows "is_max (\<lambda>x y. le y x) vs (if vs = [] then NoneV else hd vs)"
  using assms total_preorderD(1)[OF assms(2), of "hd vs" "hd vs"] by (cases vs) (auto simp: is_max_def list_all_iff)

lemma ascending_sorted: "ascending ids \<Longrightarrow> sorted_wrt id_le (map Long ids)"
  unfolding ascending_def by (induction ids) (auto simp: id_le_def)

lemma sample_next_end:
  assumes "ascending ids" "cur \<noteq> Some NoneV"
  shows "\<exists>x. sample_server n ids (next_end_sql s) (case cur of Some v \<Rightarrow> [v] | None \<Rightarrow> []) = Inr [[(''max_value'', x)]] \<and>
    next_end_answer id_le (map Long ids) n cur x"
proof -
  let ?vs = "filter (above id_le cur) (map Long ids)"
  have some: "above id_le (Some v) = (\<lambda>w. \<not> id_le w v)" for v by (rule ext) (simp add: above_def)
  have "sorted_wrt id_le ?vs" using ascending_sorted[OF assms(1)] by (rule sorted_wrt_filter)
  moreover from this have "is_max id_le (take n ?vs) (last_or_null (take n ?vs))"
    by (intro is_max_last sorted_wrt_take id_le_order(1))
  moreover have "sample_server n ids (next_end_sql s) (case cur of Some v \<Rightarrow> [v] | None \<Rightarrow> []) =
      Inr [[(''max_value'', last_or_null (take n ?vs))]]"
    by (cases cur) (simp_all add: sample_server_def sample_sql_distinct above_def[of _ None] some Let_def)
  ultimately show ?thesis unfolding next_end_answer_def by blast
qed

lemma sample_answers:
  assumes "ascending ids" "ms_tb_meta s = my_sample_meta" "ms_partition_col s = ''id''" "ms_batch_size s = n"
  shows "source_answers (sample_server n ids) id_le (map Long ids) s"
  unfolding source_answers_def
proof (intro conjI allI impI)
  show "\<exists>mn mx. sample_server n ids (range_sql (ms_partition_col s) (my_basic (ms_tb_meta s))) [] =
      Inr [[(''min_value'', mn), (''max_value'', mx)]] \<and>
    is_max id_le (map Long ids) mx \<and> is_max (\<lambda>x y. id_le y x) (map Long ids) mn"
    using is_max_last[OF ascending_sorted[OF assms(1)] id_le_order(1)] is_max_hd[OF ascending_sorted[OF assms(1)] id_le_order(1)]
    by (simp add: assms(2,3) sample_server_def sample_sql_distinct Let_def)
  show "\<exists>x. sample_server n ids (next_end_sql (s\<lparr>ms_current_col_value := cur\<rparr>)) (case cur of None \<Rightarrow> [] | Some v \<Rightarrow> [v]) =
      Inr [[(''max_value'', x)]] \<and> next_end_answer id_le (map Long ids) (ms_batch_size s) cur x"
    if "cur \<noteq> Some NoneV" for cur
    using sample_next_end[OF assms(1) that, of n "s\<lparr>ms_current_col_value := cur\<rparr>"] by (simp add: assms(4))
qed

lemma col_eq_Long: "is_same_value e (Long a) (Long b) \<longleftrightarrow> a = b"
  by (simp add: is_same_value_def col_eq_def)

text \<open>The server answers as the splitter expects, from the beginning and from the row \<open>v\<close> on.\<close>

lemma sample_splits:
  assumes "ascending ids" "1 < length ids" "0 < n" "n < length ids" "length ids < 2 ^ 64"
    and "resume = [] \<or> (\<exists>v. resume = [(''id'', Long v)])"
  shows "splits e (sample_server n ids) id_le (map Long ids)
    (ps_splitter (parallel_init (sample_extractor n ids) resume b))"
proof -
  let ?s = "ps_splitter (parallel_init (sample_extractor n ids) resume b)"
  have s: "ms_batch_size ?s = n" "ms_tb_meta ?s = my_sample_meta" "ms_partition_col ?s = ''id''" "ms_snapshot_range ?s = None"
    "ms_estimated_row_count ?s = 0" "ms_current_col_value ?s = (if resume = [] then None else map_of resume ''id'')"
    by (simp_all add: parallel_init_def mysql_splitter_init_def mysql_splitter_new_def)
  have cur: "ms_current_col_value ?s = None \<or> (\<exists>v. ms_current_col_value ?s = Some (Long v))" using assms(6) by (auto simp: s)
  have est: "estimate_row_count (sample_server n ids) (sample_meta ''s'' ''t'') = Inr (length ids)"
    using assms(5) by (simp add: estimate_row_count_def sample_server_def Let_def unsigned_of_nat take_bit_nat_eq_self)
  have range': "get_partition_col_range (sample_server n ids) ''id'' my_sample_meta = Inr (Long (hd ids), Long (last ids))"
    using assms(2) by (auto simp: get_partition_col_range_def sample_server_def sample_sql_distinct Let_def last_or_null_def hd_map last_map)
  have ne: "hd ids \<noteq> last ids"
  proof -
    obtain a xs z where "ids = a # xs @ [z]" using assms(2) by (cases ids; cases "tl ids" rule: rev_cases) auto
    then show ?thesis using assms(1) by (auto simp: ascending_def)
  qed
  have ints: "\<exists>i. convert_into_integer_128 v = Inr i \<and> i \<le> add_max v" if "ms_current_col_value ?s = Some v" for v
  proof -
    have "sint w \<le> i32_MAX" for w :: u32 using word_ranges(3)[of w] by (simp add: i32_MAX_def)
    then show ?thesis using cur that by auto
  qed
  show ?thesis
    unfolding splits_def
    by (intro conjI exI[of _ "MyInt False"] exI[of _ "length ids"])
      (use assms(3,4) cur ints ne sample_answers[OF assms(1) s(2,3,1)] in
        \<open>auto simp: s id_le_order est range' col_eq_Long list_all_iff\<close>)
qed

definition id_row_data :: "ext \<Rightarrow> u32 \<Rightarrow> row_data" where
  "id_row_data e i = build_insert_row_data e (id_row i) (sample_meta ''s'' ''t'')"

lemma from_id_row: "from_mysql_row e my_sample_meta None (id_row i) = Inr (id_row_data e i)"
  by (simp add: from_mysql_row_def id_row_data_def my_sample_meta_def) (simp add: id_row_def)

lemma sample_chunk_answers:
  assumes "ascending ids"
  shows "chunk_answers e (sample_extractor n ids) sample_sql_le sample_sql_range id_le (map Long ids) (map id_row ids)"
proof -
  let ?x = "sample_extractor n ids"
  have sorted: "sorted_wrt (\<lambda>r r'. id_le (pval ?x r) (pval ?x r')) (map id_row ids)"
    using assms unfolding ascending_def sorted_wrt_map by (rule sorted_wrt_mono_rel[rotated]) (simp add: id_le_def)
  have sel: "selects id_le ?x (map id_row ids) P (filter (\<lambda>r. P (pval ?x r)) (map id_row ids))" for P
    unfolding selects_def using sorted_wrt_filter[OF sorted] by simp
  have key: "(\<lambda>r. case map_of r ''id'' of None \<Rightarrow> NoneV | Some v \<Rightarrow> v) = pval ?x" by (rule ext) (simp add: pval_def)
  have "sample_server n ids sample_sql_le [hi] = Inr (filter (\<lambda>r. id_le (pval ?x r) hi) (map id_row ids))" for hi
    by (simp add: sample_server_def sample_sql_distinct Let_def key)
  moreover have "sample_server n ids sample_sql_range [lo, hi] =
      Inr (filter (\<lambda>r. \<not> id_le (pval ?x r) lo \<and> id_le (pval ?x r) hi) (map id_row ids))" for lo hi
    by (simp add: sample_server_def sample_sql_distinct Let_def key)
  ultimately show ?thesis unfolding chunk_answers_def using sel by (simp add: list_all_iff from_id_row) blast
qed

lemma sample_base_simps [simp]:
  "be_data_marker sample_base = None" "tf_started (be_time_filter sample_base)" "be_buffer sample_base = []"
  "be_router sample_base = sample_router"
  by (simp_all add: sample_base_def sample_base_extractor_def)

end
