(* ===== verification/Snapshot_Extraction.thy ===== *)
theory Snapshot_Extraction
  imports Sample_Source
begin

text \<open>
  The parallel extraction of \<open>Snapshot_Extractor\<close> as a transition system: it starts, never gets stuck,
  ends, and its checkpoints are safe.
\<close>

section \<open>Steps\<close>

definition snap_work :: "(col_value \<Rightarrow> col_value \<Rightarrow> bool) \<Rightarrow> col_value list \<Rightarrow> parallel_state \<Rightarrow> nat \<times> nat \<times> nat" where
  "snap_work le vals st =
     (split_weight le vals (ps_splitter st), length (ps_pending st),
      sum_list (map (\<lambda>t. Suc (length (ct_left t))) (ps_running st)))"

definition snap_less :: "((nat \<times> nat \<times> nat) \<times> nat \<times> nat \<times> nat) set" where
  "snap_less = less_than <*lex*> less_than <*lex*> less_than"

lemma wf_snap_less: "wf snap_less"
  by (simp add: snap_less_def wf_lex_prod)

lemma take_chunk_spec:
  assumes src: "chunk_answers e x sl sr le vals tbl"
    and core: "snap_core e x sl sr le vals a b0 cs k fin sp pending running base"
  shows "\<exists>chunk pending' sp' cs' k'. take_chunk e (sx_conn x) pending sp = Inr (chunk, pending', sp') \<and>
    snap_core e x sl sr le vals a b0 cs' k' fin sp' pending'
      (running @ (case chunk of Some c \<Rightarrow> [spawn_sub_parallel_extract (sx_conn x) sl sr c] | None \<Rightarrow> [])) base \<and>
    (if chunk = None then pending' = [] \<and> split_done sp' \<and> pending = [] \<and>
        (sp' = sp \<or> split_weight le vals sp' < split_weight le vals sp)
     else sp' = sp \<and> length pending' < length pending \<or> split_weight le vals sp' < split_weight le vals sp)"
proof (cases pending)
  case (Cons c rest)
  with snap_spawn[OF src core[unfolded Cons]] show ?thesis
    by (intro exI[of _ "Some c"] exI[of _ rest] exI[of _ sp] exI[of _ cs] exI[of _ "Suc k"]) (simp add: take_chunk_def)
next
  case Nil
  note D = snap_coreD[OF core]
  from D(2) obtain b where cut: "cut_upto le vals a sp cs b" ..
  from cut_more[OF D(1) cut] obtain new sp' where more: "get_next_chunks e (sx_conn x) sp = Inr (new, sp')"
    "splits e (sx_conn x) le vals sp'" "\<exists>b'. cut_upto le vals a sp' (cs @ new) b'" "new = [] \<longrightarrow> split_done sp'"
    "split_done sp \<longrightarrow> new = [] \<and> sp' = sp" "split_done sp \<or> split_weight le vals sp' < split_weight le vals sp"
    "ms_tb_meta sp' = ms_tb_meta sp" "ms_partition_col sp' = ms_partition_col sp"
    "ms_checkpoint_id sp' = ms_checkpoint_id sp" "ms_checkpoint_map sp' = ms_checkpoint_map sp" by blast
  have core': "snap_core e x sl sr le vals a b0 (cs @ new) k fin sp' new running base"
    using snap_more[OF core more(3,2,7-10)] by (simp add: Nil)
  show ?thesis
  proof (cases new)
    case n: Nil
    then show ?thesis using more(1,4,5,6) core' Nil
      by (intro exI[of _ None] exI[of _ "[]"] exI[of _ sp'] exI[of _ "cs @ new"] exI[of _ k]) (auto simp: take_chunk_def)
  next
    case n: (Cons c rest)
    with snap_spawn[OF src core'[unfolded n]] more(1,5,6) show ?thesis
      by (intro exI[of _ "Some c"] exI[of _ rest] exI[of _ sp'] exI[of _ "cs @ c # rest"] exI[of _ "Suc k"])
        (auto simp: take_chunk_def Nil)
  qed
qed

text \<open>The tasks are out of work only when the table is.\<close>

definition snap_idle :: "parallel_state \<Rightarrow> bool" where
  "snap_idle st \<longleftrightarrow> (ps_running st = [] \<longrightarrow> ps_pending st = [] \<and> split_done (ps_splitter st))"

definition snap_ok ::
  "ext \<Rightarrow> snapshot_extractor \<Rightarrow> string \<Rightarrow> string \<Rightarrow> (col_value \<Rightarrow> col_value \<Rightarrow> bool) \<Rightarrow> col_value list \<Rightarrow> col_value \<Rightarrow> base_extractor \<Rightarrow>
   parallel_state \<Rightarrow> bool" where
  "snap_ok e x sl sr le vals a b0 st \<longleftrightarrow> (\<exists>cs k fin. snap_inv e x sl sr le vals a b0 cs k fin st) \<and> snap_idle st"

lemma push_step_ok:
  assumes src: "chunk_answers e x sl sr le vals tbl" and ok: "snap_ok e x sl sr le vals a b0 st"
    and step: "push_row_step e x i st = Some st'"
  shows "snap_ok e x sl sr le vals a b0 st' \<and> (snap_work le vals st', snap_work le vals st) \<in> snap_less"
proof -
  from ok obtain cs k fin where inv: "snap_inv e x sl sr le vals a b0 cs k fin st" by (auto simp: snap_ok_def)
  from snap_push[OF src inv step] obtain rows row where
    p: "snap_inv e x sl sr le vals a b0 cs k fin st'" "ps_splitter st' = ps_splitter st" "ps_pending st' = ps_pending st"
      "ct_left (ps_running st ! i) = row # rows" "i < length (ps_running st)"
      "map (\<lambda>t. length (ct_left t)) (ps_running st') = (map (\<lambda>t. length (ct_left t)) (ps_running st))[i := length rows]"
    by blast
  have "length (ps_running st') = length (ps_running st)" using arg_cong[OF p(6), of length] by simp
  with p(5) have "ps_running st' \<noteq> []" by auto
  then have idle: "snap_idle st'" by (simp add: snap_idle_def)
  have "sum_list (map Suc ((map (\<lambda>t. length (ct_left t)) (ps_running st))[i := length rows])) + Suc (length (row # rows)) =
      sum_list (map Suc (map (\<lambda>t. length (ct_left t)) (ps_running st))) + Suc (length rows)"
    using sum_list_update_nat[of i "map (\<lambda>t. length (ct_left t)) (ps_running st)" Suc "length rows"] p(4,5) by simp
  then have "sum_list (map Suc (map (\<lambda>t. length (ct_left t)) (ps_running st'))) <
      sum_list (map Suc (map (\<lambda>t. length (ct_left t)) (ps_running st)))" unfolding p(6) by simp
  then have "(snap_work le vals st', snap_work le vals st) \<in> snap_less"
    unfolding snap_work_def snap_less_def p(2,3) by (simp add: comp_def)
  with p(1) idle show ?thesis by (auto simp: snap_ok_def)
qed

lemma split_weight_checkpoint [simp]:
  "split_weight le vals (s\<lparr>ms_checkpoint_id := i, ms_checkpoint_map := m\<rparr>) = split_weight le vals s"
  by (simp add: split_weight_def split_done_def)

lemma checkpoint_position_frame:
  assumes "get_next_checkpoint_position e i v s = (pos, s')"
  shows "\<exists>id' m. s' = s\<lparr>ms_checkpoint_id := id', ms_checkpoint_map := m\<rparr>"
proof (cases "i = ms_checkpoint_id s + 1")
  case True
  with assms show ?thesis by (auto simp: get_next_checkpoint_position_def Let_def split: prod.splits)
next
  case False
  with assms have "s' = s\<lparr>ms_checkpoint_id := ms_checkpoint_id s, ms_checkpoint_map := AList.update i v (ms_checkpoint_map s)\<rparr>"
    by (simp add: get_next_checkpoint_position_def Let_def)
  then show ?thesis by blast
qed

text \<open>A task that has ended is joined without an error.\<close>

lemma join_step_ok:
  assumes src: "chunk_answers e x sl sr le vals tbl" and ok: "snap_ok e x sl sr le vals a b0 st"
    and i: "i < length (ps_running st)" "ct_left (ps_running st ! i) = []"
  shows "\<exists>st'. join_step e lossy x sl sr i st = Some (Inr st') \<and> snap_ok e x sl sr le vals a b0 st' \<and>
    (snap_work le vals st', snap_work le vals st) \<in> snap_less"
proof -
  let ?t = "ps_running st ! i" and ?others = "take i (ps_running st) @ drop (Suc i) (ps_running st)"
  from ok obtain cs k fin where inv: "snap_inv e x sl sr le vals a b0 cs k fin st" by (auto simp: snap_ok_def)
  obtain pos sp where pos: "get_next_checkpoint_position e (ct_id ?t) (ct_last ?t) (ps_splitter st) = (pos, sp)"
    by fastforce
  define b where "b = (case pos of Some p \<Rightarrow> send_checkpoint_position e lossy p (ps_base st) | None \<Rightarrow> ps_base st)"
  have core: "snap_core e x sl sr le vals a b0 cs k ((ct_id ?t, ct_last ?t) # fin) sp (ps_pending st) ?others b"
    using snap_finish[OF inv i(1) refl i(2) pos b_def] by (simp add: snap_inv_def)
  from take_chunk_spec[OF src core] obtain chunk pending' sp' cs' k' where
    t: "take_chunk e (sx_conn x) (ps_pending st) sp = Inr (chunk, pending', sp')"
    and c: "snap_core e x sl sr le vals a b0 cs' k' ((ct_id ?t, ct_last ?t) # fin) sp' pending'
      (?others @ (case chunk of Some c \<Rightarrow> [spawn_sub_parallel_extract (sx_conn x) sl sr c] | None \<Rightarrow> [])) b"
    and w: "if chunk = None then pending' = [] \<and> split_done sp' \<and> ps_pending st = [] \<and>
        (sp' = sp \<or> split_weight le vals sp' < split_weight le vals sp)
     else sp' = sp \<and> length pending' < length (ps_pending st) \<or> split_weight le vals sp' < split_weight le vals sp"
    by blast
  let ?st' = "\<lparr>ps_splitter = sp', ps_pending = pending',
    ps_running = ?others @ (case chunk of Some c \<Rightarrow> [spawn_sub_parallel_extract (sx_conn x) sl sr c] | None \<Rightarrow> []), ps_base = b\<rparr>"
  have failed: "ct_failed ?t = None"
    using snap_invD(9)[OF inv] i(1) by (simp add: task_ok_def list_all_length)
  have j: "join_step e lossy x sl sr i st = Some (Inr ?st')"
    using i failed by (simp add: join_step_def pos t b_def Let_def)
  have weight: "split_weight le vals sp = split_weight le vals (ps_splitter st)"
    using checkpoint_position_frame[OF pos] by auto
  have sum: "sum_list (map (\<lambda>t. Suc (length (ct_left t))) ?others) <
      sum_list (map (\<lambda>t. Suc (length (ct_left t))) (ps_running st))"
    by (subst (3) id_take_nth_drop[OF i(1)]) simp
  have "snap_idle ?st'" using w by (auto simp: snap_idle_def split: option.splits)
  moreover have "snap_inv e x sl sr le vals a b0 cs' k' ((ct_id ?t, ct_last ?t) # fin) ?st'"
    using c by (simp add: snap_inv_def)
  moreover have "(snap_work le vals ?st', snap_work le vals st) \<in> snap_less"
  proof (cases chunk)
    case None
    then show ?thesis using w sum weight by (auto simp: snap_work_def snap_less_def)
  next
    case (Some c)
    then show ?thesis using w weight by (auto simp: snap_work_def snap_less_def)
  qed
  ultimately show ?thesis using j unfolding snap_ok_def by blast
qed

lemma fill_tasks_ok:
  assumes src: "chunk_answers e x sl sr le vals tbl" and inv: "snap_inv e x sl sr le vals a b0 cs k fin st"
  shows "\<exists>st' cs' k'. fill_tasks e x sl sr n st = Inr (False, st') \<and> snap_inv e x sl sr le vals a b0 cs' k' fin st' \<and>
    (0 < n \<or> ps_running st \<noteq> [] \<longrightarrow> snap_idle st')"
  using inv
proof (induction n arbitrary: st cs k)
  case 0
  then show ?case by (auto simp: snap_idle_def)
next
  case (Suc n)
  note D = snap_invD[OF Suc.prems]
  from D(2) obtain b where cut: "cut_upto le vals a (ps_splitter st) cs b" ..
  from cut_more[OF D(1) cut] obtain new sp where more: "get_next_chunks e (sx_conn x) (ps_splitter st) = Inr (new, sp)"
    "splits e (sx_conn x) le vals sp" "\<exists>b'. cut_upto le vals a sp (cs @ new) b'" "new = [] \<longrightarrow> split_done sp"
    "ms_tb_meta sp = ms_tb_meta (ps_splitter st)" "ms_partition_col sp = ms_partition_col (ps_splitter st)"
    "ms_checkpoint_id sp = ms_checkpoint_id (ps_splitter st)" "ms_checkpoint_map sp = ms_checkpoint_map (ps_splitter st)" by blast
  note core = snap_more[OF Suc.prems[unfolded snap_inv_def] more(3,2,5-8)]
  show ?case
  proof (cases "ps_pending st @ new")
    case Nil
    then have "snap_inv e x sl sr le vals a b0 (cs @ new) k fin (st\<lparr>ps_splitter := sp\<rparr>)"
      using core by (simp add: snap_inv_def)
    moreover have "snap_idle (st\<lparr>ps_splitter := sp\<rparr>)" using Nil more(4) by (simp add: snap_idle_def)
    ultimately show ?thesis using Nil by (auto simp: more(1))
  next
    case (Cons c rest)
    let ?st' = "st\<lparr>ps_splitter := sp, ps_pending := rest,
      ps_running := ps_running st @ [spawn_sub_parallel_extract (sx_conn x) sl sr c]\<rparr>"
    from snap_spawn[OF src core[unfolded Cons]] have inv': "snap_inv e x sl sr le vals a b0 (cs @ new) (Suc k) fin ?st'"
      and "snd (chunk_range c) \<noteq> NoneV" by (simp_all add: snap_inv_def)
    then have ne: "chunk_range c \<noteq> (NoneV, NoneV)" by auto
    have "fill_tasks e x sl sr (Suc n) st = fill_tasks e x sl sr n ?st'"
      using Cons ne by (simp add: more(1) Let_def)
    with Suc.IH[OF inv'] show ?thesis by simp
  qed
qed

lemma snap_init:
  assumes "splits e (sx_conn x) le vals (ps_splitter (parallel_init x resume b))"
    and "be_data_marker b = None" "tf_started (be_time_filter b)"
  shows "snap_inv e x sl sr le vals (split_start (ps_splitter (parallel_init x resume b))) b [] 0 [] (parallel_init x resume b)"
proof -
  let ?s = "ps_splitter (parallel_init x resume b)"
  have s: "chunk_id_generator (ms_basic ?s) = 0" "\<not> split_done ?s" "ms_checkpoint_id ?s = 0" "ms_checkpoint_map ?s = []"
    "ms_tb_meta ?s = sx_tb_meta x" "ms_partition_col ?s = sx_partition_col x"
    by (simp_all add: parallel_init_def mysql_splitter_init_def mysql_splitter_new_def base_splitter_new_def split_done_def
        has_no_next_chunks_def has_state_def NO_NEXT_CHUNKS_def)
  have "cut_upto le vals (split_start ?s) ?s [] (split_start ?s)" by (simp add: cut_upto_def s)
  moreover have "checkpoint_ok [] ?s" by (simp add: checkpoint_ok_def s)
  moreover have "base_ok e x sl sr b [] 0 [] b"
    unfolding base_ok_def using assms(2,3) by (simp add: left_items_def row_items_def sent_ok_def)
  moreover have "ps_pending (parallel_init x resume b) = []" "ps_running (parallel_init x resume b) = []"
    "ps_base (parallel_init x resume b) = b" by (simp_all add: parallel_init_def)
  ultimately show ?thesis unfolding snap_inv_def snap_core_def using assms(1) s(5,6) by auto
qed

section \<open>What the queue holds\<close>

lemma chunk_chain_take:
  assumes "chunk_chain le a cs b" "1 \<le> j" "j \<le> length cs"
  shows "chunk_chain le a (take j cs) (snd (chunk_range (cs ! (j - 1))))"
proof -
  have j: "j - 1 < length cs" "Suc (j - 1) = j" using assms(2,3) by auto
  have eq: "take (j - 1) cs @ cs ! (j - 1) # drop j cs = cs" using id_take_nth_drop[OF j(1)] j(2) by simp
  have "chunk_chain le a (take (j - 1) cs @ cs ! (j - 1) # drop j cs) b" unfolding eq by (rule assms(1))
  then obtain m where m: "chunk_chain le a (take (j - 1) cs) m" "chunk_chain le m (cs ! (j - 1) # drop j cs) b"
    unfolding chunk_chain_append by blast
  have "take j cs = take (j - 1) cs @ [cs ! (j - 1)]" using take_Suc_conv_app_nth[OF j(1)] j(2) by simp
  with m show ?thesis by (auto simp: chunk_chain_append)
qed

text \<open>At the end the queue has the rows of the table above the start, each once.\<close>

lemma snap_end_rows:
  assumes src: "chunk_answers e x sl sr le vals tbl" and ok: "snap_ok e x sl sr le vals a b0 st" and fin: "ps_running st = []"
  shows "\<exists>new. be_buffer (ps_base st) = be_buffer b0 @ new \<and>
    mset (row_items new) = mset (map (item_of e x (be_router b0)) (filter (\<lambda>r. above_start le a (pval x r)) tbl))"
proof -
  from ok obtain cs k fins where inv: "snap_inv e x sl sr le vals a b0 cs k fins st" and idle: "snap_idle st"
    by (auto simp: snap_ok_def)
  note D = snap_invD[OF inv]
  from idle fin have "ps_pending st = []" and done': "split_done (ps_splitter st)" by (simp_all add: snap_idle_def)
  with D(5,6) have k: "take k cs = cs" by simp
  from D(2) obtain b where b: "chunk_chain le a cs b" "list_all (\<lambda>v. above_start le a v \<longrightarrow> cs \<noteq> [] \<and> le v b) vals"
    using done' by (auto simp: cut_upto_def)
  from D(12) obtain new where new: "be_buffer (ps_base st) = be_buffer b0 @ new"
    "mset (row_items new) = mset (map (item_of e x (be_router b0)) (concat (map (rows_of x sl sr) cs)))"
    unfolding base_ok_def fin k by (auto simp: left_items_def)
  have pre: "total_preorder le" using D(1) by (simp add: splits_def)
  have vals: "pval x r \<in> set vals" if "r \<in> set tbl" for r using src that by (auto simp: chunk_answers_def list_all_iff)
  have "mset (concat (map (rows_of x sl sr) cs)) = mset (filter (\<lambda>r. above_start le a (pval x r)) tbl)"
  proof (cases "a \<noteq> NoneV \<or> cs \<noteq> []")
    case True
    have "filter (\<lambda>r. (a = NoneV \<or> \<not> le (pval x r) a) \<and> le (pval x r) b) tbl = filter (\<lambda>r. above_start le a (pval x r)) tbl"
      by (rule filter_cong[OF refl]) (use b(2) vals in \<open>auto simp: above_start_def list_all_iff\<close>)
    with chunk_rows_cover[OF src pre b(1) True] show ?thesis by simp
  next
    case False
    then have "filter (\<lambda>r. above_start le a (pval x r)) tbl = []"
      using b(2) vals by (auto simp: list_all_iff filter_empty_conv)
    with False show ?thesis by simp
  qed
  from arg_cong[OF this, of "image_mset (item_of e x (be_router b0))"] new show ?thesis by auto
qed

text \<open>A checkpoint at a value comes after every row up to the value.\<close>

lemma snap_commit_rows:
  assumes src: "chunk_answers e x sl sr le vals tbl" and ok: "snap_ok e x sl sr le vals a b0 st"
    and buf: "be_buffer (ps_base st) = be_buffer b0 @ before @ it # after'" "is_commit (it_dt_data it)"
  shows "\<exists>v. it_position it = build_position_for_partition e (my_basic (sx_tb_meta x)) Mysql (sx_partition_col x) v \<and>
    (v = NoneV \<or> (\<exists>r\<in>set tbl. v = pval x r) \<and>
     mset (map (item_of e x (be_router b0)) (filter (\<lambda>r. above_start le a (pval x r) \<and> le (pval x r) v) tbl)) \<subseteq># mset before)"
proof -
  from ok obtain cs k fins where inv: "snap_inv e x sl sr le vals a b0 cs k fins st" by (auto simp: snap_ok_def)
  note D = snap_invD[OF inv]
  have pre: "total_preorder le" using D(1) by (simp add: splits_def)
  from D(2) obtain b where chain: "chunk_chain le a cs b" by (auto simp: cut_upto_def)
  from D(12) buf(1) have "sent_ok e x sl sr (be_router b0) cs (before @ it # after')" by (auto simp: base_ok_def)
  with buf(2) obtain j where j: "1 \<le> j" "j \<le> length cs"
    "it_position it = build_position_for_partition e (my_basic (sx_tb_meta x)) Mysql (sx_partition_col x)
       (last_val x (rows_of x sl sr (cs ! (j - 1))))"
    "mset (map (item_of e x (be_router b0)) (concat (map (rows_of x sl sr) (take j cs)))) \<subseteq># mset before"
    unfolding sent_ok_def by blast
  let ?c = "cs ! (j - 1)"
  let ?v = "last_val x (rows_of x sl sr ?c)" and ?hi = "snd (chunk_range ?c)"
  have "?v = NoneV \<or> (\<exists>r\<in>set tbl. ?v = pval x r) \<and>
     mset (map (item_of e x (be_router b0)) (filter (\<lambda>r. above_start le a (pval x r) \<and> le (pval x r) ?v) tbl)) \<subseteq># mset before"
  proof (cases "rows_of x sl sr ?c = []")
    case False
    have "?hi \<noteq> NoneV" using chain_end[OF chain, of ?c] j(1,2) by simp
    from rows_of_spec[OF src this] have "mset (rows_of x sl sr ?c) = mset (filter (\<lambda>r. in_chunk le (pval x r) ?c) tbl)"
      by (simp add: selects_def)
    from mset_eq_setD[OF this] have sub: "set (rows_of x sl sr ?c) \<subseteq> {r \<in> set tbl. in_chunk le (pval x r) ?c}" by auto
    note r = subsetD[OF sub last_in_set[OF False]]
    have v: "?v = pval x (last (rows_of x sl sr ?c))" using False by (simp add: last_val_def)
    have "in_chunk le ?v ?c" using r unfolding v by simp
    then have up: "le ?v ?hi" by (simp add: in_chunk_def)
    have ne: "a \<noteq> NoneV \<or> take j cs \<noteq> []" using j(1,2) by auto
    have cover: "mset (concat (map (rows_of x sl sr) (take j cs))) =
        mset (filter (\<lambda>r. (a = NoneV \<or> \<not> le (pval x r) a) \<and> le (pval x r) ?hi) tbl)"
      using chunk_rows_cover[OF src pre chunk_chain_take[OF chain j(1,2)] ne] .
    have "filter_mset (\<lambda>r. above_start le a (pval x r) \<and> le (pval x r) ?v) (mset tbl) \<subseteq>#
        filter_mset (\<lambda>r. (a = NoneV \<or> \<not> le (pval x r) a) \<and> le (pval x r) ?hi) (mset tbl)"
      by (rule mset_subset_eqI) (use total_preorderD(2)[OF pre _ up] in \<open>simp add: above_start_def\<close>)
    then have "mset (filter (\<lambda>r. above_start le a (pval x r) \<and> le (pval x r) ?v) tbl) \<subseteq>#
        mset (concat (map (rows_of x sl sr) (take j cs)))" unfolding cover by simp
    from image_mset_subseteq_mono[OF this, of "item_of e x (be_router b0)"] j(4)
    have "mset (map (item_of e x (be_router b0)) (filter (\<lambda>r. above_start le a (pval x r) \<and> le (pval x r) ?v) tbl)) \<subseteq># mset before"
      using subset_mset.order_trans by fastforce
    moreover have "\<exists>r\<in>set tbl. ?v = pval x r" using r v by blast
    ultimately show ?thesis by blast
  qed (simp add: last_val_def)
  with j(3) show ?thesis by blast
qed

section \<open>The extraction as a transition system\<close>

text \<open>
  What an extraction of the table \<open>tbl\<close> relies on: the statements can be built, the source answers as
  \<open>splits\<close> and \<open>chunk_answers\<close> say, some tasks may run, and no data marker and no time filter is set, as
  always in a snapshot task.
\<close>

definition snapshot_source ::
  "ext \<Rightarrow> snapshot_extractor \<Rightarrow> col_values \<Rightarrow> base_extractor \<Rightarrow> string \<Rightarrow> string \<Rightarrow>
   (col_value \<Rightarrow> col_value \<Rightarrow> bool) \<Rightarrow> col_value list \<Rightarrow> col_values list \<Rightarrow> bool" where
  "snapshot_source e x resume b sl sr le vals tbl \<longleftrightarrow>
     snapshot_statement x [sx_partition_col x] PredLessThanOrEqual 0 = Inr sl \<and>
     snapshot_statement x [sx_partition_col x] PredRange 0 = Inr sr \<and>
     splits e (sx_conn x) le vals (ps_splitter (parallel_init x resume b)) \<and>
     chunk_answers e x sl sr le vals tbl \<and>
     0 < sx_parallel_size x \<and> be_data_marker b = None \<and> tf_started (be_time_filter b)"

lemma parallel_start_ok:
  assumes "snapshot_source e x resume b sl sr le vals tbl"
  shows "\<exists>st0. parallel_start e x resume b = Inr (sl, sr, False, st0) \<and>
    snap_ok e x sl sr le vals (split_start (ps_splitter (parallel_init x resume b))) b st0"
proof -
  let ?s = "ps_splitter (parallel_init x resume b)"
  from assms have f: "snapshot_statement x [sx_partition_col x] PredLessThanOrEqual 0 = Inr sl"
    "snapshot_statement x [sx_partition_col x] PredRange 0 = Inr sr"
    "splits e (sx_conn x) le vals ?s" "chunk_answers e x sl sr le vals tbl" "0 < sx_parallel_size x"
    "be_data_marker b = None" "tf_started (be_time_filter b)" unfolding snapshot_source_def by blast+
  from fill_tasks_ok[OF f(4) snap_init[OF f(3,6,7)], of "sx_parallel_size x"] f(5) obtain st0 cs k where
    st0: "fill_tasks e x sl sr (sx_parallel_size x) (parallel_init x resume b) = Inr (False, st0)"
      "snap_inv e x sl sr le vals (split_start ?s) b cs k [] st0" "snap_idle st0" by blast
  have "ms_tb_meta ?s = sx_tb_meta x" "ms_partition_col ?s = sx_partition_col x"
    by (simp_all add: parallel_init_def mysql_splitter_init_def mysql_splitter_new_def)
  with f(3) obtain t where "mysql_get_col_type (sx_tb_meta x) (sx_partition_col x) = Inr t"
    unfolding splits_def by auto
  then have "parallel_start e x resume b = Inr (sl, sr, False, st0)" by (simp add: parallel_start_def f(1,2) st0(1))
  with st0(2,3) show ?thesis unfolding snap_ok_def by blast
qed

lemma parallel_step_ok:
  assumes src: "chunk_answers e x sl sr le vals tbl" and ok: "snap_ok e x sl sr le vals a b0 st"
    and step: "parallel_step e lossy x sl sr st st'"
  shows "snap_ok e x sl sr le vals a b0 st' \<and> (snap_work le vals st', snap_work le vals st) \<in> snap_less"
proof -
  from step obtain i where "push_row_step e x i st = Some st' \<or> join_step e lossy x sl sr i st = Some (Inr st')"
    unfolding parallel_step_def by blast
  then show ?thesis
  proof
    assume "push_row_step e x i st = Some st'"
    then show ?thesis by (rule push_step_ok[OF src ok])
  next
    assume j: "join_step e lossy x sl sr i st = Some (Inr st')"
    then have i: "i < length (ps_running st)" "ct_left (ps_running st ! i) = []"
      by (simp_all add: join_step_def Let_def split: if_splits option.splits)
    from join_step_ok[OF src ok i, of lossy] j show ?thesis by auto
  qed
qed

lemma join_step_no_error:
  assumes src: "chunk_answers e x sl sr le vals tbl" and ok: "snap_ok e x sl sr le vals a b0 st"
  shows "join_step e lossy x sl sr i st \<noteq> Some (Inl err)"
proof
  assume j: "join_step e lossy x sl sr i st = Some (Inl err)"
  then have i: "i < length (ps_running st)" by (simp add: join_step_def split: if_splits)
  from ok obtain cs k fin where inv: "snap_inv e x sl sr le vals a b0 cs k fin st" by (auto simp: snap_ok_def)
  have "ct_failed (ps_running st ! i) = None"
    using snap_invD(9)[OF inv] i by (simp add: task_ok_def list_all_length)
  with j i have "ct_left (ps_running st ! i) = []" by (simp add: join_step_def Let_def split: if_splits)
  from join_step_ok[OF src ok i this, of lossy] j show False by auto
qed

lemma parallel_progress:
  assumes src: "chunk_answers e x sl sr le vals tbl" and ok: "snap_ok e x sl sr le vals a b0 st" and "ps_running st \<noteq> []"
  shows "\<exists>st'. parallel_step e lossy x sl sr st st'"
proof -
  have i: "0 < length (ps_running st)" using assms(3) by simp
  show ?thesis
  proof (cases "ct_left (ps_running st ! 0)")
    case Nil
    from join_step_ok[OF src ok i Nil, of lossy] show ?thesis unfolding parallel_step_def by blast
  next
    case (Cons row rows)
    from ok obtain cs k fin where inv: "snap_inv e x sl sr le vals a b0 cs k fin st" by (auto simp: snap_ok_def)
    have "ct_failed (ps_running st ! 0) = None"
      using snap_invD(9)[OF inv] i by (simp add: task_ok_def list_all_length)
    then have "\<exists>st'. push_row_step e x 0 st = Some st'" using i Cons by (simp add: push_row_step_def task_push_def)
    then show ?thesis unfolding parallel_step_def by blast
  qed
qed

text \<open>The invariant of the extraction of \<open>tbl\<close>, as the transition systems have it.\<close>

lemma parallel_invariant:
  assumes "snapshot_source e x resume b sl sr le vals tbl" "parallel_start e x resume b = Inr (sl', sr', ns, st0)"
    and "(parallel_step e lossy x sl sr)\<^sup>*\<^sup>* st0 st"
  shows "snap_ok e x sl sr le vals (split_start (ps_splitter (parallel_init x resume b))) b st"
proof -
  from parallel_start_ok[OF assms(1)] assms(2)
  have "snap_ok e x sl sr le vals (split_start (ps_splitter (parallel_init x resume b))) b st0" by auto
  from assms(3) this show ?thesis
    by (induction rule: rtranclp_induct) (use parallel_step_ok assms(1) in \<open>unfold snapshot_source_def, blast+\<close>)
qed

lemma parallel_wf:
  assumes "snapshot_source e x resume b sl sr le vals tbl" "parallel_start e x resume b = Inr (sl', sr', ns, st0)"
  shows "wf {(st', st). (parallel_step e lossy x sl sr)\<^sup>*\<^sup>* st0 st \<and> parallel_step e lossy x sl sr st st'}"
proof (rule wf_subset[OF wf_inv_image[OF wf_snap_less]])
  show "{(st', st). (parallel_step e lossy x sl sr)\<^sup>*\<^sup>* st0 st \<and> parallel_step e lossy x sl sr st st'} \<subseteq>
      inv_image snap_less (snap_work le vals)"
  proof
    fix p assume p: "p \<in> {(st', st). (parallel_step e lossy x sl sr)\<^sup>*\<^sup>* st0 st \<and> parallel_step e lossy x sl sr st st'}"
    then have "snap_ok e x sl sr le vals (split_start (ps_splitter (parallel_init x resume b))) b (snd p)"
      using parallel_invariant[OF assms] by auto
    with p assms(1) parallel_step_ok show "p \<in> inv_image snap_less (snap_work le vals)"
      by (cases p) (auto simp: snapshot_source_def in_inv_image)
  qed
qed

text \<open>
  C3: The parallel extraction of a table takes place: the first loop spawns its tasks, no run goes on
  forever, no task and no join fails, and as long as tasks run some step is possible. Whatever the
  interleaving of the tasks, when the last one is joined the rows in the queue are exactly the rows of the
  table above the value the extraction resumes from, each once.
\<close>

theorem snapshot_extracts_all:
  assumes "snapshot_source e x resume b sl sr le vals tbl"
  shows "\<exists>st0. parallel_start e x resume b = Inr (sl, sr, False, st0) \<and>
    wf {(st', st). (parallel_step e lossy x sl sr)\<^sup>*\<^sup>* st0 st \<and> parallel_step e lossy x sl sr st st'} \<and>
    (\<forall>st. (parallel_step e lossy x sl sr)\<^sup>*\<^sup>* st0 st \<longrightarrow>
      (\<forall>i err. join_step e lossy x sl sr i st \<noteq> Some (Inl err)) \<and>
      (if ps_running st \<noteq> [] then \<exists>st'. parallel_step e lossy x sl sr st st'
       else \<exists>new. be_buffer (ps_base st) = be_buffer b @ new \<and>
         mset (row_items new) = mset (map (item_of e x (be_router b))
           (filter (\<lambda>r. above_start le (split_start (ps_splitter (parallel_init x resume b))) (pval x r)) tbl))))"
proof -
  from parallel_start_ok[OF assms] obtain st0 where st0: "parallel_start e x resume b = Inr (sl, sr, False, st0)" by blast
  have src: "chunk_answers e x sl sr le vals tbl" using assms by (simp add: snapshot_source_def)
  show ?thesis
    using st0 parallel_wf[OF assms st0, of lossy] join_step_no_error[OF src parallel_invariant[OF assms st0]]
      parallel_progress[OF src parallel_invariant[OF assms st0]] snap_end_rows[OF src parallel_invariant[OF assms st0]]
    by (intro exI[of _ st0] conjI allI impI) auto
qed

lemma parallel_reaches_end:
  assumes "snapshot_source e x resume b sl sr le vals tbl" "parallel_start e x resume b = Inr (sl, sr, False, st0)"
  shows "\<exists>st. (parallel_step e lossy x sl sr)\<^sup>*\<^sup>* st0 st \<and> ps_running st = []"
proof (rule wf_reaches[OF parallel_wf[OF assms]])
  have src: "chunk_answers e x sl sr le vals tbl" using assms(1) by (simp add: snapshot_source_def)
  show "ps_running st = [] \<or> (\<exists>st'. parallel_step e lossy x sl sr st st')" if "(parallel_step e lossy x sl sr)\<^sup>*\<^sup>* st0 st" for st
    using parallel_progress[OF src parallel_invariant[OF assms that]] by blast
qed

lemma sample_source:
  assumes "ascending ids" "0 < n" "n < length ids" "length ids < 2 ^ 64" "resume = [] \<or> (\<exists>v. resume = [(''id'', Long v)])"
  shows "snapshot_source e (sample_extractor n ids) resume sample_base sample_sql_le sample_sql_range id_le (map Long ids) (map id_row ids)"
proof -
  have "1 < length ids" using assms(2,3) by simp
  from sample_splits[OF assms(1) this assms(2-5)] sample_chunk_answers[OF assms(1)] show ?thesis
    by (simp add: snapshot_source_def sample_statements)
qed

text \<open>Five rows, two of which an earlier run has extracted.\<close>

theorem snapshot_extracts_all_witness:
  "\<exists>st0. parallel_start sample_ext (sample_extractor 2 [1, 3, 4, 7, 8]) [(''id'', Long 3)] sample_base =
       Inr (sample_sql_le, sample_sql_range, False, st0) \<and>
     (\<exists>st. (parallel_step sample_ext (\<lambda>_. []) (sample_extractor 2 [1, 3, 4, 7, 8]) sample_sql_le sample_sql_range)\<^sup>*\<^sup>* st0 st \<and>
        ps_running st = [] \<and>
        (\<exists>new. be_buffer (ps_base st) = new \<and>
           mset (row_items new) = mset (map (item_of sample_ext (sample_extractor 2 [1, 3, 4, 7, 8]) sample_router) (map id_row [4, 7, 8]))))"
proof -
  let ?x = "sample_extractor 2 [1, 3, 4, 7, 8]" and ?r = "[(''id'', Long 3)]"
  let ?step = "parallel_step sample_ext (\<lambda>_. []) ?x sample_sql_le sample_sql_range"
  have src: "snapshot_source sample_ext ?x ?r sample_base sample_sql_le sample_sql_range id_le (map Long [1, 3, 4, 7, 8]) (map id_row [1, 3, 4, 7, 8])"
    by (rule sample_source) (auto simp: ascending_def)
  from snapshot_extracts_all[OF this, of "\<lambda>_. []"] obtain st0 where
    st0: "parallel_start sample_ext ?x ?r sample_base = Inr (sample_sql_le, sample_sql_range, False, st0)"
    and run: "\<And>st. ?step\<^sup>*\<^sup>* st0 st \<Longrightarrow> (if ps_running st \<noteq> [] then \<exists>st'. ?step st st'
       else \<exists>new. be_buffer (ps_base st) = be_buffer sample_base @ new \<and>
         mset (row_items new) = mset (map (item_of sample_ext ?x (be_router sample_base))
           (filter (\<lambda>r. above_start id_le (split_start (ps_splitter (parallel_init ?x ?r sample_base))) (pval ?x r))
             (map id_row [1, 3, 4, 7, 8]))))" by blast
  from parallel_reaches_end[OF src st0, of "\<lambda>_. []"] obtain st where st: "?step\<^sup>*\<^sup>* st0 st" "ps_running st = []" by blast
  have start: "split_start (ps_splitter (parallel_init ?x ?r sample_base)) = Long 3"
    by (simp add: parallel_init_def mysql_splitter_init_def mysql_splitter_new_def split_start_def)
  have rows: "filter (\<lambda>r. above_start id_le (Long 3) (pval ?x r)) (map id_row [1, 3, 4, 7, 8]) = map id_row [4, 7, 8]"
    by (simp add: above_start_def id_le_def)
  show ?thesis using st0 st run[OF st(1)] unfolding start rows by auto
qed

end
