(* ===== verification/Mysql_Convertor.thy ===== *)
theory Mysql_Convertor
  imports Rust_Std Db_Meta
begin

text \<open>
  MySQL values as column values: \<open>dt-common/src/meta/adaptor/mysql_col_value_convertor.rs\<close> and the
  times of \<open>dt-common/src/meta/time/dt_utc_time.rs\<close>.

  Library code is gathered in the record \<open>mysql_lib\<close>: the rendering of a timestamp by \<open>chrono\<close>, the
  reader of binary JSON of the binlog crate, \<open>hex::decode\<close>, and the parsing of floats. The typed reads
  of \<open>from_query\<close> are calls of the driver; the rows of a query are values already.
\<close>

unbundle bit_operations_syntax

section \<open>Times\<close>

record dt_naive_time =
  nt_is_negative :: bool
  nt_hour :: u32
  nt_minute :: u32
  nt_second :: u32
  nt_microsecond :: u32

definition naive_time_default :: dt_naive_time where
  "naive_time_default = \<lparr>nt_is_negative = False, nt_hour = 0, nt_minute = 0, nt_second = 0, nt_microsecond = 0\<rparr>"

definition pad_zeros :: "nat \<Rightarrow> string \<Rightarrow> string" where
  "pad_zeros w s = replicate (w - length s) (CHR ''0'') @ s"

definition naive_time_to_string :: "dt_naive_time \<Rightarrow> string" where
  "naive_time_to_string t =
     (let str = pad_zeros 2 (nat_to_string (unat (nt_hour t))) @ '':'' @ pad_zeros 2 (nat_to_string (unat (nt_minute t))) @
                '':'' @ pad_zeros 2 (nat_to_string (unat (nt_second t)));
          str = (if 0 < nt_microsecond t then str @ ''.'' @ pad_zeros 6 (nat_to_string (unat (nt_microsecond t))) else str)
      in if nt_is_negative t then ''-'' @ str else str)"

definition nth_part :: "string list \<Rightarrow> nat \<Rightarrow> string res" where
  "nth_part parts i = (if i < length parts then Inr (parts ! i) else Inl (Panic ''index out of bounds''))"

definition naive_time_from_str :: "string \<Rightarrow> dt_naive_time res" where
  "naive_time_from_str str =
     (let is_negative = (case str of c # _ \<Rightarrow> c = CHR ''-'' | [] \<Rightarrow> False);
          time_str = (if is_negative then tl str else str);
          err = Inl (Bail ''failed to parse str to DtUtcTime'');
          parts = split_char (CHR ''.'') time_str;
          part_0 = split_char (CHR '':'') (hd parts)
      in bind_res (nth_part part_0 0) (\<lambda>hour.
         bind_res (nth_part part_0 1) (\<lambda>minute.
         bind_res (nth_part part_0 2) (\<lambda>second.
           case (parse_unsigned 32 hour, parse_unsigned 32 minute, parse_unsigned 32 second) of
             (Some h, Some m, Some s) \<Rightarrow>
               let time = \<lparr>nt_is_negative = is_negative, nt_hour = of_nat h, nt_minute = of_nat m, nt_second = of_nat s,
                           nt_microsecond = 0\<rparr> in
               if 1 < length parts then
                 (case parse_unsigned 32 (parts ! 1 @ replicate (6 - length (parts ! 1)) (CHR ''0'')) of
                    Some ms \<Rightarrow> Inr (time\<lparr>nt_microsecond := of_nat ms\<rparr>)
                  | None \<Rightarrow> err)
               else Inr time
           | _ \<Rightarrow> err))))"

definition timestamp_micros :: "dt_naive_time \<Rightarrow> u64" where
  "timestamp_micros t =
     (let value = (ucast (nt_hour t) * 3600 + ucast (nt_minute t) * 60 + ucast (nt_second t)) * 1000000 + ucast (nt_microsecond t)
      in if nt_is_negative t then - value else value)"

section \<open>The binary encoding of times and dates\<close>

definition read_u8 :: "u8 list \<Rightarrow> (u8 \<times> u8 list) res" where
  "read_u8 buf = (case buf of b # rest \<Rightarrow> Inr (b, rest) | [] \<Rightarrow> Inl (Bail ''failed to fill whole buffer''))"

fun le_value :: "u8 list \<Rightarrow> nat" where
  "le_value [] = 0" |
  "le_value (b # bs) = unat b + 256 * le_value bs"

text \<open>\<open>read_uint::<LittleEndian>\<close> reads into a buffer of eight bytes.\<close>

definition read_uint :: "nat \<Rightarrow> u8 list \<Rightarrow> (nat \<times> u8 list) res" where
  "read_uint n buf =
     (if 8 < n then Inl (Panic ''range end index out of range for slice of length 8'')
      else if length buf < n then Inl (Bail ''failed to fill whole buffer'')
      else Inr (le_value (take n buf), drop n buf))"

text \<open>Subtraction of \<open>usize\<close> wraps.\<close>

definition usize_sub :: "nat \<Rightarrow> nat \<Rightarrow> nat" where
  "usize_sub a b = (a + 2 ^ 64 - b) mod 2 ^ 64"

definition parese_time_fields :: "u8 list \<Rightarrow> nat \<Rightarrow> (dt_naive_time \<times> u8 list) res" where
  "parese_time_fields cursor len =
     bind_res (read_u8 cursor) (\<lambda>(hour, c1).
     bind_res (read_u8 c1) (\<lambda>(minute, c2).
     bind_res (read_u8 c2) (\<lambda>(second, c3).
       let time = naive_time_default\<lparr>nt_hour := ucast hour, nt_minute := ucast minute, nt_second := ucast second\<rparr> in
       if 4 \<le> len then
         map_res (\<lambda>(microsecond, c4). (time\<lparr>nt_microsecond := of_nat microsecond\<rparr>, c4)) (read_uint (len - 3) c3)
       else Inr (time, c3))))"

definition parese_date_fields :: "u8 list \<Rightarrow> nat \<Rightarrow> (string \<times> u8 list) res" where
  "parese_date_fields cursor len =
     bind_res (if 2 \<le> len then read_uint 2 cursor else Inr (0, cursor)) (\<lambda>(year, c1).
     bind_res (if 3 \<le> len then read_u8 c1 else Inr (0, c1)) (\<lambda>(month, c2).
     bind_res (if 4 \<le> len then read_u8 c2 else Inr (0, c2)) (\<lambda>(day, c3).
       Inr (nat_to_string year @ ''-'' @ pad_zeros 2 (nat_to_string (unat month)) @ ''-'' @
            pad_zeros 2 (nat_to_string (unat day)), c3))))"

definition parse_time :: "u8 list \<Rightarrow> col_value res" where
  "parse_time buf =
     bind_res (read_u8 buf) (\<lambda>(length', c1).
       if length' = 0 then Inr (TimeV (naive_time_to_string naive_time_default))
       else
         bind_res (read_u8 c1) (\<lambda>(is_negative, c2).
         bind_res (read_uint 4 c2) (\<lambda>(day, c3).
         bind_res (parese_time_fields c3 (usize_sub (unat length') 5)) (\<lambda>(time, _).
           Inr (TimeV (naive_time_to_string
             (time\<lparr>nt_hour := nt_hour time + of_nat day * 24, nt_is_negative := is_negative \<noteq> 0\<rparr>)))))))"

definition parse_date :: "u8 list \<Rightarrow> col_value res" where
  "parse_date buf =
     bind_res (read_u8 buf) (\<lambda>(length', c1).
     bind_res (parese_date_fields c1 (unat length')) (\<lambda>(date, _). Inr (DateV date)))"

definition parse_date_time_fields :: "u8 list \<Rightarrow> (string \<times> u8 list) res" where
  "parse_date_time_fields buf =
     bind_res (read_u8 buf) (\<lambda>(length', c1).
     bind_res (parese_date_fields c1 (unat length')) (\<lambda>(date, c2).
     bind_res (parese_time_fields c2 (usize_sub (unat length') 4)) (\<lambda>(time, c3).
       Inr (date @ '' '' @ naive_time_to_string time, c3))))"

definition parse_datetime :: "u8 list \<Rightarrow> col_value res" where
  "parse_datetime buf = map_res (\<lambda>(datetime, _). DateTimeV datetime) (parse_date_time_fields buf)"

definition parse_timestamp :: "u8 list \<Rightarrow> col_value res" where
  "parse_timestamp buf = map_res (\<lambda>(datetime, _). TimestampV datetime) (parse_date_time_fields buf)"

section \<open>Values of the binlog\<close>

datatype column_value =
    CNone
  | CTiny u8
  | CShort u16
  | CLong u32
  | CLongLong u64
  | CFloat u32
  | CDouble u64
  | CDecimal string
  | CTime string
  | CDate string
  | CDateTime string
  | CTimestamp u64
  | CYear u16
  | CString "u8 list"
  | CBlob "u8 list"
  | CBit u64
  | CSet u64
  | CEnum u32
  | CJson "u8 list"

record mysql_lib =
  ml_utc_nanos :: "u64 \<Rightarrow> string"
  ml_json_binary :: "u8 list \<Rightarrow> string res"
  ml_hex_decode :: "string \<Rightarrow> u8 list res"
  ml_parse_f32 :: "string \<Rightarrow> u32 option"
  ml_parse_f64 :: "string \<Rightarrow> u64 option"

definition unknown_col_type_err :: "string \<Rightarrow> string" where
  "unknown_col_type_err name =
     ''unsupported column type: '' @ name @
     '', set extractor's unknown_col_type_policy=keep_raw to migrate it as raw bytes''"

function set_items_loop :: "(u64, string) hash_map \<Rightarrow> u64 \<Rightarrow> nat \<Rightarrow> string list" where
  "set_items_loop items v pos =
     (if v = 0 then []
      else
        let i = v AND 1;
            matched = (if i \<noteq> 0 then (case map_of items (push_bit pos i) of Some item \<Rightarrow> [item] | None \<Rightarrow> []) else [])
        in matched @ set_items_loop items (drop_bit 1 v) (pos + 1))"
  by auto
termination
proof (relation "measure (\<lambda>(items, v, pos). unat v)")
  fix items :: "(u64, string) hash_map" and v :: u64 and pos :: nat
  assume "v \<noteq> 0"
  then have "unat v \<noteq> 0" by (simp add: unsigned_eq_0_iff)
  then have "unat (drop_bit 1 v) < unat v" by (simp add: drop_bit_eq_div unat_div)
  then show "((items, drop_bit 1 v, pos + 1), items, v, pos) \<in> measure (\<lambda>(items, v, pos). unat v)" by simp
qed simp

declare set_items_loop.simps [simp del]

fun from_binlog_value :: "mysql_lib \<Rightarrow> mysql_col_type \<Rightarrow> column_value \<Rightarrow> col_value res" where
  "from_binlog_value lib t (CTiny v) = Inr (if t = MyTinyInt True then UnsignedTiny v else Tiny v)" |
  "from_binlog_value lib t (CShort v) = Inr (if t = MySmallInt True then UnsignedShort v else Short v)" |
  "from_binlog_value lib t (CLong v) =
     Inr (if t = MyMediumInt True then UnsignedLong (drop_bit 8 (push_bit 8 v))
          else if t = MyInt True then UnsignedLong v else Long v)" |
  "from_binlog_value lib t (CLongLong v) = Inr (if t = MyBigInt True then UnsignedLongLong v else LongLong v)" |
  "from_binlog_value lib t (CFloat v) = Inr (FloatV v)" |
  "from_binlog_value lib t (CDouble v) = Inr (DoubleV v)" |
  "from_binlog_value lib t (CDecimal v) = Inr (DecimalV v)" |
  "from_binlog_value lib t (CTime v) = Inr (TimeV v)" |
  "from_binlog_value lib t (CDate v) = Inr (DateV v)" |
  "from_binlog_value lib t (CDateTime v) = Inr (DateTimeV v)" |
  "from_binlog_value lib t (CYear v) = Inr (YearV v)" |
  "from_binlog_value lib t (CTimestamp v) =
     Inr (TimestampV (ml_utc_nanos lib
       (case t of MyTimestamp _ timezone_offset _ \<Rightarrow> v * 1000 + timezone_offset * 1000000000 | _ \<Rightarrow> v * 1000)))" |
  "from_binlog_value lib t (CString v) =
     Inr (case t of
            MyBinary length' \<Rightarrow> BlobV (if length v < unat length' then v @ replicate (unat length' - length v) 0 else v)
          | MyVarBinary _ \<Rightarrow> BlobV v
          | _ \<Rightarrow> RawString v)" |
  "from_binlog_value lib t (CBlob v) = Inr (if mysql_is_string t then RawString v else BlobV v)" |
  "from_binlog_value lib t (CBit v) = Inr (BitV v)" |
  "from_binlog_value lib t (CSet v) =
     Inr (case t of
            MySet items \<Rightarrow> if v = 0 then Set2 [] else Set2 (join_strings '','' (set_items_loop items v 0))
          | _ \<Rightarrow> SetV v)" |
  "from_binlog_value lib t (CEnum v) =
     Inr (case t of
            MyEnum items \<Rightarrow> if 1 \<le> v \<and> unat v \<le> length items then Enum2 (items ! (unat v - 1)) else NoneV
          | _ \<Rightarrow> EnumV v)" |
  "from_binlog_value lib t (CJson v) = map_res Json2 (ml_json_binary lib v)" |
  "from_binlog_value lib t CNone = Inr NoneV"

definition from_binlog :: "mysql_lib \<Rightarrow> mysql_col_type \<Rightarrow> column_value \<Rightarrow> col_value res" where
  "from_binlog lib t v =
     (case t of
        MyUnknown name keep_raw \<Rightarrow> if keep_raw then from_binlog_value lib t v else Inl (Bail (unknown_col_type_err name))
      | _ \<Rightarrow> from_binlog_value lib t v)"

section \<open>Values printed as text\<close>

definition or_none :: "('a \<Rightarrow> col_value) \<Rightarrow> 'a option \<Rightarrow> col_value" where
  "or_none f v = (case v of Some a \<Rightarrow> f a | None \<Rightarrow> NoneV)"

fun mysql_from_str :: "mysql_lib \<Rightarrow> mysql_col_type \<Rightarrow> string \<Rightarrow> col_value res" where
  "mysql_from_str lib (MyTinyInt unsigned') s =
     Inr (if unsigned' then or_none (\<lambda>n. UnsignedTiny (of_nat n)) (parse_unsigned 8 s)
          else or_none (\<lambda>n. Tiny (of_int n)) (parse_signed 8 s))" |
  "mysql_from_str lib (MySmallInt unsigned') s =
     Inr (if unsigned' then or_none (\<lambda>n. UnsignedShort (of_nat n)) (parse_unsigned 16 s)
          else or_none (\<lambda>n. Short (of_int n)) (parse_signed 16 s))" |
  "mysql_from_str lib (MyMediumInt unsigned') s =
     Inr (if unsigned' then or_none (\<lambda>n. UnsignedLong (of_nat n)) (parse_unsigned 32 s)
          else or_none (\<lambda>n. Long (of_int n)) (parse_signed 32 s))" |
  "mysql_from_str lib (MyInt unsigned') s =
     Inr (if unsigned' then or_none (\<lambda>n. UnsignedLong (of_nat n)) (parse_unsigned 32 s)
          else or_none (\<lambda>n. Long (of_int n)) (parse_signed 32 s))" |
  "mysql_from_str lib (MyBigInt unsigned') s =
     Inr (if unsigned' then or_none (\<lambda>n. UnsignedLongLong (of_nat n)) (parse_unsigned 64 s)
          else or_none (\<lambda>n. LongLong (of_int n)) (parse_signed 64 s))" |
  "mysql_from_str lib MyFloat s = Inr (or_none FloatV (ml_parse_f32 lib s))" |
  "mysql_from_str lib MyDouble s = Inr (or_none DoubleV (ml_parse_f64 lib s))" |
  "mysql_from_str lib (MyChar _ _) s = Inr (StringV s)" |
  "mysql_from_str lib (MyVarchar _ _) s = Inr (StringV s)" |
  "mysql_from_str lib (MyTinyText _ _) s = Inr (StringV s)" |
  "mysql_from_str lib (MyMediumText _ _) s = Inr (StringV s)" |
  "mysql_from_str lib (MyText _ _) s = Inr (StringV s)" |
  "mysql_from_str lib (MyLongText _ _) s = Inr (StringV s)" |
  "mysql_from_str lib (MyDecimal _ _) s = Inr (DecimalV s)" |
  "mysql_from_str lib (MyTime _) s = Inr (TimeV s)" |
  "mysql_from_str lib (MyDate _) s = Inr (DateV s)" |
  "mysql_from_str lib (MyDateTime _ _) s = Inr (DateTimeV s)" |
  "mysql_from_str lib (MyTimestamp _ _ _) s = Inr (TimestampV s)" |
  "mysql_from_str lib MyYear s = Inr (or_none (\<lambda>n. YearV (of_nat n)) (parse_unsigned 16 s))" |
  "mysql_from_str lib MyBit s = Inr (or_none (\<lambda>n. BitV (of_nat n)) (parse_unsigned 64 s))" |
  "mysql_from_str lib (MySet _) s = Inr (StringV s)" |
  "mysql_from_str lib (MyEnum _) s = Inr (StringV s)" |
  "mysql_from_str lib MyJson s = Inr (Json2 s)" |
  "mysql_from_str lib (MyBinary _) s = map_res BlobV (ml_hex_decode lib s)" |
  "mysql_from_str lib (MyVarBinary _) s = map_res BlobV (ml_hex_decode lib s)" |
  "mysql_from_str lib MyTinyBlob s = map_res BlobV (ml_hex_decode lib s)" |
  "mysql_from_str lib MyMediumBlob s = map_res BlobV (ml_hex_decode lib s)" |
  "mysql_from_str lib MyBlob s = map_res BlobV (ml_hex_decode lib s)" |
  "mysql_from_str lib MyLongBlob s = map_res BlobV (ml_hex_decode lib s)" |
  "mysql_from_str lib (MyGeometry _) s = map_res BlobV (ml_hex_decode lib s)" |
  "mysql_from_str lib (MyUnknown name keep_raw) s =
     (if keep_raw then map_res BlobV (ml_hex_decode lib s) else Inl (Bail (unknown_col_type_err name)))"

section \<open>Times printed and read\<close>

lemma split_char_none: "c \<notin> set s \<Longrightarrow> split_char c s = [s]"
  by (induction s) auto

lemma split_char_app: "c \<notin> set s \<Longrightarrow> split_char c (s @ c # t) = s # split_char c t"
  by (induction s) auto

definition digits :: "string \<Rightarrow> bool" where
  "digits s \<longleftrightarrow> list_all (\<lambda>c. digit_value c \<noteq> None) s"

lemma digits_print: "digits (nat_to_string n)"
proof (induction n rule: nat_to_string.induct)
  case (1 n)
  then show ?case by (subst nat_to_string.simps) (auto simp: digits_def digit_value_digit)
qed

lemma digits_pad: "digits s \<Longrightarrow> digits (pad_zeros w s)"
proof -
  have "digit_value (CHR ''0'') \<noteq> None" by (simp add: digit_value_def)
  then show "digits s \<Longrightarrow> digits (pad_zeros w s)"
    by (auto simp: digits_def pad_zeros_def list_all_iff set_replicate_conv_if)
qed

lemma digits_not: "digits s \<Longrightarrow> digit_value c = None \<Longrightarrow> c \<notin> set s"
  by (auto simp: digits_def list_all_iff)

lemma parse_digits_zeros: "parse_digits 0 (replicate k (CHR ''0'') @ s) = parse_digits 0 s"
  by (induction k) (simp_all add: digit_value_def)

lemma parse_unsigned_pad:
  assumes "n < 2 ^ w"
  shows "parse_unsigned w (pad_zeros k (nat_to_string n)) = Some n"
proof -
  let ?s = "pad_zeros k (nat_to_string n)"
  have ne: "?s \<noteq> []" by (simp add: pad_zeros_def)
  have "CHR ''+'' \<notin> set ?s" by (rule digits_not[OF digits_pad[OF digits_print]]) (simp add: digit_value_def)
  moreover have "parse_magnitude ?s = Some n"
    using ne parse_digits_zeros parse_digits_print by (simp add: parse_magnitude_def pad_zeros_def)
  ultimately show ?thesis using assms ne by (cases ?s) (auto simp: parse_unsigned_def)
qed

lemma unat_u32: "unat (w :: u32) < 2 ^ 32" using unsigned_less[of w] by simp

definition clock :: "dt_naive_time \<Rightarrow> string" where
  "clock t = pad_zeros 2 (nat_to_string (unat (nt_hour t))) @ '':'' @ pad_zeros 2 (nat_to_string (unat (nt_minute t))) @
     '':'' @ pad_zeros 2 (nat_to_string (unat (nt_second t)))"

lemma clock_facts:
  "CHR ''.'' \<notin> set (clock t)" "clock t \<noteq> []" "hd (clock t) \<noteq> CHR ''-''"
  "split_char (CHR '':'') (clock t) =
     [pad_zeros 2 (nat_to_string (unat (nt_hour t))), pad_zeros 2 (nat_to_string (unat (nt_minute t))),
      pad_zeros 2 (nat_to_string (unat (nt_second t)))]"
proof -
  have d: "digits (pad_zeros 2 (nat_to_string n))" for n by (simp add: digits_pad digits_print)
  have no: "c \<notin> set (pad_zeros 2 (nat_to_string n))" if "digit_value c = None" for c n using digits_not[OF d that] .
  show "CHR ''.'' \<notin> set (clock t)" using no[of "CHR ''.''"] by (simp add: clock_def digit_value_def)
  show "clock t \<noteq> []" by (simp add: clock_def)
  have ne: "pad_zeros 2 (nat_to_string n) \<noteq> []" for n by (simp add: pad_zeros_def)
  then have "hd (clock t) \<in> set (pad_zeros 2 (nat_to_string (unat (nt_hour t))))" by (simp add: clock_def)
  then show "hd (clock t) \<noteq> CHR ''-''"
    using no[of "CHR ''-''" "unat (nt_hour t)"] by (auto simp: digit_value_def)
  have colon: "CHR '':'' \<notin> set (pad_zeros 2 (nat_to_string n))" for n by (rule no) (simp add: digit_value_def)
  show "split_char (CHR '':'') (clock t) =
     [pad_zeros 2 (nat_to_string (unat (nt_hour t))), pad_zeros 2 (nat_to_string (unat (nt_minute t))),
      pad_zeros 2 (nat_to_string (unat (nt_second t)))]"
    unfolding clock_def using colon by (simp add: split_char_app split_char_none)
qed

lemma naive_time_roundtrip: "naive_time_from_str (naive_time_to_string t) = Inr t"
proof -
  let ?ms = "pad_zeros 6 (nat_to_string (unat (nt_microsecond t)))"
  let ?body = "if 0 < nt_microsecond t then clock t @ ''.'' @ ?ms else clock t"
  have str: "naive_time_to_string t = (if nt_is_negative t then ''-'' @ ?body else ?body)"
    by (simp add: naive_time_to_string_def clock_def Let_def)
  have hd: "?body \<noteq> []" "hd ?body \<noteq> CHR ''-''" using clock_facts(2,3)[of t] by (auto simp: hd_append)
  have neg: "(case naive_time_to_string t of c # _ \<Rightarrow> c = CHR ''-'' | [] \<Rightarrow> False) = nt_is_negative t"
    using hd by (cases ?body) (auto simp: str)
  have rest: "(if nt_is_negative t then tl (naive_time_to_string t) else naive_time_to_string t) = ?body" by (simp add: str)
  have parts: "split_char (CHR ''.'') ?body = clock t # (if 0 < nt_microsecond t then [?ms] else [])"
    using clock_facts(1)[of t] digits_not[OF digits_pad[OF digits_print], of "CHR ''.''" 6 "unat (nt_microsecond t)"]
    by (simp add: split_char_app split_char_none digit_value_def)
  have len: "replicate (6 - length ?ms) (CHR ''0'') = []" by (simp add: pad_zeros_def)
  have "naive_time_from_str (naive_time_to_string t) =
      Inr \<lparr>nt_is_negative = nt_is_negative t, nt_hour = nt_hour t, nt_minute = nt_minute t, nt_second = nt_second t,
           nt_microsecond = (if 0 < nt_microsecond t then nt_microsecond t else 0)\<rparr>"
    using clock_facts(4)[of t]
    by (simp add: naive_time_from_str_def neg rest parts Let_def nth_part_def parse_unsigned_pad[OF unat_u32] len)
  moreover have "(if 0 < nt_microsecond t then nt_microsecond t else 0) = nt_microsecond t"
    by (simp add: word_neq_0_conv[symmetric])
  ultimately show ?thesis by simp
qed

text \<open>The encoding of a time in the binary protocol of MySQL.\<close>

fun le_bytes :: "nat \<Rightarrow> nat \<Rightarrow> u8 list" where
  "le_bytes 0 n = []" |
  "le_bytes (Suc k) n = of_nat n # le_bytes k (n div 256)"

definition encode_time :: "bool \<Rightarrow> nat \<Rightarrow> nat \<Rightarrow> nat \<Rightarrow> nat \<Rightarrow> nat \<Rightarrow> u8 list" where
  "encode_time neg d h m s us =
     (if (d, h, m, s, us) = (0, 0, 0, 0, 0) then [0]
      else [if us = 0 then 8 else 12, if neg then 1 else 0] @ le_bytes 4 d @ [of_nat h, of_nat m, of_nat s] @
           (if us = 0 then [] else le_bytes 4 us))"

lemma le_value_bytes: "n < 256 ^ k \<Longrightarrow> le_value (le_bytes k n) = n"
proof (induction k arbitrary: n)
  case (Suc k)
  then have "n div 256 < 256 ^ k" by (simp add: less_mult_imp_div_less)
  with Suc.IH show ?case by (simp add: unsigned_of_nat take_bit_nat_def)
qed simp

lemma length_le_bytes [simp]: "length (le_bytes k n) = k"
  by (induction k arbitrary: n) simp_all

lemma read_uint_le_bytes:
  assumes "n < 256 ^ k" "k \<le> 8"
  shows "read_uint k (le_bytes k n @ rest) = Inr (n, rest)"
  using assms le_value_bytes by (simp add: read_uint_def)

lemma unat_small: "n < 2 ^ LENGTH('a) \<Longrightarrow> unat (of_nat n :: 'a :: len word) = n"
  by (simp add: unsigned_of_nat take_bit_nat_eq_self)

text \<open>The time a value of the protocol stands for.\<close>

definition wire_time :: "bool \<Rightarrow> nat \<Rightarrow> nat \<Rightarrow> nat \<Rightarrow> nat \<Rightarrow> nat \<Rightarrow> dt_naive_time" where
  "wire_time neg d h m s us =
     \<lparr>nt_is_negative = neg \<and> (d, h, m, s, us) \<noteq> (0, 0, 0, 0, 0), nt_hour = of_nat (d * 24 + h), nt_minute = of_nat m,
      nt_second = of_nat s, nt_microsecond = of_nat us\<rparr>"

lemma ucast_byte: "n < 256 \<Longrightarrow> (ucast (of_nat n :: u8) :: u32) = of_nat n"
  by (rule word_eq_iff_unsigned[THEN iffD2]) (simp add: unsigned_of_nat unsigned_ucast_eq take_bit_nat_eq_self)

lemma parse_time_encode:
  assumes "d < 256 ^ 4" "h < 24" "m < 60" "s < 60" "us < 1000000"
  shows "parse_time (encode_time neg d h m s us) = Inr (TimeV (naive_time_to_string (wire_time neg d h m s us)))"
proof (cases "(d, h, m, s, us) = (0, 0, 0, 0, 0)")
  case True
  then show ?thesis by (simp add: encode_time_def parse_time_def read_u8_def wire_time_def naive_time_default_def)
next
  case False
  have us: "us < 256 ^ 4" using assms(5) by simp
  have small: "h < 256" "m < 256" "s < 256" using assms(2-4) by simp_all
  note reads = read_uint_le_bytes[OF assms(1), of, simplified] read_uint_le_bytes[OF us, of "[]", simplified]
  have hour: "of_nat h + of_nat d * 24 = (of_nat (d * 24 + h) :: u32)" by simp
  show ?thesis
    using False reads
    by (auto simp: encode_time_def parse_time_def read_u8_def parese_time_fields_def usize_sub_def Let_def
        wire_time_def naive_time_default_def ucast_byte small hour del: of_nat_add of_nat_mult)
qed

lemma sint_signed_nat:
  assumes "n < 2 ^ 63"
  shows "sint (word_of_int (if b then - int n else int n) :: u64) = (if b then - int n else int n)"
proof -
  have "- (2 ^ 63) \<le> (if b then - int n else int n)" "(if b then - int n else int n) < 2 ^ 63" using assms by auto
  then show ?thesis unfolding sint_sbintrunc' by (simp add: signed_take_bit_int_eq_self)
qed

lemma timestamp_micros_value:
  assumes "unat (nt_hour t) < 2 ^ 20" "unat (nt_minute t) < 60" "unat (nt_second t) < 60" "unat (nt_microsecond t) < 1000000"
    and "n = ((unat (nt_hour t) * 60 + unat (nt_minute t)) * 60 + unat (nt_second t)) * 1000000 + unat (nt_microsecond t)"
  shows "sint (timestamp_micros t) = (if nt_is_negative t then - int n else int n)"
proof -
  have "timestamp_micros t = word_of_int (if nt_is_negative t then - int n else int n)"
    by (simp add: timestamp_micros_def Let_def algebra_simps assms(5))
  moreover have "n < 2 ^ 63" using assms by simp
  ultimately show ?thesis using sint_signed_nat by metis
qed

text \<open>
  C23: A time read from a query is the time the server sent: the decoded text reads back as the number of
  microseconds with its sign, for every time MySQL has, days included.
\<close>

theorem mysql_time_decode:
  assumes "d \<le> 34" "h < 24" "m < 60" "s < 60" "us < 1000000"
  shows "\<exists>text t. parse_time (encode_time neg d h m s us) = Inr (TimeV text) \<and> naive_time_from_str text = Inr t \<and>
    sint (timestamp_micros t) =
      (if neg then - 1 else 1) * int ((((d * 24 + h) * 60 + m) * 60 + s) * 1000000 + us)"
proof -
  let ?t = "wire_time neg d h m s us" and ?n = "(((d * 24 + h) * 60 + m) * 60 + s) * 1000000 + us"
  have hour: "d * 24 + h < 2 ^ 20" using assms(1,2) by simp
  have f: "unat (nt_hour ?t) = d * 24 + h" "unat (nt_minute ?t) = m" "unat (nt_second ?t) = s" "unat (nt_microsecond ?t) = us"
    using assms hour by (simp_all add: wire_time_def unat_small del: of_nat_add of_nat_mult)
  have "sint (timestamp_micros ?t) = (if nt_is_negative ?t then - int ?n else int ?n)"
    by (rule timestamp_micros_value) (use assms hour in \<open>simp_all add: f\<close>)
  then have "sint (timestamp_micros ?t) = (if neg then - 1 else 1) * int ?n"
    by (auto simp: wire_time_def)
  moreover have "parse_time (encode_time neg d h m s us) = Inr (TimeV (naive_time_to_string ?t))"
    by (rule parse_time_encode) (use assms in simp_all)
  ultimately show ?thesis using naive_time_roundtrip by blast
qed

theorem mysql_time_decode_witness:
  "\<exists>text t. parse_time (encode_time True 34 22 59 59 0) = Inr (TimeV text) \<and> naive_time_from_str text = Inr t \<and>
    sint (timestamp_micros t) = - 3020399000000"
  using mysql_time_decode[of 34 22 59 59 0 True] by simp

section \<open>Values of queries and of the binlog\<close>

text \<open>The values a query gives for a column of a type, \<open>NULL\<close> apart.\<close>

fun mysql_typed :: "mysql_col_type \<Rightarrow> col_value \<Rightarrow> bool" where
  "mysql_typed (MyTinyInt u) v = (case v of Tiny _ \<Rightarrow> \<not> u | UnsignedTiny _ \<Rightarrow> u | _ \<Rightarrow> False)" |
  "mysql_typed (MySmallInt u) v = (case v of Short _ \<Rightarrow> \<not> u | UnsignedShort _ \<Rightarrow> u | _ \<Rightarrow> False)" |
  "mysql_typed (MyMediumInt u) v =
     (case v of Long w \<Rightarrow> \<not> u \<and> - (2 ^ 23) \<le> sint w \<and> sint w < 2 ^ 23 | UnsignedLong w \<Rightarrow> u \<and> unat w < 2 ^ 24 | _ \<Rightarrow> False)" |
  "mysql_typed (MyInt u) v = (case v of Long _ \<Rightarrow> \<not> u | UnsignedLong _ \<Rightarrow> u | _ \<Rightarrow> False)" |
  "mysql_typed (MyBigInt u) v = (case v of LongLong _ \<Rightarrow> \<not> u | UnsignedLongLong _ \<Rightarrow> u | _ \<Rightarrow> False)" |
  "mysql_typed MyFloat v = (case v of FloatV w \<Rightarrow> \<not> f32_is_nan w | _ \<Rightarrow> False)" |
  "mysql_typed MyDouble v = (case v of DoubleV w \<Rightarrow> \<not> f64_is_nan w | _ \<Rightarrow> False)" |
  "mysql_typed (MyDecimal _ _) v = (case v of DecimalV _ \<Rightarrow> True | _ \<Rightarrow> False)" |
  "mysql_typed (MyTime _) v = (case v of TimeV _ \<Rightarrow> True | _ \<Rightarrow> False)" |
  "mysql_typed (MyDate _) v = (case v of DateV _ \<Rightarrow> True | _ \<Rightarrow> False)" |
  "mysql_typed (MyDateTime _ _) v = (case v of DateTimeV _ \<Rightarrow> True | _ \<Rightarrow> False)" |
  "mysql_typed (MyTimestamp _ _ _) v = (case v of TimestampV _ \<Rightarrow> True | _ \<Rightarrow> False)" |
  "mysql_typed MyYear v = (case v of YearV _ \<Rightarrow> True | _ \<Rightarrow> False)" |
  "mysql_typed (MyChar _ _) v = (case v of StringV _ \<Rightarrow> True | _ \<Rightarrow> False)" |
  "mysql_typed (MyVarchar _ _) v = (case v of StringV _ \<Rightarrow> True | _ \<Rightarrow> False)" |
  "mysql_typed (MyTinyText _ _) v = (case v of StringV _ \<Rightarrow> True | _ \<Rightarrow> False)" |
  "mysql_typed (MyMediumText _ _) v = (case v of StringV _ \<Rightarrow> True | _ \<Rightarrow> False)" |
  "mysql_typed (MyText _ _) v = (case v of StringV _ \<Rightarrow> True | _ \<Rightarrow> False)" |
  "mysql_typed (MyLongText _ _) v = (case v of StringV _ \<Rightarrow> True | _ \<Rightarrow> False)" |
  "mysql_typed (MyBinary n) v = (case v of BlobV b \<Rightarrow> length b = unat n | _ \<Rightarrow> False)" |
  "mysql_typed (MyVarBinary _) v = (case v of BlobV _ \<Rightarrow> True | _ \<Rightarrow> False)" |
  "mysql_typed MyTinyBlob v = (case v of BlobV _ \<Rightarrow> True | _ \<Rightarrow> False)" |
  "mysql_typed MyMediumBlob v = (case v of BlobV _ \<Rightarrow> True | _ \<Rightarrow> False)" |
  "mysql_typed MyLongBlob v = (case v of BlobV _ \<Rightarrow> True | _ \<Rightarrow> False)" |
  "mysql_typed MyBlob v = (case v of BlobV _ \<Rightarrow> True | _ \<Rightarrow> False)" |
  "mysql_typed (MyGeometry _) v = (case v of BlobV _ \<Rightarrow> True | _ \<Rightarrow> False)" |
  "mysql_typed (MyUnknown _ keep_raw) v = (case v of BlobV _ \<Rightarrow> keep_raw | _ \<Rightarrow> False)" |
  "mysql_typed MyBit v = (case v of BitV _ \<Rightarrow> True | _ \<Rightarrow> False)" |
  "mysql_typed (MySet items) v = (case v of Set2 _ \<Rightarrow> True | _ \<Rightarrow> False)" |
  "mysql_typed (MyEnum items) v = (case v of Enum2 s \<Rightarrow> s \<in> set items | _ \<Rightarrow> False)" |
  "mysql_typed MyJson v = (case v of Json2 _ \<Rightarrow> True | _ \<Rightarrow> False)"

lemma set_items_loop_bits:
  assumes "unat v < 2 ^ n"
  shows "set_items_loop items v pos =
     List.map_filter (\<lambda>k. if bit v k then map_of items (push_bit (pos + k) 1) else None) [0..<n]"
  using assms
proof (induction n arbitrary: v pos)
  case 0
  then have "v = 0" by (simp add: unat_eq_zero)
  then show ?case by (simp add: set_items_loop.simps List.map_filter_simps)
next
  case (Suc n)
  let ?f = "\<lambda>v pos k. if bit v k then map_of items (push_bit (pos + k) 1) else None"
  have up: "[0..<Suc n] = 0 # map Suc [0..<n]" by (simp add: map_Suc_upt upt_conv_Cons del: upt_Suc)
  have shift: "List.map_filter (?f v pos) (map Suc xs) = List.map_filter (?f (drop_bit 1 v) (pos + 1)) xs" for xs
    by (induction xs) (simp_all add: List.map_filter_simps bit_drop_bit_eq split: option.splits)
  show ?case
  proof (cases "v = 0")
    case True
    have "List.map_filter (?f 0 pos) xs = []" for xs by (induction xs) (simp_all add: List.map_filter_simps)
    with True show ?thesis by (simp add: set_items_loop.simps)
  next
    case False
    have "unat (drop_bit 1 v) < 2 ^ n" using Suc.prems by (simp add: drop_bit_eq_div unat_div less_mult_imp_div_less)
    note IH = Suc.IH[OF this, of "pos + 1"]
    have one: "v AND 1 = of_bool (bit v 0)" by (simp add: and_one_eq mod_2_eq_odd bit_0)
    show ?thesis
      unfolding up set_items_loop.simps[of items v] IH using False
      by (simp add: List.map_filter_simps shift one Let_def split: option.splits)
  qed
qed

text \<open>
  Integers of the binlog. A row event stores an integer column as two's complement in the width of
  the column, without its sign attribute, and the value read from it is signed.
\<close>

fun int_column :: "mysql_col_type \<Rightarrow> (nat \<times> bool) option" where
  "int_column (MyTinyInt u) = Some (8, u)" |
  "int_column (MySmallInt u) = Some (16, u)" |
  "int_column (MyMediumInt u) = Some (24, u)" |
  "int_column (MyInt u) = Some (32, u)" |
  "int_column (MyBigInt u) = Some (64, u)" |
  "int_column _ = None"

text \<open>The signed value in the variant that carries the width of the column.\<close>

fun binlog_int :: "nat \<Rightarrow> column_value \<Rightarrow> int option" where
  "binlog_int w (CTiny v) = (if w = 8 then Some (sint v) else None)" |
  "binlog_int w (CShort v) = (if w = 16 then Some (sint v) else None)" |
  "binlog_int w (CLong v) = (if w = 24 \<or> w = 32 then Some (sint v) else None)" |
  "binlog_int w (CLongLong v) = (if w = 64 then Some (sint v) else None)" |
  "binlog_int w _ = None"

fun col_int :: "col_value \<Rightarrow> int option" where
  "col_int (Tiny v) = Some (sint v)" |
  "col_int (UnsignedTiny v) = Some (uint v)" |
  "col_int (Short v) = Some (sint v)" |
  "col_int (UnsignedShort v) = Some (uint v)" |
  "col_int (Long v) = Some (sint v)" |
  "col_int (UnsignedLong v) = Some (uint v)" |
  "col_int (LongLong v) = Some (sint v)" |
  "col_int (UnsignedLongLong v) = Some (uint v)" |
  "col_int _ = None"

definition int_range :: "nat \<Rightarrow> bool \<Rightarrow> int \<Rightarrow> bool" where
  "int_range w unsigned' n = (if unsigned' then 0 \<le> n \<and> n < 2 ^ w else - (2 ^ (w - 1)) \<le> n \<and> n < 2 ^ (w - 1))"

lemma signed_congruent:
  assumes "0 < w" "int_range w False m" "int_range w False n" "m mod 2 ^ w = n mod 2 ^ w"
  shows "m = n"
proof -
  have p: "(2 :: int) ^ w = 2 * 2 ^ (w - 1)" using assms(1) by (cases w) simp_all
  have "m + 2 ^ (w - 1) = n + 2 ^ (w - 1)"
    using assms(2-4) p mod_add_cong[OF assms(4) refl, of "2 ^ (w - 1)"]
    by (simp add: int_range_def mod_pos_pos_trivial)
  then show ?thesis by simp
qed

lemma uint_sint_mod: "uint (v :: 'a :: len word) mod 2 ^ k = sint v mod 2 ^ k" if "k \<le> LENGTH('a)" for v
proof -
  have "sint v mod 2 ^ LENGTH('a) = uint v" by (simp flip: uint_word_of_int)
  moreover have "(2 :: int) ^ k dvd 2 ^ LENGTH('a)" using that by (simp add: le_imp_power_dvd)
  ultimately show ?thesis by (metis mod_mod_cancel)
qed

lemma uint_congruent:
  assumes "k \<le> LENGTH('a)" "int_range k True n" "sint (v :: 'a :: len word) mod 2 ^ k = n mod 2 ^ k"
  shows "uint v mod 2 ^ k = n"
  using uint_sint_mod[OF assms(1), of v] assms(2,3) by (simp add: int_range_def mod_pos_pos_trivial)

lemma uint_full:
  assumes "int_range LENGTH('a) True n" "sint (v :: 'a :: len word) mod 2 ^ LENGTH('a) = n mod 2 ^ LENGTH('a)"
  shows "uint v = n"
proof -
  have "uint v mod 2 ^ LENGTH('a) = uint v" by (rule mod_pos_pos_trivial) (simp_all add: unsigned_less)
  then show ?thesis using uint_congruent[OF order_refl assms] by simp
qed

lemmas uint_full_words =
  uint_full[where 'a = 8, simplified] uint_full[where 'a = 16, simplified]
  uint_full[where 'a = 32, simplified] uint_full[where 'a = 64, simplified]

lemma medium_unsigned: "uint (drop_bit 8 (push_bit 8 (v :: u32))) = uint v mod 2 ^ 24"
proof -
  have "drop_bit 8 (push_bit 8 v) = take_bit 24 v"
    by (rule bit_word_eqI) (auto simp: bit_simps)
  then have "uint (drop_bit 8 (push_bit 8 v)) = take_bit 24 (uint v)" by (simp only: unsigned_take_bit_eq)
  then show ?thesis by (simp only: take_bit_eq_mod)
qed

text \<open>
  C15: Integers of the change stream are exact. For every integer column of MySQL, of any of the five
  widths and signed or unsigned, and every number the column can hold, when the binlog gives the
  signed value that is congruent to the number modulo the width of the column, \<open>from_binlog\<close> gives a
  value of the column's type that is the number: unsigned columns get their sign back, that of
  \<open>mediumint\<close> out of the middle of a 32 bit word.
\<close>

theorem binlog_integer_exact:
  assumes "int_column t = Some (w, unsigned')" "int_range w unsigned' n"
    and "binlog_int w c = Some m" "int_range w False m" "m mod 2 ^ w = n mod 2 ^ w"
  shows "\<exists>v. from_binlog lib t c = Inr v \<and> mysql_typed t v \<and> col_int v = Some n"
proof (cases unsigned')
  case False
  have "0 < w" using assms(1) by (cases t) auto
  with signed_congruent[of w m n] assms(2,4,5) False have "m = n" by simp
  with assms(1,3,4) False show ?thesis
    by (cases t; cases c) (auto simp: from_binlog_def int_range_def split: if_splits)
next
  case True
  show ?thesis
  proof (cases "w = 24")
    case w: True
    then obtain v where c: "c = CLong v" "sint v = m" using assms(3) by (cases c) (auto split: if_splits)
    have t: "t = MyMediumInt True" using assms(1) True w by (cases t) auto
    have "uint v mod 2 ^ 24 = n" by (rule uint_congruent) (use assms(2,5) True w c in simp_all)
    then have u: "uint (drop_bit 8 (push_bit 8 v)) = n" by (simp only: medium_unsigned)
    have "int (unat (drop_bit 8 (push_bit 8 v))) < int (2 ^ 24)"
      using assms(2) True w unfolding uint_nat[symmetric] u by (simp add: int_range_def)
    then have "unat (drop_bit 8 (push_bit 8 v)) < 2 ^ 24" by (simp only: of_nat_less_iff)
    with u show ?thesis by (simp add: c(1) t from_binlog_def)
  next
    case False
    with assms True show ?thesis
      by (cases t; cases c) (auto simp: from_binlog_def uint_full_words split: if_splits)
  qed
qed

theorem binlog_integer_exact_witness:
  "\<forall>lib. \<exists>v. from_binlog lib (MyMediumInt True) (CLong (- 2)) = Inr v \<and> mysql_typed (MyMediumInt True) v \<and>
    col_int v = Some 0xFFFFFE"
  using binlog_integer_exact[of "MyMediumInt True" 24 True "0xFFFFFE" "CLong (- 2)" "- 2"]
  by (simp add: int_range_def)

text \<open>A set of the binlog is the items of its bits, in the order of the bits.\<close>

lemma binlog_set_items:
  "from_binlog lib (MySet items) (CSet v) =
     Inr (Set2 (join_strings '',''
       (List.map_filter (\<lambda>k. if bit v k then map_of items (push_bit k 1) else None) [0..<64])))"
proof -
  have "unat v < 2 ^ 64" using unsigned_less[of v] by simp
  from set_items_loop_bits[OF this, of items 0, unfolded add_0]
  have "(List.map_filter (\<lambda>k. if bit v k then map_of items (push_bit k 1) else None) [0..<64]) = set_items_loop items v 0" ..
  then show ?thesis
    by (cases "v = 0") (simp_all only: from_binlog_def, simp_all add: join_strings_def set_items_loop.simps[of items 0])
qed

section \<open>Printed values\<close>

text \<open>What Rust documents of the printed form of floats, and the \<open>hex\<close> crate of its decoder.\<close>

definition lib_prints :: "ext \<Rightarrow> mysql_lib \<Rightarrow> bool" where
  "lib_prints e lib \<longleftrightarrow>
     (\<forall>w. \<not> f32_is_nan w \<longrightarrow> ml_parse_f32 lib (f32_to_string e w) = Some w) \<and>
     (\<forall>w. \<not> f64_is_nan w \<longrightarrow> ml_parse_f64 lib (f64_to_string e w) = Some w) \<and>
     (\<forall>b. ml_hex_decode lib (hex_encode b) = Inr b)"

lemma print_signed: "parse_signed LENGTH('a) (int_to_string (sint (w :: 'a :: len word))) = Some (sint w)"
  using sint_greater_eq[of w] sint_less[of w] by (intro parse_signed_print) simp_all

lemma print_unsigned: "parse_unsigned LENGTH('a) (int_to_string (uint (w :: 'a :: len word))) = Some (unat w)"
proof -
  have "int_to_string (uint w) = nat_to_string (unat w)" by (simp add: int_to_string_def)
  with parse_unsigned_print[OF unsigned_less] show ?thesis by simp
qed

lemmas print_words =
  print_signed[where 'a = 8, simplified] print_signed[where 'a = 16, simplified]
  print_signed[where 'a = 32, simplified] print_signed[where 'a = 64, simplified]
  print_unsigned[where 'a = 8, simplified] print_unsigned[where 'a = 16, simplified]
  print_unsigned[where 'a = 32, simplified] print_unsigned[where 'a = 64, simplified]

lemma from_str_prints:
  assumes "lib_prints e lib" "mysql_typed t v" "mysql_can_be_splitted t"
  shows "\<exists>s. to_option_string e v = Some s \<and> mysql_from_str lib t s = Inr v"
  using assms by (cases t; cases v; simp add: lib_prints_def or_none_def print_words split: if_splits)

text \<open>Library functions with these properties.\<close>

definition hex_value :: "char \<Rightarrow> nat option" where
  "hex_value c = map_of (zip ''0123456789abcdef'' [0..<16]) c"

fun hex_pairs :: "string \<Rightarrow> u8 list res" where
  "hex_pairs [] = Inr []" |
  "hex_pairs [c] = Inl (Bail ''Odd number of digits'')" |
  "hex_pairs (c # d # s) =
     (case (hex_value c, hex_value d) of
        (Some a, Some b) \<Rightarrow> map_res ((#) (of_nat (16 * a + b))) (hex_pairs s)
      | _ \<Rightarrow> Inl (Bail ''Invalid character''))"

definition sample_lib :: mysql_lib where
  "sample_lib =
     \<lparr>ml_utc_nanos = (\<lambda>w. int_to_string (sint w)), ml_json_binary = (\<lambda>_. Inl (Bail ''json'')), ml_hex_decode = hex_pairs,
      ml_parse_f32 = (\<lambda>s. map_option of_nat (parse_unsigned 32 s)), ml_parse_f64 = (\<lambda>s. map_option of_nat (parse_unsigned 64 s))\<rparr>"

definition printing_ext :: "ext \<Rightarrow> ext" where
  "printing_ext e =
     e\<lparr>f32_to_string := (\<lambda>w. int_to_string (uint w)), f64_to_string := (\<lambda>w. int_to_string (uint w))\<rparr>"

lemma hex_value_digit: "n < 16 \<Longrightarrow> hex_value (hex_digit n) = Some n"
proof -
  have "\<forall>n\<in>set [0..<16]. hex_value (hex_digit n) = Some n" by code_simp
  then show "n < 16 \<Longrightarrow> hex_value (hex_digit n) = Some n" by simp
qed

lemma hex_pairs_encode: "hex_pairs (hex_encode b) = Inr b"
proof (induction b)
  case (Cons w b)
  have "unat w < 256" using unsigned_less[of w] by simp
  then have "unat w div 16 < 16" by simp
  with Cons show ?case by (simp add: hex_encode_def hex_value_digit mult.commute)
qed (simp add: hex_encode_def)

lemma sample_lib_prints: "lib_prints (printing_ext e) sample_lib"
  by (simp add: lib_prints_def printing_ext_def sample_lib_def hex_pairs_encode print_words)

end
