(* ===== verification/Serial_Extractor.thy ===== *)
theory Serial_Extractor
  imports Snapshot_Extractor Mysql_Convertor
begin

text \<open>
  The rest of \<open>dt-connector/src/extractor/mysql/mysql_snapshot_extractor.rs\<close>: where an extraction resumes,
  the extraction of a table batch by batch, and the choice between the ways to extract.

  A query gives all rows of its answer or an error. The loop over the batches may run forever, so its
  result is an option; \<open>None\<close> is a loop that does not end.
\<close>

section \<open>Model\<close>

fun resume_loop ::
  "mysql_lib \<Rightarrow> mysql_tb_meta \<Rightarrow> ((string \<times> string option) \<times> string) list \<Rightarrow> col_values \<Rightarrow> col_values res" where
  "resume_loop lib meta [] values = Inr values" |
  "resume_loop lib meta (((position_order_col, v), order_col) # rest) values =
     (if position_order_col \<noteq> order_col then Inr []
      else
        bind_res (case v of
            Some s \<Rightarrow> bind_res (mysql_get_col_type meta order_col) (\<lambda>t. mysql_from_str lib t s)
          | None \<Rightarrow> Inr NoneV)
          (\<lambda>col_value. resume_loop lib meta rest (AList.update position_order_col col_value values)))"

definition order_key_values :: "order_key \<Rightarrow> (string \<times> string option) list" where
  "order_key_values k = (case k of OrderSingle p \<Rightarrow> [p] | OrderComposite ps \<Rightarrow> ps)"

definition get_resume_values ::
  "mysql_lib \<Rightarrow> (string \<Rightarrow> string \<Rightarrow> bool \<Rightarrow> position option) option \<Rightarrow> snapshot_extractor \<Rightarrow> string list \<Rightarrow> bool \<Rightarrow> col_values res" where
  "get_resume_values lib recovery x order_cols check_point =
     (case recovery of
        None \<Rightarrow> Inr []
      | Some get_snapshot_resume_position \<Rightarrow>
          (case get_snapshot_resume_position (sx_db x) (sx_tb x) check_point of
             Some (PosRdbSnapshot _ schema tb (Some order_key)) \<Rightarrow>
               if schema \<noteq> sx_db x \<or> tb \<noteq> sx_tb x then Inr []
               else if length (order_key_values order_key) \<noteq> length order_cols then Inr []
               else resume_loop lib (sx_tb_meta x) (zip (order_key_values order_key) order_cols) []
           | _ \<Rightarrow> Inr []))"

definition validate_user_defined :: "snapshot_extractor \<Rightarrow> string \<Rightarrow> unit res" where
  "validate_user_defined x col =
     (if col = [] \<or> has_col (my_basic (sx_tb_meta x)) col then Inr ()
      else Inl (Bail ''user defined partition col not in cols''))"

definition extract_all_statement :: "snapshot_extractor \<Rightarrow> string res" where
  "extract_all_statement x =
     build_statement
       ((statement_from_mysql (sx_tb_meta x))
         \<lparr>es_ignore_cols := Some (case sx_ignore_cols x of Some cols \<Rightarrow> cols | None \<Rightarrow> []),
          es_where_condition := Some (case sx_where_condition x of Some c \<Rightarrow> c | None \<Rightarrow> [])\<rparr>)"

definition extract_all :: "ext \<Rightarrow> (u8 list \<Rightarrow> string) \<Rightarrow> snapshot_extractor \<Rightarrow> base_extractor \<Rightarrow> base_extractor res" where
  "extract_all e lossy x b =
     bind_res (extract_all_statement x) (\<lambda>sql.
     bind_res (sx_conn x sql []) (\<lambda>rows.
       fold_res (\<lambda>b row. map_res (\<lambda>row_data. be_push_row e lossy row_data PosNone b)
                   (from_mysql_row e (sx_tb_meta x) (sx_ignore_cols x) row)) b rows))"

definition start_values_step :: "snapshot_extractor \<Rightarrow> col_values \<Rightarrow> col_values \<Rightarrow> string \<Rightarrow> col_values res" where
  "start_values_step x row values order_col =
     bind_res (mysql_get_col_type (sx_tb_meta x) order_col) (\<lambda>_.
       case map_of values order_col of
         None \<Rightarrow> Inl (Bail ''order col not found'')
       | Some _ \<Rightarrow>
           (case map_of row order_col of
              Some v \<Rightarrow> Inr (AList.update order_col v values)
            | None \<Rightarrow> Inl (Panic ''called `Result::unwrap()` on an `Err` value'')))"

record batch_state =
  bs_start_values :: col_values
  bs_extracted_count :: nat
  bs_base :: base_extractor

definition batch_row :: "ext \<Rightarrow> (u8 list \<Rightarrow> string) \<Rightarrow> snapshot_extractor \<Rightarrow> batch_state \<Rightarrow> col_values \<Rightarrow> batch_state res" where
  "batch_row e lossy x st row =
     bind_res (fold_res (start_values_step x row) (bs_start_values st) (tm_order_cols (my_basic (sx_tb_meta x)))) (\<lambda>values.
       let st' = st\<lparr>bs_start_values := values, bs_extracted_count := bs_extracted_count st + 1\<rparr> in
       if sx_sample_interval x = 0 then Inl (Panic ''attempt to calculate the remainder with a divisor of zero'')
       else if bs_extracted_count st' mod sx_sample_interval x \<noteq> 0 then Inr st'
       else
         map_res (\<lambda>row_data.
             st'\<lparr>bs_base := be_push_row e lossy row_data (build_position e (my_basic (sx_tb_meta x)) Mysql values) (bs_base st')\<rparr>)
           (from_mysql_row e (sx_tb_meta x) (sx_ignore_cols x) row))"

definition bind_order_values :: "snapshot_extractor \<Rightarrow> col_values \<Rightarrow> col_value list res" where
  "bind_order_values x values =
     traverse_res (\<lambda>order_col. map_res (\<lambda>_. case map_of values order_col of Some v \<Rightarrow> v | None \<Rightarrow> NoneV)
         (mysql_get_col_type (sx_tb_meta x) order_col))
       (tm_order_cols (my_basic (sx_tb_meta x)))"

definition fetch_batch :: "snapshot_extractor \<Rightarrow> string \<Rightarrow> string \<Rightarrow> bool \<Rightarrow> col_values \<Rightarrow> col_values list res" where
  "fetch_batch x sql_from_beginning sql_from_value start_from_beginning values =
     (if start_from_beginning then sx_conn x sql_from_beginning []
      else bind_res (bind_order_values x values) (sx_conn x sql_from_value))"

partial_function (option) extract_batches ::
  "ext \<Rightarrow> (u8 list \<Rightarrow> string) \<Rightarrow> snapshot_extractor \<Rightarrow> string \<Rightarrow> string \<Rightarrow> bool \<Rightarrow> batch_state \<Rightarrow> batch_state res option" where
  "extract_batches e lossy x sql_from_beginning sql_from_value start_from_beginning st =
     (case fetch_batch x sql_from_beginning sql_from_value start_from_beginning (bs_start_values st) of
        Inl err \<Rightarrow> Some (Inl err)
      | Inr rows \<Rightarrow>
          (case fold_res (batch_row e lossy x) st rows of
             Inl err \<Rightarrow> Some (Inl err)
           | Inr st' \<Rightarrow>
               if length rows < sx_batch_size x then Some (Inr st')
               else extract_batches e lossy x sql_from_beginning sql_from_value False st'))"

definition extract_by_batch ::
  "ext \<Rightarrow> (u8 list \<Rightarrow> string) \<Rightarrow> snapshot_extractor \<Rightarrow> col_values \<Rightarrow> base_extractor \<Rightarrow> base_extractor res option" where
  "extract_by_batch e lossy x resume_values b =
     (let m = my_basic (sx_tb_meta x);
          start_from_beginning = (resume_values = []);
          start_values = (if resume_values = [] then get_default_order_col_values m else resume_values)
      in case snapshot_statement x (tm_order_cols m) PredNone (sx_batch_size x) of
           Inl err \<Rightarrow> Some (Inl err)
         | Inr sql_from_beginning \<Rightarrow>
             (case snapshot_statement x (tm_order_cols m) PredGreaterThan (sx_batch_size x) of
                Inl err \<Rightarrow> Some (Inl err)
              | Inr sql_from_value \<Rightarrow>
                  map_option (\<lambda>r. bind_res r (\<lambda>st.
                      if list_ex (is_col_nullable m) (tm_order_cols m)
                      then extract_nulls e lossy x (tm_order_cols m) (bs_base st) else Inr (bs_base st)))
                    (extract_batches e lossy x sql_from_beginning sql_from_value start_from_beginning
                      \<lparr>bs_start_values = start_values, bs_extracted_count = 0, bs_base = b\<rparr>)))"

definition serial_extract ::
  "ext \<Rightarrow> mysql_lib \<Rightarrow> (u8 list \<Rightarrow> string) \<Rightarrow> (string \<Rightarrow> string \<Rightarrow> bool \<Rightarrow> position option) option \<Rightarrow> snapshot_extractor \<Rightarrow>
   base_extractor \<Rightarrow> base_extractor res option" where
  "serial_extract e lib lossy recovery x b =
     (let order_cols = tm_order_cols (my_basic (sx_tb_meta x)) in
      if order_cols \<noteq> [] then
        (case get_resume_values lib recovery x order_cols False of
           Inl err \<Rightarrow> Some (Inl err)
         | Inr resume_values \<Rightarrow> extract_by_batch e lossy x resume_values b)
      else Some (extract_all e lossy x b))"

text \<open>
  How a table is extracted: serially, or by parallel tasks from the state \<open>parallel_start\<close> gives; when the
  table is not split, \<open>parallel_start\<close> answers \<open>True\<close> and the serial way is taken.
\<close>

datatype extract_way =
    Serially "base_extractor res option"
  | InParallel string string parallel_state
  | ExtractFails failure

definition extract_internal ::
  "ext \<Rightarrow> mysql_lib \<Rightarrow> (u8 list \<Rightarrow> string) \<Rightarrow> (string \<Rightarrow> string \<Rightarrow> bool \<Rightarrow> position option) option \<Rightarrow> snapshot_extractor \<Rightarrow> string \<Rightarrow>
   base_extractor \<Rightarrow> extract_way" where
  "extract_internal e lib lossy recovery x0 user_defined_partition_col b =
     (case validate_user_defined x0 user_defined_partition_col of
        Inl err \<Rightarrow> ExtractFails err
      | Inr _ \<Rightarrow>
          let m = my_basic (sx_tb_meta x0);
              x = x0\<lparr>sx_partition_col :=
                (if user_defined_partition_col \<noteq> [] then user_defined_partition_col else tm_partition_col m)\<rparr>
          in if user_defined_partition_col = [] \<and> sx_parallel_size x \<le> 1 \<and> tm_order_cols m \<noteq> []
             then Serially (serial_extract e lib lossy recovery x b)
             else
               (case bind_res (mysql_get_col_type (sx_tb_meta x) (sx_partition_col x)) (\<lambda>_.
                     bind_res (get_resume_values lib recovery x [sx_partition_col x] True)
                       (\<lambda>resume_values. parallel_start e x resume_values b)) of
                  Inl err \<Rightarrow> ExtractFails err
                | Inr (sql_le, sql_range, no_split, st) \<Rightarrow>
                    if no_split then Serially (serial_extract e lib lossy recovery x b)
                    else InParallel sql_le sql_range st))"

end
