(* ===== verification/Snapshot_Resume.thy ===== *)
theory Snapshot_Resume
  imports Snapshot_Extraction Serial_Extractor
begin

text \<open>
  Extractions that are stopped and resumed: the position of a checkpoint is read back by
  \<open>get_resume_values\<close>, and the next run starts there.
\<close>

section \<open>What the recovery reads from a checkpoint\<close>

lemma resume_from_checkpoint:
  assumes "lib_prints e lib" "mysql_get_col_type (sx_tb_meta x) c = Inr t" "mysql_can_be_splitted t"
    and "v = NoneV \<or> mysql_typed t v"
    and "get_resume_values lib (Some (\<lambda>_ _ _. Some (build_position_for_partition e m db c v))) x [c] check_point = Inr resume"
  shows "resume = [] \<or> resume = [(c, v)]"
proof (cases "has_col m c \<and> tm_schema m = sx_db x \<and> tm_tb m = sx_tb x")
  case False
  with assms(5) show ?thesis
    by (auto simp: get_resume_values_def build_position_for_partition_def split: if_splits)
next
  case True
  show ?thesis
  proof (cases "v = NoneV")
    case None: True
    with assms(5) True show ?thesis
      by (simp add: get_resume_values_def build_position_for_partition_def order_key_values_def)
  next
    case False
    with assms(4) have "mysql_typed t v" by simp
    from from_str_prints[OF assms(1) this assms(3)] obtain s where "to_option_string e v = Some s" "mysql_from_str lib t s = Inr v"
      by blast
    with assms(2,5) True show ?thesis
      by (simp add: get_resume_values_def build_position_for_partition_def order_key_values_def)
  qed
qed

lemma init_splitter:
  "ms_current_col_value (ps_splitter (parallel_init x resume b)) = map_of resume (sx_partition_col x)"
  "ms_tb_meta (ps_splitter (parallel_init x resume b)) = sx_tb_meta x"
  "ms_partition_col (ps_splitter (parallel_init x resume b)) = sx_partition_col x"
  by (cases resume) (simp_all add: parallel_init_def mysql_splitter_init_def mysql_splitter_new_def)

lemma init_start: "split_start (ps_splitter (parallel_init x resume b)) =
    (case map_of resume (sx_partition_col x) of Some v \<Rightarrow> v | None \<Rightarrow> NoneV)"
  by (simp add: split_start_def init_splitter)

lemma source_facts:
  assumes "snapshot_source e x resume b sl sr le vals tbl"
  shows "map_of resume (sx_partition_col x) \<noteq> Some NoneV" "chunk_answers e x sl sr le vals tbl" "total_preorder le"
    "\<exists>t. mysql_get_col_type (sx_tb_meta x) (sx_partition_col x) = Inr t \<and> mysql_can_be_splitted t"
proof -
  have "splits e (sx_conn x) le vals (ps_splitter (parallel_init x resume b))" "chunk_answers e x sl sr le vals tbl"
    using assms unfolding snapshot_source_def by blast+
  then show "map_of resume (sx_partition_col x) \<noteq> Some NoneV" "chunk_answers e x sl sr le vals tbl" "total_preorder le"
    "\<exists>t. mysql_get_col_type (sx_tb_meta x) (sx_partition_col x) = Inr t \<and> mysql_can_be_splitted t"
    unfolding splits_def init_splitter by blast+
qed

lemma above_split:
  assumes "total_preorder le"
  shows "mset (filter (\<lambda>r. above_start le a (pval x r)) tbl) \<subseteq>#
    mset (filter (\<lambda>r. above_start le a (pval x r) \<and> le (pval x r) v) tbl) + mset (filter (\<lambda>r. above_start le v (pval x r)) tbl)"
proof (induction tbl)
  case (Cons r tbl)
  then show ?case by (auto simp: above_start_def intro: subset_mset.order_trans)
qed simp

text \<open>
  C6: A parallel extraction that stopped anywhere and is resumed from one of its checkpoints loses no row.
  When the recovery gives the position of a checkpoint that is in the queue, and the source answers for
  the values read from it, then the rows that were in the queue before the checkpoint and the rows of the
  second run contain every row the first run was to extract.
\<close>

theorem snapshot_resume_complete:
  assumes "snapshot_source e x resume b sl sr le vals tbl" "parallel_start e x resume b = Inr (sl, sr, False, st0)"
    and "(parallel_step e lossy x sl sr)\<^sup>*\<^sup>* st0 st"
    and "be_buffer (ps_base st) = be_buffer b @ before @ it # after'" "is_commit (it_dt_data it)"
    and "get_resume_values lib (Some (\<lambda>_ _ _. Some (it_position it))) x [sx_partition_col x] True = Inr resume2"
    and "lib_prints e lib" "mysql_get_col_type (sx_tb_meta x) (sx_partition_col x) = Inr t"
      "list_all (\<lambda>r. mysql_typed t (pval x r)) tbl"
    and "snapshot_source e x resume2 b2 sl sr le vals tbl" "parallel_start e x resume2 b2 = Inr (sl, sr, False, st1)"
    and "(parallel_step e lossy x sl sr)\<^sup>*\<^sup>* st1 st2" "ps_running st2 = []" "be_router b2 = be_router b"
  shows "\<exists>new. be_buffer (ps_base st2) = be_buffer b2 @ new \<and>
    mset (map (item_of e x (be_router b))
      (filter (\<lambda>r. above_start le (split_start (ps_splitter (parallel_init x resume b))) (pval x r)) tbl))
    \<subseteq># mset before + mset (row_items new)"
proof -
  let ?c = "sx_partition_col x" and ?item = "item_of e x (be_router b)"
  let ?a = "split_start (ps_splitter (parallel_init x resume b))"
  let ?a2 = "split_start (ps_splitter (parallel_init x resume2 b2))"
  have src: "chunk_answers e x sl sr le vals tbl" and pre: "total_preorder le" and split: "mysql_can_be_splitted t"
    using source_facts(2-4)[OF assms(1)] assms(8) by auto
  from snap_commit_rows[OF src parallel_invariant[OF assms(1-3)] assms(4,5)] obtain v where
    v: "it_position it = build_position_for_partition e (my_basic (sx_tb_meta x)) Mysql ?c v"
       "v = NoneV \<or> (\<exists>r\<in>set tbl. v = pval x r) \<and>
        mset (map ?item (filter (\<lambda>r. above_start le ?a (pval x r) \<and> le (pval x r) v) tbl)) \<subseteq># mset before"
    by blast
  have typed: "v = NoneV \<or> mysql_typed t v" using v(2) assms(9) by (auto simp: list_all_iff)
  from snap_end_rows[OF src parallel_invariant[OF assms(10-12)] assms(13)] obtain new where
    new: "be_buffer (ps_base st2) = be_buffer b2 @ new"
      "mset (row_items new) = mset (map ?item (filter (\<lambda>r. above_start le ?a2 (pval x r)) tbl))"
    unfolding assms(14) by blast
  have "mset (map ?item (filter (\<lambda>r. above_start le ?a (pval x r)) tbl)) \<subseteq># mset before + mset (row_items new)"
    using resume_from_checkpoint[OF assms(7,8) split typed assms(6)[unfolded v(1)]]
  proof
    assume "resume2 = []"
    then have "?a2 = NoneV" by (simp add: init_start)
    then have "mset (row_items new) = mset (map ?item tbl)" unfolding new(2) by (simp add: above_start_def)
    moreover have "mset (map ?item (filter (\<lambda>r. above_start le ?a (pval x r)) tbl)) \<subseteq># mset (map ?item tbl)"
      by (simp add: image_mset_subseteq_mono)
    ultimately show ?thesis by (simp add: subset_mset.add_increasing)
  next
    assume r: "resume2 = [(?c, v)]"
    with source_facts(1)[OF assms(10)] have "v \<noteq> NoneV" by auto
    with v(2) have le: "mset (map ?item (filter (\<lambda>r. above_start le ?a (pval x r) \<and> le (pval x r) v) tbl)) \<subseteq># mset before"
      by blast
    have "?a2 = v" by (simp add: init_start r)
    then show ?thesis
      using image_mset_subseteq_mono[OF above_split[OF pre, of ?a x tbl v], of ?item] le unfolding new(2)
      by (simp add: subset_mset.order_trans[OF _ subset_mset.add_right_mono])
  qed
  with new(1) show ?thesis by blast
qed

section \<open>An empty chunk\<close>

definition gap_extractor :: snapshot_extractor where
  "gap_extractor = sample_extractor 1 [1, 2, 198]"

definition gap_chunk :: "nat \<Rightarrow> col_value \<Rightarrow> col_value \<Rightarrow> snapshot_chunk" where
  "gap_chunk i lo hi = \<lparr>chunk_id = i, chunk_range = (lo, hi)\<rparr>"

lemma gap_numbers:
  "distribution_factor 1 198 3 = 66" "raw_step 66 1 = 66" "DISTRIBUTION_FACTOR_LOWER < 66" "66 < DISTRIBUTION_FACTOR_UPPER"
  by code_simp+

lemma gap_even_chunks:
  "gen_next_evenly_sized_chunks (Long 1, Long 198) 1 3 None \<lparr>chunk_id_generator = 0, split_state = 2\<rparr> =
     Inr (Chunks [gap_chunk 1 NoneV (Long 67), gap_chunk 2 (Long 67) (Long 133), gap_chunk 3 (Long 133) (Long 198)],
          \<lparr>chunk_id_generator = 3, split_state = 3\<rparr>)"
  "gen_next_evenly_sized_chunks (Long 1, Long 198) 1 3 (Some NoneV) \<lparr>chunk_id_generator = 0, split_state = 2\<rparr> =
     Inr (Chunks [], \<lparr>chunk_id_generator = 0, split_state = 3\<rparr>)"
  using gap_numbers
  by (simp_all add: gen_next_evenly_sized_chunks_def even_chunks_loop.simps gap_chunk_def Let_def mark_no_next_chunks_def
      set_state_def NO_NEXT_CHUNKS_def wrap_i128_def i32_MAX_def)

definition gap_splitter :: "col_value option \<Rightarrow> base_splitter \<Rightarrow> mysql_splitter" where
  "gap_splitter cur b =
     \<lparr>ms_basic = b, ms_snapshot_range = Some (Long 1, Long 198), ms_tb_meta = my_sample_meta, ms_batch_size = 1,
      ms_estimated_row_count = 3, ms_partition_col = ''id'', ms_current_col_value = cur, ms_checkpoint_id = 0,
      ms_checkpoint_map = []\<rparr>"

lemma gap_server:
  "estimate_row_count (sample_server 1 [1, 2, 198]) (sample_meta ''s'' ''t'') = Inr 3"
  "get_partition_col_range (sample_server 1 [1, 2, 198]) ''id'' my_sample_meta = Inr (Long 1, Long 198)"
  by (simp_all add: estimate_row_count_def get_partition_col_range_def sample_server_def sample_sql_distinct last_or_null_def)

lemma gap_first:
  "get_next_chunks e (sample_server 1 [1, 2, 198]) (ps_splitter (parallel_init gap_extractor [] b)) =
     Inr ([gap_chunk 1 NoneV (Long 67), gap_chunk 2 (Long 67) (Long 133), gap_chunk 3 (Long 133) (Long 198)],
          gap_splitter None \<lparr>chunk_id_generator = 3, split_state = 3\<rparr>)"
  "get_next_chunks e (sample_server 1 [1, 2, 198]) (ps_splitter (parallel_init gap_extractor [(''id'', NoneV)] b)) =
     Inr ([], gap_splitter (Some NoneV) \<lparr>chunk_id_generator = 0, split_state = 3\<rparr>)"
  using gap_even_chunks
  by (simp_all add: gap_extractor_def parallel_init_def mysql_splitter_init_def mysql_splitter_new_def base_splitter_new_def
      get_next_chunks_def has_no_next_chunks_def has_no_even_chunks_def has_state_def NO_NEXT_CHUNKS_def NO_EVEN_CHUNKS_def
      gap_server get_evenly_sized_chunks_def Let_def mark_no_even_chunks_def set_state_def set_basic_def col_eq_Long gap_splitter_def
      del: One_nat_def)

lemma gap_rows:
  "spawn_sub_parallel_extract (sample_server 1 [1, 2, 198]) sample_sql_le sample_sql_range (gap_chunk 1 NoneV (Long 67)) =
     \<lparr>ct_id = 1, ct_left = [id_row 1, id_row 2], ct_last = NoneV, ct_failed = None\<rparr>"
  "spawn_sub_parallel_extract (sample_server 1 [1, 2, 198]) sample_sql_le sample_sql_range (gap_chunk 2 (Long 67) (Long 133)) =
     \<lparr>ct_id = 2, ct_left = [], ct_last = NoneV, ct_failed = None\<rparr>"
  by (simp_all add: spawn_sub_parallel_extract_def fetch_chunk_def gap_chunk_def sample_server_def sample_sql_distinct Let_def
      id_le_def id_row_def del: One_nat_def)

lemma gap_done: "get_next_chunks e conn (gap_splitter cur \<lparr>chunk_id_generator = n, split_state = 3\<rparr>) =
    Inr ([], gap_splitter cur \<lparr>chunk_id_generator = n, split_state = 3\<rparr>)"
  by (simp add: get_next_chunks_def gap_splitter_def has_no_next_chunks_def has_state_def NO_NEXT_CHUNKS_def)

definition gap_start :: parallel_state where
  "gap_start =
     \<lparr>ps_splitter = gap_splitter None \<lparr>chunk_id_generator = 3, split_state = 3\<rparr>,
      ps_pending = [gap_chunk 3 (Long 133) (Long 198)],
      ps_running = [\<lparr>ct_id = 1, ct_left = [id_row 1, id_row 2], ct_last = NoneV, ct_failed = None\<rparr>,
                    \<lparr>ct_id = 2, ct_left = [], ct_last = NoneV, ct_failed = None\<rparr>],
      ps_base = sample_base\<rparr>"

lemma gap_parallel_start:
  "parallel_start e gap_extractor [] sample_base = Inr (sample_sql_le, sample_sql_range, False, gap_start)"
  "parallel_start e gap_extractor [(''id'', NoneV)] sample_base =
     Inr (sample_sql_le, sample_sql_range, False,
       \<lparr>ps_splitter = gap_splitter (Some NoneV) \<lparr>chunk_id_generator = 0, split_state = 3\<rparr>, ps_pending = [], ps_running = [],
        ps_base = sample_base\<rparr>)"
proof -
  have x: "sx_conn gap_extractor = sample_server 1 [1, 2, 198]" "sx_parallel_size gap_extractor = Suc (Suc 0)"
    "sx_tb_meta gap_extractor = my_sample_meta" "sx_partition_col gap_extractor = ''id''"
    "snapshot_statement gap_extractor [''id''] PredLessThanOrEqual 0 = Inr sample_sql_le"
    "snapshot_statement gap_extractor [''id''] PredRange 0 = Inr sample_sql_range"
    by (simp_all add: gap_extractor_def sample_statements)
  have i: "ps_pending (parallel_init y r b) = []" "ps_running (parallel_init y r b) = []" "ps_base (parallel_init y r b) = b" for y r b
    by (simp_all add: parallel_init_def)
  have range': "chunk_range (gap_chunk n lo hi) = (lo, hi)" for n lo hi by (simp add: gap_chunk_def)
  have upd: "(parallel_init y r b)\<lparr>ps_splitter := s, ps_pending := p\<rparr> = \<lparr>ps_splitter = s, ps_pending = p, ps_running = [], ps_base = b\<rparr>"
    "(parallel_init y r b)\<lparr>ps_splitter := s\<rparr> = \<lparr>ps_splitter = s, ps_pending = [], ps_running = [], ps_base = b\<rparr>" for y r b s p
    by (simp_all add: parallel_init_def)
  show "parallel_start e gap_extractor [] sample_base = Inr (sample_sql_le, sample_sql_range, False, gap_start)"
    by (subst parallel_start_def) (simp add: x i upd gap_first gap_done gap_rows range' Let_def gap_start_def del: One_nat_def)
  show "parallel_start e gap_extractor [(''id'', NoneV)] sample_base =
     Inr (sample_sql_le, sample_sql_range, False,
       \<lparr>ps_splitter = gap_splitter (Some NoneV) \<lparr>chunk_id_generator = 0, split_state = 3\<rparr>, ps_pending = [], ps_running = [],
        ps_base = sample_base\<rparr>)"
    by (subst parallel_start_def) (simp add: x i upd gap_first Let_def del: One_nat_def)
qed


lemma routed_id_row:
  "rd_after (route_row sample_router (id_row_data e i)) = Some [(''key'', Long i), (''v'', StringV ''x'')]"
  by (simp add: route_row_def sample_router_def get_tb_map_def get_col_map_def id_row_data_def build_insert_row_data_def
      row_data_new_def sample_meta_def id_row_def route_col_values_def route_col_def Let_def)

definition gap_items :: "ext \<Rightarrow> dt_item list" where
  "gap_items e = map (item_of e gap_extractor sample_router) [id_row 1, id_row 2]"

definition gap_position :: "ext \<Rightarrow> col_value \<Rightarrow> position" where
  "gap_position e v = build_position_for_partition e (sample_meta ''s'' ''t'') Mysql ''id'' v"

definition gap_commit :: "ext \<Rightarrow> col_value \<Rightarrow> dt_item" where
  "gap_commit e v = \<lparr>it_dt_data = DCommit [], it_position = gap_position e v, it_data_origin_node = []\<rparr>"

lemma gap_run:
  "\<exists>st. (parallel_step e lossy gap_extractor sample_sql_le sample_sql_range)\<^sup>*\<^sup>* gap_start st \<and>
     be_buffer (ps_base st) = gap_items e @ [gap_commit e (Long 2), gap_commit e NoneV]"
proof -
  let ?x = gap_extractor and ?step = "parallel_step e lossy gap_extractor sample_sql_le sample_sql_range"
  let ?push = "\<lambda>i b. sub_push_row (id_row_data e i) PosNone b"
  let ?t1 = "\<lambda>rows v. \<lparr>ct_id = 1, ct_left = rows, ct_last = v, ct_failed = None\<rparr>"
  let ?t2 = "\<lparr>ct_id = 2, ct_left = [], ct_last = NoneV, ct_failed = None\<rparr>"
  have x: "sx_conn ?x = sample_server 1 [1, 2, 198]" "sx_tb_meta ?x = my_sample_meta" "sx_partition_col ?x = ''id''" "sx_ignore_cols ?x = None"
    by (simp_all add: gap_extractor_def)
  have id: "map_of (id_row i) ''id'' = Some (Long i)" for i by (simp add: id_row_def)
  define s1 where "s1 = gap_start\<lparr>ps_running := [?t1 [id_row 2] (Long 1), ?t2], ps_base := ?push 1 sample_base\<rparr>"
  define s2 where "s2 = gap_start\<lparr>ps_running := [?t1 [] (Long 2), ?t2], ps_base := ?push 2 (?push 1 sample_base)\<rparr>"
  have 1: "push_row_step e ?x 0 gap_start = Some s1"
    by (simp add: push_row_step_def task_push_def gap_start_def s1_def x id from_id_row)
  have 2: "push_row_step e ?x 0 s1 = Some s2"
    by (simp add: push_row_step_def task_push_def gap_start_def s1_def s2_def x id from_id_row)
  define s3 where "s3 =
    \<lparr>ps_splitter = (ps_splitter gap_start)\<lparr>ms_checkpoint_id := 1\<rparr>, ps_pending = [],
     ps_running = [?t2, spawn_sub_parallel_extract (sx_conn ?x) sample_sql_le sample_sql_range (gap_chunk 3 (Long 133) (Long 198))],
     ps_base = send_checkpoint_position e lossy (gap_position e (Long 2)) (?push 2 (?push 1 sample_base))\<rparr>"
  have 3: "join_step e lossy ?x sample_sql_le sample_sql_range 0 s2 = Some (Inr s3)"
    by (simp add: join_step_def s2_def s3_def gap_start_def gap_splitter_def get_next_checkpoint_position_def Let_def x
        checkpoint_loop.simps take_chunk_def gap_position_def del: One_nat_def)
  let ?b3 = "ps_base s3"
  define s4 where "s4 =
    \<lparr>ps_splitter = (ps_splitter gap_start)\<lparr>ms_checkpoint_id := 2\<rparr>, ps_pending = [],
     ps_running = [spawn_sub_parallel_extract (sx_conn ?x) sample_sql_le sample_sql_range (gap_chunk 3 (Long 133) (Long 198))],
     ps_base = send_checkpoint_position e lossy (gap_position e NoneV) ?b3\<rparr>"
  have done': "get_next_chunks e conn ((ps_splitter gap_start)\<lparr>ms_checkpoint_id := n\<rparr>) = Inr ([], (ps_splitter gap_start)\<lparr>ms_checkpoint_id := n\<rparr>)"
    for conn n
    by (simp add: get_next_chunks_def gap_start_def gap_splitter_def has_no_next_chunks_def has_state_def NO_NEXT_CHUNKS_def)
  have pos: "get_next_checkpoint_position e 2 NoneV (ps_splitter s3) =
      (Some (gap_position e NoneV), (ps_splitter gap_start)\<lparr>ms_checkpoint_id := 2\<rparr>)"
    by (simp add: s3_def gap_start_def gap_splitter_def get_next_checkpoint_position_def Let_def checkpoint_loop.simps gap_position_def)
  have 4: "join_step e lossy ?x sample_sql_le sample_sql_range 0 s3 = Some (Inr s4)"
    using pos done' by (simp add: join_step_def s4_def take_chunk_def Let_def) (simp add: s3_def take_chunk_def)
  have run: "?step\<^sup>*\<^sup>* gap_start s4"
    using 1 2 3 4 by (meson converse_rtranclp_into_rtranclp parallel_step_def rtranclp.rtrancl_refl)
  have b: "be_data_marker (?push 2 (?push 1 sample_base)) = None" "tf_started (be_time_filter (?push 2 (?push 1 sample_base)))"
    by (simp_all add: sub_push_row_def)
  have "be_buffer ?b3 = gap_items e @ [gap_commit e (Long 2)] \<and> be_data_marker ?b3 = None \<and> tf_started (be_time_filter ?b3)"
    using push_commit[OF b, of e lossy "gap_position e (Long 2)"]
    by (simp add: s3_def gap_items_def gap_commit_def sub_push_row_def item_of_def x from_id_row)
  then have "be_buffer (ps_base s4) = gap_items e @ [gap_commit e (Long 2), gap_commit e NoneV]"
    using push_commit[of ?b3 e lossy "gap_position e NoneV"] by (simp add: s4_def gap_commit_def)
  with run show ?thesis by blast
qed

text \<open>The run of \<open>gap_run\<close>, stopped there and resumed from its first checkpoint.\<close>

theorem snapshot_resume_complete_witness:
  "\<exists>st0 st before it after' resume2 st1 st2.
     parallel_start (printing_ext sample_ext) gap_extractor [] sample_base = Inr (sample_sql_le, sample_sql_range, False, st0) \<and>
     (parallel_step (printing_ext sample_ext) (\<lambda>_. []) gap_extractor sample_sql_le sample_sql_range)\<^sup>*\<^sup>* st0 st \<and>
     be_buffer (ps_base st) = before @ it # after' \<and> is_commit (it_dt_data it) \<and>
     get_resume_values sample_lib (Some (\<lambda>_ _ _. Some (it_position it))) gap_extractor [''id''] True = Inr resume2 \<and>
     parallel_start (printing_ext sample_ext) gap_extractor resume2 sample_base = Inr (sample_sql_le, sample_sql_range, False, st1) \<and>
     (parallel_step (printing_ext sample_ext) (\<lambda>_. []) gap_extractor sample_sql_le sample_sql_range)\<^sup>*\<^sup>* st1 st2 \<and>
     ps_running st2 = [] \<and>
     mset (map (item_of (printing_ext sample_ext) gap_extractor sample_router) (map id_row [1, 2, 198]))
       \<subseteq># mset before + mset (row_items (be_buffer (ps_base st2)))"
proof -
  let ?e = "printing_ext sample_ext" and ?x = gap_extractor and ?r = "[(''id'', Long 2)]"
  let ?step = "parallel_step ?e (\<lambda>_. []) ?x sample_sql_le sample_sql_range"
  have src: "snapshot_source ?e ?x r sample_base sample_sql_le sample_sql_range id_le (map Long [1, 2, 198]) (map id_row [1, 2, 198])"
    if "r = [] \<or> r = ?r" for r
    unfolding gap_extractor_def by (rule sample_source) (use that in \<open>auto simp: ascending_def\<close>)
  note src1 = src[OF disjI1[OF refl]] and src2 = src[OF disjI2[OF refl]]
  from parallel_start_ok[OF src2] obtain st1 where
    st1: "parallel_start ?e ?x ?r sample_base = Inr (sample_sql_le, sample_sql_range, False, st1)" by blast
  from parallel_reaches_end[OF src2 st1, of "\<lambda>_. []"] obtain st2 where st2: "?step\<^sup>*\<^sup>* st1 st2" "ps_running st2 = []" by blast
  from gap_run[of ?e "\<lambda>_. []"] obtain st where st: "?step\<^sup>*\<^sup>* gap_start st"
    "be_buffer (ps_base st) = be_buffer sample_base @ gap_items ?e @ gap_commit ?e (Long 2) # [gap_commit ?e NoneV]" by auto
  have commit: "is_commit (it_dt_data (gap_commit ?e (Long 2)))" by (simp add: gap_commit_def is_commit_def)
  have two: "int_to_string 2 = ''2''" "parse_signed 32 ''2'' = Some 2" by code_simp+
  have resume: "get_resume_values sample_lib (Some (\<lambda>_ _ _. Some (it_position (gap_commit ?e (Long 2))))) ?x [sx_partition_col ?x] True = Inr ?r"
    by (simp add: get_resume_values_def gap_commit_def gap_position_def build_position_for_partition_def gap_extractor_def
        sample_meta_def has_col_def order_key_values_def my_sample_meta_def mysql_get_col_type_def two or_none_def)
  have x: "mysql_get_col_type (sx_tb_meta ?x) (sx_partition_col ?x) = Inr (MyInt False)"
    "list_all (\<lambda>r. mysql_typed (MyInt False) (pval ?x r)) (map id_row [1, 2, 198])" by (simp_all add: gap_extractor_def)
  have start: "split_start (ps_splitter (parallel_init ?x [] sample_base)) = NoneV" by (simp add: init_start)
  from snapshot_resume_complete[OF src1 gap_parallel_start(1) st commit resume sample_lib_prints x src2 st1 st2 refl]
  have "mset (map (item_of ?e ?x sample_router) (map id_row [1, 2, 198])) \<subseteq>#
      mset (gap_items ?e) + mset (row_items (be_buffer (ps_base st2)))"
    unfolding start by (auto simp: above_start_def)
  with gap_parallel_start(1)[of ?e] st st1 st2 commit resume show ?thesis
    by (intro exI conjI) (assumption | simp add: gap_extractor_def)+
qed

text \<open>
  C35: A chunk without rows breaks resuming. The parallel extraction of a table of three rows reaches a state
  in which the last checkpoint is the one of an empty chunk, before the third row is in the queue. What the
  recovery reads from it starts no task at all: the third row is never extracted.
\<close>

theorem snapshot_empty_chunk_loses_row:
  "\<exists>st0 st before it resume2 st2.
     parallel_start sample_ext gap_extractor [] sample_base = Inr (sample_sql_le, sample_sql_range, False, st0) \<and>
     (parallel_step sample_ext (\<lambda>_. []) gap_extractor sample_sql_le sample_sql_range)\<^sup>*\<^sup>* st0 st \<and>
     be_buffer (ps_base st) = before @ [it] \<and> is_commit (it_dt_data it) \<and>
     item_of sample_ext gap_extractor sample_router (id_row 198) \<notin> set before \<and>
     get_resume_values lib (Some (\<lambda>_ _ _. Some (it_position it))) gap_extractor [''id''] True = Inr resume2 \<and>
     parallel_start sample_ext gap_extractor resume2 sample_base = Inr (sample_sql_le, sample_sql_range, False, st2) \<and>
     ps_running st2 = [] \<and> be_buffer (ps_base st2) = []"
proof -
  from gap_run[of sample_ext "\<lambda>_. []"] obtain st where
    st: "(parallel_step sample_ext (\<lambda>_. []) gap_extractor sample_sql_le sample_sql_range)\<^sup>*\<^sup>* gap_start st"
      "be_buffer (ps_base st) = (gap_items sample_ext @ [gap_commit sample_ext (Long 2)]) @ [gap_commit sample_ext NoneV]" by auto
  have resume: "get_resume_values lib (Some (\<lambda>_ _ _. Some (it_position (gap_commit sample_ext NoneV)))) gap_extractor [''id''] True = Inr [(''id'', NoneV)]"
    by (simp add: get_resume_values_def gap_commit_def gap_position_def build_position_for_partition_def gap_extractor_def
        sample_meta_def has_col_def order_key_values_def)
  have "item_of sample_ext gap_extractor sample_router (id_row 198) \<notin> set (gap_items sample_ext @ [gap_commit sample_ext (Long 2)])"
    using routed_id_row[of sample_ext 198] routed_id_row[of sample_ext 1] routed_id_row[of sample_ext 2]
    by (auto simp: gap_items_def gap_commit_def item_of_def gap_extractor_def from_id_row dest!: arg_cong[where f = rd_after])
  moreover have "is_commit (it_dt_data (gap_commit sample_ext NoneV))" by (simp add: gap_commit_def is_commit_def)
  ultimately show ?thesis
    using gap_parallel_start[of sample_ext] st resume by (intro exI conjI) (assumption | simp)+
qed
end
