(* ===== verification/Serial_Extraction.thy ===== *)
theory Serial_Extraction
  imports Serial_Extractor Sample_Source
begin

text \<open>
  The extraction batch by batch of \<open>Serial_Extractor\<close>: it ends, pushes the rows of the table in order,
  and the position of a row is where the next run continues.
\<close>

section \<open>What the source promises\<close>

abbreviation order_cols :: "snapshot_extractor \<Rightarrow> string list" where
  "order_cols x \<equiv> tm_order_cols (my_basic (sx_tb_meta x))"

definition order_vals :: "snapshot_extractor \<Rightarrow> col_values \<Rightarrow> col_value list" where
  "order_vals x vs = map (\<lambda>c. case map_of vs c of Some v \<Rightarrow> v | None \<Rightarrow> NoneV) (order_cols x)"

text \<open>
  \<open>tbl\<close> are the rows of the table that satisfy the condition of the task, in the order \<open>lt\<close> of the order
  columns, which are a key; a statement gives the first rows above the values bound to it.
\<close>

definition serial_source ::
  "ext \<Rightarrow> snapshot_extractor \<Rightarrow> string \<Rightarrow> string \<Rightarrow> (col_value list \<Rightarrow> col_value list \<Rightarrow> bool) \<Rightarrow> col_values list \<Rightarrow> bool" where
  "serial_source e x sb sv lt tbl \<longleftrightarrow>
     snapshot_statement x (order_cols x) PredNone (sx_batch_size x) = Inr sb \<and>
     snapshot_statement x (order_cols x) PredGreaterThan (sx_batch_size x) = Inr sv \<and>
     0 < sx_batch_size x \<and> 0 < sx_sample_interval x \<and> order_cols x \<noteq> [] \<and> distinct (order_cols x) \<and>
     list_all (\<lambda>c. \<not> is_col_nullable (my_basic (sx_tb_meta x)) c \<and> (\<exists>t. mysql_get_col_type (sx_tb_meta x) c = Inr t)) (order_cols x) \<and>
     asymp lt \<and> sorted_wrt (\<lambda>r r'. lt (order_vals x r) (order_vals x r')) tbl \<and>
     sx_conn x sb [] = Inr (take (sx_batch_size x) tbl) \<and>
     list_all (\<lambda>r. (\<forall>c\<in>set (order_cols x). map_of r c \<noteq> None) \<and>
         (\<exists>rd. from_mysql_row e (sx_tb_meta x) (sx_ignore_cols x) r = Inr rd) \<and>
         sx_conn x sv (order_vals x r) =
           Inr (take (sx_batch_size x) (filter (\<lambda>r'. lt (order_vals x r) (order_vals x r')) tbl))) tbl"

lemma serial_sourceD:
  assumes "serial_source e x sb sv lt tbl"
  shows "snapshot_statement x (order_cols x) PredNone (sx_batch_size x) = Inr sb"
    "snapshot_statement x (order_cols x) PredGreaterThan (sx_batch_size x) = Inr sv"
    "0 < sx_batch_size x" "0 < sx_sample_interval x" "order_cols x \<noteq> []" "distinct (order_cols x)"
    "c \<in> set (order_cols x) \<Longrightarrow> \<not> is_col_nullable (my_basic (sx_tb_meta x)) c"
    "c \<in> set (order_cols x) \<Longrightarrow> \<exists>t. mysql_get_col_type (sx_tb_meta x) c = Inr t"
    "asymp lt" "sorted_wrt (\<lambda>r r'. lt (order_vals x r) (order_vals x r')) tbl"
    "sx_conn x sb [] = Inr (take (sx_batch_size x) tbl)"
    "r \<in> set tbl \<Longrightarrow> c \<in> set (order_cols x) \<Longrightarrow> map_of r c \<noteq> None"
    "r \<in> set tbl \<Longrightarrow> \<exists>rd. from_mysql_row e (sx_tb_meta x) (sx_ignore_cols x) r = Inr rd"
    "r \<in> set tbl \<Longrightarrow> sx_conn x sv (order_vals x r) =
       Inr (take (sx_batch_size x) (filter (\<lambda>r'. lt (order_vals x r) (order_vals x r')) tbl))"
  using assms unfolding serial_source_def list_all_iff by blast+

text \<open>The rows above a row of the table are the rows behind it.\<close>

lemma rows_behind:
  assumes "serial_source e x sb sv lt (ys @ r # zs)"
  shows "filter (\<lambda>r'. lt (order_vals x r) (order_vals x r')) (ys @ r # zs) = zs"
proof -
  have asym: "lt a b \<Longrightarrow> \<not> lt b a" for a b using serial_sourceD(9)[OF assms] by (auto simp: asymp_on_def)
  have "sorted_wrt (\<lambda>r r'. lt (order_vals x r) (order_vals x r')) (ys @ r # zs)" using serial_sourceD(10)[OF assms] .
  then have "\<not> lt (order_vals x r) (order_vals x y)" if "y \<in> set ys" for y
    using that asym by (auto simp: sorted_wrt_append)
  moreover have "lt (order_vals x r) (order_vals x z)" if "z \<in> set zs" for z
    using \<open>sorted_wrt _ _\<close> that by (auto simp: sorted_wrt_append)
  moreover have "\<not> lt (order_vals x r) (order_vals x r)" using asym by blast
  ultimately show ?thesis by (auto simp: filter_empty_conv filter_id_conv)
qed

section \<open>One row\<close>

definition serial_item :: "ext \<Rightarrow> snapshot_extractor \<Rightarrow> rdb_router \<Rightarrow> col_values \<Rightarrow> dt_item" where
  "serial_item e x router r = (item_of e x router r)\<lparr>it_position := build_position e (my_basic (sx_tb_meta x)) Mysql r\<rparr>"

lemma order_col_values_cong:
  assumes "\<And>c. c \<in> set cs \<Longrightarrow> map_of vs c = map_of ws c"
  shows "order_col_values e vs cs = order_col_values e ws cs"
  using assms by (induction cs) (auto split: option.splits)

lemma start_values_fold:
  assumes "\<And>c. c \<in> set cs \<Longrightarrow> \<exists>t. mysql_get_col_type (sx_tb_meta x) c = Inr t"
    and "\<And>c. c \<in> set cs \<Longrightarrow> map_of r c \<noteq> None" "\<And>c. c \<in> set cs \<Longrightarrow> map_of vs c \<noteq> None"
  shows "\<exists>ws. fold_res (start_values_step x r) vs cs = Inr ws \<and>
    (\<forall>c. map_of ws c = (if c \<in> set cs then map_of r c else map_of vs c))"
  using assms
proof (induction cs arbitrary: vs)
  case (Cons c cs)
  from Cons.prems obtain t v u where f: "mysql_get_col_type (sx_tb_meta x) c = Inr t" "map_of r c = Some v" "map_of vs c = Some u"
    by fastforce
  have step: "start_values_step x r vs c = Inr (AList.update c v vs)" by (simp add: start_values_step_def f)
  have "\<exists>ws. fold_res (start_values_step x r) (AList.update c v vs) cs = Inr ws \<and>
    (\<forall>d. map_of ws d = (if d \<in> set cs then map_of r d else map_of (AList.update c v vs) d))"
    by (rule Cons.IH) (use Cons.prems in auto)
  then show ?case using f(2) by (auto simp: step)
qed simp

definition base_idle :: "base_extractor \<Rightarrow> bool" where
  "base_idle b \<longleftrightarrow> be_data_marker b = None \<and> tf_started (be_time_filter b)"

text \<open>The state between two rows: \<open>lr\<close> was the last row, if there was one.\<close>

definition batch_ok :: "snapshot_extractor \<Rightarrow> col_values option \<Rightarrow> batch_state \<Rightarrow> bool" where
  "batch_ok x lr st \<longleftrightarrow> base_idle (bs_base st) \<and>
     (\<forall>c\<in>set (order_cols x). map_of (bs_start_values st) c \<noteq> None \<and>
        (\<forall>r. lr = Some r \<longrightarrow> map_of (bs_start_values st) c = map_of r c))"

lemma batch_row_ok:
  assumes src: "serial_source e x sb sv lt tbl" and r: "r \<in> set tbl" and ok: "batch_ok x lr st"
  shows "\<exists>st'. batch_row e lossy x st r = Inr st' \<and> batch_ok x (Some r) st' \<and>
    bs_extracted_count st' = Suc (bs_extracted_count st) \<and> be_router (bs_base st') = be_router (bs_base st) \<and>
    be_buffer (bs_base st') = be_buffer (bs_base st) @
      (if sx_sample_interval x dvd Suc (bs_extracted_count st) then [serial_item e x (be_router (bs_base st)) r] else [])"
proof -
  note D = serial_sourceD[OF src]
  have "\<exists>ws. fold_res (start_values_step x r) (bs_start_values st) (order_cols x) = Inr ws \<and>
    (\<forall>c. map_of ws c = (if c \<in> set (order_cols x) then map_of r c else map_of (bs_start_values st) c))"
    by (rule start_values_fold) (use D(8,12) r ok in \<open>auto simp: batch_ok_def\<close>)
  then obtain ws where ws: "fold_res (start_values_step x r) (bs_start_values st) (order_cols x) = Inr ws"
    "\<And>c. c \<in> set (order_cols x) \<Longrightarrow> map_of ws c = map_of r c" by auto
  have pos: "build_position e (my_basic (sx_tb_meta x)) Mysql ws = build_position e (my_basic (sx_tb_meta x)) Mysql r"
    unfolding build_position_def using order_col_values_cong[of "order_cols x" ws r e] ws(2) by simp
  from D(13)[OF r] obtain rd where rd: "from_mysql_row e (sx_tb_meta x) (sx_ignore_cols x) r = Inr rd" ..
  have idle: "be_data_marker (bs_base st) = None" "tf_started (be_time_filter (bs_base st))"
    using ok by (simp_all add: batch_ok_def base_idle_def)
  have ok': "\<forall>c\<in>set (order_cols x). map_of r c \<noteq> None \<and> map_of ws c = map_of r c" using ws(2) D(12)[OF r] by simp
  show ?thesis
  proof (cases "sx_sample_interval x dvd Suc (bs_extracted_count st)")
    case True
    then have z: "Suc (bs_extracted_count st) mod sx_sample_interval x = 0" by simp
    show ?thesis
      using True D(4) ok' idle
      by (simp add: batch_row_def ws(1) rd pos z Let_def batch_ok_def base_idle_def be_push_row_def push_defs serial_item_def item_of_def)
  next
    case False
    then have "Suc (bs_extracted_count st) mod sx_sample_interval x \<noteq> 0" by (simp add: dvd_eq_mod_eq_0)
    with False D(4) ok' idle show ?thesis
      by (simp add: batch_row_def ws(1) Let_def batch_ok_def base_idle_def)
  qed
qed

section \<open>Batches\<close>

text \<open>Every \<open>k\<close>-th row, the first \<open>n\<close> rows having been counted already.\<close>

fun sampled :: "nat \<Rightarrow> nat \<Rightarrow> 'a list \<Rightarrow> 'a list" where
  "sampled k n [] = []" |
  "sampled k n (r # rs) = (if k dvd Suc n then [r] else []) @ sampled k (Suc n) rs"

lemma sampled_append: "sampled k n (rs @ ss) = sampled k n rs @ sampled k (n + length rs) ss"
  by (induction rs arbitrary: n) simp_all

lemma sampled_nths: "sampled k n rs = nths rs {i. k dvd Suc (n + i)}"
  by (induction rs arbitrary: n) (simp_all add: nths_Cons)

lemma batch_fold_ok:
  assumes src: "serial_source e x sb sv lt tbl" and "set rs \<subseteq> set tbl" "batch_ok x lr st"
  shows "\<exists>st'. fold_res (batch_row e lossy x) st rs = Inr st' \<and> batch_ok x (if rs = [] then lr else Some (last rs)) st' \<and>
    bs_extracted_count st' = bs_extracted_count st + length rs \<and> be_router (bs_base st') = be_router (bs_base st) \<and>
    be_buffer (bs_base st') = be_buffer (bs_base st) @
      map (serial_item e x (be_router (bs_base st))) (sampled (sx_sample_interval x) (bs_extracted_count st) rs)"
  using assms(2,3)
proof (induction rs arbitrary: lr st)
  case (Cons r rs)
  from batch_row_ok[OF src _ Cons.prems(2), of r lossy] Cons.prems(1) obtain st1 where
    st1: "batch_row e lossy x st r = Inr st1" "batch_ok x (Some r) st1" "bs_extracted_count st1 = Suc (bs_extracted_count st)"
      "be_router (bs_base st1) = be_router (bs_base st)"
      "be_buffer (bs_base st1) = be_buffer (bs_base st) @
        (if sx_sample_interval x dvd Suc (bs_extracted_count st) then [serial_item e x (be_router (bs_base st)) r] else [])"
    by auto
  from Cons.IH[OF _ st1(2)] Cons.prems(1) st1 show ?case by (auto split: if_splits)
qed simp

lemma bind_order_values_ok:
  assumes "serial_source e x sb sv lt tbl"
  shows "bind_order_values x vs = Inr (order_vals x vs)"
  unfolding bind_order_values_def traverse_res_Inr order_vals_def
  using serial_sourceD(8)[OF assms] by (force simp: list_all2_map2 list_all2_same map_res_eq_Inr)

lemma order_vals_cong: "(\<And>c. c \<in> set (order_cols x) \<Longrightarrow> map_of vs c = map_of ws c) \<Longrightarrow> order_vals x vs = order_vals x ws"
  by (simp add: order_vals_def)

text \<open>The loop over the batches ends with the rows that are left.\<close>

lemma extract_batches_ok:
  assumes src: "serial_source e x sb sv lt (ys @ zs)"
    and "batch_ok x (if ys = [] then None else Some (last ys)) st" "beginning \<longleftrightarrow> ys = []"
  shows "\<exists>st'. extract_batches e lossy x sb sv beginning st = Some (Inr st') \<and>
    be_buffer (bs_base st') = be_buffer (bs_base st) @
      map (serial_item e x (be_router (bs_base st))) (sampled (sx_sample_interval x) (bs_extracted_count st) zs)"
  using assms
proof (induction "length zs" arbitrary: ys zs st beginning rule: less_induct)
  case less
  let ?n = "sx_batch_size x"
  have fetch: "fetch_batch x sb sv beginning (bs_start_values st) = Inr (take ?n zs)"
  proof (cases "ys = []")
    case True
    with less.prems serial_sourceD(11)[OF less.prems(1)] show ?thesis by (simp add: fetch_batch_def)
  next
    case False
    then have ys: "ys @ zs = butlast ys @ last ys # zs" by simp
    have "order_vals x (bs_start_values st) = order_vals x (last ys)"
      by (rule order_vals_cong) (use False less.prems(2) in \<open>auto simp: batch_ok_def\<close>)
    moreover have "sx_conn x sv (order_vals x (last ys)) = Inr (take ?n zs)"
      using serial_sourceD(14)[OF less.prems(1)[unfolded ys], of "last ys"] unfolding rows_behind[OF less.prems(1)[unfolded ys]] by simp
    ultimately show ?thesis
      using False less.prems(3) by (simp add: fetch_batch_def bind_order_values_ok[OF less.prems(1)])
  qed
  have sub: "set (take ?n zs) \<subseteq> set (ys @ zs)" by (auto dest: in_set_takeD)
  from batch_fold_ok[OF less.prems(1) sub less.prems(2), of lossy] obtain st1 where
    st1: "fold_res (batch_row e lossy x) st (take ?n zs) = Inr st1"
      "batch_ok x (if take ?n zs = [] then if ys = [] then None else Some (last ys) else Some (last (take ?n zs))) st1"
      "bs_extracted_count st1 = bs_extracted_count st + length (take ?n zs)" "be_router (bs_base st1) = be_router (bs_base st)"
      "be_buffer (bs_base st1) = be_buffer (bs_base st) @
        map (serial_item e x (be_router (bs_base st))) (sampled (sx_sample_interval x) (bs_extracted_count st) (take ?n zs))"
    by blast
  have n: "0 < ?n" using serial_sourceD(3)[OF less.prems(1)] .
  show ?case
  proof (cases "length zs < ?n")
    case True
    then show ?thesis using st1 by (subst extract_batches.simps) (simp add: fetch)
  next
    case False
    let ?ys = "ys @ take ?n zs" and ?zs = "drop ?n zs"
    have ne: "take ?n zs \<noteq> []" using False n by auto
    then have "?ys \<noteq> []" "last ?ys = last (take ?n zs)" by simp_all
    note ne = ne this
    have "\<exists>st'. extract_batches e lossy x sb sv False st1 = Some (Inr st') \<and>
      be_buffer (bs_base st') = be_buffer (bs_base st1) @
        map (serial_item e x (be_router (bs_base st1))) (sampled (sx_sample_interval x) (bs_extracted_count st1) ?zs)"
      by (rule less.hyps[of ?zs ?ys]) (use False n less.prems(1) st1(2) ne in auto)
    moreover have "extract_batches e lossy x sb sv beginning st = extract_batches e lossy x sb sv False st1"
      using False by (subst extract_batches.simps) (simp add: fetch st1(1) min_def)
    moreover have "sampled (sx_sample_interval x) (bs_extracted_count st) zs =
        sampled (sx_sample_interval x) (bs_extracted_count st) (take ?n zs) @ sampled (sx_sample_interval x) (bs_extracted_count st1) ?zs"
      using sampled_append[of _ _ "take ?n zs" ?zs] st1(3) by simp
    ultimately show ?thesis using st1(4,5) by auto
  qed
qed

section \<open>Resuming\<close>

lemma order_col_values_row:
  assumes "\<And>c. c \<in> set cs \<Longrightarrow> map_of r c = Some (v c)"
  shows "order_col_values e r cs = Some (map (\<lambda>c. (c, to_option_string e (v c))) cs)"
  using assms by (induction cs) auto

lemma resume_loop_ok:
  assumes "\<And>c. c \<in> set cs \<Longrightarrow> \<exists>t s. mysql_get_col_type meta c = Inr t \<and> to_option_string e (v c) = Some s \<and> mysql_from_str lib t s = Inr (v c)"
  shows "\<exists>ws. resume_loop lib meta (zip (map (\<lambda>c. (c, to_option_string e (v c))) cs) cs) vs = Inr ws \<and>
    (\<forall>c. map_of ws c = (if c \<in> set cs then Some (v c) else map_of vs c))"
  using assms
proof (induction cs arbitrary: vs)
  case (Cons c cs)
  from Cons.prems[of c] obtain t s where c: "mysql_get_col_type meta c = Inr t" "to_option_string e (v c) = Some s"
    "mysql_from_str lib t s = Inr (v c)" by auto
  have "\<exists>ws. resume_loop lib meta (zip (map (\<lambda>c. (c, to_option_string e (v c))) cs) cs) (AList.update c (v c) vs) = Inr ws \<and>
    (\<forall>d. map_of ws d = (if d \<in> set cs then Some (v d) else map_of (AList.update c (v c) vs) d))"
    by (rule Cons.IH) (use Cons.prems in auto)
  then show ?case by (auto simp: c)
qed simp

text \<open>The order columns have types whose values can be printed and read back.\<close>

definition order_typed :: "snapshot_extractor \<Rightarrow> col_values list \<Rightarrow> bool" where
  "order_typed x tbl \<longleftrightarrow>
     sx_db x = tm_schema (my_basic (sx_tb_meta x)) \<and> sx_tb x = tm_tb (my_basic (sx_tb_meta x)) \<and>
     list_all (\<lambda>r. list_all (\<lambda>c. \<exists>t. mysql_get_col_type (sx_tb_meta x) c = Inr t \<and> mysql_can_be_splitted t \<and>
       (\<exists>v. map_of r c = Some v \<and> mysql_typed t v)) (order_cols x)) tbl"

lemma resume_from_row:
  assumes "lib_prints e lib" "order_typed x tbl" "r \<in> set tbl" "order_cols x \<noteq> []"
  shows "\<exists>ws. get_resume_values lib (Some (\<lambda>_ _ _. Some (build_position e (my_basic (sx_tb_meta x)) Mysql r))) x (order_cols x) ck = Inr ws \<and>
    ws \<noteq> [] \<and> (\<forall>c\<in>set (order_cols x). map_of r c \<noteq> None \<and> map_of ws c = map_of r c)"
proof -
  let ?v = "\<lambda>c. the (map_of r c)" and ?m = "my_basic (sx_tb_meta x)"
  let ?ps = "map (\<lambda>c. (c, to_option_string e (?v c))) (order_cols x)"
  have t: "\<exists>t. mysql_get_col_type (sx_tb_meta x) c = Inr t \<and> mysql_can_be_splitted t \<and> mysql_typed t (?v c)"
    and some: "map_of r c = Some (?v c)" if "c \<in> set (order_cols x)" for c
    using assms(2,3) that unfolding order_typed_def list_all_iff by fastforce+
  have read: "\<exists>t s. mysql_get_col_type (sx_tb_meta x) c = Inr t \<and> to_option_string e (?v c) = Some s \<and> mysql_from_str lib t s = Inr (?v c)"
    if "c \<in> set (order_cols x)" for c
    using t[OF that] from_str_prints[OF assms(1)] by blast
  from resume_loop_ok[of "order_cols x" "sx_tb_meta x" e ?v lib "[]"] read obtain ws where
    ws: "resume_loop lib (sx_tb_meta x) (zip ?ps (order_cols x)) [] = Inr ws" "\<forall>c\<in>set (order_cols x). map_of ws c = Some (?v c)"
    by auto
  obtain k where pos: "build_position e ?m Mysql r = PosRdbSnapshot (db_type_to_string Mysql) (tm_schema ?m) (tm_tb ?m) (Some k)" "order_key_values k = ?ps"
    using order_col_values_row[of "order_cols x" r ?v e] some assms(4)
    by (cases "order_cols x"; cases "tl (order_cols x)") (auto simp: build_position_def order_key_values_def)
  have "get_resume_values lib (Some (\<lambda>_ _ _. Some (build_position e ?m Mysql r))) x (order_cols x) ck = Inr ws"
    using assms(2) pos ws(1) by (simp add: get_resume_values_def order_typed_def)
  moreover have "ws \<noteq> []" using ws(2) assms(4) by (cases "order_cols x") auto
  ultimately show ?thesis using ws(2) some by auto
qed

lemma default_values: "map_of (fold (\<lambda>col acc. AList.update col NoneV acc) cs vs) c = (if c \<in> set cs then Some NoneV else map_of vs c)"
  by (induction cs arbitrary: vs) auto

lemma serial_extract_from:
  assumes "serial_source e x sb sv lt (ys @ zs)" "be_data_marker b = None" "tf_started (be_time_filter b)"
    and "get_resume_values lib recovery x (order_cols x) False = Inr resume" "resume = [] \<longleftrightarrow> ys = []"
    and "\<forall>c\<in>set (order_cols x). ys \<noteq> [] \<longrightarrow> map_of (last ys) c \<noteq> None \<and> map_of resume c = map_of (last ys) c"
  shows "\<exists>b'. serial_extract e lib lossy recovery x b = Some (Inr b') \<and>
    be_buffer b' = be_buffer b @ map (serial_item e x (be_router b)) (nths zs {i. sx_sample_interval x dvd Suc i})"
proof -
  note D = serial_sourceD[OF assms(1)]
  let ?m = "my_basic (sx_tb_meta x)"
  let ?st = "\<lparr>bs_start_values = (if resume = [] then get_default_order_col_values ?m else resume), bs_extracted_count = 0, bs_base = b\<rparr>"
  have "batch_ok x (if ys = [] then None else Some (last ys)) ?st"
    using assms(2,3,5,6) by (auto simp: batch_ok_def base_idle_def get_default_order_col_values_def default_values)
  from extract_batches_ok[OF assms(1) this, of "resume = []" lossy] assms(5) obtain st' where
    st': "extract_batches e lossy x sb sv (resume = []) ?st = Some (Inr st')"
      "be_buffer (bs_base st') = be_buffer b @ map (serial_item e x (be_router b)) (sampled (sx_sample_interval x) 0 zs)"
    by auto
  have null: "\<not> list_ex (is_col_nullable ?m) (order_cols x)" using D(7) by (auto simp: list_ex_iff)
  have "serial_extract e lib lossy recovery x b = Some (Inr (bs_base st'))"
    using D(5) st'(1) null by (simp add: serial_extract_def assms(4) extract_by_batch_def Let_def D(1,2))
  then show ?thesis using st'(2) by (simp add: sampled_nths)
qed

lemma serial_extract_resumed:
  assumes "serial_source e x sb sv lt (ys @ zs)" "order_typed x (ys @ zs)" "lib_prints e lib"
    and "be_data_marker b = None" "tf_started (be_time_filter b)" "ys \<noteq> []"
  shows "\<exists>b'. serial_extract e lib lossy (Some (\<lambda>_ _ _. Some (it_position (serial_item e x router (last ys))))) x b = Some (Inr b') \<and>
    be_buffer b' = be_buffer b @ map (serial_item e x (be_router b)) (nths zs {i. sx_sample_interval x dvd Suc i})"
proof -
  from assms(6) have "last ys \<in> set (ys @ zs)" by simp
  from resume_from_row[OF assms(3,2) this serial_sourceD(5)[OF assms(1)], of False] obtain resume where
    "get_resume_values lib (Some (\<lambda>_ _ _. Some (it_position (serial_item e x router (last ys))))) x (order_cols x) False = Inr resume"
    "resume \<noteq> []" "\<forall>c\<in>set (order_cols x). map_of (last ys) c \<noteq> None \<and> map_of resume c = map_of (last ys) c"
    by (auto simp: serial_item_def)
  then show ?thesis using serial_extract_from[OF assms(1,4,5)] assms(6) by simp
qed

lemma serial_extract_fresh:
  assumes "serial_source e x sb sv lt zs" "be_data_marker b = None" "tf_started (be_time_filter b)"
    and "get_resume_values lib recovery x (order_cols x) False = Inr []"
  shows "\<exists>b'. serial_extract e lib lossy recovery x b = Some (Inr b') \<and>
    be_buffer b' = be_buffer b @ map (serial_item e x (be_router b)) (nths zs {i. sx_sample_interval x dvd Suc i})"
  using serial_extract_from[of e x sb sv lt "[]" zs, OF _ assms(2-4)] assms(1) by simp

text \<open>
  C10: Extraction batch by batch ends and is exact: with no position to resume from it pushes every row of the
  table, in the order of the order columns and each once, with its own position; resumed from the position of
  any row it pushes exactly the rows behind that row. With a sample interval \<open>k\<close> every \<open>k\<close>-th of these rows
  is pushed.
\<close>

theorem serial_extract_exact:
  assumes "serial_source e x sb sv lt (ys @ zs)" "order_typed x (ys @ zs)" "lib_prints e lib"
    and "be_data_marker b = None" "tf_started (be_time_filter b)"
    and "recovery = (if ys = [] then None else Some (\<lambda>_ _ _. Some (it_position (serial_item e x router (last ys)))))"
  shows "\<exists>b'. serial_extract e lib lossy recovery x b = Some (Inr b') \<and>
    be_buffer b' = be_buffer b @ map (serial_item e x (be_router b)) (nths zs {i. sx_sample_interval x dvd Suc i})"
proof (cases "ys = []")
  case True
  with serial_extract_fresh[of e x sb sv lt zs b lib None] assms show ?thesis by (simp add: get_resume_values_def)
next
  case False
  with serial_extract_resumed[OF assms(1-5)] assms(6) show ?thesis by simp
qed

text \<open>A server that answers the statements of the batches.\<close>

definition batch_server :: "nat \<Rightarrow> u32 list \<Rightarrow> mysql_conn" where
  "batch_server n ids sql binds =
     Inr (take n (case binds of [] \<Rightarrow> map id_row ids | v # _ \<Rightarrow> map id_row (filter (\<lambda>i. id_int v < sint i) ids)))"

definition batch_extractor :: "nat \<Rightarrow> u32 list \<Rightarrow> snapshot_extractor" where
  "batch_extractor n ids = (sample_extractor n ids)\<lparr>sx_conn := batch_server n ids\<rparr>"

definition key_lt :: "col_value list \<Rightarrow> col_value list \<Rightarrow> bool" where
  "key_lt a b \<longleftrightarrow> id_int (hd a) < id_int (hd b)"

lemma batch_extractor_simps [simp]:
  "sx_conn (batch_extractor n ids) = batch_server n ids" "sx_tb_meta (batch_extractor n ids) = my_sample_meta"
  "sx_batch_size (batch_extractor n ids) = n" "sx_ignore_cols (batch_extractor n ids) = None" "sx_sample_interval (batch_extractor n ids) = 1"
  "sx_db (batch_extractor n ids) = ''s''" "sx_tb (batch_extractor n ids) = ''t''"
  by (simp_all add: batch_extractor_def)

lemma sample_order_cols: "order_cols (batch_extractor n ids) = [''id'']" by (simp add: sample_meta_def)

lemma sample_order_vals: "order_vals (batch_extractor n ids) (id_row i) = [Long i]"
  by (simp only: order_vals_def sample_order_cols) (simp add: id_row_def)

lemma batch_extractor_source:
  assumes "ascending ids" "0 < n"
  shows "\<exists>sb sv. serial_source e (batch_extractor n ids) sb sv key_lt (map id_row ids)"
proof -
  let ?x = "batch_extractor n ids"
  have st: "\<exists>sql. snapshot_statement ?x [''id''] p k = Inr sql" if "p = PredNone \<or> p = PredGreaterThan" for p k
    using that by (auto simp: snapshot_statement_def build_statement_def build_extract_cols_str_def statement_from_mysql_def
        traverse_res_Inr extract_col_def statement_predicates_def order_predicate_def build_order_col_predicate_gt_def
        build_place_holder_str_def Let_def my_sample_meta_def sample_meta_def map_res_eq_Inr bind_res_eq_Inr)
  from st[of PredNone n] st[of PredGreaterThan n] obtain sb sv where
    s: "snapshot_statement ?x [''id''] PredNone n = Inr sb" "snapshot_statement ?x [''id''] PredGreaterThan n = Inr sv" by auto
  have sorted: "sorted_wrt (\<lambda>r r'. key_lt (order_vals ?x r) (order_vals ?x r')) (map id_row ids)"
    using assms(1) unfolding ascending_def sorted_wrt_map sample_order_vals key_lt_def by simp
  have behind: "map id_row (filter (\<lambda>j. sint i < sint j) ids) = filter (\<lambda>r'. key_lt [Long i] (order_vals ?x r')) (map id_row ids)" for i
    by (simp add: filter_map comp_def sample_order_vals key_lt_def)
  have "serial_source e ?x sb sv key_lt (map id_row ids)"
    unfolding serial_source_def sample_order_cols
  proof (intro conjI)
    show "asymp key_lt" by (auto simp: asymp_on_def key_lt_def)
    show "list_all (\<lambda>c. \<not> is_col_nullable (my_basic (sx_tb_meta ?x)) c \<and> (\<exists>t. mysql_get_col_type (sx_tb_meta ?x) c = Inr t)) [''id'']"
      by (simp add: is_col_nullable_def sample_meta_def)
    show "list_all (\<lambda>r. (\<forall>c\<in>set [''id'']. map_of r c \<noteq> None) \<and>
         (\<exists>rd. from_mysql_row e (sx_tb_meta ?x) (sx_ignore_cols ?x) r = Inr rd) \<and>
         sx_conn ?x sv (order_vals ?x r) =
           Inr (take (sx_batch_size ?x) (filter (\<lambda>r'. key_lt (order_vals ?x r) (order_vals ?x r')) (map id_row ids)))) (map id_row ids)"
      using behind by (auto simp: list_all_iff from_id_row sample_order_vals batch_server_def) (simp add: id_row_def)
  qed (use s sorted assms(2) in \<open>simp_all add: batch_server_def\<close>)
  then show ?thesis by blast
qed

text \<open>Five rows, batches of two, resumed behind the second row.\<close>

theorem serial_extract_exact_witness:
  "\<exists>b'. serial_extract (printing_ext sample_ext) sample_lib (\<lambda>_. [])
       (Some (\<lambda>_ _ _. Some (it_position (serial_item (printing_ext sample_ext) (batch_extractor 2 [1, 3, 4, 7, 8]) sample_router (id_row 3)))))
       (batch_extractor 2 [1, 3, 4, 7, 8]) sample_base = Some (Inr b') \<and>
     be_buffer b' = map (serial_item (printing_ext sample_ext) (batch_extractor 2 [1, 3, 4, 7, 8]) sample_router) (map id_row [4, 7, 8])"
proof -
  let ?x = "batch_extractor 2 [1, 3, 4, 7, 8]" and ?e = "printing_ext sample_ext"
  have "ascending [1, 3, 4, 7, 8]" by (simp add: ascending_def)
  from batch_extractor_source[OF this, of 2 ?e] obtain sb sv where
    src: "serial_source ?e ?x sb sv key_lt (map id_row [1, 3] @ map id_row [4, 7, 8])" by auto
  have typed: "order_typed ?x (map id_row [1, 3] @ map id_row [4, 7, 8])"
    by (simp add: order_typed_def sample_order_cols[simplified]) (simp add: id_row_def sample_meta_def)
  have all: "nths xs UNIV = xs" for xs :: "col_values list" by (rule nths_all) simp
  show ?thesis
    using serial_extract_exact[OF src typed sample_lib_prints, of sample_base _ sample_router "\<lambda>_. []"] all
    by simp
qed

end
