(* ===== verification/Resumer.thy ===== *)
theory Resumer
  imports Dt_Data Rust_Std
begin

text \<open>
  Recording and recovering positions: \<open>dt-connector/src/extractor/resumer\<close>, with \<open>FileUtil::tail\<close> of
  \<open>dt-common/src/utils/file_util.rs\<close>. A table of positions holds one row for each task, kind of
  position and key. The JSON printer and parser of positions are arguments; whether the statement of
  the recorder was executed, the rows the query of the recovery returns, how the query ended, and the
  contents of the files are inputs.
\<close>

section \<open>Kinds and keys of positions\<close>

datatype resumer_type = SnapshotDoing | SnapshotFinished | CdcDoing | NotSupported

definition resumer_type_to_string :: "resumer_type \<Rightarrow> string" where
  "resumer_type_to_string t =
     (case t of
        SnapshotDoing \<Rightarrow> ''SnapshotDoing''
      | SnapshotFinished \<Rightarrow> ''SnapshotFinished''
      | CdcDoing \<Rightarrow> ''CdcDoing''
      | NotSupported \<Rightarrow> ''NotSupported'')"

definition resumer_type_from_str :: "string \<Rightarrow> resumer_type option" where
  "resumer_type_from_str s =
     (if s = ''SnapshotDoing'' then Some SnapshotDoing
      else if s = ''SnapshotFinished'' then Some SnapshotFinished
      else if s = ''CdcDoing'' then Some CdcDoing
      else if s = ''NotSupported'' then Some NotSupported
      else None)"

definition resumer_type_from_position :: "position \<Rightarrow> resumer_type" where
  "resumer_type_from_position p =
     (case p of
        PosRdbSnapshot _ _ _ _ \<Rightarrow> SnapshotDoing
      | PosFoxlakeS3 _ _ _ \<Rightarrow> SnapshotDoing
      | PosRdbSnapshotFinished _ _ _ \<Rightarrow> SnapshotFinished
      | PosMysqlCdc _ _ _ _ _ \<Rightarrow> CdcDoing
      | PosPgCdc _ _ \<Rightarrow> CdcDoing
      | PosMongoCdc _ _ _ \<Rightarrow> CdcDoing
      | PosRedis _ _ _ _ _ \<Rightarrow> CdcDoing
      | PosKafka _ _ _ \<Rightarrow> CdcDoing
      | PosNone \<Rightarrow> NotSupported)"

definition get_full_table_name :: "string \<Rightarrow> (string \<times> string) res" where
  "get_full_table_name full_table_name =
     (if full_table_name = [] then Inr (''apecloud_metadata'', ''apedts_task_position'')
      else
        (case split_char (CHR ''.'') full_table_name of
           [schema, table] \<Rightarrow>
             if schema = [] \<or> table = [] then Inl (Bail (''invalid full table name: '' @ full_table_name))
             else Inr (schema, table)
         | _ \<Rightarrow> Inl (Bail (''invalid full table name: '' @ full_table_name))))"

definition get_key_from_position :: "position \<Rightarrow> string" where
  "get_key_from_position p =
     (case p of
        PosRdbSnapshot _ schema tb _ \<Rightarrow> schema @ ''-'' @ tb
      | PosRdbSnapshotFinished _ schema tb \<Rightarrow> schema @ ''-'' @ tb
      | PosFoxlakeS3 schema tb _ \<Rightarrow> schema @ ''-'' @ tb
      | PosKafka topic part _ \<Rightarrow> topic @ ''-'' @ int_to_string (sint part)
      | _ \<Rightarrow> ''default_key'')"

definition get_key_from_base :: "string \<times> string \<Rightarrow> resumer_type \<Rightarrow> string" where
  "get_key_from_base base t =
     (case t of
        SnapshotDoing \<Rightarrow> fst base @ ''-'' @ snd base
      | SnapshotFinished \<Rightarrow> fst base @ ''-'' @ snd base
      | _ \<Rightarrow> ''default_key'')"

section \<open>The recorder\<close>

text \<open>
  The table of positions: its unique key is the task, the kind and the key of a position. The upsert
  of the recorder inserts a row or replaces the data of the row with the same unique key.
\<close>

type_synonym position_table = "((string \<times> string \<times> string) \<times> string option) list"

definition record_position ::
  "(position \<Rightarrow> string) \<Rightarrow> string \<Rightarrow> bool \<Rightarrow> position \<Rightarrow> position_table \<Rightarrow> position_table res" where
  "record_position to_str task_id executed p tab =
     (let t = resumer_type_from_position p in
      if t = NotSupported then Inr tab
      else if executed then
        Inr (AList.update (task_id, resumer_type_to_string t, get_key_from_position p) (Some (to_str p)) tab)
      else Inl (Bail ''failed to upsert position record''))"

section \<open>Recovery from the table\<close>

record position_row =
  pr_resumer_type :: string
  pr_position_key :: string
  pr_position_data :: "string option"

datatype resumer_pool = PoolMySql | PoolPostgres

text \<open>How the stream of rows ends: with its last row, or with an error of the database driver.\<close>

datatype fetch_end = FetchDone | RowNotFound | DatabaseError "string option" | OtherError

record database_recovery =
  resumer_doing :: "(string \<times> string) list"
  resumer_finished :: "(string \<times> bool) list"

definition doing_row :: "database_recovery \<Rightarrow> position_row \<Rightarrow> database_recovery res" where
  "doing_row r row =
     (case pr_position_data row of
        None \<Rightarrow> Inl (Panic ''unexpected null'')
      | Some data \<Rightarrow> Inr (r\<lparr>resumer_doing := AList.update (pr_position_key row) data (resumer_doing r)\<rparr>))"

definition recovery_row :: "database_recovery \<Rightarrow> position_row \<Rightarrow> database_recovery res" where
  "recovery_row r row =
     (case resumer_type_from_str (pr_resumer_type row) of
        Some SnapshotDoing \<Rightarrow> doing_row r row
      | Some CdcDoing \<Rightarrow> doing_row r row
      | Some SnapshotFinished \<Rightarrow>
          Inr (r\<lparr>resumer_finished := AList.update (pr_position_key row) True (resumer_finished r)\<rparr>)
      | Some NotSupported \<Rightarrow> Inr r
      | None \<Rightarrow> Inr r)"

definition missing_table :: "resumer_pool \<Rightarrow> string option \<Rightarrow> bool" where
  "missing_table pool code =
     (case pool of
        PoolMySql \<Rightarrow> code = Some ''1146'' \<or> code = Some ''1049''
      | PoolPostgres \<Rightarrow> code = Some ''42P01'')"

definition database_recovery_init ::
  "resumer_pool \<Rightarrow> position_row list \<Rightarrow> fetch_end \<Rightarrow> database_recovery res" where
  "database_recovery_init pool rows fetch_end =
     bind_res (fold_res recovery_row \<lparr>resumer_doing = [], resumer_finished = []\<rparr> rows)
       (\<lambda>r. case fetch_end of
              FetchDone \<Rightarrow> Inr r
            | RowNotFound \<Rightarrow> Inr r
            | DatabaseError code \<Rightarrow>
                if missing_table pool code then Inr r
                else Inl (Bail ''Failed to query resume position from database'')
            | OtherError \<Rightarrow> Inl (Bail ''Failed to query resume position from database''))"

definition db_check_snapshot_finished :: "database_recovery \<Rightarrow> string \<Rightarrow> string \<Rightarrow> bool" where
  "db_check_snapshot_finished r schema tb =
     (map_of (resumer_finished r) (get_key_from_base (schema, tb) SnapshotFinished) \<noteq> None)"

definition db_get_snapshot_resume_position ::
  "(string \<Rightarrow> position option) \<Rightarrow> database_recovery \<Rightarrow> string \<Rightarrow> string \<Rightarrow> bool \<Rightarrow> position option res" where
  "db_get_snapshot_resume_position from_str r schema tb checkpoint =
     (case map_of (resumer_doing r) (get_key_from_base (schema, tb) SnapshotDoing) of
        Some s \<Rightarrow>
          map_res (\<lambda>p. case p of
                         PosRdbSnapshot _ _ _ _ \<Rightarrow> Some p
                       | PosFoxlakeS3 _ _ _ \<Rightarrow> Some p
                       | _ \<Rightarrow> None) (from_log from_str s)
      | None \<Rightarrow> Inr None)"

definition db_get_cdc_resume_position ::
  "(string \<Rightarrow> position option) \<Rightarrow> database_recovery \<Rightarrow> position option res" where
  "db_get_cdc_resume_position from_str r =
     (case map_of (resumer_doing r) (get_key_from_base ([], []) CdcDoing) of
        Some s \<Rightarrow> map_res Some (from_log from_str s)
      | None \<Rightarrow> Inr None)"

section \<open>Recovery from the logs\<close>

datatype task_type = TaskStruct | TaskSnapshot | TaskCdc | TaskCheck

record recovery_snapshot_cache =
  current_tb_positions :: "((string \<times> string) \<times> position) list"
  checkpoint_tb_positions :: "((string \<times> string) \<times> position) list"
  finished_tbs :: "((string \<times> string) \<times> bool) list"

record log_recovery =
  lr_task_type :: task_type
  lr_resume_config_file :: string
  lr_resume_log_dir :: string
  lr_snapshot_cache :: recovery_snapshot_cache
  lr_cdc_cache :: "(string \<times> position) list"

fun str_contains :: "string \<Rightarrow> string \<Rightarrow> bool" where
  "str_contains pat [] = (pat = [])" |
  "str_contains pat (c # s) = (prefix pat (c # s) \<or> str_contains pat s)"

definition is_current_line :: "string \<Rightarrow> bool" where
  "is_current_line line = str_contains ''| current_position |'' line"

definition parse_snapshot_line ::
  "(string \<Rightarrow> position option) \<Rightarrow> log_recovery \<Rightarrow> string \<Rightarrow> log_recovery res" where
  "parse_snapshot_line from_str r line =
     map_res
       (\<lambda>p. let c = lr_snapshot_cache r;
                put = (\<lambda>k. if is_current_line line
                           then c\<lparr>current_tb_positions := AList.update k p (current_tb_positions c)\<rparr>
                           else c\<lparr>checkpoint_tb_positions := AList.update k p (checkpoint_tb_positions c)\<rparr>) in
            case p of
              PosRdbSnapshot _ schema tb _ \<Rightarrow> r\<lparr>lr_snapshot_cache := put (schema, tb)\<rparr>
            | PosFoxlakeS3 schema tb _ \<Rightarrow> r\<lparr>lr_snapshot_cache := put (schema, tb)\<rparr>
            | PosRdbSnapshotFinished _ schema tb \<Rightarrow>
                r\<lparr>lr_snapshot_cache := c\<lparr>finished_tbs := AList.update (schema, tb) True (finished_tbs c)\<rparr>\<rparr>
            | _ \<Rightarrow> r)
       (from_log from_str line)"

definition parse_cdc_line ::
  "(string \<Rightarrow> position option) \<Rightarrow> log_recovery \<Rightarrow> string \<Rightarrow> log_recovery res" where
  "parse_cdc_line from_str r line =
     map_res
       (\<lambda>p. if p = PosNone then r
            else if is_current_line line then r\<lparr>lr_cdc_cache := AList.update ''current_position'' p (lr_cdc_cache r)\<rparr>
            else r\<lparr>lr_cdc_cache := AList.update ''checkpoint_position'' p (lr_cdc_cache r)\<rparr>)
       (from_log from_str line)"

text \<open>
  \<open>FileUtil::tail\<close> walks back from the end of the file, byte by byte, until it stands on the \<open>n\<close>-th
  line feed or at the start, and splits what follows. \<open>BufReader::lines\<close> drops the end of each line.
\<close>

fun tail_start :: "string \<Rightarrow> nat \<Rightarrow> nat \<Rightarrow> nat" where
  "tail_start content n 0 = 0" |
  "tail_start content n (Suc i) =
     (if n = 0 then Suc i
      else if i = 0 then 0
      else tail_start content (if content ! i = CHR 0x0A then n - 1 else n) i)"

definition file_tail :: "string \<Rightarrow> nat \<Rightarrow> string list" where
  "file_tail content n = split_char (CHR 0x0A) (drop (tail_start content n (length content)) content)"

definition strip_cr :: "string \<Rightarrow> string" where
  "strip_cr line = (if line \<noteq> [] \<and> last line = CHR 0x0D then butlast line else line)"

definition buf_lines :: "string \<Rightarrow> string list" where
  "buf_lines content =
     (let ls = split_char (CHR 0x0A) content in
      map strip_cr (butlast ls) @ (if last ls = [] then [] else [strip_cr (last ls)]))"

definition parse_config_file ::
  "(string \<Rightarrow> string option) \<Rightarrow> string \<Rightarrow> nat option \<Rightarrow> (log_recovery \<Rightarrow> string \<Rightarrow> log_recovery res) \<Rightarrow>
   log_recovery \<Rightarrow> log_recovery res" where
  "parse_config_file files config_file_path tail_limit handler r =
     (case files config_file_path of
        None \<Rightarrow> Inr r
      | Some content \<Rightarrow>
          (case tail_limit of
             Some n \<Rightarrow> fold_res handler r (file_tail content n)
           | None \<Rightarrow> fold_res handler r (buf_lines content)))"

definition log_recovery_init ::
  "(string \<Rightarrow> position option) \<Rightarrow> (string \<Rightarrow> string option) \<Rightarrow> log_recovery \<Rightarrow> log_recovery res" where
  "log_recovery_init from_str files r =
     (let config = lr_resume_config_file r; dir = lr_resume_log_dir r in
      case lr_task_type r of
        TaskSnapshot \<Rightarrow>
          bind_res
            (if config = [] then Inr r else parse_config_file files config None (parse_snapshot_line from_str) r)
            (\<lambda>r. if dir = [] then Inr r
                 else
                   bind_res
                     (parse_config_file files (dir @ ''/position.log'') (Some 200) (parse_snapshot_line from_str) r)
                     (parse_config_file files (dir @ ''/finished.log'') None (parse_snapshot_line from_str)))
      | TaskCdc \<Rightarrow>
          bind_res
            (if config = [] then Inr r else parse_config_file files config None (parse_cdc_line from_str) r)
            (\<lambda>r. if dir = [] then Inr r
                 else parse_config_file files (dir @ ''/position.log'') (Some 200) (parse_cdc_line from_str) r)
      | _ \<Rightarrow> Inl (Bail ''logRecovery not supports TaskType''))"

definition log_recovery_new ::
  "(string \<Rightarrow> position option) \<Rightarrow> (string \<Rightarrow> string option) \<Rightarrow> task_type \<Rightarrow> string \<Rightarrow> string \<Rightarrow> log_recovery res" where
  "log_recovery_new from_str files task_type log_dir config_file =
     log_recovery_init from_str files
       \<lparr>lr_task_type = task_type, lr_resume_config_file = config_file, lr_resume_log_dir = log_dir,
        lr_snapshot_cache = \<lparr>current_tb_positions = [], checkpoint_tb_positions = [], finished_tbs = []\<rparr>,
        lr_cdc_cache = []\<rparr>"

definition log_check_snapshot_finished :: "log_recovery \<Rightarrow> string \<Rightarrow> string \<Rightarrow> bool" where
  "log_check_snapshot_finished r schema tb = (map_of (finished_tbs (lr_snapshot_cache r)) (schema, tb) \<noteq> None)"

definition log_get_snapshot_resume_position :: "log_recovery \<Rightarrow> string \<Rightarrow> string \<Rightarrow> bool \<Rightarrow> position option" where
  "log_get_snapshot_resume_position r schema tb checkpoint =
     (let c = lr_snapshot_cache r in
      if \<not> checkpoint \<and> map_of (current_tb_positions c) (schema, tb) \<noteq> None
      then map_of (current_tb_positions c) (schema, tb)
      else map_of (checkpoint_tb_positions c) (schema, tb))"

definition log_get_cdc_resume_position :: "log_recovery \<Rightarrow> position option" where
  "log_get_cdc_resume_position r =
     (case map_of (lr_cdc_cache r) ''checkpoint_position'' of
        Some p \<Rightarrow> Some p
      | None \<Rightarrow> map_of (lr_cdc_cache r) ''current_position'')"

end
