(* ===== verification/Recovery.thy ===== *)
theory Recovery
  imports Resumer
begin

text \<open>
  What the recoveries find of the positions that were recorded.
\<close>

section \<open>Positions in text\<close>

text \<open>The printer of positions writes a JSON object, and the parser reads it back.\<close>

definition json_position :: "(position \<Rightarrow> string) \<Rightarrow> (string \<Rightarrow> position option) \<Rightarrow> position \<Rightarrow> bool" where
  "json_position to_str from_str p \<longleftrightarrow>
     from_str (to_str p) = Some p \<and> to_str p \<noteq> [] \<and> hd (to_str p) = CHR ''{'' \<and> last (to_str p) = CHR ''}''"

lemma find_index_fresh: "c \<notin> set s \<Longrightarrow> find_index_from c i (s @ c # t) = Some (i + length s)"
  by (induction s arbitrary: i) auto

lemma str_find_fresh: "c \<notin> set s \<Longrightarrow> str_find c (s @ c # t) = Some (length s)"
  by (simp add: str_find_def find_index_fresh)

lemma str_rfind_last: "str_rfind c (s @ [c]) = Some (length s)"
  by (simp add: str_rfind_def)

text \<open>A line of a log: a stamp without braces, then the position.\<close>

definition log_stamp :: "string \<Rightarrow> bool" where
  "log_stamp stamp \<longleftrightarrow> CHR ''{'' \<notin> set stamp \<and> (stamp \<noteq> [] \<longrightarrow> solid (hd stamp))"

lemma from_log_json:
  assumes "json_position to_str from_str p" "log_stamp stamp"
  shows "from_log from_str (stamp @ to_str p) = Inr p"
proof -
  obtain a b where a: "to_str p = CHR ''{'' # a" "to_str p = b @ [CHR ''}'']"
    using assms(1) unfolding json_position_def by (metis append_butlast_last_id list.collapse)
  have "solid (CHR ''{'')" "solid (CHR ''}'')" by (simp_all add: solid_def)
  then have "trim (stamp @ to_str p) = stamp @ to_str p"
    using assms by (intro trim_solid) (auto simp: json_position_def log_stamp_def hd_append)
  moreover have "str_find (CHR ''{'') (stamp @ to_str p) = Some (length stamp)"
    using assms(2) unfolding a(1) log_stamp_def by (simp add: str_find_fresh)
  moreover have "str_rfind (CHR ''}'') (stamp @ to_str p) = Some (length stamp + length b)"
    using str_rfind_last[of "CHR ''}''" "stamp @ b"] unfolding a(2) by simp
  moreover have "length (to_str p) = Suc (length b)" unfolding a(2) by simp
  ultimately show ?thesis using assms(1) by (simp add: from_log_def json_position_def)
qed

lemma from_log_printed: "json_position to_str from_str p \<Longrightarrow> from_log from_str (to_str p) = Inr p"
  using from_log_json[of to_str from_str p "[]"] by (simp add: log_stamp_def)

section \<open>The table of positions\<close>

definition last_opt :: "'a list \<Rightarrow> 'a option" where
  "last_opt xs = (if xs = [] then None else Some (last xs))"

lemma last_opt_simps [simp]:
  "last_opt [] = None" "last_opt [x] = Some x"
  "last_opt (xs @ ys) = (if ys = [] then last_opt xs else last_opt ys)"
  by (simp_all add: last_opt_def)

lemma last_opt_None [simp]: "last_opt xs = None \<longleftrightarrow> xs = []"
  by (simp add: last_opt_def)

lemma last_opt_const: "\<forall>x\<in>set xs. x = y \<Longrightarrow> xs \<noteq> [] \<Longrightarrow> last_opt xs = Some y"
  by (simp add: last_opt_def)

text \<open>Tasks record positions; the pipeline goes on when a statement of the recorder fails.\<close>

type_synonym recording = "string \<times> bool \<times> position"

definition record_one :: "(position \<Rightarrow> string) \<Rightarrow> recording \<Rightarrow> position_table \<Rightarrow> position_table" where
  "record_one to_str = (\<lambda>(t, executed, p) tab.
     case record_position to_str t executed p tab of Inr tab' \<Rightarrow> tab' | Inl _ \<Rightarrow> tab)"

definition record_run :: "(position \<Rightarrow> string) \<Rightarrow> recording list \<Rightarrow> position_table \<Rightarrow> position_table" where
  "record_run to_str rs tab = fold (record_one to_str) rs tab"

definition positions_of :: "string \<Rightarrow> resumer_type \<Rightarrow> string \<Rightarrow> recording list \<Rightarrow> position list" where
  "positions_of t ty k rs =
     map (\<lambda>(_, _, p). p)
       (filter (\<lambda>(t', executed, p). t' = t \<and> executed \<and> resumer_type_from_position p = ty \<and> get_key_from_position p = k) rs)"

lemma record_one_row:
  assumes "ty \<noteq> NotSupported"
  shows "map_of (record_one to_str r tab) (t, resumer_type_to_string ty, k) =
    (case last_opt (positions_of t ty k [r]) of
       Some p \<Rightarrow> Some (Some (to_str p)) | None \<Rightarrow> map_of tab (t, resumer_type_to_string ty, k))"
proof -
  have inj: "resumer_type_to_string a = resumer_type_to_string b \<longleftrightarrow> a = b" for a b
    by (cases a; cases b) (simp_all add: resumer_type_to_string_def)
  show ?thesis using assms
    by (cases r) (auto simp: record_one_def record_position_def positions_of_def Let_def inj last_opt_def)
qed

lemma positions_of_snoc: "positions_of t ty k (rs @ [r]) = positions_of t ty k rs @ positions_of t ty k [r]"
  by (simp add: positions_of_def)

lemma record_run_row:
  assumes "ty \<noteq> NotSupported"
  shows "map_of (record_run to_str rs []) (t, resumer_type_to_string ty, k) =
    map_option (\<lambda>p. Some (to_str p)) (last_opt (positions_of t ty k rs))"
proof (induction rs rule: rev_induct)
  case (snoc r rs)
  then show ?case
    by (simp add: record_run_def record_one_row[OF assms] positions_of_snoc[of t ty k rs r] split: option.splits)
qed (simp add: record_run_def positions_of_def)

lemma record_one_keys:
  "distinct (map fst tab) \<Longrightarrow> distinct (map fst (record_one to_str r tab))"
  "fst ` set tab \<subseteq> {(t, resumer_type_to_string ty, k) | t ty k. ty \<noteq> NotSupported} \<Longrightarrow>
   fst ` set (record_one to_str r tab) \<subseteq> {(t, resumer_type_to_string ty, k) | t ty k. ty \<noteq> NotSupported}"
  by (cases r; auto simp: record_one_def record_position_def Let_def distinct_update dom_update; fail)+

text \<open>The rows the query returns for a task.\<close>

definition task_rows :: "string \<Rightarrow> position_table \<Rightarrow> position_row list" where
  "task_rows t tab =
     map (\<lambda>((_, ty, k), d). \<lparr>pr_resumer_type = ty, pr_position_key = k, pr_position_data = d\<rparr>)
       (filter (\<lambda>((t', _, _), _). t' = t) tab)"

lemma task_rows_mem: "row \<in> set (task_rows t tab) \<longleftrightarrow> ((t, pr_resumer_type row, pr_position_key row), pr_position_data row) \<in> set tab"
  by (cases row) (auto simp: task_rows_def image_iff)

definition row_kind :: "position_row \<Rightarrow> resumer_type option" where
  "row_kind row = resumer_type_from_str (pr_resumer_type row)"

lemma kind_to_string [simp]: "resumer_type_from_str (resumer_type_to_string ty) = Some ty"
  by (cases ty) (simp_all add: resumer_type_from_str_def resumer_type_to_string_def)

lemma kind_from_str: "resumer_type_from_str s = Some ty \<longleftrightarrow> s = resumer_type_to_string ty"
  by (cases ty) (auto simp: resumer_type_from_str_def resumer_type_to_string_def split: if_splits)

definition doing_data :: "string \<Rightarrow> position_row list \<Rightarrow> string list" where
  "doing_data k rows =
     map (\<lambda>row. the (pr_position_data row))
       (filter (\<lambda>row. (row_kind row = Some SnapshotDoing \<or> row_kind row = Some CdcDoing) \<and> pr_position_key row = k) rows)"

lemma recovery_fold:
  assumes "\<forall>row\<in>set rows. pr_position_data row \<noteq> None"
  shows "\<exists>r. fold_res recovery_row \<lparr>resumer_doing = [], resumer_finished = []\<rparr> rows = Inr r \<and>
    (\<forall>k. map_of (resumer_doing r) k = last_opt (doing_data k rows)) \<and>
    (\<forall>k. map_of (resumer_finished r) k \<noteq> None \<longleftrightarrow> (\<exists>row\<in>set rows. row_kind row = Some SnapshotFinished \<and> pr_position_key row = k))"
  using assms
proof (induction rows rule: rev_induct)
  case Nil
  then show ?case by (simp add: doing_data_def)
next
  case (snoc row rows)
  then obtain r where r: "fold_res recovery_row \<lparr>resumer_doing = [], resumer_finished = []\<rparr> rows = Inr r"
    "\<forall>k. map_of (resumer_doing r) k = last_opt (doing_data k rows)"
    "\<forall>k. map_of (resumer_finished r) k \<noteq> None \<longleftrightarrow> (\<exists>row\<in>set rows. row_kind row = Some SnapshotFinished \<and> pr_position_key row = k)"
    by auto
  from snoc.prems obtain d where d: "pr_position_data row = Some d" by auto
  have step: "fold_res recovery_row \<lparr>resumer_doing = [], resumer_finished = []\<rparr> (rows @ [row]) = recovery_row r row"
    unfolding fold_res_append r(1) by (cases "recovery_row r row") simp_all
  show ?case
  proof (cases "row_kind row")
    case None
    then have "recovery_row r row = Inr r" by (simp add: recovery_row_def row_kind_def)
    with None r(2,3) show ?thesis unfolding step by (simp add: doing_data_def)
  next
    case (Some ty)
    then have "recovery_row r row = (case ty of SnapshotFinished \<Rightarrow>
          Inr (r\<lparr>resumer_finished := AList.update (pr_position_key row) True (resumer_finished r)\<rparr>)
        | NotSupported \<Rightarrow> Inr r
        | _ \<Rightarrow> Inr (r\<lparr>resumer_doing := AList.update (pr_position_key row) d (resumer_doing r)\<rparr>))"
      by (simp add: recovery_row_def row_kind_def doing_row_def d split: resumer_type.splits)
    with Some r(2,3) d show ?thesis unfolding step by (cases ty) (auto simp: doing_data_def)
  qed
qed

text \<open>
  In a table that tasks wrote, a task has one row for each kind and key: what the recovery finds does
  not depend on the order of the rows.
\<close>

lemma record_run_table:
  "distinct (map fst (record_run to_str rs []))"
  "fst ` set (record_run to_str rs []) \<subseteq> {(t, resumer_type_to_string ty, k) | t ty k. ty \<noteq> NotSupported}"
proof -
  show "distinct (map fst (record_run to_str rs []))"
    by (induction rs rule: rev_induct) (simp_all add: record_run_def record_one_keys(1))
  show "fst ` set (record_run to_str rs []) \<subseteq> {(t, resumer_type_to_string ty, k) | t ty k. ty \<noteq> NotSupported}"
  proof (induction rs rule: rev_induct)
    case (snoc r rs)
    then show ?case unfolding record_run_def fold_append fold_simps comp_apply by (rule record_one_keys(2))
  qed (simp add: record_run_def)
qed

lemma table_row:
  assumes "ty \<noteq> NotSupported" "mset rows = mset (task_rows t (record_run to_str rs []))"
  shows "\<lbrakk>row \<in> set rows; row_kind row = Some ty; pr_position_key row = k\<rbrakk> \<Longrightarrow>
      \<exists>p. last_opt (positions_of t ty k rs) = Some p \<and> pr_position_data row = Some (to_str p)"
    "last_opt (positions_of t ty k rs) = Some p \<Longrightarrow>
      \<lparr>pr_resumer_type = resumer_type_to_string ty, pr_position_key = k, pr_position_data = Some (to_str p)\<rparr> \<in> set rows"
proof -
  have "set rows = set (task_rows t (record_run to_str rs []))" using assms(2) mset_eq_setD by blast
  then have mem: "row \<in> set rows \<longleftrightarrow>
      map_of (record_run to_str rs []) (t, pr_resumer_type row, pr_position_key row) = Some (pr_position_data row)" for row
    using record_run_table(1) by (simp add: task_rows_mem)
  show "\<exists>p. last_opt (positions_of t ty k rs) = Some p \<and> pr_position_data row = Some (to_str p)"
    if "row \<in> set rows" "row_kind row = Some ty" "pr_position_key row = k"
    using that record_run_row[OF assms(1), of to_str rs t k] unfolding mem row_kind_def kind_from_str
    by (cases "last_opt (positions_of t ty k rs)") simp_all
  show "\<lparr>pr_resumer_type = resumer_type_to_string ty, pr_position_key = k, pr_position_data = Some (to_str p)\<rparr> \<in> set rows"
    if "last_opt (positions_of t ty k rs) = Some p"
    using that record_run_row[OF assms(1), of to_str rs t k] unfolding mem by simp
qed

lemma rows_not_null:
  assumes "mset rows = mset (task_rows t (record_run to_str rs []))" "row \<in> set rows"
  shows "pr_position_data row \<noteq> None"
proof -
  have "row \<in> set (task_rows t (record_run to_str rs []))" using assms mset_eq_setD by blast
  then obtain ty where "row_kind row = Some ty" "ty \<noteq> NotSupported"
    using record_run_table(2)[of to_str rs] by (force simp: task_rows_mem row_kind_def)
  with table_row(1)[OF this(2) assms(1) assms(2) this(1) refl] show ?thesis by blast
qed

lemma positions_of_mem:
  "p \<in> set (positions_of t ty k rs) \<longleftrightarrow>
   (t, True, p) \<in> set rs \<and> resumer_type_from_position p = ty \<and> get_key_from_position p = k"
  by (force simp: positions_of_def)

lemma last_opt_in: "last_opt xs = Some x \<Longrightarrow> x \<in> set xs"
  by (auto simp: last_opt_def split: if_splits)

lemma no_members: "(\<And>x. x \<notin> set xs) \<Longrightarrow> xs = []"
  by (cases xs) auto

lemma doing_data_unique:
  assumes rows: "mset rows = mset (task_rows t (record_run to_str rs []))"
    and ty: "ty = SnapshotDoing \<and> ty' = CdcDoing \<or> ty = CdcDoing \<and> ty' = SnapshotDoing"
    and none: "positions_of t ty' k rs = []"
  shows "last_opt (doing_data k rows) = map_option to_str (last_opt (positions_of t ty k rs))"
proof -
  have ns: "ty \<noteq> NotSupported" "ty' \<noteq> NotSupported" using ty by auto
  let ?hit = "\<lambda>row. (row_kind row = Some SnapshotDoing \<or> row_kind row = Some CdcDoing) \<and> pr_position_key row = k"
  have "\<not> (row \<in> set rows \<and> row_kind row = Some ty' \<and> pr_position_key row = k)" for row
    using table_row(1)[OF ns(2) rows, of row k] none by auto
  then have hit: "row \<in> set rows \<and> ?hit row \<longleftrightarrow> row \<in> set rows \<and> row_kind row = Some ty \<and> pr_position_key row = k" for row
    using ty by blast
  have data: "d \<in> set (doing_data k rows) \<longleftrightarrow> (\<exists>row. row \<in> set rows \<and> ?hit row \<and> d = the (pr_position_data row))" for d
    by (force simp: doing_data_def)
  show ?thesis
  proof (cases "last_opt (positions_of t ty k rs)")
    case None
    have "d \<notin> set (doing_data k rows)" for d
      unfolding data using hit table_row(1)[OF ns(1) rows, of _ k] None by fastforce
    then have "doing_data k rows = []" by (rule no_members)
    with None show ?thesis by simp
  next
    case (Some p)
    let ?row = "\<lparr>pr_resumer_type = resumer_type_to_string ty, pr_position_key = k, pr_position_data = Some (to_str p)\<rparr>"
    have all: "\<forall>d\<in>set (doing_data k rows). d = to_str p"
    proof
      fix d assume "d \<in> set (doing_data k rows)"
      then obtain row where row: "row \<in> set rows \<and> row_kind row = Some ty \<and> pr_position_key row = k" "d = the (pr_position_data row)"
        unfolding data using hit by blast
      with table_row(1)[OF ns(1) rows, of row k] Some have "pr_position_data row = Some (to_str p)" by simp
      with row(2) show "d = to_str p" by simp
    qed
    have "?row \<in> set rows \<and> row_kind ?row = Some ty \<and> pr_position_key ?row = k"
      using table_row(2)[OF ns(1) rows Some] by (simp add: row_kind_def)
    then have "to_str p \<in> set (doing_data k rows)" unfolding data using hit[of ?row] by force
    then have "doing_data k rows \<noteq> []" by auto
    from last_opt_const[OF all this] Some show ?thesis by simp
  qed
qed

lemma finished_row:
  assumes "mset rows = mset (task_rows t (record_run to_str rs []))"
  shows "(\<exists>row\<in>set rows. row_kind row = Some SnapshotFinished \<and> pr_position_key row = k) \<longleftrightarrow>
    (\<exists>p. last_opt (positions_of t SnapshotFinished k rs) = Some p)"
proof
  assume "\<exists>row\<in>set rows. row_kind row = Some SnapshotFinished \<and> pr_position_key row = k"
  then show "\<exists>p. last_opt (positions_of t SnapshotFinished k rs) = Some p"
    using table_row(1)[OF _ assms, of SnapshotFinished _ k] by blast
next
  assume "\<exists>p. last_opt (positions_of t SnapshotFinished k rs) = Some p"
  then obtain p where "last_opt (positions_of t SnapshotFinished k rs) = Some p" by blast
  from table_row(2)[OF _ assms this]
  show "\<exists>row\<in>set rows. row_kind row = Some SnapshotFinished \<and> pr_position_key row = k"
    by (force simp: row_kind_def)
qed

lemma default_key_no_dash: "schema @ ''-'' @ tb \<noteq> ''default_key''"
proof
  assume "schema @ ''-'' @ tb = ''default_key''"
  then have "CHR ''-'' \<in> set ''default_key''" by (metis in_set_conv_decomp append_Cons append_Nil)
  then show False by simp
qed

lemma doing_key_dash: "resumer_type_from_position p = SnapshotDoing \<Longrightarrow> get_key_from_position p \<noteq> ''default_key''"
  using default_key_no_dash by (cases p) (simp_all add: resumer_type_from_position_def get_key_from_position_def)

lemma cdc_key:
  "resumer_type_from_position p = CdcDoing \<Longrightarrow> get_key_from_position p = ''default_key'' \<or> (\<exists>topic part offset. p = PosKafka topic part offset)"
  by (cases p) (simp_all add: resumer_type_from_position_def get_key_from_position_def)

text \<open>
  C13: The recovery from the table finds what was recorded last. After any sequence of recordings by any tasks,
  in which some statements may fail, and for every order in which the query returns the rows of a task: the
  position to resume a table from is the last one the task recorded under the key of the table, the position to
  resume a change stream from is the last one it recorded under the default key, and a table counts as finished
  when the task recorded so under its key.
\<close>

theorem database_recovery_latest:
  assumes "mset rows = mset (task_rows t (record_run to_str rs []))"
    and "\<forall>r\<in>set rs. json_position to_str from_str (snd (snd r))"
    and "\<forall>r\<in>set rs. \<forall>topic part offset. snd (snd r) = PosKafka topic part offset \<longrightarrow>
      get_key_from_position (snd (snd r)) \<noteq> get_key_from_base (schema, tb) SnapshotDoing"
  shows "\<exists>r. database_recovery_init pool rows FetchDone = Inr r \<and>
    db_get_snapshot_resume_position from_str r schema tb checkpoint =
      Inr (last_opt (positions_of t SnapshotDoing (get_key_from_base (schema, tb) SnapshotDoing) rs)) \<and>
    db_get_cdc_resume_position from_str r = Inr (last_opt (positions_of t CdcDoing ''default_key'' rs)) \<and>
    (db_check_snapshot_finished r schema tb \<longleftrightarrow>
      positions_of t SnapshotFinished (get_key_from_base (schema, tb) SnapshotFinished) rs \<noteq> [])"
proof -
  let ?k = "get_key_from_base (schema, tb) SnapshotDoing"
  have k: "?k = schema @ ''-'' @ tb" "?k \<noteq> ''default_key''"
    using default_key_no_dash by (simp_all add: get_key_from_base_def)
  from recovery_fold[of rows] rows_not_null[OF assms(1)] obtain r where
    r: "fold_res recovery_row \<lparr>resumer_doing = [], resumer_finished = []\<rparr> rows = Inr r"
    "\<forall>k. map_of (resumer_doing r) k = last_opt (doing_data k rows)"
    "\<forall>k. map_of (resumer_finished r) k \<noteq> None \<longleftrightarrow> (\<exists>row\<in>set rows. row_kind row = Some SnapshotFinished \<and> pr_position_key row = k)"
    by blast
  have "p \<notin> set (positions_of t CdcDoing ?k rs)" for p
    using assms(3) cdc_key[of p] k(2) by (fastforce simp: positions_of_mem)
  moreover have "p \<notin> set (positions_of t SnapshotDoing ''default_key'' rs)" for p
    using doing_key_dash[of p] by (auto simp: positions_of_mem)
  ultimately have "positions_of t CdcDoing ?k rs = []" "positions_of t SnapshotDoing ''default_key'' rs = []"
    by (simp_all add: no_members)
  with doing_data_unique[OF assms(1)] r(2) have doing:
    "map_of (resumer_doing r) ?k = map_option to_str (last_opt (positions_of t SnapshotDoing ?k rs))"
    "map_of (resumer_doing r) ''default_key'' = map_option to_str (last_opt (positions_of t CdcDoing ''default_key'' rs))"
    by auto
  have read: "from_log from_str (to_str p) = Inr p" if "p \<in> set (positions_of t ty k rs)" for p ty k
    using that assms(2) by (intro from_log_printed) (auto simp: positions_of_mem)
  have "db_get_snapshot_resume_position from_str r schema tb checkpoint = Inr (last_opt (positions_of t SnapshotDoing ?k rs))"
  proof (cases "last_opt (positions_of t SnapshotDoing ?k rs)")
    case None
    then show ?thesis by (simp add: db_get_snapshot_resume_position_def doing(1))
  next
    case (Some p)
    from last_opt_in[OF this] have "resumer_type_from_position p = SnapshotDoing" by (simp add: positions_of_mem)
    with Some read[OF last_opt_in[OF Some]] show ?thesis
      by (cases p) (simp_all add: db_get_snapshot_resume_position_def doing(1) resumer_type_from_position_def)
  qed
  moreover have "db_get_cdc_resume_position from_str r = Inr (last_opt (positions_of t CdcDoing ''default_key'' rs))"
    using read[OF last_opt_in]
    by (auto simp: db_get_cdc_resume_position_def get_key_from_base_def doing(2) split: option.split)
  moreover have "db_check_snapshot_finished r schema tb \<longleftrightarrow> positions_of t SnapshotFinished ?k rs \<noteq> []"
  proof -
    have "db_check_snapshot_finished r schema tb \<longleftrightarrow> (\<exists>row\<in>set rows. row_kind row = Some SnapshotFinished \<and> pr_position_key row = ?k)"
      using r(3) by (simp add: db_check_snapshot_finished_def get_key_from_base_def)
    also have "\<dots> \<longleftrightarrow> (\<exists>p. last_opt (positions_of t SnapshotFinished ?k rs) = Some p)"
      using finished_row[OF assms(1)] by blast
    finally show ?thesis by (auto simp: last_opt_def)
  qed
  ultimately show ?thesis using r(1) by (simp add: database_recovery_init_def get_key_from_base_def)
qed

text \<open>A printer of finitely many positions: the place of a position in a list, as the length of a text.\<close>

definition sample_to_str :: "position list \<Rightarrow> position \<Rightarrow> string" where
  "sample_to_str ps p = ''{'' @ replicate (length (takeWhile (\<lambda>q. q \<noteq> p) ps)) (CHR ''x'') @ ''}''"

definition sample_from_str :: "position list \<Rightarrow> string \<Rightarrow> position option" where
  "sample_from_str ps s = (if length s - 2 < length ps then Some (ps ! (length s - 2)) else None)"

lemma sample_json:
  assumes "p \<in> set ps"
  shows "json_position (sample_to_str ps) (sample_from_str ps) p"
proof -
  have "length (takeWhile (\<lambda>q. q \<noteq> p) ps) < length ps \<and> ps ! length (takeWhile (\<lambda>q. q \<noteq> p) ps) = p"
    using assms by (induction ps) auto
  then show ?thesis by (simp add: json_position_def sample_to_str_def sample_from_str_def)
qed

text \<open>
  Two tasks record positions of a table; one statement fails; the first task also follows a change stream
  and finishes another table.
\<close>

definition sample_position :: "string \<Rightarrow> position" where
  "sample_position v = PosRdbSnapshot ''mysql'' ''db'' ''tb'' (Some (OrderSingle (''id'', Some v)))"

definition sample_recordings :: "recording list" where
  "sample_recordings =
     [(''t1'', True, sample_position ''1''), (''t1'', True, PosPgCdc ''0/1'' []), (''t1'', True, sample_position ''2''),
      (''t2'', True, sample_position ''9''), (''t1'', False, sample_position ''3''),
      (''t1'', True, PosRdbSnapshotFinished ''mysql'' ''db'' ''tb2'')]"

theorem database_recovery_latest_witness:
  "\<exists>r. database_recovery_init PoolMySql
      (rev (task_rows ''t1'' (record_run (sample_to_str (map (snd \<circ> snd) sample_recordings)) sample_recordings []))) FetchDone = Inr r \<and>
    db_get_snapshot_resume_position (sample_from_str (map (snd \<circ> snd) sample_recordings)) r ''db'' ''tb'' False =
      Inr (Some (sample_position ''2'')) \<and>
    db_get_cdc_resume_position (sample_from_str (map (snd \<circ> snd) sample_recordings)) r = Inr (Some (PosPgCdc ''0/1'' [])) \<and>
    \<not> db_check_snapshot_finished r ''db'' ''tb''"
proof -
  let ?ps = "map (snd \<circ> snd) sample_recordings"
  let ?rows = "rev (task_rows ''t1'' (record_run (sample_to_str ?ps) sample_recordings []))"
  have 1: "mset ?rows = mset (task_rows ''t1'' (record_run (sample_to_str ?ps) sample_recordings []))" by simp
  have 2: "\<forall>r\<in>set sample_recordings. json_position (sample_to_str ?ps) (sample_from_str ?ps) (snd (snd r))"
    using sample_json by force
  have 3: "\<forall>r\<in>set sample_recordings. \<forall>topic part offset. snd (snd r) = PosKafka topic part offset \<longrightarrow>
      get_key_from_position (snd (snd r)) \<noteq> get_key_from_base (''db'', ''tb'') SnapshotDoing"
    by (simp add: sample_recordings_def sample_position_def)
  have pos: "positions_of ''t1'' SnapshotDoing (get_key_from_base (''db'', ''tb'') SnapshotDoing) sample_recordings =
      [sample_position ''1'', sample_position ''2'']"
    "positions_of ''t1'' CdcDoing ''default_key'' sample_recordings = [PosPgCdc ''0/1'' []]"
    "positions_of ''t1'' SnapshotFinished (get_key_from_base (''db'', ''tb'') SnapshotFinished) sample_recordings = []"
    by (simp_all add: positions_of_def sample_recordings_def sample_position_def resumer_type_from_position_def
        get_key_from_position_def get_key_from_base_def)
  show ?thesis
    using database_recovery_latest[OF 1 2 3, of PoolMySql False] unfolding pos last_opt_def by simp
qed

text \<open>
  C36: The key of a table joins its schema and its name, so two tables can share one: when a task has finished
  the table \<open>c\<close> of the schema \<open>a-b\<close>, the recovery reports the table \<open>b-c\<close> of the schema \<open>a\<close> as finished,
  and the task skips it.
\<close>

theorem finished_key_collision:
  "\<exists>r. database_recovery_init pool (task_rows t (record_run to_str [(t, True, PosRdbSnapshotFinished db (a @ ''-'' @ b) c)] [])) FetchDone = Inr r \<and>
    db_check_snapshot_finished r a (b @ ''-'' @ c)"
  by (auto simp: record_run_def record_one_def record_position_def resumer_type_from_position_def resumer_type_to_string_def
      get_key_from_position_def get_key_from_base_def task_rows_def database_recovery_init_def recovery_row_def
      resumer_type_from_str_def db_check_snapshot_finished_def)

text \<open>
  The position of a Kafka source is recorded under the key of its topic and partition but looked up under the
  default key: the recovery from the table never finds it, and the task starts from its configured offset.
\<close>

lemma kafka_position_not_recovered:
  "\<exists>r. database_recovery_init pool (task_rows t (record_run to_str [(t, True, PosKafka topic part offset)] [])) FetchDone = Inr r \<and>
    db_get_cdc_resume_position from_str r = Inr None"
  using default_key_no_dash[of topic "int_to_string (sint part)"]
  by (simp add: record_run_def record_one_def record_position_def resumer_type_from_position_def resumer_type_to_string_def
      get_key_from_position_def get_key_from_base_def task_rows_def database_recovery_init_def recovery_row_def doing_row_def
      resumer_type_from_str_def db_get_cdc_resume_position_def)

section \<open>What a task relies on\<close>

text \<open>
  A store of positions, as the snapshot tasks use it: keeping a checkpoint adds at most its positions,
  and what is recovered for a table is a position that was kept.
\<close>

locale position_store =
  fixes keep :: "'i \<Rightarrow> 'c \<Rightarrow> 's \<Rightarrow> 's"
    and positions :: "'c \<Rightarrow> position set"
    and readable :: "position \<Rightarrow> bool"
    and proper :: "'i \<Rightarrow> bool"
    and usable :: "'s \<Rightarrow> bool"
    and stored :: "'s \<Rightarrow> position set"
    and recover :: "'s \<Rightarrow> string \<Rightarrow> string \<Rightarrow> bool \<Rightarrow> position option res"
  assumes keep_usable: "\<lbrakk>usable s; proper i; \<forall>p\<in>positions c. readable p\<rbrakk> \<Longrightarrow> usable (keep i c s)"
    and keep_stored: "\<lbrakk>usable s; proper i; \<forall>p\<in>positions c. readable p\<rbrakk> \<Longrightarrow> stored (keep i c s) \<subseteq> stored s \<union> positions c"
    and recovers: "usable s \<Longrightarrow> \<exists>found. recover s schema tb checkpoint = Inr found \<and> (\<forall>p. found = Some p \<longrightarrow> p \<in> stored s)"
begin

lemma keep_all:
  assumes "usable s" "\<forall>(i, c)\<in>set ics. proper i \<and> (\<forall>p\<in>positions c. readable p)"
  shows "usable (fold (\<lambda>(i, c). keep i c) ics s) \<and>
    stored (fold (\<lambda>(i, c). keep i c) ics s) \<subseteq> stored s \<union> (\<Union>(i, c)\<in>set ics. positions c)"
  using assms
proof (induction ics arbitrary: s)
  case (Cons ic ics)
  obtain i c where ic: "ic = (i, c)" by (cases ic)
  have 1: "usable (keep i c s)" "stored (keep i c s) \<subseteq> stored s \<union> positions c"
    using keep_usable keep_stored Cons.prems by (simp_all add: ic)
  have 2: "\<forall>(i, c)\<in>set ics. proper i \<and> (\<forall>p\<in>positions c. readable p)" using Cons.prems(2) by simp
  show ?case using Cons.IH[OF 1(1) 2] 1(2) by (auto simp: ic)
qed simp

end

text \<open>The table of positions is such a store for every task.\<close>

definition db_usable :: "(string \<Rightarrow> position option) \<Rightarrow> string \<Rightarrow> position_table \<Rightarrow> bool" where
  "db_usable from_str t tab \<longleftrightarrow>
     distinct (map fst tab) \<and> (\<forall>row\<in>set (task_rows t tab). \<exists>d p. pr_position_data row = Some d \<and> from_log from_str d = Inr p)"

definition db_stored :: "(string \<Rightarrow> position option) \<Rightarrow> string \<Rightarrow> position_table \<Rightarrow> position set" where
  "db_stored from_str t tab =
     {p. \<exists>row\<in>set (task_rows t tab). \<exists>d. pr_position_data row = Some d \<and> from_log from_str d = Inr p}"

definition db_recover ::
  "(string \<Rightarrow> position option) \<Rightarrow> resumer_pool \<Rightarrow> string \<Rightarrow> position_table \<Rightarrow> string \<Rightarrow> string \<Rightarrow> bool \<Rightarrow> position option res" where
  "db_recover from_str pool t tab schema tb checkpoint =
     bind_res (database_recovery_init pool (task_rows t tab) FetchDone)
       (\<lambda>r. db_get_snapshot_resume_position from_str r schema tb checkpoint)"

definition db_keep :: "(position \<Rightarrow> string) \<Rightarrow> string \<Rightarrow> bool \<Rightarrow> position \<Rightarrow> position_table \<Rightarrow> position_table" where
  "db_keep to_str t executed p tab = record_one to_str (t, executed, p) tab"

lemma task_rows_update:
  assumes "distinct (map fst tab)"
  shows "row \<in> set (task_rows t (AList.update (t, ty, k) v tab)) \<longleftrightarrow>
    row = \<lparr>pr_resumer_type = ty, pr_position_key = k, pr_position_data = v\<rparr> \<or>
    row \<in> set (task_rows t tab) \<and> (pr_resumer_type row, pr_position_key row) \<noteq> (ty, k)"
proof -
  have "distinct (map fst (AList.update (t, ty, k) v tab))" using assms by (rule distinct_update)
  then show ?thesis unfolding task_rows_mem map_of_eq_Some_iff[OF assms, symmetric]
    by (subst map_of_eq_Some_iff[symmetric], assumption) (cases row, auto)
qed

lemma keep_rows:
  assumes "distinct (map fst tab)" "json_position to_str from_str p" "row \<in> set (task_rows t (db_keep to_str t executed p tab))"
  shows "row \<in> set (task_rows t tab) \<or> (\<exists>d. pr_position_data row = Some d \<and> from_log from_str d = Inr p)"
  using assms(3) from_log_printed[OF assms(2)]
  by (auto simp: db_keep_def record_one_def record_position_def Let_def task_rows_update[OF assms(1)] split: if_splits)

interpretation db: position_store "db_keep to_str t" "\<lambda>p. {p}" "json_position to_str from_str" "\<lambda>_. True"
  "db_usable from_str t" "db_stored from_str t" "db_recover from_str pool t"
  for to_str from_str t pool
proof
  fix s i c
  assume a: "db_usable from_str t s" "\<forall>p\<in>{c}. json_position to_str from_str p"
  from a have d: "distinct (map fst s)" and j: "json_position to_str from_str c" by (simp_all add: db_usable_def)
  have "distinct (map fst (db_keep to_str t i c s))" unfolding db_keep_def by (rule record_one_keys(1)[OF d])
  with keep_rows[OF d j] a(1) show "db_usable from_str t (db_keep to_str t i c s)" unfolding db_usable_def by blast
  show "db_stored from_str t (db_keep to_str t i c s) \<subseteq> db_stored from_str t s \<union> {c}"
    using keep_rows[OF d j, of _ t i] by (fastforce simp: db_stored_def)
next
  fix s schema tb checkpoint
  assume "db_usable from_str t s"
  then have rows: "\<exists>d p. pr_position_data row = Some d \<and> from_log from_str d = Inr p" if "row \<in> set (task_rows t s)" for row
    using that by (auto simp: db_usable_def)
  then have "\<forall>row\<in>set (task_rows t s). pr_position_data row \<noteq> None" by force
  from recovery_fold[OF this] obtain r where
    r: "fold_res recovery_row \<lparr>resumer_doing = [], resumer_finished = []\<rparr> (task_rows t s) = Inr r"
      "\<forall>k. map_of (resumer_doing r) k = last_opt (doing_data k (task_rows t s))" by blast
  let ?k = "get_key_from_base (schema, tb) SnapshotDoing"
  have rec: "db_recover from_str pool t s schema tb checkpoint = db_get_snapshot_resume_position from_str r schema tb checkpoint"
    by (simp add: db_recover_def database_recovery_init_def r(1))
  show "\<exists>found. db_recover from_str pool t s schema tb checkpoint = Inr found \<and> (\<forall>p. found = Some p \<longrightarrow> p \<in> db_stored from_str t s)"
  proof (cases "map_of (resumer_doing r) ?k")
    case None
    then show ?thesis unfolding rec by (simp add: db_get_snapshot_resume_position_def)
  next
    case (Some d)
    with r(2) have "d \<in> set (doing_data ?k (task_rows t s))" using last_opt_in by metis
    then obtain row where "row \<in> set (task_rows t s)" "d = the (pr_position_data row)" by (auto simp: doing_data_def)
    with rows[of row] obtain p where p: "from_log from_str d = Inr p" "p \<in> db_stored from_str t s"
      by (force simp: db_stored_def)
    then show ?thesis unfolding rec db_get_snapshot_resume_position_def Some by (cases p) simp_all
  qed
qed

end
