(* ===== verification/Log_Recovery.thy ===== *)
theory Log_Recovery
  imports Recovery
begin

text \<open>
  What the recovery from the logs finds: the lines \<open>FileUtil::tail\<close> returns, and the positions of the
  last lines of the position log.
\<close>

section \<open>The end of a file\<close>

definition unlines :: "string list \<Rightarrow> string" where
  "unlines ls = concat (map (\<lambda>l. l @ [CHR 0x0A]) ls)"

lemma unlines_simps [simp]:
  "unlines [] = []" "unlines (l # ls) = l @ CHR 0x0A # unlines ls" "unlines (xs @ ys) = unlines xs @ unlines ys"
  by (simp_all add: unlines_def)

lemma split_char_line: "c \<notin> set l \<Longrightarrow> split_char c (l @ c # s) = l # split_char c s"
  by (induction l) auto

lemma split_unlines: "\<forall>l\<in>set ls. CHR 0x0A \<notin> set l \<Longrightarrow> split_char (CHR 0x0A) (unlines ls) = ls @ [[]]"
  by (induction ls) (simp_all add: split_char_line)

lemma tail_start_zero: "tail_start c 0 m = m"
  by (cases m) simp_all

lemma tail_start_step: "tail_start c (Suc n) (Suc i) = tail_start c (if c ! i = CHR 0x0A then n else Suc n) i"
  by (cases i) simp_all

lemma tail_start_prefix: "m \<le> length c \<Longrightarrow> tail_start (c @ d) n m = tail_start c n m"
  by (induction m arbitrary: n) (simp_all add: nth_append)

lemma tail_start_line:
  "CHR 0x0A \<notin> set l \<Longrightarrow> tail_start (c @ l @ d) (Suc n) (length c + length l) = tail_start c (Suc n) (length c)"
proof (induction l arbitrary: d rule: rev_induct)
  case Nil
  then show ?case by (simp add: tail_start_prefix)
next
  case (snoc x l)
  then have ih: "tail_start (c @ l @ [x] @ d) (Suc n) (length c + length l) = tail_start c (Suc n) (length c)" by simp
  have "(c @ (l @ [x]) @ d) ! (length c + length l) = x" by (simp add: nth_append)
  moreover have "length c + length (l @ [x]) = Suc (length c + length l)" by simp
  moreover have "x \<noteq> CHR 0x0A" using snoc.prems by auto
  ultimately show ?case using ih by (simp only: tail_start_step) simp
qed

lemma tail_start_le: "tail_start c n m \<le> m"
  by (induction m arbitrary: n) (auto intro: le_SucI)

lemma tail_start_last:
  assumes "CHR 0x0A \<notin> set l"
  shows "tail_start (c @ l @ [CHR 0x0A]) (Suc n) (length (c @ l @ [CHR 0x0A])) =
    (if n = 0 then length c + length l else tail_start c n (length c))"
proof -
  have "(c @ l @ [CHR 0x0A]) ! (length c + length l) = CHR 0x0A" by (simp add: nth_append)
  then have "tail_start (c @ l @ [CHR 0x0A]) (Suc n) (Suc (length c + length l)) = tail_start (c @ l @ [CHR 0x0A]) n (length c + length l)"
    unfolding tail_start_step by simp
  then show ?thesis using tail_start_line[OF assms, of c "[CHR 0x0A]" "n - 1"]
    by (cases n) (simp_all add: tail_start_zero)
qed

lemma tail_lines:
  assumes "\<forall>l\<in>set ls. CHR 0x0A \<notin> set l"
  shows "drop (tail_start (unlines ls) (Suc n) (length (unlines ls))) (unlines ls) =
    (if length ls \<le> n then unlines ls else CHR 0x0A # unlines (drop (length ls - n) ls))"
  using assms
proof (induction n arbitrary: ls)
  case 0
  show ?case
  proof (cases ls rule: rev_cases)
    case (snoc xs l)
    with 0 tail_start_last[of l "unlines xs" 0] show ?thesis by simp
  qed simp
next
  case (Suc n)
  show ?case
  proof (cases ls rule: rev_cases)
    case (snoc xs l)
    with Suc.prems have "\<forall>l\<in>set xs. CHR 0x0A \<notin> set l" by simp
    note ih = Suc.IH[OF this]
    from snoc Suc.prems tail_start_last[of l "unlines xs" "Suc n"]
    have "tail_start (unlines ls) (Suc (Suc n)) (length (unlines ls)) = tail_start (unlines xs) (Suc n) (length (unlines xs))" by simp
    with ih tail_start_le[of "unlines xs" "Suc n" "length (unlines xs)"] snoc show ?thesis
      by (simp add: Suc_diff_le)
  qed simp
qed

text \<open>\<open>tail\<close> of \<open>n\<close> lines returns \<open>n - 1\<close> lines of a longer file, between two empty ones.\<close>

lemma file_tail_lines:
  assumes "\<forall>l\<in>set ls. CHR 0x0A \<notin> set l"
  shows "file_tail (unlines ls) (Suc n) = (if length ls \<le> n then ls @ [[]] else [] # drop (length ls - n) ls @ [[]])"
proof -
  have "\<forall>l\<in>set (drop (length ls - n) ls). CHR 0x0A \<notin> set l" using assms in_set_dropD by fast
  then show ?thesis unfolding file_tail_def tail_lines[OF assms] using split_unlines assms by simp
qed

lemma buf_lines_unlines:
  assumes "\<forall>l\<in>set ls. CHR 0x0A \<notin> set l \<and> (l \<noteq> [] \<longrightarrow> last l \<noteq> CHR 0x0D)"
  shows "buf_lines (unlines ls) = ls"
proof -
  have "map strip_cr ls = ls" using assms by (intro map_idI) (auto simp: strip_cr_def)
  then show ?thesis using split_unlines[of ls] assms by (simp add: buf_lines_def)
qed

section \<open>The lines of the position log\<close>

lemma contains_skip: "pat \<noteq> [] \<Longrightarrow> hd pat \<notin> set s \<Longrightarrow> str_contains pat (s @ t) = str_contains pat t"
  by (induction s) (auto simp: prefix_Cons neq_Nil_conv)

text \<open>An entry of the position log: its time stamp, whether it is a current position, and the position.\<close>

type_synonym log_entry = "string \<times> bool \<times> position"

definition position_line :: "(position \<Rightarrow> string) \<Rightarrow> log_entry \<Rightarrow> string" where
  "position_line to_str = (\<lambda>(stamp, current, p).
     stamp @ '' | '' @ (if current then ''current_position'' else ''checkpoint_position'') @ '' | '' @ to_str p)"

definition finished_line :: "(position \<Rightarrow> string) \<Rightarrow> string \<times> position \<Rightarrow> string" where
  "finished_line to_str = (\<lambda>(stamp, p). stamp @ '' | '' @ to_str p)"

text \<open>
  A time stamp has no bars, braces or ends of lines, and a printed position is a JSON object on one line
  whose text is not taken for the mark of a current position.
\<close>

definition time_stamp :: "string \<Rightarrow> bool" where
  "time_stamp stamp \<longleftrightarrow> stamp \<noteq> [] \<and> solid (hd stamp) \<and> set stamp \<inter> {CHR ''|'', CHR ''{'', CHR 0x0A} = {}"

definition plain_position :: "(position \<Rightarrow> string) \<Rightarrow> (string \<Rightarrow> position option) \<Rightarrow> position \<Rightarrow> bool" where
  "plain_position to_str from_str p \<longleftrightarrow>
     json_position to_str from_str p \<and> CHR 0x0A \<notin> set (to_str p) \<and> \<not> is_current_line (to_str p)"

lemma position_line_read:
  assumes "time_stamp stamp" "plain_position to_str from_str p"
  shows "from_log from_str (position_line to_str (stamp, current, p)) = Inr p"
    "is_current_line (position_line to_str (stamp, current, p)) = current"
    "CHR 0x0A \<notin> set (position_line to_str (stamp, current, p))"
proof -
  let ?tag = "'' | '' @ (if current then ''current_position'' else ''checkpoint_position'') @ '' | ''"
  have "log_stamp (stamp @ ?tag)" using assms(1) by (auto simp: log_stamp_def time_stamp_def)
  from from_log_json[OF _ this] assms(2) show "from_log from_str (position_line to_str (stamp, current, p)) = Inr p"
    by (simp add: position_line_def plain_position_def)
  obtain a where a: "to_str p = CHR ''{'' # a" using assms(2) unfolding plain_position_def json_position_def by (metis list.collapse)
  have "str_contains ''| current_position |'' (stamp @ ?tag @ to_str p) = str_contains ''| current_position |'' (?tag @ to_str p)"
    by (rule contains_skip) (use assms(1) in \<open>auto simp: time_stamp_def\<close>)
  also have "\<dots> \<longleftrightarrow> current"
    using assms(2) by (cases current) (simp_all add: a plain_position_def is_current_line_def)
  finally show "is_current_line (position_line to_str (stamp, current, p)) = current"
    by (simp add: is_current_line_def position_line_def)
  show "CHR 0x0A \<notin> set (position_line to_str (stamp, current, p))"
    using assms by (auto simp: position_line_def time_stamp_def plain_position_def)
qed

lemma finished_line_read:
  assumes "time_stamp stamp" "plain_position to_str from_str p"
  shows "from_log from_str (finished_line to_str (stamp, p)) = Inr p"
    "\<not> is_current_line (finished_line to_str (stamp, p))"
    "CHR 0x0A \<notin> set (finished_line to_str (stamp, p))" "finished_line to_str (stamp, p) \<noteq> []"
    "last (finished_line to_str (stamp, p)) \<noteq> CHR 0x0D"
proof -
  have "log_stamp (stamp @ '' | '')" using assms(1) by (auto simp: log_stamp_def time_stamp_def)
  from from_log_json[OF _ this] assms(2) show "from_log from_str (finished_line to_str (stamp, p)) = Inr p"
    by (simp add: finished_line_def plain_position_def)
  obtain a where a: "to_str p = CHR ''{'' # a" using assms(2) unfolding plain_position_def json_position_def by (metis list.collapse)
  have "str_contains ''| current_position |'' (stamp @ '' | '' @ to_str p) = str_contains ''| current_position |'' ('' | '' @ to_str p)"
    by (rule contains_skip) (use assms(1) in \<open>auto simp: time_stamp_def\<close>)
  also have "\<dots> \<longleftrightarrow> False" using assms(2) by (simp add: a plain_position_def is_current_line_def)
  finally show "\<not> is_current_line (finished_line to_str (stamp, p))" by (simp add: is_current_line_def finished_line_def)
  show "CHR 0x0A \<notin> set (finished_line to_str (stamp, p))" "finished_line to_str (stamp, p) \<noteq> []"
    using assms by (auto simp: finished_line_def time_stamp_def plain_position_def)
  show "last (finished_line to_str (stamp, p)) \<noteq> CHR 0x0D"
    using assms(2) by (auto simp: finished_line_def plain_position_def json_position_def)
qed

section \<open>What the lines leave in the caches\<close>

definition table_of :: "position \<Rightarrow> (string \<times> string) option" where
  "table_of p =
     (case p of PosRdbSnapshot _ schema tb _ \<Rightarrow> Some (schema, tb) | PosFoxlakeS3 schema tb _ \<Rightarrow> Some (schema, tb) | _ \<Rightarrow> None)"

definition finished_of :: "position \<Rightarrow> (string \<times> string) option" where
  "finished_of p = (case p of PosRdbSnapshotFinished _ schema tb \<Rightarrow> Some (schema, tb) | _ \<Rightarrow> None)"

definition entries_of :: "(position \<Rightarrow> bool) \<Rightarrow> bool \<Rightarrow> log_entry list \<Rightarrow> position list" where
  "entries_of P current es = map (\<lambda>(_, _, p). p) (filter (\<lambda>(_, c, p). c = current \<and> P p) es)"

lemma entries_of_simps [simp]:
  "entries_of P current [] = []"
  "entries_of P current ((l, c, p) # es) = (if c = current \<and> P p then [p] else []) @ entries_of P current es"
  "entries_of P current (xs @ ys) = entries_of P current xs @ entries_of P current ys"
  by (simp_all add: entries_of_def)

definition or_else :: "'a option \<Rightarrow> 'a option \<Rightarrow> 'a option" where
  "or_else x y = (case x of Some v \<Rightarrow> Some v | None \<Rightarrow> y)"

lemma or_else_simps [simp]: "or_else None y = y" "or_else (Some v) y = Some v" "or_else x None = x"
  by (simp_all add: or_else_def split: option.split)

text \<open>Lines with what they are read as.\<close>

definition lines_read :: "(string \<Rightarrow> position option) \<Rightarrow> log_entry list \<Rightarrow> bool" where
  "lines_read from_str es \<longleftrightarrow> (\<forall>(l, c, p)\<in>set es. from_log from_str l = Inr p \<and> is_current_line l = c)"

lemma snapshot_lines:
  assumes "lines_read from_str es"
  shows "\<exists>r'. fold_res (parse_snapshot_line from_str) r (map fst es) = Inr r' \<and>
    lr_resume_log_dir r' = lr_resume_log_dir r \<and>
    (\<forall>k. map_of (current_tb_positions (lr_snapshot_cache r')) k =
      or_else (last_opt (entries_of (\<lambda>p. table_of p = Some k) True es)) (map_of (current_tb_positions (lr_snapshot_cache r)) k)) \<and>
    (\<forall>k. map_of (checkpoint_tb_positions (lr_snapshot_cache r')) k =
      or_else (last_opt (entries_of (\<lambda>p. table_of p = Some k) False es)) (map_of (checkpoint_tb_positions (lr_snapshot_cache r)) k)) \<and>
    (\<forall>k. map_of (finished_tbs (lr_snapshot_cache r')) k \<noteq> None \<longleftrightarrow>
      map_of (finished_tbs (lr_snapshot_cache r)) k \<noteq> None \<or> (\<exists>(l, c, p)\<in>set es. finished_of p = Some k))"
  using assms
proof (induction es arbitrary: r)
  case (Cons e es)
  obtain l c p where e: "e = (l, c, p)" by (cases e)
  from Cons.prems have read: "from_log from_str l = Inr p" "is_current_line l = c" "lines_read from_str es"
    by (auto simp: lines_read_def e)
  obtain r1 where r1: "parse_snapshot_line from_str r l = Inr r1" using read(1) by (simp add: parse_snapshot_line_def map_res_def)
  then have step: "r1 = (let cache = lr_snapshot_cache r in
      case table_of p of
        Some k \<Rightarrow> r\<lparr>lr_snapshot_cache := (if c then cache\<lparr>current_tb_positions := AList.update k p (current_tb_positions cache)\<rparr>
          else cache\<lparr>checkpoint_tb_positions := AList.update k p (checkpoint_tb_positions cache)\<rparr>)\<rparr>
      | None \<Rightarrow> (case finished_of p of
          Some k \<Rightarrow> r\<lparr>lr_snapshot_cache := cache\<lparr>finished_tbs := AList.update k True (finished_tbs cache)\<rparr>\<rparr> | None \<Rightarrow> r))"
    by (cases p; cases c) (simp_all add: parse_snapshot_line_def read table_of_def finished_of_def Let_def)
  have "finished_of p = None" if "table_of p \<noteq> None" using that by (cases p) (simp_all add: table_of_def finished_of_def)
  with Cons.IH[OF read(3), of r1] show ?case
    unfolding e fst_conv list.map fold_res.simps r1 bind_res_simps step Let_def
    by (cases "table_of p"; cases "finished_of p"; cases c) (auto simp: or_else_def split: option.splits; fail)+
qed simp

lemma cdc_lines:
  assumes "lines_read from_str es"
  shows "\<exists>r'. fold_res (parse_cdc_line from_str) r (map fst es) = Inr r' \<and>
    (\<forall>c. map_of (lr_cdc_cache r') (if c then ''current_position'' else ''checkpoint_position'') =
      or_else (last_opt (entries_of (\<lambda>p. p \<noteq> PosNone) c es)) (map_of (lr_cdc_cache r) (if c then ''current_position'' else ''checkpoint_position'')))"
  using assms
proof (induction es arbitrary: r)
  case (Cons e es)
  obtain l c p where e: "e = (l, c, p)" by (cases e)
  from Cons.prems have read: "from_log from_str l = Inr p" "is_current_line l = c" "lines_read from_str es"
    by (auto simp: lines_read_def e)
  have step: "parse_cdc_line from_str r l =
      Inr (if p = PosNone then r else r\<lparr>lr_cdc_cache := AList.update (if c then ''current_position'' else ''checkpoint_position'') p (lr_cdc_cache r)\<rparr>)"
    by (simp add: parse_cdc_line_def read)
  from Cons.IH[OF read(3)] obtain r' where
    "fold_res (parse_cdc_line from_str) (if p = PosNone then r else r\<lparr>lr_cdc_cache :=
        AList.update (if c then ''current_position'' else ''checkpoint_position'') p (lr_cdc_cache r)\<rparr>) (map fst es) = Inr r'"
    "\<forall>d. map_of (lr_cdc_cache r') (if d then ''current_position'' else ''checkpoint_position'') =
      or_else (last_opt (entries_of (\<lambda>p. p \<noteq> PosNone) d es)) (map_of (lr_cdc_cache (if p = PosNone then r else r\<lparr>lr_cdc_cache :=
           AList.update (if c then ''current_position'' else ''checkpoint_position'') p (lr_cdc_cache r)\<rparr>))
           (if d then ''current_position'' else ''checkpoint_position''))" by blast
  then show ?case
    unfolding e fst_conv list.map fold_res.simps step bind_res_simps
    by (cases c; cases "p = PosNone") (auto simp: or_else_def split: option.splits)
qed simp

lemma blank_read: "from_log from_str [] = Inr PosNone" "\<not> is_current_line []"
  by (simp_all add: from_log_def trim_def is_current_line_def strip_front_id starts_with_def)

lemma position_log_lines:
  assumes "\<forall>(stamp, c, p)\<in>set es. time_stamp stamp \<and> plain_position to_str from_str p"
  shows "\<exists>ls. file_tail (unlines (map (position_line to_str) es)) 200 = map fst ls \<and> lines_read from_str ls \<and>
    (\<forall>P current. P PosNone = False \<longrightarrow> entries_of P current ls = entries_of P current (drop (length es - 199) es)) \<and>
    (\<forall>(l, c, p)\<in>set ls. p = PosNone \<or> (\<exists>stamp. (stamp, c, p) \<in> set es))"
proof -
  let ?read = "map (\<lambda>e. (position_line to_str e, snd e))" and ?blank = "([], False, PosNone)"
  let ?ls = "if length es \<le> 199 then ?read es @ [?blank] else ?blank # ?read (drop (length es - 199) es) @ [?blank]"
  have "\<forall>l\<in>set (map (position_line to_str) es). CHR 0x0A \<notin> set l"
    using assms position_line_read(3) by fastforce
  from file_tail_lines[OF this, of 199]
  have tail: "file_tail (unlines (map (position_line to_str) es)) 200 = map fst ?ls"
    by (simp add: comp_def drop_map)
  have "from_log from_str (position_line to_str e) = Inr (snd (snd e)) \<and> is_current_line (position_line to_str e) = fst (snd e)"
    if "e \<in> set es" for e
    using that assms position_line_read(1,2)[of "fst e" to_str from_str "snd (snd e)" "fst (snd e)"] by (cases e) auto
  then have read: "lines_read from_str ?ls"
    by (auto simp: lines_read_def blank_read dest!: in_set_dropD)
  have map: "entries_of P current (?read es') = entries_of P current es'" for P current es'
    by (induction es') auto
  have "entries_of P current ?ls = entries_of P current (drop (length es - 199) es)" if "P PosNone = False" for P current
    using that map[of P current] by simp
  moreover have "\<forall>(l, c, p)\<in>set ?ls. p = PosNone \<or> (\<exists>stamp. (stamp, c, p) \<in> set es)"
    by (auto dest!: in_set_dropD)
  ultimately show ?thesis using tail read by blast
qed

lemma finished_log_lines:
  assumes "\<forall>(stamp, p)\<in>set fs. time_stamp stamp \<and> plain_position to_str from_str p \<and> finished_of p \<noteq> None"
  shows "\<exists>ls. buf_lines (unlines (map (finished_line to_str) fs)) = map fst ls \<and> lines_read from_str ls \<and>
    (\<forall>k current. entries_of (\<lambda>p. table_of p = Some k) current ls = []) \<and>
    (\<forall>k. (\<exists>(l, c, p)\<in>set ls. finished_of p = Some k) \<longleftrightarrow> (\<exists>(stamp, p)\<in>set fs. finished_of p = Some k))"
proof -
  let ?ls = "map (\<lambda>f. (finished_line to_str f, False, snd f)) fs"
  have read: "from_log from_str (finished_line to_str f) = Inr (snd f) \<and> \<not> is_current_line (finished_line to_str f) \<and>
      CHR 0x0A \<notin> set (finished_line to_str f) \<and> (finished_line to_str f \<noteq> [] \<longrightarrow> last (finished_line to_str f) \<noteq> CHR 0x0D)"
    if "f \<in> set fs" for f
    using that assms finished_line_read[of "fst f" to_str from_str "snd f"] by (cases f) auto
  then have "buf_lines (unlines (map (finished_line to_str) fs)) = map (finished_line to_str) fs"
    by (intro buf_lines_unlines) simp
  then have "buf_lines (unlines (map (finished_line to_str) fs)) = map fst ?ls" by simp
  moreover have "lines_read from_str ?ls" using read by (auto simp: lines_read_def)
  moreover have "table_of p = None" if "finished_of p \<noteq> None" for p
    using that by (cases p) (simp_all add: finished_of_def table_of_def)
  with assms have "\<forall>k current. entries_of (\<lambda>p. table_of p = Some k) current ?ls = []"
    by (fastforce simp: entries_of_def filter_empty_conv)
  moreover have "\<forall>k. (\<exists>(l, c, p)\<in>set ?ls. finished_of p = Some k) \<longleftrightarrow> (\<exists>(stamp, p)\<in>set fs. finished_of p = Some k)"
    by force
  ultimately show ?thesis by blast
qed

lemma log_snapshot_found:
  assumes "dir \<noteq> []" "files (dir @ ''/position.log'') = Some (unlines (map (position_line to_str) es))"
    and "files (dir @ ''/finished.log'') = Some (unlines (map (finished_line to_str) fs))"
    and "\<forall>(stamp, c, p)\<in>set es. time_stamp stamp \<and> plain_position to_str from_str p \<and> finished_of p = None"
    and "\<forall>(stamp, p)\<in>set fs. time_stamp stamp \<and> plain_position to_str from_str p \<and> finished_of p \<noteq> None"
  shows "\<exists>r. log_recovery_new from_str files TaskSnapshot dir [] = Inr r \<and>
    (\<forall>k. map_of (current_tb_positions (lr_snapshot_cache r)) k =
      last_opt (entries_of (\<lambda>p. table_of p = Some k) True (drop (length es - 199) es))) \<and>
    (\<forall>k. map_of (checkpoint_tb_positions (lr_snapshot_cache r)) k =
      last_opt (entries_of (\<lambda>p. table_of p = Some k) False (drop (length es - 199) es))) \<and>
    (\<forall>k. map_of (finished_tbs (lr_snapshot_cache r)) k \<noteq> None \<longleftrightarrow> (\<exists>(stamp, p)\<in>set fs. finished_of p = Some k))"
proof -
  have "\<forall>(stamp, c, p)\<in>set es. time_stamp stamp \<and> plain_position to_str from_str p" using assms(4) by auto
  from position_log_lines[OF this] obtain ls where
    ls: "file_tail (unlines (map (position_line to_str) es)) 200 = map fst ls" "lines_read from_str ls"
      "\<And>P current. P PosNone = False \<Longrightarrow> entries_of P current ls = entries_of P current (drop (length es - 199) es)"
      "\<forall>(l, c, p)\<in>set ls. p = PosNone \<or> (\<exists>stamp. (stamp, c, p) \<in> set es)" by blast
  have same: "entries_of (\<lambda>p. table_of p = Some k) c ls = entries_of (\<lambda>p. table_of p = Some k) c (drop (length es - 199) es)" for k c
    by (rule ls(3)) (simp add: table_of_def)
  from finished_log_lines[OF assms(5)] obtain gs where
    gs: "buf_lines (unlines (map (finished_line to_str) fs)) = map fst gs" "lines_read from_str gs"
      "\<And>k current. entries_of (\<lambda>p. table_of p = Some k) current gs = []"
      "\<And>k. (\<exists>(l, c, p)\<in>set gs. finished_of p = Some k) \<longleftrightarrow> (\<exists>(stamp, p)\<in>set fs. finished_of p = Some k)" by blast
  have none: "\<not> (\<exists>(l, c, p)\<in>set ls. finished_of p = Some k)" for k using ls(4) assms(4) by (fastforce simp: finished_of_def)
  let ?new = "\<lparr>lr_task_type = TaskSnapshot, lr_resume_config_file = [], lr_resume_log_dir = dir,
    lr_snapshot_cache = \<lparr>current_tb_positions = [], checkpoint_tb_positions = [], finished_tbs = []\<rparr>, lr_cdc_cache = []\<rparr>"
  from snapshot_lines[OF ls(2), of ?new] obtain r1 where
    r1: "fold_res (parse_snapshot_line from_str) ?new (map fst ls) = Inr r1"
      "\<And>k. map_of (current_tb_positions (lr_snapshot_cache r1)) k = last_opt (entries_of (\<lambda>p. table_of p = Some k) True ls)"
      "\<And>k. map_of (checkpoint_tb_positions (lr_snapshot_cache r1)) k = last_opt (entries_of (\<lambda>p. table_of p = Some k) False ls)"
      "\<And>k. map_of (finished_tbs (lr_snapshot_cache r1)) k = None"
    using none by auto
  from snapshot_lines[OF gs(2), of r1] obtain r where
    r: "fold_res (parse_snapshot_line from_str) r1 (map fst gs) = Inr r"
      "\<And>k. map_of (current_tb_positions (lr_snapshot_cache r)) k = last_opt (entries_of (\<lambda>p. table_of p = Some k) True ls)"
      "\<And>k. map_of (checkpoint_tb_positions (lr_snapshot_cache r)) k = last_opt (entries_of (\<lambda>p. table_of p = Some k) False ls)"
      "\<And>k. map_of (finished_tbs (lr_snapshot_cache r)) k \<noteq> None \<longleftrightarrow> (\<exists>(stamp, p)\<in>set fs. finished_of p = Some k)"
    unfolding r1 gs by auto
  have "log_recovery_new from_str files TaskSnapshot dir [] = Inr r"
    using assms(1) r1(1) r(1)
    by (simp add: log_recovery_new_def log_recovery_init_def parse_config_file_def assms(2,3) ls(1) gs(1))
  with r(2-4) same show ?thesis by auto
qed

text \<open>
  C14: The recovery from the logs finds what was logged last. When the position log holds the lines of the
  pipeline and the finished log those of the finished tables, a snapshot task resumes a table from the last
  current position of the table among the last 199 lines, or else from its last checkpoint position there
  (an extraction that asks for a checkpoint only from the latter), and skips exactly the tables of the
  finished log; a task that follows changes resumes from the last checkpoint position among these lines, or
  else from the last current one.
\<close>

theorem log_recovery_latest:
  assumes "dir \<noteq> []" "files (dir @ ''/position.log'') = Some (unlines (map (position_line to_str) es))"
    and "files (dir @ ''/finished.log'') = Some (unlines (map (finished_line to_str) fs))"
    and "\<forall>(stamp, c, p)\<in>set es. time_stamp stamp \<and> plain_position to_str from_str p \<and> finished_of p = None"
    and "\<forall>(stamp, p)\<in>set fs. time_stamp stamp \<and> plain_position to_str from_str p \<and> finished_of p \<noteq> None"
    and "recent = drop (length es - 199) es"
    and "\<forall>c. tb_last c = last_opt (entries_of (\<lambda>p. table_of p = Some (schema, tb)) c recent)"
    and "\<forall>c. cdc_last c = last_opt (entries_of (\<lambda>p. p \<noteq> PosNone) c recent)"
  shows "\<exists>r r'. log_recovery_new from_str files TaskSnapshot dir [] = Inr r \<and>
    log_get_snapshot_resume_position r schema tb checkpoint =
      (if \<not> checkpoint \<and> tb_last True \<noteq> None then tb_last True else tb_last False) \<and>
    (log_check_snapshot_finished r schema tb \<longleftrightarrow> (\<exists>(stamp, p)\<in>set fs. finished_of p = Some (schema, tb))) \<and>
    log_recovery_new from_str files TaskCdc dir [] = Inr r' \<and>
    log_get_cdc_resume_position r' = (if cdc_last False \<noteq> None then cdc_last False else cdc_last True)"
proof -
  from log_snapshot_found[OF assms(1-5)] obtain r where
    r: "log_recovery_new from_str files TaskSnapshot dir [] = Inr r"
      "\<And>k. map_of (current_tb_positions (lr_snapshot_cache r)) k = last_opt (entries_of (\<lambda>p. table_of p = Some k) True recent)"
      "\<And>k. map_of (checkpoint_tb_positions (lr_snapshot_cache r)) k = last_opt (entries_of (\<lambda>p. table_of p = Some k) False recent)"
      "\<And>k. map_of (finished_tbs (lr_snapshot_cache r)) k \<noteq> None \<longleftrightarrow> (\<exists>(stamp, p)\<in>set fs. finished_of p = Some k)"
    unfolding assms(6) by blast
  have "\<forall>(stamp, c, p)\<in>set es. time_stamp stamp \<and> plain_position to_str from_str p" using assms(4) by auto
  from position_log_lines[OF this] obtain ls where
    ls: "file_tail (unlines (map (position_line to_str) es)) 200 = map fst ls" "lines_read from_str ls"
      "\<And>P current. P PosNone = False \<Longrightarrow> entries_of P current ls = entries_of P current recent" unfolding assms(6) by blast
  let ?new = "\<lparr>lr_task_type = TaskCdc, lr_resume_config_file = [], lr_resume_log_dir = dir,
    lr_snapshot_cache = \<lparr>current_tb_positions = [], checkpoint_tb_positions = [], finished_tbs = []\<rparr>, lr_cdc_cache = []\<rparr>"
  from cdc_lines[OF ls(2), of ?new] obtain r' where
    r': "fold_res (parse_cdc_line from_str) ?new (map fst ls) = Inr r'"
      "\<And>c. map_of (lr_cdc_cache r') (if c then ''current_position'' else ''checkpoint_position'') =
        last_opt (entries_of (\<lambda>p. p \<noteq> PosNone) c ls)" by auto
  have "log_recovery_new from_str files TaskCdc dir [] = Inr r'"
    using assms(1) r'(1) by (simp add: log_recovery_new_def log_recovery_init_def parse_config_file_def assms(2) ls(1))
  moreover have "entries_of (\<lambda>p. p \<noteq> PosNone) c ls = entries_of (\<lambda>p. p \<noteq> PosNone) c recent" for c
    by (rule ls(3)) simp
  ultimately show ?thesis
    using r r'(2)[of True] r'(2)[of False] assms(7,8)
    by (simp add: log_get_snapshot_resume_position_def log_check_snapshot_finished_def log_get_cdc_resume_position_def Let_def
        split: option.split)
qed

lemma sample_plain:
  assumes "p \<in> set ps"
  shows "plain_position (sample_to_str ps) (sample_from_str ps) p"
proof -
  have "\<not> str_contains ''| current_position |'' (sample_to_str ps p @ [])"
    by (subst contains_skip) (auto simp: sample_to_str_def)
  moreover have "CHR 0x0A \<notin> set (sample_to_str ps p)" by (auto simp: sample_to_str_def)
  ultimately show ?thesis using sample_json[OF assms] by (simp add: plain_position_def is_current_line_def)
qed

definition sample_log :: "log_entry list" where
  "sample_log = [(''1'', True, sample_position ''1''), (''1'', False, PosNone), (''2'', True, sample_position ''2''), (''2'', False, sample_position ''1'')]"

definition sample_finished :: "(string \<times> position) list" where
  "sample_finished = [(''3'', PosRdbSnapshotFinished ''mysql'' ''db'' ''tb2'')]"

definition sample_logged :: "position list" where
  "sample_logged = [sample_position ''1'', PosNone, sample_position ''2'', PosRdbSnapshotFinished ''mysql'' ''db'' ''tb2'']"

definition sample_files :: "string \<Rightarrow> string option" where
  "sample_files path =
     (if path = ''logs/position.log'' then Some (unlines (map (position_line (sample_to_str sample_logged)) sample_log))
      else if path = ''logs/finished.log'' then Some (unlines (map (finished_line (sample_to_str sample_logged)) sample_finished))
      else None)"

theorem log_recovery_latest_witness:
  "\<exists>r r'. log_recovery_new (sample_from_str sample_logged) sample_files TaskSnapshot ''logs'' [] = Inr r \<and>
    log_get_snapshot_resume_position r ''db'' ''tb'' False = Some (sample_position ''2'') \<and>
    \<not> log_check_snapshot_finished r ''db'' ''tb'' \<and>
    log_recovery_new (sample_from_str sample_logged) sample_files TaskCdc ''logs'' [] = Inr r' \<and>
    log_get_cdc_resume_position r' = Some (sample_position ''1'')"
proof -
  let ?tb = "\<lambda>c. last_opt (entries_of (\<lambda>p. table_of p = Some (''db'', ''tb'')) c sample_log)"
  let ?cdc = "\<lambda>c. last_opt (entries_of (\<lambda>p. p \<noteq> PosNone) c sample_log)"
  have files: "sample_files (''logs'' @ ''/position.log'') = Some (unlines (map (position_line (sample_to_str sample_logged)) sample_log))"
    "sample_files (''logs'' @ ''/finished.log'') = Some (unlines (map (finished_line (sample_to_str sample_logged)) sample_finished))"
    by (simp_all add: sample_files_def)
  have stamps: "time_stamp ''1''" "time_stamp ''2''" "time_stamp ''3''" by (simp_all add: time_stamp_def solid_def)
  have plain: "plain_position (sample_to_str sample_logged) (sample_from_str sample_logged) p" if "p \<in> set sample_logged" for p
    by (rule sample_plain[OF that])
  have entries: "\<forall>(stamp, c, p)\<in>set sample_log.
      time_stamp stamp \<and> plain_position (sample_to_str sample_logged) (sample_from_str sample_logged) p \<and> finished_of p = None"
    using stamps plain by (simp add: sample_log_def sample_logged_def finished_of_def sample_position_def)
  have fins: "\<forall>(stamp, p)\<in>set sample_finished.
      time_stamp stamp \<and> plain_position (sample_to_str sample_logged) (sample_from_str sample_logged) p \<and> finished_of p \<noteq> None"
    using stamps plain by (simp add: sample_finished_def sample_logged_def finished_of_def)
  have recent: "sample_log = drop (length sample_log - 199) sample_log" by (simp add: sample_log_def)
  have lasts: "?tb True = Some (sample_position ''2'')" "?tb False = Some (sample_position ''1'')" "?cdc False = Some (sample_position ''1'')"
    by (simp_all add: sample_log_def table_of_def sample_position_def last_opt_def)
  have tb: "\<forall>c. ?tb c = last_opt (entries_of (\<lambda>p. table_of p = Some (''db'', ''tb'')) c sample_log)"
    and cdc: "\<forall>c. ?cdc c = last_opt (entries_of (\<lambda>p. p \<noteq> PosNone) c sample_log)" by auto
  show ?thesis
    using log_recovery_latest[of "''logs''", OF _ files entries fins recent tb cdc, of False] lasts
    by (simp add: sample_finished_def finished_of_def)
qed

section \<open>The logs as a store of positions\<close>

definition log_files :: "(position \<Rightarrow> string) \<Rightarrow> string \<Rightarrow> log_entry list \<Rightarrow> string \<Rightarrow> string option" where
  "log_files to_str dir es path =
     (if path = dir @ ''/position.log'' then Some (unlines (map (position_line to_str) es))
      else if path = dir @ ''/finished.log'' then Some [] else None)"

definition log_recover ::
  "(position \<Rightarrow> string) \<Rightarrow> (string \<Rightarrow> position option) \<Rightarrow> string \<Rightarrow> log_entry list \<Rightarrow> string \<Rightarrow> string \<Rightarrow> bool \<Rightarrow> position option res" where
  "log_recover to_str from_str dir es schema tb checkpoint =
     map_res (\<lambda>r. log_get_snapshot_resume_position r schema tb checkpoint)
       (log_recovery_new from_str (log_files to_str dir es) TaskSnapshot dir [])"

text \<open>A checkpoint of the pipeline: a line with the position received last, and one with the last commit.\<close>

definition log_keep :: "string \<Rightarrow> position \<times> position \<Rightarrow> log_entry list \<Rightarrow> log_entry list" where
  "log_keep stamp = (\<lambda>(received, commit) es. es @ [(stamp, True, received), (stamp, False, commit)])"

definition log_readable :: "(position \<Rightarrow> string) \<Rightarrow> (string \<Rightarrow> position option) \<Rightarrow> position \<Rightarrow> bool" where
  "log_readable to_str from_str p \<longleftrightarrow> plain_position to_str from_str p \<and> finished_of p = None"

definition log_usable :: "(position \<Rightarrow> string) \<Rightarrow> (string \<Rightarrow> position option) \<Rightarrow> string \<Rightarrow> log_entry list \<Rightarrow> bool" where
  "log_usable to_str from_str dir es \<longleftrightarrow>
     dir \<noteq> [] \<and> (\<forall>(stamp, c, p)\<in>set es. time_stamp stamp \<and> plain_position to_str from_str p \<and> finished_of p = None)"

definition log_stored :: "log_entry list \<Rightarrow> position set" where
  "log_stored es = (\<lambda>(stamp, c, p). p) ` set es"

lemma entries_of_stored: "last_opt (entries_of P c (drop n es)) = Some p \<Longrightarrow> p \<in> log_stored es"
  by (drule last_opt_in) (auto simp: entries_of_def log_stored_def dest!: in_set_dropD intro: rev_image_eqI)

interpretation logs: position_store log_keep "\<lambda>(received, commit). {received, commit}" "log_readable to_str from_str" time_stamp
  "log_usable to_str from_str dir" log_stored "log_recover to_str from_str dir"
  for to_str from_str dir
proof
  fix s i and c :: "position \<times> position"
  assume a: "log_usable to_str from_str dir s" "time_stamp i"
    "\<forall>p\<in>(case c of (received, commit) \<Rightarrow> {received, commit}). log_readable to_str from_str p"
  then show "log_usable to_str from_str dir (log_keep i c s)"
    by (cases c) (auto simp: log_usable_def log_keep_def log_readable_def)
  show "log_stored (log_keep i c s) \<subseteq> log_stored s \<union> (case c of (received, commit) \<Rightarrow> {received, commit})"
    by (cases c) (auto simp: log_stored_def log_keep_def)
next
  fix s schema tb checkpoint
  assume "log_usable to_str from_str dir s"
  then have u: "dir \<noteq> []" "\<forall>(stamp, c, p)\<in>set s. time_stamp stamp \<and> plain_position to_str from_str p \<and> finished_of p = None"
    by (auto simp: log_usable_def)
  have files: "log_files to_str dir s (dir @ ''/position.log'') = Some (unlines (map (position_line to_str) s))"
    "log_files to_str dir s (dir @ ''/finished.log'') = Some (unlines (map (finished_line to_str) []))"
    by (simp_all add: log_files_def)
  from log_snapshot_found[OF u(1) files u(2)] obtain r where
    "log_recovery_new from_str (log_files to_str dir s) TaskSnapshot dir [] = Inr r"
    "map_of (current_tb_positions (lr_snapshot_cache r)) (schema, tb) =
      last_opt (entries_of (\<lambda>p. table_of p = Some (schema, tb)) True (drop (length s - 199) s))"
    "map_of (checkpoint_tb_positions (lr_snapshot_cache r)) (schema, tb) =
      last_opt (entries_of (\<lambda>p. table_of p = Some (schema, tb)) False (drop (length s - 199) s))" by auto
  then show "\<exists>found. log_recover to_str from_str dir s schema tb checkpoint = Inr found \<and> (\<forall>p. found = Some p \<longrightarrow> p \<in> log_stored s)"
    using entries_of_stored[of _ _ "length s - 199" s]
    by (auto simp: log_recover_def log_get_snapshot_resume_position_def Let_def)
qed

end
