(* ===== verification/Spec2Isabelle.thy ===== *)
theory Spec2Isabelle
  imports Rdb_Merger Mongo_Merger Rdb_Partitioner Dt_Queue Pipeline Rdb_Filter Rdb_Router Redis_Resp Redis_Parallelizer
    Snapshot_Resume Serial_Extraction Log_Recovery
begin

text \<open>
  \<^bold>\<open>Verification of the data transmission engine ape-dts.\<close>

  \<^bold>\<open>The program.\<close> A task moves data from a source to a target. An \<^emph>\<open>extractor\<close> reads rows,
  changes or commands and pushes them, with the position they were read at, into a bounded
  \<^emph>\<open>queue\<close>; on the way a \<^emph>\<open>filter\<close> decides what is replicated and a \<^emph>\<open>router\<close> renames schemas,
  tables and columns. The \<^emph>\<open>pipeline\<close> drains the queue through a \<^emph>\<open>parallelizer\<close>, which cuts a
  batch into parts that \<^emph>\<open>sinkers\<close> write to the target concurrently, and records a position as a
  checkpoint. A task that is restarted \<^emph>\<open>recovers\<close> the position from a table or from its logs and
  its extractor resumes there. Every guarantee of the engine is about this path: nothing is lost,
  nothing is reordered that matters, and a checkpoint never runs ahead of what was written.

  \<^bold>\<open>Conventions.\<close> \<open>Prelude\<close> says how Rust values are represented: machine words, byte strings,
  association lists for hash maps, \<open>Inl (Bail _)\<close> for errors and \<open>Inl (Panic _)\<close> for panics.
  \<open>Rust_Std\<close> has the parts of the standard library in use, \<open>Transition\<close> the transition systems,
  \<open>Samples\<close> and \<open>Sample_Source\<close> the concrete values the theorems are instantiated with. Library
  and server code is an argument: the hash function and the renderers of \<open>ext\<close>, the record
  \<open>mysql_lib\<close>, a connection as a function from statement and bound values to rows, the regular
  expression and JSON libraries, and the clocks. What is assumed of it is a named predicate
  (\<open>lib_prints\<close>, \<open>source_answers\<close>, \<open>chunk_answers\<close>, \<open>serial_source\<close>, \<open>json_position\<close>,
  \<open>plain_position\<close>), and every theorem with such an assumption is instantiated.

  \<^bold>\<open>Data\<close> (\<open>dt-common/src/meta\<close>). \<open>Col_Value\<close>, \<open>Row_Data\<close>: \<open>ColValue\<close>, \<open>RowData\<close>, table
  metadata and row keys; \<open>Dt_Data\<close>: items, positions and order keys; \<open>Ddl_Statement\<close>,
  \<open>Struct_Meta\<close>, \<open>Redis_Object\<close>: statements, structures and Redis entries; \<open>Db_Meta\<close>,
  \<open>Mysql_Convertor\<close>: column types and the values of the MySQL protocols; \<open>Sql_Util\<close>: quoting.
  Shown: the choice of the key columns of a table is the documented one; a time of the binary
  protocol keeps its microseconds; integers of the binlog get their sign back at every width; a value
  printed into a position is read back.

  \<^bold>\<open>Configuration\<close> (\<open>config_token_parser.rs\<close>, \<open>rdb_filter.rs\<close>, \<open>rdb_router.rs\<close>).
  \<open>Config_Token_Parser\<close>, \<open>Rdb_Filter\<close>, \<open>Rdb_Router\<close>. Shown: printing and parsing tokens is a round
  trip; wildcards match as globs; after any lookups the cached filter lets through the documented
  union of \<open>do_dbs\<close> and \<open>do_tbs\<close> but for the tables the code leaves out of it; the reversed router
  undoes a routed row; a qualified DDL statement goes where the rows of its table go, \<open>SET SCHEMA\<close>
  apart, an unqualified one need not.

  \<^bold>\<open>Queue\<close> (\<open>dt_queue.rs\<close>, \<open>limiter/\<close>). \<open>Limiter\<close>, \<open>Dt_Queue\<close>: \<open>push\<close> and \<open>pop\<close> of any number of
  producers and one consumer as the step relation \<open>queue_step\<close>, one step per access to shared
  state. The locale \<open>permits\<close> is the contract of a limiter, interpreted on \<open>BufferLimiter\<close>; the
  locale \<open>invariant\<close> of \<open>Transition\<close> is interpreted on the queue. Shown: exact byte counter, order
  and bounds in every reachable state, no deadlock, and which items make \<open>pop\<close> panic.

  \<^bold>\<open>Parallelizers\<close> (\<open>dt-parallelizer/src\<close>). \<open>Target\<close> is the abstract specification: a table as a map
  from row identities to values, and the interleavings of concurrent sinker tasks. \<open>Unique_Keys\<close> adds
  unique keys that every statement has to respect; the partitioner is verified against it.
  \<open>Parallelizer\<close> (base, serial, snapshot, table), \<open>Merge_Parallelizer\<close> with \<open>Rdb_Merger\<close> and
  \<open>Mongo_Merger\<close>, \<open>Rdb_Partitioner\<close>, \<open>Redis_Parallelizer\<close>. The locales are the interfaces of the
  source: \<open>drainer\<close> (what the pipeline relies on when it drains), \<open>keyed_split\<close> (what makes
  concurrent parts agree with the batch in order), \<open>merger\<close> and \<open>table_merger\<close> (the trait
  \<open>Merger\<close>), each interpreted on the model of the code. Shown: for every hash function and every
  interleaving, sinking a batch leaves the target as the rows in order would; batches for which the
  code does not achieve this (a row that changes a key, a unique key value handed over from a delete
  to an insert); and on a Redis cluster, every node gets in order the entries whose keys it serves.

  \<^bold>\<open>Pipeline\<close> (\<open>base_pipeline.rs\<close>). \<open>Pipeline\<close>: the loop over rounds, with accumulation, sinking by
  kind, cancellation, positions, checkpoints and what is logged. The locale \<open>batch_source\<close> is what
  the loop relies on, interpreted on \<open>BaseParallelizer\<close>. Shown: the data given to the sinkers is,
  in order and once, that of a prefix of the stream, and every position recorded or logged is the
  checkpoint of such a prefix; a cancelled task drains in at most one round per item and one more.

  \<^bold>\<open>Extractors\<close> (\<open>dt-connector/src/extractor\<close>). \<open>Base_Extractor\<close>: pushing, and the data marker
  against loops of tasks. \<open>Snapshot_Statement\<close>, \<open>Base_Splitter\<close>, \<open>Mysql_Splitter\<close>: the statements
  and how a table is cut into chunks, \<open>f64\<close> arithmetic included. \<open>Snapshot_Extractor\<close>: the parallel
  extraction as the step relation \<open>parallel_step\<close> of its tasks and the loop that joins them;
  \<open>Serial_Extractor\<close>: extraction batch by batch and resuming. Shown in \<open>Snapshot_Extraction\<close>,
  \<open>Snapshot_Resume\<close> and \<open>Serial_Extraction\<close>: under every interleaving the parallel extraction ends
  with exactly the rows of the table, and resuming from one of its checkpoints loses none, unless
  the checkpoint is that of a chunk without rows; the serial one ends with the rows in order.

  \<^bold>\<open>Redis\<close> (\<open>dt-common/src/meta/redis\<close>, \<open>redis_resp_reader.rs\<close>). \<open>Redis_Resp\<close>, \<open>Redis_Key\<close>: the
  protocol, the keys of a command and cluster slots. Shown: decoding inverts encoding and answers
  on every stream; slots agree with the bitwise CRC; the keys found are arguments of the command.

  \<^bold>\<open>Positions\<close> (\<open>extractor/resumer\<close>). \<open>Resumer\<close>: the recorder, the recovery from the table and from
  the logs. \<open>Recovery\<close>, \<open>Log_Recovery\<close>: what they find. The locale \<open>position_store\<close> is the contract
  of the trait \<open>Recovery\<close> a snapshot task relies on: what is recovered was kept. It is interpreted
  on the table (\<open>db\<close>) and on the logs (\<open>logs\<close>).

  \<^bold>\<open>The whole path.\<close> This theory composes extractor, pipeline, recorder and recovery: \<open>task_runs\<close> is
  any history of runs of a snapshot task, each stopped anywhere. The lemmas in the context of
  \<open>position_store\<close> hold for every store; the two theorems are their instances for the table and
  for the logs.

  \<^bold>\<open>Termination and bounds.\<close> Structural recursion where the source iterates over data. The RESP
  reader has a fuel, and more fuel than the stream has bytes is always enough (proved). The loop over
  batches of the serial extraction is a \<open>partial_function\<close> whose \<open>None\<close> is a loop that does not end;
  it is proved to return. The parallel extraction is proved to have no infinite run. Counters of
  chunks and rows are natural numbers, as a \<open>u64\<close> cannot wrap around by counting them.

  \<^bold>\<open>Not modelled.\<close> Drivers and sockets: the change streams of MySQL, PostgreSQL, GaussDB, Oracle and
  MongoDB, Kafka, the replication of Redis and its RDB format, and the execution of statements by
  sinkers and checkers (their effect on a target is \<open>Target\<close>). The DDL parser and the SQL text of
  structure statements and of the query builder. Unique keys beside the id columns for the
  parallelizers other than the partitioner. Lua scripts, the HTTP pipeline, the foxlake and
  check parallelizers. Loading of the ini file, monitors and metrics, prechecks, the task runner
  apart from the composition here, and the console server, which are handlers over a database, the
  file system and the operating system. When a sinker fails, a run of the pipeline is modelled up
  to the round before; what the failed round had written is data the target gets twice.
\<close>

section \<open>A snapshot task: extractor, pipeline and recovery\<close>

text \<open>The stream of a snapshot consists of rows: each has its own position and none commits.\<close>

definition row_stream :: "dt_item list \<Rightarrow> bool" where
  "row_stream items \<longleftrightarrow> (\<forall>i\<in>set items. \<exists>row. it_dt_data i = DDml row)"

lemma row_stream_rows:
  assumes "row_stream items"
  shows "one_kind items" "data_of items = map it_dt_data items" "commit_pos items = PosNone"
    "received_pos items = (if items = [] then PosNone else it_position (last items))"
proof -
  have row: "\<not> is_marker (it_dt_data i)" "\<not> commit_like i" "received_like i" if "i \<in> set items" for i
    using assms that unfolding row_stream_def by (auto simp: is_marker_def commit_like_def received_like_def)
  show "one_kind items"
    unfolding one_kind_def by (rule bexI[of _ "\<lambda>d. \<exists>x. d = DDml x"]) (use assms in \<open>auto simp: row_stream_def\<close>)
  show "data_of items = map it_dt_data items" using row by (auto simp: data_of_def filter_id_conv)
  show "commit_pos items = PosNone" using row(2) by (induction items) (simp_all add: commit_pos_def)
  show "received_pos items = (if items = [] then PosNone else it_position (last items))"
    using row(3) by (cases items rule: rev_cases) (simp_all add: received_pos_def)
qed

lemma row_stream_checkpoint:
  "row_stream items \<Longrightarrow> checkpoint_of items = (if items = [] then PosNone else it_position (last items))"
  by (simp add: checkpoint_of_def row_stream_rows)

lemma row_stream_prefix: "row_stream items \<Longrightarrow> prefix pre items \<Longrightarrow> row_stream pre"
  by (auto simp: row_stream_def prefix_def)

lemma serial_row_stream:
  assumes "serial_source e x sb sv lt tbl" "set rows \<subseteq> set tbl"
  shows "row_stream (map (serial_item e x router) rows)"
proof -
  have "\<exists>rd. from_mysql_row e (sx_tb_meta x) (sx_ignore_cols x) r = Inr rd" if "r \<in> set tbl" for r
    using assms(1) that unfolding serial_source_def by (auto simp: list_all_iff)
  with assms(2) show ?thesis by (fastforce simp: row_stream_def serial_item_def item_of_def)
qed

lemma serial_extract_checkpoint:
  assumes "serial_source e x sb sv lt (ys @ zs)" "order_typed x (ys @ zs)" "lib_prints e lib" "sx_sample_interval x = 1"
    and "be_data_marker b = None" "tf_started (be_time_filter b)"
  shows "\<exists>b'. serial_extract e lib lossy (Some (\<lambda>_ _ _. Some (checkpoint_of (map (serial_item e x router) ys)))) x b = Some (Inr b') \<and>
    be_buffer b' = be_buffer b @ map (serial_item e x (be_router b)) zs"
proof -
  have all: "nths zs {i. sx_sample_interval x dvd Suc i} = zs" using assms(4) by (simp add: nths_all)
  have cp: "checkpoint_of (map (serial_item e x router) ys) =
      (if ys = [] then PosNone else it_position (serial_item e x router (last ys)))"
    using row_stream_checkpoint[OF serial_row_stream[OF assms(1), of ys router]] by (simp add: last_map)
  show ?thesis
  proof (cases "ys = []")
    case True
    have "get_resume_values lib (Some (\<lambda>_ _ _. Some PosNone)) x (order_cols x) False = Inr []"
      by (simp add: get_resume_values_def)
    from serial_extract_fresh[OF _ assms(5,6) this, of e sb sv lt zs lossy] assms(1) True show ?thesis
      unfolding cp all by simp
  next
    case False
    with serial_extract_resumed[OF assms(1-3,5,6), of lossy router] show ?thesis by (simp add: cp all)
  qed
qed

lemma serial_extract_found:
  assumes "serial_source e x sb sv lt (ys @ zs)" "order_typed x (ys @ zs)" "lib_prints e lib" "sx_sample_interval x = 1"
    and "be_data_marker b = None" "tf_started (be_time_filter b)"
    and "found = None \<and> ys = [] \<or> found = Some (checkpoint_of (map (serial_item e x router) ys))"
  shows "\<exists>b'. serial_extract e lib lossy (Some (\<lambda>_ _ _. found)) x b = Some (Inr b') \<and>
    be_buffer b' = be_buffer b @ map (serial_item e x (be_router b)) zs"
proof (cases "found = None")
  case True
  have "nths zs {i. sx_sample_interval x dvd Suc i} = zs" using assms(4) by (simp add: nths_all)
  moreover have "get_resume_values lib (Some (\<lambda>_ _ _. found)) x (order_cols x) False = Inr []"
    using True by (simp add: get_resume_values_def)
  ultimately show ?thesis using serial_extract_fresh[OF _ assms(5,6), of e x sb sv lt zs] True assms(1,7) by simp
next
  case False
  with serial_extract_checkpoint[OF assms(1-6), of lossy router] assms(7) show ?thesis by auto
qed

text \<open>
  The runs of a snapshot task of one table. Each run recovers a position from what earlier runs kept,
  extracts from there, and feeds a pipeline, which receives an initial part of the stream and stops: at
  the end, cancelled, or because the process died. Its checkpoints are kept in order. The state is the
  store of positions and everything the sinkers were given.
\<close>

inductive task_runs ::
  "ext \<Rightarrow> mysql_lib \<Rightarrow> (u8 list \<Rightarrow> string) \<Rightarrow> snapshot_extractor \<Rightarrow> base_extractor \<Rightarrow>
   ('s \<Rightarrow> string \<Rightarrow> string \<Rightarrow> bool \<Rightarrow> position option res) \<Rightarrow> ('i \<Rightarrow> 'c \<Rightarrow> 's \<Rightarrow> 's) \<Rightarrow> ('i \<Rightarrow> bool) \<Rightarrow>
   (base_parallelizer pipeline \<Rightarrow> 'c list) \<Rightarrow> 's \<Rightarrow> 's \<Rightarrow> dt_data list \<Rightarrow> bool"
  for e lib lossy x b recover keep proper checkpoints st0 where
  runs_start: "task_runs e lib lossy x b recover keep proper checkpoints st0 st0 []"
| runs_next: "\<lbrakk>task_runs e lib lossy x b recover keep proper checkpoints st0 st sinked;
    recover st (sx_db x) (sx_tb x) False = Inr found;
    serial_extract e lib lossy (Some (\<lambda>_ _ _. found)) x b = Some (Inr b1);
    pipeline_start cfg (\<lambda>b q. Inr (base_drain b q)) has_pending_data sink inps (pipeline_new base_new) = Inr (s, ended);
    pc_lua cfg = None; prefix (concat (map ri_new inps)) (be_buffer b1);
    map snd ics = checkpoints s; list_all proper (map fst ics)\<rbrakk> \<Longrightarrow>
    task_runs e lib lossy x b recover keep proper checkpoints st0 (fold (\<lambda>(i, c). keep i c) ics st)
      (sinked @ concat (map call_data (pl_calls s)))"

text \<open>A position covers the rows up to its own: they were all given to the sinkers, in order.\<close>

definition covers :: "(col_values \<Rightarrow> dt_item) \<Rightarrow> col_values list \<Rightarrow> dt_data list \<Rightarrow> position \<Rightarrow> bool" where
  "covers item tbl sinked p \<longleftrightarrow>
     (\<exists>ys zs. tbl = ys @ zs \<and> p = checkpoint_of (map item ys) \<and> subseq (map it_dt_data (map item ys)) sinked)"

lemma covers_extends: "covers item tbl sinked p \<Longrightarrow> covers item tbl (sinked @ later) p"
  unfolding covers_def using list_emb_append_mono[of _ _ sinked "[]" later] by fastforce

lemma covers_none: "covers item tbl sinked PosNone"
  unfolding covers_def checkpoint_of_def by (rule exI[of _ "[]"]) simp

lemma subseq_prefix_data:
  assumes "subseq us sinked" "prefix pre consumed"
  shows "subseq (us @ pre) (sinked @ consumed)"
  using assms by (metis list_emb_append_mono prefix_imp_subseq)

text \<open>One run: what it extracts completes the covered rows, and its checkpoints cover more.\<close>

lemma covered_run:
  assumes "serial_source e x sb sv lt tbl" "order_typed x tbl" "lib_prints e lib" "sx_sample_interval x = 1"
    and "be_data_marker b = None" "tf_started (be_time_filter b)" "be_buffer b = []"
    and "\<forall>p. found = Some p \<longrightarrow> covers (serial_item e x (be_router b)) tbl sinked p"
  shows "\<exists>b1 ys zs. serial_extract e lib lossy (Some (\<lambda>_ _ _. found)) x b = Some (Inr b1) \<and>
    tbl = ys @ zs \<and> be_buffer b1 = map (serial_item e x (be_router b)) zs \<and>
    subseq (map it_dt_data (map (serial_item e x (be_router b)) ys)) sinked"
proof -
  let ?item = "serial_item e x (be_router b)"
  obtain ys zs where ys: "tbl = ys @ zs" "found = None \<and> ys = [] \<or> found = Some (checkpoint_of (map ?item ys))"
    "subseq (map it_dt_data (map ?item ys)) sinked"
  proof (cases found)
    case None
    with that[of "[]" tbl] show ?thesis by simp
  next
    case (Some p)
    with assms(8) that show ?thesis unfolding covers_def by blast
  qed
  from serial_extract_found[OF assms(1,2)[unfolded ys(1)] assms(3-6) ys(2), of lossy] assms(7) ys(1,3)
  show ?thesis by auto
qed

lemma covered_checkpoints:
  assumes "serial_source e x sb sv lt tbl" "tbl = ys @ zs" "be_buffer b1 = map (serial_item e x router) zs"
    and "subseq (map it_dt_data (map (serial_item e x router) ys)) sinked"
    and "pipeline_start cfg (\<lambda>b q. Inr (base_drain b q)) has_pending_data sink inps (pipeline_new base_new) = Inr (s, ended)"
      "pc_lua cfg = None" "prefix (concat (map ri_new inps)) (be_buffer b1)"
  shows "\<exists>consumed. pipeline_ok consumed s \<and> row_stream consumed \<and>
    (\<forall>pre. prefix pre consumed \<longrightarrow>
      covers (serial_item e x router) tbl (sinked @ concat (map call_data (pl_calls s))) (checkpoint_of pre))"
proof -
  let ?item = "serial_item e x router"
  have rows: "row_stream (map ?item rs)" if "set rs \<subseteq> set tbl" for rs by (rule serial_row_stream[OF assms(1) that])
  from assms(7) obtain arrived later where arrived: "concat (map ri_new inps) = map ?item arrived" "zs = arrived @ later"
    by (auto simp: assms(3) prefix_def map_eq_append_conv)
  have "one_kind (concat (map ri_new inps))" unfolding arrived(1) by (rule row_stream_rows(1)[OF rows]) (auto simp: assms(2) arrived(2))
  from start_ok[OF assms(5,6) this] obtain consumed rest where
    c: "consumed @ popped_data (pl_parallelizer s) @ pl_buffer s @ rest = map ?item arrived" "pipeline_ok consumed s"
    unfolding arrived(1) by blast
  from c(1) obtain us vs where us: "arrived = us @ vs" "consumed = map ?item us" by (metis map_eq_append_conv)
  have stream: "row_stream consumed" unfolding us(2) by (rule rows) (auto simp: assms(2) arrived(2) us(1))
  have sunk: "concat (map call_data (pl_calls s)) = map it_dt_data consumed"
    using c(2) row_stream_rows(2)[OF stream] by (simp add: pipeline_ok_def)
  have "covers ?item tbl (sinked @ map it_dt_data consumed) (checkpoint_of pre)" if pre: "prefix pre consumed" for pre
  proof (cases "pre = []")
    case True
    then show ?thesis using covers_none by (simp add: checkpoint_of_def)
  next
    case False
    from pre obtain ws ws' where ws: "us = ws @ ws'" "pre = map ?item ws" unfolding us(2) prefix_def by (metis map_eq_append_conv)
    have "row_stream (map ?item ws)" "row_stream (map ?item (ys @ ws))"
      by (rule rows, force simp: assms(2) arrived(2) us(1) ws(1))+
    from row_stream_checkpoint[OF this(1)] row_stream_checkpoint[OF this(2)] False
    have "checkpoint_of pre = checkpoint_of (map ?item (ys @ ws))" by (auto simp: ws(2))
    moreover have "tbl = (ys @ ws) @ ws' @ vs @ later" by (simp add: assms(2) arrived(2) us(1) ws(1))
    moreover have "subseq (map it_dt_data (map ?item (ys @ ws))) (sinked @ map it_dt_data consumed)"
      using subseq_prefix_data[OF assms(4) map_mono_prefix[OF pre[unfolded ws(2)], of it_dt_data]] by simp
    ultimately show ?thesis unfolding covers_def by blast
  qed
  then show ?thesis using c(2) stream unfolding sunk by blast
qed

text \<open>The positions of the checkpoints of a run are checkpoints of what it consumed at some time.\<close>

definition prefix_checkpoints :: "(base_parallelizer pipeline \<Rightarrow> 'c list) \<Rightarrow> ('c \<Rightarrow> position set) \<Rightarrow> bool" where
  "prefix_checkpoints checkpoints positions \<longleftrightarrow>
     (\<forall>s consumed. pipeline_ok consumed s \<longrightarrow> row_stream consumed \<longrightarrow>
       (\<forall>c\<in>set (checkpoints s). \<forall>p\<in>positions c. \<exists>pre. prefix pre consumed \<and> p = checkpoint_of pre))"

text \<open>
  Whatever the store, as long as it keeps the contract: after any number of runs the position it gives
  covers rows the sinkers were given, and the next run extracts the others.
\<close>

context position_store
begin

lemma task_runs_covered:
  assumes "serial_source e x sb sv lt tbl" "order_typed x tbl" "lib_prints e lib" "sx_sample_interval x = 1"
    and "be_data_marker b = None" "tf_started (be_time_filter b)" "be_buffer b = []"
    and "usable st0" "stored st0 = {}"
    and "list_all readable (PosNone # map (\<lambda>r. it_position (serial_item e x (be_router b) r)) tbl)"
    and "prefix_checkpoints checkpoints positions"
    and "task_runs e lib lossy x b recover keep proper checkpoints st0 st sinked"
  shows "usable st \<and> (\<forall>p\<in>stored st. covers (serial_item e x (be_router b)) tbl sinked p)"
  using assms(12)
proof induction
  case runs_start
  then show ?case using assms(8,9) by simp
next
  case (runs_next st sinked found b1 cfg sink inps s ended ics)
  let ?item = "serial_item e x (be_router b)" and ?sinked = "sinked @ concat (map call_data (pl_calls s))"
  from recovers[of st "sx_db x" "sx_tb x" False] runs_next.IH runs_next.hyps(2)
  have "\<forall>p. found = Some p \<longrightarrow> covers ?item tbl sinked p" by auto
  from covered_run[OF assms(1-7) this, of lossy] runs_next.hyps(3) obtain ys zs where
    ys: "tbl = ys @ zs" "be_buffer b1 = map ?item zs" "subseq (map it_dt_data (map ?item ys)) sinked" by auto
  from covered_checkpoints[OF assms(1) ys runs_next.hyps(4-6)] obtain consumed where
    c: "pipeline_ok consumed s" "row_stream consumed" "\<And>pre. prefix pre consumed \<Longrightarrow> covers ?item tbl ?sinked (checkpoint_of pre)"
    by blast
  have kept: "covers ?item tbl ?sinked p" if "ic \<in> set ics" "p \<in> positions (snd ic)" for ic p
  proof -
    have "snd ic \<in> set (checkpoints s)" using that(1) runs_next.hyps(7) by (metis image_eqI set_map)
    with assms(11) c(1,2) that(2) obtain pre where "prefix pre consumed" "p = checkpoint_of pre"
      unfolding prefix_checkpoints_def by blast
    with c(3) show ?thesis by simp
  qed
  have readable: "readable p" if "covers ?item tbl ?sinked p" for p
  proof -
    from that obtain us vs where us: "tbl = us @ vs" "p = checkpoint_of (map ?item us)" unfolding covers_def by blast
    have "row_stream (map ?item us)" by (rule serial_row_stream[OF assms(1)]) (simp add: us(1))
    from row_stream_checkpoint[OF this] assms(10) show ?thesis
      by (cases us rule: rev_cases) (simp_all add: us)
  qed
  have "\<forall>(i, c)\<in>set ics. proper i \<and> (\<forall>p\<in>positions c. readable p)"
    using kept readable runs_next.hyps(8) by (force simp: list_all_iff)
  note keep = keep_all[OF conjunct1[OF runs_next.IH] this]
  have "covers ?item tbl ?sinked p" if "p \<in> stored (fold (\<lambda>(i, c). keep i c) ics st)" for p
  proof -
    from keep that consider "p \<in> stored st" | ic where "ic \<in> set ics" "p \<in> positions (snd ic)" by fastforce
    then show ?thesis
    proof cases
      case 1
      with runs_next.IH covers_extends show ?thesis by blast
    next
      case 2
      then show ?thesis by (rule kept)
    qed
  qed
  with keep show ?case by blast
qed

lemma task_runs_complete:
  assumes "serial_source e x sb sv lt tbl" "order_typed x tbl" "lib_prints e lib" "sx_sample_interval x = 1"
    and "be_data_marker b = None" "tf_started (be_time_filter b)" "be_buffer b = []"
    and "usable st0" "stored st0 = {}"
    and "list_all readable (PosNone # map (\<lambda>r. it_position (serial_item e x (be_router b) r)) tbl)"
    and "prefix_checkpoints checkpoints positions"
    and "task_runs e lib lossy x b recover keep proper checkpoints st0 st sinked"
  shows "\<exists>found b' ys zs. recover st (sx_db x) (sx_tb x) False = Inr found \<and>
    serial_extract e lib lossy (Some (\<lambda>_ _ _. found)) x b = Some (Inr b') \<and> tbl = ys @ zs \<and>
    subseq (map it_dt_data (map (serial_item e x (be_router b)) ys)) sinked \<and>
    be_buffer b' = map (serial_item e x (be_router b)) zs"
proof -
  note inv = task_runs_covered[OF assms]
  from recovers[of st "sx_db x" "sx_tb x" False] inv obtain found where
    found: "recover st (sx_db x) (sx_tb x) False = Inr found" "\<forall>p. found = Some p \<longrightarrow> covers (serial_item e x (be_router b)) tbl sinked p"
    by blast
  from covered_run[OF assms(1-7) found(2), of lossy] found(1) show ?thesis by blast
qed

end

lemma recorded_prefix_checkpoints: "prefix_checkpoints pl_recorded (\<lambda>p. {p})"
  unfolding prefix_checkpoints_def pipeline_ok_def by blast

lemma logged_prefix_checkpoints: "prefix_checkpoints pl_logged (\<lambda>(received, commit). {received, commit})"
proof -
  have "\<exists>pre. prefix pre consumed \<and> p = checkpoint_of pre"
    if "row_stream consumed" "prefix pre consumed" "p \<in> {received_pos pre, commit_pos pre}" for consumed pre :: "dt_item list" and p
  proof -
    note row_stream_prefix[OF that(1,2)]
    then have "p = checkpoint_of pre \<or> p = checkpoint_of []" using that(3) by (auto simp: row_stream_rows row_stream_checkpoint checkpoint_of_def[of "[]"])
    with that(2) show ?thesis by (metis Nil_prefix)
  qed
  then show ?thesis unfolding prefix_checkpoints_def pipeline_ok_def by fastforce
qed

text \<open>
  C1: A snapshot task that is restarted loses nothing. The positions of its checkpoints are recorded in
  the table of positions, where some statements may fail. The task runs any number of times; each run is
  stopped at any point, with any sinkers and any clocks, and the next run recovers a position from the
  table and extracts the table from there. After any such history the recovery succeeds, the next
  extraction ends, and the rows of the table are those of an initial part, whose data the sinkers were
  given in order, followed by exactly the rows the next run extracts.
\<close>

theorem snapshot_crash_recovery:
  assumes "serial_source e x sb sv lt tbl" "order_typed x tbl" "lib_prints e lib" "sx_sample_interval x = 1"
    and "be_data_marker b = None" "tf_started (be_time_filter b)" "be_buffer b = []"
    and "distinct (map fst tab0)" "task_rows t tab0 = []"
    and "list_all (json_position to_str from_str) (PosNone # map (\<lambda>r. it_position (serial_item e x (be_router b) r)) tbl)"
    and "task_runs e lib lossy x b (db_recover from_str pool t) (db_keep to_str t) (\<lambda>_. True) pl_recorded tab0 tab sinked"
  shows "\<exists>found b' ys zs. db_recover from_str pool t tab (sx_db x) (sx_tb x) False = Inr found \<and>
    serial_extract e lib lossy (Some (\<lambda>_ _ _. found)) x b = Some (Inr b') \<and> tbl = ys @ zs \<and>
    subseq (map it_dt_data (map (serial_item e x (be_router b)) ys)) sinked \<and>
    be_buffer b' = map (serial_item e x (be_router b)) zs"
  by (rule db.task_runs_complete[OF assms(1-7) _ _ assms(10) recorded_prefix_checkpoints assms(11)])
    (use assms(8,9) in \<open>simp_all add: db_usable_def db_stored_def\<close>)

text \<open>
  C9: The same holds when the task recovers from its logs: the lines of the checkpoints are appended to
  the position log, the recovery reads the end of it, and no row is lost however long the log is.
\<close>

theorem snapshot_log_recovery:
  assumes "serial_source e x sb sv lt tbl" "order_typed x tbl" "lib_prints e lib" "sx_sample_interval x = 1"
    and "be_data_marker b = None" "tf_started (be_time_filter b)" "be_buffer b = []" "dir \<noteq> []"
    and "list_all (log_readable to_str from_str) (PosNone # map (\<lambda>r. it_position (serial_item e x (be_router b) r)) tbl)"
    and "task_runs e lib lossy x b (log_recover to_str from_str dir) log_keep time_stamp pl_logged [] lines sinked"
  shows "\<exists>found b' ys zs. log_recover to_str from_str dir lines (sx_db x) (sx_tb x) False = Inr found \<and>
    serial_extract e lib lossy (Some (\<lambda>_ _ _. found)) x b = Some (Inr b') \<and> tbl = ys @ zs \<and>
    subseq (map it_dt_data (map (serial_item e x (be_router b)) ys)) sinked \<and>
    be_buffer b' = map (serial_item e x (be_router b)) zs"
  by (rule logs.task_runs_complete[OF assms(1-7) _ _ assms(9) logged_prefix_checkpoints assms(10)])
    (use assms(8) in \<open>simp_all add: log_usable_def log_stored_def\<close>)

text \<open>
  A table of five rows in batches of two; the pipeline received the first three rows and was stopped.
\<close>

lemma sample_task:
  "\<exists>sb sv. serial_source (printing_ext sample_ext) (batch_extractor 2 [1, 3, 4, 7, 8]) sb sv key_lt (map id_row [1, 3, 4, 7, 8])"
  "order_typed (batch_extractor 2 [1, 3, 4, 7, 8]) (map id_row [1, 3, 4, 7, 8])"
proof -
  have "ascending [1, 3, 4, 7, 8]" by (simp add: ascending_def)
  from batch_extractor_source[OF this] show "\<exists>sb sv. serial_source (printing_ext sample_ext) (batch_extractor 2 [1, 3, 4, 7, 8]) sb sv key_lt (map id_row [1, 3, 4, 7, 8])"
    by simp
  show "order_typed (batch_extractor 2 [1, 3, 4, 7, 8]) (map id_row [1, 3, 4, 7, 8])"
    by (simp add: order_typed_def sample_order_cols[simplified]) (simp add: id_row_def sample_meta_def)
qed

lemma sample_run:
  "\<exists>b1 s. serial_extract (printing_ext sample_ext) sample_lib (\<lambda>_. []) (Some (\<lambda>_ _ _. None)) (batch_extractor 2 [1, 3, 4, 7, 8]) sample_base = Some (Inr b1) \<and>
    pipeline_start sample_config (\<lambda>b q. Inr (base_drain b q)) has_pending_data sample_sink
      ([sample_input (take 3 (be_buffer b1)) False] @ sample_input [] True # replicate 3 (sample_input [] False)) (pipeline_new base_new) = Inr (s, True) \<and>
    prefix (concat (map ri_new ([sample_input (take 3 (be_buffer b1)) False] @ sample_input [] True # replicate 3 (sample_input [] False)))) (be_buffer b1) \<and>
    concat (map call_data (pl_calls s)) =
      map it_dt_data (map (serial_item (printing_ext sample_ext) (batch_extractor 2 [1, 3, 4, 7, 8]) sample_router) (map id_row [1, 3, 4]))"
proof -
  let ?x = "batch_extractor 2 [1, 3, 4, 7, 8]" and ?e = "printing_ext sample_ext" and ?tbl = "map id_row [1, 3, 4, 7, 8]"
  let ?item = "serial_item ?e ?x sample_router"
  from sample_task(1) obtain sb sv where src: "serial_source ?e ?x sb sv key_lt ([] @ ?tbl)" by auto
  have base: "be_data_marker sample_base = None" "tf_started (be_time_filter sample_base)" "be_buffer sample_base = []" by simp_all
  from serial_extract_found[OF src _ sample_lib_prints _ base(1,2), of None sample_router "\<lambda>_. []"] sample_task(2) obtain b1 where
    b1: "serial_extract ?e sample_lib (\<lambda>_. []) (Some (\<lambda>_ _ _. None)) ?x sample_base = Some (Inr b1)" "be_buffer b1 = map ?item ?tbl"
    by auto
  let ?running = "[sample_input (take 3 (be_buffer b1)) False]" and ?draining = "sample_input [] True # replicate 3 (sample_input [] False)"
  have arrived: "concat (map ri_new ?running) = take 3 (be_buffer b1)" "concat (map ri_new (?running @ ?draining)) = take 3 (be_buffer b1)"
    by (simp_all add: sample_input_def)
  have three: "take 3 (be_buffer b1) = map ?item (map id_row [1, 3, 4])" unfolding b1(2) by simp
  have stream: "row_stream (map ?item (map id_row [1, 3, 4]))" by (rule serial_row_stream[OF src]) auto
  have h: "\<forall>inp\<in>set ?running. \<not> ri_cancel inp" "\<forall>inp\<in>set ?draining. ri_new inp = []" "?draining \<noteq> []"
    "ri_cancel (hd ?draining)" "length (take 3 (be_buffer b1)) < length ?draining"
    "pc_lua sample_config = None" "\<forall>c. \<exists>sz. sample_sink c = Inr sz"
    by (simp_all add: sample_input_def sample_config_def sample_sink_def)
  have kind: "one_kind (take 3 (be_buffer b1))" unfolding three by (rule row_stream_rows(1)[OF stream])
  from drained_run[OF h(1-4), unfolded arrived, OF h(5) kind h(6,7)] obtain s where
    s: "pipeline_start sample_config (\<lambda>b q. Inr (base_drain b q)) has_pending_data sample_sink (?running @ ?draining)
      (pipeline_new base_new) = Inr (s, True)" "concat (map call_data (pl_calls s)) = data_of (take 3 (be_buffer b1))" by blast
  have "prefix (concat (map ri_new (?running @ ?draining))) (be_buffer b1)" unfolding arrived by (rule take_is_prefix)
  moreover have "concat (map call_data (pl_calls s)) = map it_dt_data (map ?item (map id_row [1, 3, 4]))"
    using s(2) unfolding three row_stream_rows(2)[OF stream] .
  ultimately show ?thesis using b1(1) s(1) by blast
qed

lemma sample_base_idle:
  "sx_sample_interval (batch_extractor 2 [1, 3, 4, 7, 8]) = 1" "be_data_marker sample_base = None"
  "tf_started (be_time_filter sample_base)" "be_buffer sample_base = []" "be_router sample_base = sample_router"
  "sx_db (batch_extractor 2 [1, 3, 4, 7, 8]) = ''s''" "sx_tb (batch_extractor 2 [1, 3, 4, 7, 8]) = ''t''"
  by simp_all

lemma sample_runs:
  assumes "recover st0 ''s'' ''t'' False = Inr None" "proper i"
  shows "\<exists>st sinked. task_runs (printing_ext sample_ext) sample_lib (\<lambda>_. []) (batch_extractor 2 [1, 3, 4, 7, 8]) sample_base
    recover keep proper checkpoints st0 st sinked \<and> length sinked = 3"
proof -
  let ?x = "batch_extractor 2 [1, 3, 4, 7, 8]" and ?e = "printing_ext sample_ext"
  let ?runs = "task_runs ?e sample_lib (\<lambda>_. []) ?x sample_base recover keep proper checkpoints st0"
  from sample_run obtain b1 s where
    run: "serial_extract ?e sample_lib (\<lambda>_. []) (Some (\<lambda>_ _ _. None)) ?x sample_base = Some (Inr b1)"
    "pipeline_start sample_config (\<lambda>b q. Inr (base_drain b q)) has_pending_data sample_sink
      ([sample_input (take 3 (be_buffer b1)) False] @ sample_input [] True # replicate 3 (sample_input [] False)) (pipeline_new base_new) = Inr (s, True)"
    "prefix (concat (map ri_new ([sample_input (take 3 (be_buffer b1)) False] @ sample_input [] True # replicate 3 (sample_input [] False)))) (be_buffer b1)"
    "concat (map call_data (pl_calls s)) = map it_dt_data (map (serial_item ?e ?x sample_router) (map id_row [1, 3, 4]))" by blast
  have 0: "?runs st0 []" by (rule runs_start)
  have start: "recover st0 (sx_db ?x) (sx_tb ?x) False = Inr None" using assms(1) by simp
  have lua: "pc_lua sample_config = None" by (simp add: sample_config_def)
  have kept: "map snd (map (Pair i) (checkpoints s)) = checkpoints s" "list_all proper (map fst (map (Pair i) (checkpoints s)))"
    using assms(2) by (simp_all add: list_all_iff comp_def)
  have "?runs (fold (\<lambda>(i, c). keep i c) (map (Pair i) (checkpoints s)) st0) ([] @ concat (map call_data (pl_calls s)))"
    by (rule runs_next[OF 0 start run(1,2) lua run(3) kept])
  moreover have "length ([] @ concat (map call_data (pl_calls s))) = 3" unfolding run(4) append_Nil length_map by simp
  ultimately show ?thesis by blast
qed

definition sample_row_positions :: "position list" where
  "sample_row_positions = PosNone # map (\<lambda>r. it_position (serial_item (printing_ext sample_ext) (batch_extractor 2 [1, 3, 4, 7, 8]) sample_router r))
     (map id_row [1, 3, 4, 7, 8])"

lemma serial_position_open: "finished_of (it_position (serial_item e x router r)) = None"
proof -
  have "finished_of (build_position e m Mysql r) = None" for m
    by (simp add: build_position_def finished_of_def split: option.split list.split)
  then show ?thesis by (simp add: serial_item_def)
qed

lemma sample_rows_readable:
  "list_all (json_position (sample_to_str sample_row_positions) (sample_from_str sample_row_positions)) sample_row_positions"
  "list_all (log_readable (sample_to_str sample_row_positions) (sample_from_str sample_row_positions)) sample_row_positions"
proof -
  show "list_all (json_position (sample_to_str sample_row_positions) (sample_from_str sample_row_positions)) sample_row_positions"
    unfolding list_all_iff using sample_json by blast
  have "finished_of p = None" if "p \<in> set sample_row_positions" for p
  proof -
    from that consider "p = PosNone" | r where "p = it_position (serial_item (printing_ext sample_ext) (batch_extractor 2 [1, 3, 4, 7, 8]) sample_router r)"
      unfolding sample_row_positions_def by auto
    then show ?thesis by cases (simp add: finished_of_def, simp only: serial_position_open)
  qed
  then show "list_all (log_readable (sample_to_str sample_row_positions) (sample_from_str sample_row_positions)) sample_row_positions"
    unfolding list_all_iff log_readable_def using sample_plain by blast
qed

theorem snapshot_crash_recovery_witness:
  "\<exists>tab sinked found b' ys zs.
    task_runs (printing_ext sample_ext) sample_lib (\<lambda>_. []) (batch_extractor 2 [1, 3, 4, 7, 8]) sample_base
      (db_recover (sample_from_str sample_row_positions) PoolMySql ''task'') (db_keep (sample_to_str sample_row_positions) ''task'')
      (\<lambda>_. True) pl_recorded [] tab sinked \<and> length sinked = 3 \<and>
    db_recover (sample_from_str sample_row_positions) PoolMySql ''task'' tab ''s'' ''t'' False = Inr found \<and>
    serial_extract (printing_ext sample_ext) sample_lib (\<lambda>_. []) (Some (\<lambda>_ _ _. found)) (batch_extractor 2 [1, 3, 4, 7, 8]) sample_base = Some (Inr b') \<and>
    map id_row [1, 3, 4, 7, 8] = ys @ zs \<and>
    subseq (map it_dt_data (map (serial_item (printing_ext sample_ext) (batch_extractor 2 [1, 3, 4, 7, 8]) sample_router) ys)) sinked \<and>
    be_buffer b' = map (serial_item (printing_ext sample_ext) (batch_extractor 2 [1, 3, 4, 7, 8]) sample_router) zs"
proof -
  let ?x = "batch_extractor 2 [1, 3, 4, 7, 8]" and ?e = "printing_ext sample_ext"
  let ?recover = "db_recover (sample_from_str sample_row_positions) PoolMySql ''task''"
  let ?keep = "db_keep (sample_to_str sample_row_positions) ''task''"
  have "?recover [] ''s'' ''t'' False = Inr None"
    by (simp add: db_recover_def task_rows_def database_recovery_init_def db_get_snapshot_resume_position_def)
  from sample_runs[of ?recover, OF this, of "\<lambda>_. True" True ?keep pl_recorded] obtain tab sinked where
    runs: "task_runs ?e sample_lib (\<lambda>_. []) ?x sample_base ?recover ?keep (\<lambda>_. True) pl_recorded [] tab sinked" "length sinked = 3" by auto
  from sample_task(1) obtain sb sv where src: "serial_source ?e ?x sb sv key_lt (map id_row [1, 3, 4, 7, 8])" by auto
  have "list_all (json_position (sample_to_str sample_row_positions) (sample_from_str sample_row_positions))
      (PosNone # map (\<lambda>r. it_position (serial_item ?e ?x (be_router sample_base) r)) (map id_row [1, 3, 4, 7, 8]))"
    using sample_rows_readable(1) unfolding sample_row_positions_def by simp
  note found = snapshot_crash_recovery[OF src sample_task(2) sample_lib_prints sample_base_idle(1-4) _ _ this runs(1)]
  have "distinct (map fst ([] :: position_table))" "task_rows ''task'' [] = []" by (simp_all add: task_rows_def)
  from found[OF this] runs show ?thesis unfolding sample_base_idle(5-7) by blast
qed

theorem snapshot_log_recovery_witness:
  "\<exists>lines sinked found b' ys zs.
    task_runs (printing_ext sample_ext) sample_lib (\<lambda>_. []) (batch_extractor 2 [1, 3, 4, 7, 8]) sample_base
      (log_recover (sample_to_str sample_row_positions) (sample_from_str sample_row_positions) ''logs'') log_keep
      time_stamp pl_logged [] lines sinked \<and> length sinked = 3 \<and>
    log_recover (sample_to_str sample_row_positions) (sample_from_str sample_row_positions) ''logs'' lines ''s'' ''t'' False = Inr found \<and>
    serial_extract (printing_ext sample_ext) sample_lib (\<lambda>_. []) (Some (\<lambda>_ _ _. found)) (batch_extractor 2 [1, 3, 4, 7, 8]) sample_base = Some (Inr b') \<and>
    map id_row [1, 3, 4, 7, 8] = ys @ zs \<and>
    subseq (map it_dt_data (map (serial_item (printing_ext sample_ext) (batch_extractor 2 [1, 3, 4, 7, 8]) sample_router) ys)) sinked \<and>
    be_buffer b' = map (serial_item (printing_ext sample_ext) (batch_extractor 2 [1, 3, 4, 7, 8]) sample_router) zs"
proof -
  let ?x = "batch_extractor 2 [1, 3, 4, 7, 8]" and ?e = "printing_ext sample_ext"
  let ?recover = "log_recover (sample_to_str sample_row_positions) (sample_from_str sample_row_positions) ''logs''"
  have "log_usable (sample_to_str sample_row_positions) (sample_from_str sample_row_positions) ''logs'' []" by (simp add: log_usable_def)
  from logs.recovers[OF this, of "''s''" "''t''" False] have start: "?recover [] ''s'' ''t'' False = Inr None"
    by (auto simp: log_stored_def)
  have "time_stamp ''1''" by (simp add: time_stamp_def solid_def)
  from sample_runs[of ?recover "[]" time_stamp "''1''" log_keep pl_logged, OF start this] obtain lines sinked where
    runs: "task_runs ?e sample_lib (\<lambda>_. []) ?x sample_base ?recover log_keep time_stamp pl_logged [] lines sinked" "length sinked = 3" by auto
  from sample_task(1) obtain sb sv where src: "serial_source ?e ?x sb sv key_lt (map id_row [1, 3, 4, 7, 8])" by auto
  have "list_all (log_readable (sample_to_str sample_row_positions) (sample_from_str sample_row_positions))
      (PosNone # map (\<lambda>r. it_position (serial_item ?e ?x (be_router sample_base) r)) (map id_row [1, 3, 4, 7, 8]))"
    using sample_rows_readable(2) unfolding sample_row_positions_def by simp
  note found = snapshot_log_recovery[OF src sample_task(2) sample_lib_prints sample_base_idle(1-4) _ this runs(1)]
  have "''logs'' \<noteq> []" by simp
  from found[OF this] runs show ?thesis unfolding sample_base_idle(5-7) by blast
qed

end
